(* ===== verification/Hdf_Base.thy ===== *)
theory Hdf_Base
  imports Main "HOL-Library.Word" "HOL-Library.Monad_Syntax"
begin

text \<open>
  Prelude shared by all components: machine integers, C strings, the status codes of
  include/utils/hdf_base.h, undefined behaviour as \<^verbatim>\<open>None\<close>, the byte order used when
  an integer is copied through a byte pointer, and the lemmas about lists, options and
  words that several components use.
\<close>

unbundle bit_operations_syntax

section \<open>Machine integers and strings\<close>

type_synonym u8 = "8 word"
type_synonym u16 = "16 word"
type_synonym u32 = "32 word"
type_synonym u64 = "64 word"

text \<open>
  A C string is the list of its characters before the terminating NUL. Plain
  \<^verbatim>\<open>char\<close> is unsigned, as on the ARM targets of the framework (for ASCII the choice
  does not matter).
\<close>

type_synonym cstr = string

definition byte_of_char :: "char \<Rightarrow> u8" where
  "byte_of_char c = word_of_nat (of_char c)"

definition char_of_byte :: "u8 \<Rightarrow> char" where
  "char_of_byte b = char_of (unat b)"

definition bytes_of :: "cstr \<Rightarrow> u8 list" where
  "bytes_of s = map byte_of_char s"

definition chars_of :: "u8 list \<Rightarrow> cstr" where
  "chars_of bs = map char_of_byte bs"

text \<open>A C string holds no NUL character.\<close>

definition wf_cstr :: "cstr \<Rightarrow> bool" where
  "wf_cstr s \<longleftrightarrow> CHR 0x00 \<notin> set s"

text \<open>The string that starts at the head of a byte list: everything before the first NUL.\<close>

definition cstr_at :: "u8 list \<Rightarrow> cstr" where
  "cstr_at bs = chars_of (takeWhile (\<lambda>b. b \<noteq> 0) bs)"

lemma char_of_byte_of_char [simp]: "char_of_byte (byte_of_char c) = c"
  by (simp add: char_of_byte_def byte_of_char_def unat_of_nat)

lemma byte_of_char_of_byte [simp]: "byte_of_char (char_of_byte b) = b"
proof -
  have "unat b < 2 ^ LENGTH(8)"
    by (rule unsigned_less)
  then show ?thesis
    by (simp add: char_of_byte_def byte_of_char_def)
qed

lemma chars_of_bytes_of [simp]: "chars_of (bytes_of s) = s"
  by (induction s) (simp_all add: chars_of_def bytes_of_def)

lemma bytes_of_chars_of [simp]: "bytes_of (chars_of bs) = bs"
  by (induction bs) (simp_all add: chars_of_def bytes_of_def)

lemma length_bytes_of [simp]: "length (bytes_of s) = length s"
  by (simp add: bytes_of_def)

lemma length_chars_of [simp]: "length (chars_of bs) = length bs"
  by (simp add: chars_of_def)

lemma byte_of_char_0_iff: "byte_of_char c = 0 \<longleftrightarrow> c = CHR 0x00"
proof
  assume "byte_of_char c = 0"
  then have "char_of_byte (byte_of_char c) = char_of_byte 0" by (simp only:)
  then have "c = char_of_byte 0" by (simp only: char_of_byte_of_char)
  then show "c = CHR 0x00" by (simp add: char_of_byte_def char_of_def)
qed (simp add: byte_of_char_def)

lemma takeWhile_bytes_of:
  "wf_cstr s \<Longrightarrow> takeWhile (\<lambda>b. b \<noteq> 0) (bytes_of s @ 0 # rest) = bytes_of s"
  by (induction s) (auto simp: bytes_of_def wf_cstr_def byte_of_char_0_iff)

lemma cstr_at_bytes_of: "wf_cstr s \<Longrightarrow> cstr_at (bytes_of s @ 0 # rest) = s"
  by (simp add: cstr_at_def takeWhile_bytes_of)

section \<open>Status codes\<close>

text \<open>The values of the enumeration \<^verbatim>\<open>HDF_STATUS\<close> that the modelled code returns.\<close>

abbreviation HDF_SUCCESS :: int where "HDF_SUCCESS \<equiv> 0"
abbreviation HDF_FAILURE :: int where "HDF_FAILURE \<equiv> - 1"
abbreviation HDF_ERR_NOT_SUPPORT :: int where "HDF_ERR_NOT_SUPPORT \<equiv> - 2"
abbreviation HDF_ERR_INVALID_PARAM :: int where "HDF_ERR_INVALID_PARAM \<equiv> - 3"
abbreviation HDF_ERR_INVALID_OBJECT :: int where "HDF_ERR_INVALID_OBJECT \<equiv> - 4"
abbreviation HDF_ERR_MALLOC_FAIL :: int where "HDF_ERR_MALLOC_FAIL \<equiv> - 6"
abbreviation HDF_ERR_TIMEOUT :: int where "HDF_ERR_TIMEOUT \<equiv> - 7"
abbreviation HDF_ERR_DEVICE_BUSY :: int where "HDF_ERR_DEVICE_BUSY \<equiv> - 16"
abbreviation HDF_DEV_ERR_NO_MEMORY :: int where "HDF_DEV_ERR_NO_MEMORY \<equiv> - 201"
abbreviation HDF_DEV_ERR_NO_DEVICE :: int where "HDF_DEV_ERR_NO_DEVICE \<equiv> - 202"
abbreviation HDF_DEV_ERR_NO_DEVICE_SERVICE :: int where "HDF_DEV_ERR_NO_DEVICE_SERVICE \<equiv> - 203"
abbreviation HDF_DEV_ERR_DEV_INIT_FAIL :: int where "HDF_DEV_ERR_DEV_INIT_FAIL \<equiv> - 204"
abbreviation HDF_DEV_ERR_PUBLISH_FAIL :: int where "HDF_DEV_ERR_PUBLISH_FAIL \<equiv> - 205"
abbreviation HDF_DEV_ERR_ATTACHDEV_FAIL :: int where "HDF_DEV_ERR_ATTACHDEV_FAIL \<equiv> - 206"
abbreviation HDF_DEV_ERR_NODATA :: int where "HDF_DEV_ERR_NODATA \<equiv> - 207"
abbreviation HDF_DEV_ERR_NORANGE :: int where "HDF_DEV_ERR_NORANGE \<equiv> - 208"

section \<open>Undefined behaviour\<close>

text \<open>
  A computation that may dereference NULL or leave the bounds of an object has the type
  \<^typ>\<open>'a option\<close>: \<^verbatim>\<open>None\<close> is undefined behaviour, \<^verbatim>\<open>Some\<close> a normal return.
\<close>

abbreviation (input) UB :: "'a option" where "UB \<equiv> None"

section \<open>Hash of a string\<close>

text \<open>
  The BKDR hash, written twice in the code: \<^verbatim>\<open>MapHash\<close> of utils/src/hdf_map.c and
  \<^verbatim>\<open>HdfStringMakeHashKey\<close> of utils/src/hdf_cstring.c run the same loop.
\<close>

fun bkdr_loop :: "u32 \<Rightarrow> cstr \<Rightarrow> u32" where
  "bkdr_loop h [] = h"
| "bkdr_loop h (c # cs) = bkdr_loop (h * 131 + ucast (byte_of_char c)) cs"

lemma bkdr_loop_append: "bkdr_loop h (s @ t) = bkdr_loop (bkdr_loop h s) t"
  by (induction s arbitrary: h) auto

section \<open>Fact collections\<close>

named_theorems hdf_defs \<open>definitions unfolded to execute an operation\<close>
named_theorems hdf_inv \<open>preservation of a component's invariant\<close>

section \<open>Lists\<close>

lemma nth_list_update_If:
  "i < length xs \<Longrightarrow> xs[i := v] ! j = (if i = j then v else xs ! j)"
  by auto

lemma take_eq_append_take: "n \<le> length xs \<Longrightarrow> take n (xs @ ys) = take n xs"
  by simp

text \<open>Overwriting a block of a list, as a memory copy does.\<close>

definition overwrite :: "'a list \<Rightarrow> nat \<Rightarrow> 'a list \<Rightarrow> 'a list" where
  "overwrite xs pos ys = take pos xs @ ys @ drop (pos + length ys) xs"

lemma length_overwrite [simp]:
  "pos + length ys \<le> length xs \<Longrightarrow> length (overwrite xs pos ys) = length xs"
  by (simp add: overwrite_def)

lemma take_overwrite_before [simp]:
  "n \<le> pos \<Longrightarrow> pos \<le> length xs \<Longrightarrow> take n (overwrite xs pos ys) = take n xs"
  by (simp add: overwrite_def min_def)

lemma slice_overwrite:
  "pos + length ys \<le> length xs \<Longrightarrow> take (length ys) (drop pos (overwrite xs pos ys)) = ys"
  by (simp add: overwrite_def)

section \<open>Widening\<close>

lemma unat_ucast_up_simp:
  fixes x :: "'a::len word"
  assumes "LENGTH('a) \<le> LENGTH('b::len)"
  shows "unat (ucast x :: 'b word) = unat x"
proof -
  have "unat x < 2 ^ LENGTH('a)" by (rule unsigned_less)
  also have "\<dots> \<le> 2 ^ LENGTH('b)" using assms by (intro power_increasing) auto
  finally show ?thesis by (simp add: unsigned_ucast_eq take_bit_eq_mod)
qed

lemma unat_of_nat_u32: "n < 2 ^ 32 \<Longrightarrow> unat (word_of_nat n :: u32) = n"
  by (simp add: unat_of_nat take_bit_eq_mod)

lemma ucast_of_nat_u64: "ucast (word_of_nat n :: u64) = (word_of_nat n :: u32)"
  by (rule bit_word_eqI) (simp add: bit_simps)

lemma word_eq_addI:
  fixes a :: "'a::len word"
  assumes "unat a = unat b + unat c"
  shows "a = b + c"
proof -
  have "a = word_of_nat (unat a)" by simp
  also have "\<dots> = word_of_nat (unat b) + word_of_nat (unat c)"
    by (simp only: assms of_nat_add)
  finally show ?thesis by simp
qed

text \<open>Sign extension of a 32-bit integer to 64 bits.\<close>

lemma scast_int32:
  assumes "unat (n :: u32) < 2 ^ 31"
  shows "scast n = (ucast n :: u64)" "sint n = int (unat n)"
proof -
  have un: "uint n = int (unat n)" by (rule uint_nat)
  moreover have "unat n < 2147483648" using assms by simp
  ultimately have u: "0 \<le> uint n" "uint n < 2147483648"
    by linarith+
  have "sint n = signed_take_bit 31 (uint n)"
    by (simp add: sint_uint)
  also have "\<dots> = uint n"
    using u(2) order_trans [OF _ u(1), of "- (2 ^ 31)"]
    by (intro signed_take_bit_int_eq_self) simp_all
  finally show s: "sint n = int (unat n)" by (simp only: un)
  show "scast n = (ucast n :: u64)"
    by (simp only: scast_eq ucast_eq s un)
qed

lemma scast_neg:
  assumes "2 ^ 31 \<le> unat (n :: u32)"
  shows "unat (scast n :: u64) = unat n + 18446744069414584320"
proof -
  have un: "uint n = int (unat n)" by (rule uint_nat)
  have "unat n < 2 ^ LENGTH(32)" by (rule unsigned_less)
  then have "unat n < 4294967296" by simp
  moreover have "2147483648 \<le> unat n" using assms by simp
  ultimately have u: "2147483648 \<le> uint n" "uint n < 4294967296" 
    unfolding un by linarith+
  have "sint n = signed_take_bit 31 (uint n)"
    by (simp add: sint_uint)
  also have "\<dots> = (uint n + 2147483648) mod 4294967296 - 2147483648"
    by (simp add: signed_take_bit_eq_take_bit_shift take_bit_eq_mod)
  also have "(uint n + 2147483648) mod 4294967296 = uint n + 2147483648 - 4294967296"
    using mod_pos_pos_trivial [of "uint n + 2147483648 - 4294967296" 4294967296] u
    by (simp only: minus_mod_self2)
  finally have s: "sint n = uint n - 4294967296" by simp
  have "uint (scast n :: u64) = (uint n - 4294967296) mod 18446744073709551616"
    by (simp only: scast_eq uint_word_of_int s) simp
  also have "\<dots> = (uint n - 4294967296 + 18446744073709551616) mod 18446744073709551616"
    by (simp only: mod_add_self2)
  also have "\<dots> = uint n - 4294967296 + 18446744073709551616"
    using u by (intro mod_pos_pos_trivial) linarith+
  finally have "int (unat (scast n :: u64)) = int (unat n) + 18446744069414584320"
    by (simp only: uint_nat)
  then show ?thesis by linarith
qed

section \<open>Byte order\<close>

text \<open>
  An integer copied through a byte pointer is laid out least significant byte first.
\<close>

fun le_bytes :: "nat \<Rightarrow> 'a::len word \<Rightarrow> u8 list" where
  "le_bytes 0 w = []"
| "le_bytes (Suc n) w = ucast w # le_bytes n (drop_bit 8 w)"

fun le_word :: "u8 list \<Rightarrow> 'a::len word" where
  "le_word [] = 0"
| "le_word (b # bs) = ucast b OR push_bit 8 (le_word bs)"

lemma length_le_bytes [simp]: "length (le_bytes n w) = n"
  by (induction n arbitrary: w) simp_all

lemma le_word_le_bytes: "le_word (le_bytes n w) = take_bit (8 * n) w"
proof (induction n arbitrary: w)
  case 0
  then show ?case by simp
next
  case (Suc n)
  have "ucast (ucast w :: u8) OR push_bit 8 (take_bit (8 * n) (drop_bit 8 w)) = take_bit (8 * Suc n) w"
    by (rule bit_word_eqI) (auto simp: bit_simps)
  then show ?case by (simp add: Suc.IH)
qed

lemma le_word_le_bytes_id:
  fixes w :: "'a::len word"
  shows "LENGTH('a) \<le> 8 * n \<Longrightarrow> le_word (le_bytes n w) = w"
  by (simp add: le_word_le_bytes take_bit_word_eq_self)

section \<open>Rounding up to a multiple of four\<close>

lemma unat_and_not_mask:
  fixes x :: "'a::len word"
  shows "unat (x AND NOT (mask n)) = unat x - unat x mod 2 ^ n"
proof -
  have "unat x = unat ((x AND NOT (mask n)) OR take_bit n x)"
    by (rule arg_cong [of _ _ unat], rule bit_word_eqI) (auto simp: bit_simps)
  also have "\<dots> = unat (x AND NOT (mask n)) + take_bit n (unat x)"
    unfolding unsigned_or_eq unsigned_take_bit_eq
    by (subst disjunctive_add) (auto simp: bit_simps)
  finally show ?thesis by (simp add: take_bit_eq_mod)
qed

definition al4 :: "nat \<Rightarrow> nat" where
  "al4 n = (n + 3) div 4 * 4"

lemma al4_bounds: "n \<le> al4 n" "al4 n \<le> n + 3" "al4 n = 0 \<longleftrightarrow> n = 0"
  by (auto simp: al4_def)

lemma al4_add_al4: "al4 (al4 m + n) = al4 m + al4 n"
  unfolding al4_def by presburger

lemma unat_align4:
  fixes s :: "'a::len word"
  assumes "unat s + 3 < 2 ^ LENGTH('a)" "2 < LENGTH('a)"
  shows "unat ((s + 3) AND NOT 3) = al4 (unat s)"
proof -
  have "unat (3 :: 'a word) = 3"
  proof -
    have "(3::nat) < 2 ^ LENGTH('a)" using assms(1) by linarith
    then show ?thesis by (metis of_nat_numeral unat_of_nat mod_less)
  qed
  then have s3: "unat (s + 3) = unat s + 3"
    using assms(1) by (simp add: unat_word_ariths(1))
  have "mask 2 = (3 :: 'a word)"
    by (simp add: mask_eq_exp_minus_1)
  then have "unat ((s + 3) AND NOT 3) = (unat s + 3) - (unat s + 3) mod 2 ^ 2"
    using unat_and_not_mask [of "s + 3" 2] s3 by simp
  then show ?thesis
    by (simp add: al4_def minus_mod_eq_div_mult)
qed

end
