(* ===== verification/Kv_Store.thy ===== *)
theory Kv_Store
  imports Hdf_Base
begin

text \<open>
  The interface of a string-keyed store: the calls a client makes, the finite map they
  stand for, and the laws between the two. \<^verbatim>\<open>Hdf_Map\<close> provides it. A value keeps
  the size it was first stored with, keys and values are limited to 1000 bytes.
\<close>

datatype kv_op = KvPut cstr "u8 list" | KvErase cstr

type_synonym kv_view = "cstr \<rightharpoonup> u8 list"

text \<open>The abstract effect of one call, and whether it succeeds.\<close>

fun kv_spec_step :: "kv_view \<Rightarrow> kv_op \<Rightarrow> kv_view \<times> bool" where
  "kv_spec_step f (KvPut k v) =
     (if length v = 0 \<or> length v > 1000 \<or> length k > 1000 then (f, False)
      else case f k of
             None \<Rightarrow> (f(k \<mapsto> v), True)
           | Some old \<Rightarrow> if length v = length old then (f(k \<mapsto> v), True) else (f, False))"
| "kv_spec_step f (KvErase k) =
     (case f k of None \<Rightarrow> (f, False) | Some _ \<Rightarrow> (f(k := None), True))"

fun kv_spec_run :: "kv_view \<Rightarrow> kv_op list \<Rightarrow> kv_view \<times> bool list" where
  "kv_spec_run f [] = (f, [])"
| "kv_spec_run f (x # xs) =
     (let (f', b) = kv_spec_step f x; (f'', bs) = kv_spec_run f' xs in (f'', b # bs))"

text \<open>Running calls on a store: \<^verbatim>\<open>step\<close> is the store's reaction to one call.\<close>

fun kv_run :: "('m \<Rightarrow> kv_op \<Rightarrow> ('m \<times> int) option) \<Rightarrow> 'm \<Rightarrow> kv_op list \<Rightarrow> ('m \<times> int list) option" where
  "kv_run step m [] = Some (m, [])"
| "kv_run step m (x # xs) =
     do { (m', r) \<leftarrow> step m x; (m'', rs) \<leftarrow> kv_run step m' xs; Some (m'', r # rs) }"

lemma card_dom_kv_spec_step:
  assumes "finite (dom f)"
  shows "finite (dom (fst (kv_spec_step f x)))" "card (dom (fst (kv_spec_step f x))) \<le> Suc (card (dom f))"
  using assms
  by (cases x; auto split: option.splits simp: card_insert_if insert_absorb le_SucI card_Diff1_le)+

locale kv_store =
  fixes inv :: "'m \<Rightarrow> bool"
    and view :: "'m \<Rightarrow> kv_view"
    and step :: "'m \<Rightarrow> kv_op \<Rightarrow> ('m \<times> int) option"
    and get :: "'m \<Rightarrow> cstr \<Rightarrow> u8 list option option"
    and capacity :: nat
  assumes get_view: "inv m \<Longrightarrow> get m k = Some (view m k)"
    and finite_view: "inv m \<Longrightarrow> finite (dom (view m))"
    and step_view: "inv m \<Longrightarrow> card (dom (view m)) < capacity \<Longrightarrow>
      \<exists>m' r. step m x = Some (m', r) \<and> inv m' \<and>
        kv_spec_step (view m) x = (view m', r = HDF_SUCCESS)"
begin

text \<open>Any run that fits the capacity follows the abstract map, statuses included.\<close>

lemma run_view:
  assumes "inv m" "card (dom (view m)) + length xs \<le> capacity"
  shows "\<exists>m' rs. kv_run step m xs = Some (m', rs) \<and> inv m' \<and>
    kv_spec_run (view m) xs = (view m', map (\<lambda>r. r = HDF_SUCCESS) rs)"
  using assms
proof (induction xs arbitrary: m)
  case Nil
  then show ?case by simp
next
  case (Cons x xs)
  from Cons.prems have "card (dom (view m)) < capacity" by simp
  from step_view [OF Cons.prems(1) this, of x] obtain m1 r1 where m1:
    "step m x = Some (m1, r1)" "inv m1" "kv_spec_step (view m) x = (view m1, r1 = HDF_SUCCESS)"
    by blast
  have "card (dom (view m1)) \<le> Suc (card (dom (view m)))"
    using card_dom_kv_spec_step(2) [OF finite_view [OF Cons.prems(1)], of x] m1(3) by simp
  then have "card (dom (view m1)) + length xs \<le> capacity"
    using Cons.prems(2) by simp
  from Cons.IH [OF m1(2) this] obtain m2 rs where
    "kv_run step m1 xs = Some (m2, rs)" "inv m2"
    "kv_spec_run (view m1) xs = (view m2, map (\<lambda>r. r = HDF_SUCCESS) rs)"
    by blast
  then show ?case using m1 by simp
qed

text \<open>What a client reads back after a run is what the abstract map holds.\<close>

lemma run_get:
  assumes "inv m" "card (dom (view m)) + length xs \<le> capacity" "kv_run step m xs = Some (m', rs)"
  shows "get m' k = Some (fst (kv_spec_run (view m) xs) k)"
  using run_view [OF assms(1,2)] assms(3) get_view by fastforce

end

end
