(* ===== verification/Hdf_Map.thy ===== *)
theory Hdf_Map
  imports Kv_Store "HOL-Library.Multiset"
begin

text \<open>
  The string-keyed hash map of utils/src/hdf_map.c. A bucket is the list of its nodes in
  chain order, the bucket array is a list of buckets (\<^verbatim>\<open>None\<close> for the NULL array
  of a fresh map), and an access outside the array is undefined behaviour. The outcome
  of each allocation is an argument (\<^verbatim>\<open>True\<close> for success). The map is shown to
  implement a finite map from keys to values, whatever the hash collisions.
\<close>

section \<open>Data\<close>

record map_node =
  mn_hash :: u32
  mn_valueSize :: u32
  mn_key :: cstr
  mn_value :: "u8 list"

record hdf_map =
  nodes :: "map_node list list option"
  nodeSize :: u32
  bucketSize :: u32

section \<open>Operations\<close>

definition MapHash :: "cstr \<Rightarrow> u32" where
  "MapHash hashKey = bkdr_loop 0 hashKey AND 0x7FFFFFFF"

definition MapHashIdx :: "hdf_map \<Rightarrow> u32 \<Rightarrow> u32" where
  "MapHashIdx m hash = hash AND (bucketSize m - 1)"

definition MapBucket :: "hdf_map \<Rightarrow> u32 \<Rightarrow> map_node list option" where
  "MapBucket m idx =
     (case nodes m of
        None \<Rightarrow> UB
      | Some bs \<Rightarrow> if unat idx < length bs then Some (bs ! unat idx) else UB)"

definition MapSetBucket :: "hdf_map \<Rightarrow> u32 \<Rightarrow> map_node list \<Rightarrow> hdf_map option" where
  "MapSetBucket m idx c =
     (case nodes m of
        None \<Rightarrow> UB
      | Some bs \<Rightarrow> if unat idx < length bs then Some (m\<lparr>nodes := Some (bs[unat idx := c])\<rparr>) else UB)"

definition MapAddNode :: "hdf_map \<Rightarrow> map_node \<Rightarrow> hdf_map option" where
  "MapAddNode m node =
     (let idx = MapHashIdx m (mn_hash node) in
      do {
        c \<leftarrow> MapBucket m idx;
        MapSetBucket m idx (node # c)
      })"

text \<open>The two nested loops of \<^verbatim>\<open>MapResize\<close> that rehash the old buckets.\<close>

fun MapRemapChain :: "hdf_map \<Rightarrow> map_node list \<Rightarrow> hdf_map option" where
  "MapRemapChain m [] = Some m"
| "MapRemapChain m (node # next) =
     do { m' \<leftarrow> MapAddNode m node; MapRemapChain m' next }"

fun MapRemapBuckets :: "hdf_map \<Rightarrow> map_node list list \<Rightarrow> hdf_map option" where
  "MapRemapBuckets m [] = Some m"
| "MapRemapBuckets m (c # cs) =
     do { m' \<leftarrow> MapRemapChain m c; MapRemapBuckets m' cs }"

definition MapResize :: "bool \<Rightarrow> hdf_map \<Rightarrow> u32 \<Rightarrow> (hdf_map \<times> int) option" where
  "MapResize alloc m newSize =
     (if \<not> alloc then Some (m, HDF_ERR_MALLOC_FAIL)
      else
        (let m' = m\<lparr>nodes := Some (replicate (unat newSize) []), bucketSize := newSize\<rparr> in
         case nodes m of
           None \<Rightarrow> Some (m', HDF_SUCCESS)
         | Some tmp \<Rightarrow>
             if length tmp < unat (bucketSize m) then UB
             else do {
               m'' \<leftarrow> MapRemapBuckets m' (take (unat (bucketSize m)) tmp);
               Some (m'', HDF_SUCCESS)
             }))"

definition MapCreateNode :: "bool \<Rightarrow> cstr \<Rightarrow> u32 \<Rightarrow> u8 list \<Rightarrow> map_node option" where
  "MapCreateNode alloc key hash value =
     (if \<not> alloc then None
      else Some \<lparr>mn_hash = hash, mn_valueSize = word_of_nat (length value),
                 mn_key = key, mn_value = value\<rparr>)"

text \<open>
  The search loop of \<^verbatim>\<open>MapSet\<close>: \<^verbatim>\<open>None\<close> when no node matches, otherwise the
  updated chain and the status returned.
\<close>

fun MapUpdateChain :: "u32 \<Rightarrow> cstr \<Rightarrow> u8 list \<Rightarrow> map_node list \<Rightarrow> (map_node list \<times> int) option" where
  "MapUpdateChain hash key value [] = None"
| "MapUpdateChain hash key value (node # next) =
     (if mn_hash node \<noteq> hash \<or> mn_key node \<noteq> key
      then map_option (\<lambda>(c, r). (node # c, r)) (MapUpdateChain hash key value next)
      else if mn_valueSize node \<noteq> word_of_nat (length value)
      then Some (node # next, HDF_ERR_INVALID_OBJECT)
      else Some (node\<lparr>mn_value := value\<rparr> # next, HDF_SUCCESS))"

definition MapEnlarge :: "bool \<Rightarrow> hdf_map \<Rightarrow> hdf_map option" where
  "MapEnlarge alloc m =
     (if nodeSize m \<ge> bucketSize m
      then map_option fst
             (MapResize alloc m (if bucketSize m < 8 then 8 else push_bit 2 (bucketSize m)))
      else Some m)"

definition MapInsertNew ::
  "bool \<Rightarrow> bool \<Rightarrow> hdf_map \<Rightarrow> cstr \<Rightarrow> u32 \<Rightarrow> u8 list \<Rightarrow> (hdf_map \<times> int) option" where
  "MapInsertNew alloc1 alloc2 m key hash value =
     do {
       m1 \<leftarrow> MapEnlarge alloc1 m;
       (case MapCreateNode alloc2 key hash value of
          None \<Rightarrow> Some (m1, HDF_ERR_INVALID_OBJECT)
        | Some node \<Rightarrow>
            do {
              m2 \<leftarrow> MapAddNode m1 node;
              Some (m2\<lparr>nodeSize := nodeSize m2 + 1\<rparr>, HDF_SUCCESS)
            })
     }"

definition MapSet ::
  "bool \<Rightarrow> bool \<Rightarrow> hdf_map option \<Rightarrow> cstr option \<Rightarrow> u8 list option \<Rightarrow> (hdf_map option \<times> int) option" where
  "MapSet alloc1 alloc2 mp keyp valuep =
     (case (mp, keyp, valuep) of
        (Some m, Some key, Some value) \<Rightarrow>
          if length value = 0 then Some (mp, HDF_ERR_INVALID_PARAM)
          else if length value > 1000 \<or> length key > 1000 then Some (mp, HDF_ERR_INVALID_PARAM)
          else
            (let hash = MapHash key; idx = MapHashIdx m hash in
             do {
               hit \<leftarrow> (if nodeSize m > 0 \<and> nodes m \<noteq> None
                      then map_option (MapUpdateChain hash key value) (MapBucket m idx)
                      else Some None);
               (case hit of
                  Some (c, r) \<Rightarrow> do { m' \<leftarrow> MapSetBucket m idx c; Some (Some m', r) }
                | None \<Rightarrow>
                    do { (m', r) \<leftarrow> MapInsertNew alloc1 alloc2 m key hash value; Some (Some m', r) })
             })
      | _ \<Rightarrow> Some (mp, HDF_ERR_INVALID_PARAM))"

fun MapFindChain :: "u32 \<Rightarrow> cstr \<Rightarrow> map_node list \<Rightarrow> u8 list option" where
  "MapFindChain hash key [] = None"
| "MapFindChain hash key (node # next) =
     (if mn_hash node = hash \<and> mn_key node = key then Some (mn_value node)
      else MapFindChain hash key next)"

definition MapGet :: "hdf_map option \<Rightarrow> cstr option \<Rightarrow> u8 list option option" where
  "MapGet mp keyp =
     (case (mp, keyp) of
        (Some m, Some key) \<Rightarrow>
          if nodeSize m = 0 \<or> nodes m = None then Some None
          else
            (let hash = MapHash key in
             do { c \<leftarrow> MapBucket m (MapHashIdx m hash); Some (MapFindChain hash key c) })
      | _ \<Rightarrow> Some None)"

text \<open>The unlinking loop of \<^verbatim>\<open>MapErase\<close>: \<^verbatim>\<open>None\<close> when no node matches.\<close>

fun MapUnlinkChain :: "u32 \<Rightarrow> cstr \<Rightarrow> map_node list \<Rightarrow> map_node list option" where
  "MapUnlinkChain hash key [] = None"
| "MapUnlinkChain hash key (node # next) =
     (if mn_hash node = hash \<and> mn_key node = key then Some next
      else map_option (\<lambda>c. node # c) (MapUnlinkChain hash key next))"

definition MapErase :: "hdf_map option \<Rightarrow> cstr option \<Rightarrow> (hdf_map option \<times> int) option" where
  "MapErase mp keyp =
     (case (mp, keyp) of
        (Some m, Some key) \<Rightarrow>
          if nodeSize m = 0 \<or> nodes m = None then Some (mp, HDF_ERR_INVALID_PARAM)
          else
            (let hash = MapHash key; idx = MapHashIdx m hash in
             do {
               c \<leftarrow> MapBucket m idx;
               (case MapUnlinkChain hash key c of
                  None \<Rightarrow> Some (mp, HDF_FAILURE)
                | Some c' \<Rightarrow>
                    do {
                      m' \<leftarrow> MapSetBucket m idx c';
                      Some (Some (m'\<lparr>nodeSize := nodeSize m' - 1\<rparr>), HDF_SUCCESS)
                    })
             })
      | _ \<Rightarrow> Some (mp, HDF_ERR_INVALID_PARAM))"

definition MapInit :: "hdf_map option \<Rightarrow> hdf_map option" where
  "MapInit mp =
     map_option (\<lambda>m. m\<lparr>nodes := None, nodeSize := 0, bucketSize := 0\<rparr>) mp"

text \<open>\<^verbatim>\<open>MapDelete\<close> also returns the nodes it frees.\<close>

definition MapDelete :: "hdf_map option \<Rightarrow> (hdf_map option \<times> map_node list) option" where
  "MapDelete mp =
     (case mp of
        None \<Rightarrow> Some (mp, [])
      | Some m \<Rightarrow>
          (case nodes m of
             None \<Rightarrow> Some (mp, [])
           | Some bs \<Rightarrow>
               if length bs < unat (bucketSize m) then UB
               else Some (Some (m\<lparr>nodes := None, nodeSize := 0, bucketSize := 0\<rparr>),
                          concat (take (unat (bucketSize m)) bs))))"

definition empty_map :: hdf_map where
  "empty_map = \<lparr>nodes = None, nodeSize = 0, bucketSize = 0\<rparr>"

section \<open>Invariant and abstraction\<close>

definition entries :: "hdf_map \<Rightarrow> map_node list" where
  "entries m = (case nodes m of None \<Rightarrow> [] | Some bs \<Rightarrow> concat bs)"

definition node_ok :: "map_node \<Rightarrow> bool" where
  "node_ok n \<longleftrightarrow> mn_hash n = MapHash (mn_key n) \<and> mn_valueSize n = word_of_nat (length (mn_value n)) \<and>
     0 < length (mn_value n) \<and> length (mn_value n) \<le> 1000"

text \<open>
  The bucket array has a power-of-two size, every node sits in the bucket of its hash, and
  \<^verbatim>\<open>table_ok\<close> leaves the counter out so that it also holds inside \<^verbatim>\<open>MapResize\<close>.
\<close>

definition table_ok :: "hdf_map \<Rightarrow> bool" where
  "table_ok m \<longleftrightarrow>
     (\<exists>k bs. nodes m = Some bs \<and> 3 \<le> k \<and> k < 32 \<and> bucketSize m = 2 ^ k \<and> length bs = 2 ^ k \<and>
        (\<forall>i < length bs. \<forall>n \<in> set (bs ! i). node_ok n \<and> unat (MapHashIdx m (mn_hash n)) = i))"

definition map_inv :: "hdf_map \<Rightarrow> bool" where
  "map_inv m \<longleftrightarrow>
     (nodes m = None \<and> bucketSize m = 0 \<or> table_ok m) \<and>
     unat (nodeSize m) = length (entries m) \<and> distinct (map mn_key (entries m))"

definition node_kv :: "map_node \<Rightarrow> cstr \<times> u8 list" where
  "node_kv n = (mn_key n, mn_value n)"

definition map_view :: "hdf_map \<Rightarrow> cstr \<rightharpoonup> u8 list" where
  "map_view m = map_of (map node_kv (entries m))"

section \<open>Buckets\<close>

lemma mset_concat_update:
  assumes "i < length bs"
  shows "mset (concat (bs[i := c])) + mset (bs ! i) = mset (concat bs) + mset c"
proof -
  have "bs = take i bs @ bs ! i # drop (Suc i) bs"
    using assms by (rule id_take_nth_drop)
  then have "mset (concat bs) =
      mset (concat (take i bs)) + mset (bs ! i) + mset (concat (drop (Suc i) bs))"
    by (metis concat.simps(2) concat_append mset_append add.assoc)
  moreover have "mset (concat (bs[i := c])) =
      mset (concat (take i bs)) + mset c + mset (concat (drop (Suc i) bs))"
    using assms by (simp add: upd_conv_take_nth_drop)
  ultimately show ?thesis by simp
qed

lemma map_of_mset_cong:
  assumes "distinct (map mn_key xs)" "mset xs = mset ys"
  shows "map_of (map node_kv xs) = map_of (map node_kv ys)"
proof -
  have fst: "map fst (map node_kv zs) = map mn_key zs" for zs
    by (simp add: node_kv_def)
  have "mset (map mn_key xs) = mset (map mn_key ys)"
    using assms(2) by (metis mset_map)
  then have "distinct (map mn_key ys)"
    using assms(1) by (metis mset_eq_imp_distinct_iff)
  moreover have "set (map node_kv xs) = set (map node_kv ys)"
    using assms(2) by (metis list.set_map set_mset_mset)
  ultimately show ?thesis
    using assms(1) by (metis fst map_of_inject_set)
qed

lemma unat_and_mask:
  fixes h :: u32
  shows "unat (h AND (2 ^ k - 1)) = unat h mod 2 ^ k"
proof -
  have "h AND (2 ^ k - 1) = take_bit k h"
    by (simp add: take_bit_eq_mask mask_eq_exp_minus_1)
  then have "unat (h AND (2 ^ k - 1)) = take_bit k (unat h)"
    by (simp only: unsigned_take_bit_eq)
  then show ?thesis
    by (simp only: take_bit_eq_mod)
qed

lemma MapHashIdx_bound:
  assumes "table_ok m" "nodes m = Some bs"
  shows "unat (MapHashIdx m h) < length bs"
  using assms by (auto simp: table_ok_def MapHashIdx_def unat_and_mask)

lemma MapBucket_table:
  assumes "table_ok m" "nodes m = Some bs"
  shows "MapBucket m (MapHashIdx m h) = Some (bs ! unat (MapHashIdx m h))"
  using MapHashIdx_bound [OF assms] assms(2) by (simp add: MapBucket_def)

lemma MapSetBucket_table:
  assumes "table_ok m" "nodes m = Some bs"
  shows "MapSetBucket m (MapHashIdx m h) c =
    Some (m\<lparr>nodes := Some (bs[unat (MapHashIdx m h) := c])\<rparr>)"
  using MapHashIdx_bound [OF assms] assms(2) by (simp add: MapSetBucket_def)

lemma table_ok_node:
  assumes "table_ok m" "nodes m = Some bs" "i < length bs" "n \<in> set (bs ! i)"
  shows "node_ok n" "unat (MapHashIdx m (mn_hash n)) = i"
  using assms by (auto simp: table_ok_def)

text \<open>All nodes with a given key are in the bucket of the key's hash.\<close>

lemma entry_in_bucket:
  assumes "table_ok m" "nodes m = Some bs" "n \<in> set (entries m)" "mn_key n = key"
  shows "n \<in> set (bs ! unat (MapHashIdx m (MapHash key)))"
proof -
  from assms(2,3) obtain b where "b \<in> set bs" "n \<in> set b"
    by (auto simp: entries_def)
  then obtain i where i: "i < length bs" "n \<in> set (bs ! i)"
    by (metis in_set_conv_nth)
  with assms show ?thesis
    using table_ok_node [OF assms(1,2) i] by (auto simp: node_ok_def)
qed

lemma bucket_subset_entries:
  assumes "table_ok m" "nodes m = Some bs"
  shows "set (bs ! unat (MapHashIdx m h)) \<subseteq> set (entries m)"
  using MapHashIdx_bound [OF assms] assms(2) by (force simp: entries_def)

lemma distinct_bucket:
  assumes "table_ok m" "nodes m = Some bs" "distinct (map mn_key (entries m))"
  shows "distinct (map mn_key (bs ! unat (MapHashIdx m h)))"
proof -
  let ?i = "unat (MapHashIdx m h)"
  have "bs = take ?i bs @ bs ! ?i # drop (Suc ?i) bs"
    using MapHashIdx_bound [OF assms(1,2)] by (rule id_take_nth_drop)
  then have "entries m = concat (take ?i bs) @ bs ! ?i @ concat (drop (Suc ?i) bs)"
    using assms(2) by (metis concat.simps(2) concat_append entries_def option.simps(5))
  with assms(3) show ?thesis by simp
qed

lemma map_view_bucket:
  assumes "table_ok m" "nodes m = Some bs" "distinct (map mn_key (entries m))"
  shows "map_view m key = map_of (map node_kv (bs ! unat (MapHashIdx m (MapHash key)))) key"
proof -
  let ?b = "bs ! unat (MapHashIdx m (MapHash key))"
  have d1: "distinct (map fst (map node_kv (entries m)))"
    using assms(3) by (simp add: node_kv_def comp_def)
  have d2: "distinct (map fst (map node_kv ?b))"
    using distinct_bucket [OF assms] by (simp add: node_kv_def comp_def)
  have "map_view m key = Some v \<longleftrightarrow> map_of (map node_kv ?b) key = Some v" for v
  proof -
    have "map_view m key = Some v \<longleftrightarrow> (key, v) \<in> node_kv ` set (entries m)"
      using d1 by (simp add: map_view_def map_of_eq_Some_iff)
    also have "\<dots> \<longleftrightarrow> (key, v) \<in> node_kv ` set ?b"
      using entry_in_bucket [OF assms(1,2)] bucket_subset_entries [OF assms(1,2), of "MapHash key"]
      unfolding node_kv_def image_iff by (metis prod.inject subsetD)
    also have "\<dots> \<longleftrightarrow> map_of (map node_kv ?b) key = Some v"
      using d2 by (simp add: map_of_eq_Some_iff)
    finally show ?thesis .
  qed
  then show ?thesis by (metis option.exhaust)
qed

section \<open>Chains\<close>

lemma MapFindChain_map_of:
  assumes "\<forall>n \<in> set c. node_ok n"
  shows "MapFindChain (MapHash key) key c = map_of (map node_kv c) key"
  using assms by (induction c) (auto simp: node_kv_def node_ok_def)

lemma MapUpdateChain_None:
  assumes "\<forall>n \<in> set c. node_ok n"
  shows "MapUpdateChain (MapHash key) key v c = None \<longleftrightarrow> map_of (map node_kv c) key = None"
  using assms by (induction c) (auto simp: node_kv_def node_ok_def)

lemma MapUnlinkChain_None:
  assumes "\<forall>n \<in> set c. node_ok n"
  shows "MapUnlinkChain (MapHash key) key c = None \<longleftrightarrow> map_of (map node_kv c) key = None"
  using assms by (induction c) (auto simp: node_kv_def node_ok_def)

text \<open>A hit updates the value in place when the sizes agree and changes nothing otherwise.\<close>

lemma MapUpdateChain_hit:
  assumes "\<forall>n \<in> set c. node_ok n" "MapUpdateChain (MapHash key) key v c = Some (c', r)"
  obtains xs n ys where "c = xs @ n # ys" "mn_key n = key" "node_ok n"
    "(mn_valueSize n = word_of_nat (length v) \<and> r = HDF_SUCCESS \<and> c' = xs @ n\<lparr>mn_value := v\<rparr> # ys)
     \<or> (mn_valueSize n \<noteq> word_of_nat (length v) \<and> r = HDF_ERR_INVALID_OBJECT \<and> c' = c)"
  using assms
proof (induction c arbitrary: c' thesis)
  case Nil
  then show ?case by simp
next
  case (Cons n c)
  show ?case
  proof (cases "mn_hash n \<noteq> MapHash key \<or> mn_key n \<noteq> key")
    case True
    with Cons.prems(3) obtain d where d: "MapUpdateChain (MapHash key) key v c = Some (d, r)" "c' = n # d"
      by auto
    from Cons.IH [OF _ _ d(1)] Cons.prems(2) obtain xs n' ys where
      "c = xs @ n' # ys" "mn_key n' = key" "node_ok n'"
      "(mn_valueSize n' = word_of_nat (length v) \<and> r = HDF_SUCCESS \<and> d = xs @ n'\<lparr>mn_value := v\<rparr> # ys)
       \<or> (mn_valueSize n' \<noteq> word_of_nat (length v) \<and> r = HDF_ERR_INVALID_OBJECT \<and> d = c)"
      by (metis list.set_intros(2))
    then show ?thesis
      by (intro Cons.prems(1) [of "n # xs" n' ys]) (auto simp: d(2))
  next
    case False
    with Cons.prems(2,3) show ?thesis
      by (intro Cons.prems(1) [of "[]" n c]) (auto split: if_splits)
  qed
qed

lemma MapUnlinkChain_hit:
  assumes "\<forall>n \<in> set c. node_ok n" "MapUnlinkChain (MapHash key) key c = Some c'"
  obtains xs n ys where "c = xs @ n # ys" "mn_key n = key" "c' = xs @ ys"
  using assms
proof (induction c arbitrary: c' thesis)
  case Nil
  then show ?case by simp
next
  case (Cons n c)
  show ?case
  proof (cases "mn_hash n = MapHash key \<and> mn_key n = key")
    case True
    with Cons.prems(3) show ?thesis
      by (intro Cons.prems(1) [of "[]" n c]) auto
  next
    case False
    with Cons.prems(3) obtain d where d: "MapUnlinkChain (MapHash key) key c = Some d" "c' = n # d"
      by (auto split: if_splits)
    from Cons.IH [OF _ _ d(1)] Cons.prems(2) obtain xs n' ys where
      "c = xs @ n' # ys" "mn_key n' = key" "d = xs @ ys"
      by (metis list.set_intros(2))
    then show ?thesis
      by (intro Cons.prems(1) [of "n # xs" n' ys]) (auto simp: d(2))
  qed
qed

section \<open>Adding nodes and resizing\<close>

lemma table_ok_update:
  assumes "table_ok m" "nodes m = Some bs"
    and "\<forall>n \<in> set c. node_ok n \<and> MapHashIdx m (mn_hash n) = MapHashIdx m h"
  shows "table_ok (m\<lparr>nodes := Some (bs[unat (MapHashIdx m h) := c])\<rparr>)"
proof -
  have idx: "MapHashIdx (m\<lparr>nodes := x\<rparr>) = MapHashIdx m" for x
    by (simp add: MapHashIdx_def fun_eq_iff)
  show ?thesis
    using assms MapHashIdx_bound [OF assms(1,2), of h]
    by (auto simp: table_ok_def idx nth_list_update split: if_splits)
qed

lemma MapAddNode_table:
  assumes "table_ok m" "node_ok n"
  obtains m' where "MapAddNode m n = Some m'" "table_ok m'"
    "mset (entries m') = add_mset n (mset (entries m))"
    "nodeSize m' = nodeSize m" "bucketSize m' = bucketSize m"
proof -
  from assms(1) obtain bs where bs: "nodes m = Some bs" by (auto simp: table_ok_def)
  let ?i = "unat (MapHashIdx m (mn_hash n))"
  let ?m = "m\<lparr>nodes := Some (bs[?i := n # bs ! ?i])\<rparr>"
  note bound = MapHashIdx_bound [OF assms(1) bs, of "mn_hash n"]
  have add: "MapAddNode m n = Some ?m"
    by (simp add: MapAddNode_def Let_def MapBucket_table [OF assms(1) bs] MapSetBucket_table [OF assms(1) bs])
  have "\<forall>x \<in> set (n # bs ! ?i). node_ok x \<and> MapHashIdx m (mn_hash x) = MapHashIdx m (mn_hash n)"
    using assms(2) table_ok_node [OF assms(1) bs bound] by (auto simp: word_unat_eq_iff)
  then have "table_ok ?m" by (rule table_ok_update [OF assms(1) bs])
  moreover have "mset (entries ?m) = add_mset n (mset (entries m))"
    using mset_concat_update [OF bound, of "n # bs ! ?i"] by (simp add: entries_def bs)
  ultimately show ?thesis using add that by simp
qed

lemma MapRemapChain_table:
  assumes "table_ok m" "\<forall>n \<in> set c. node_ok n"
  obtains m' where "MapRemapChain m c = Some m'" "table_ok m'"
    "mset (entries m') = mset c + mset (entries m)" "nodeSize m' = nodeSize m"
  using assms
proof (induction c arbitrary: m thesis)
  case Nil
  then show ?case by simp
next
  case (Cons n c)
  from Cons.prems(2,3) obtain m1 where m1: "MapAddNode m n = Some m1" "table_ok m1"
    "mset (entries m1) = add_mset n (mset (entries m))" "nodeSize m1 = nodeSize m"
    by (metis MapAddNode_table list.set_intros(1))
  from Cons.prems(3) have "\<forall>x \<in> set c. node_ok x" by simp
  from Cons.IH [OF _ m1(2) this] obtain m2 where m2: "MapRemapChain m1 c = Some m2" "table_ok m2"
    "mset (entries m2) = mset c + mset (entries m1)" "nodeSize m2 = nodeSize m1"
    by blast
  show ?case
    by (rule Cons.prems(1) [of m2]) (simp_all add: m1 m2)
qed

lemma MapRemapBuckets_table:
  assumes "table_ok m" "\<forall>c \<in> set cs. \<forall>n \<in> set c. node_ok n"
  obtains m' where "MapRemapBuckets m cs = Some m'" "table_ok m'"
    "mset (entries m') = mset (concat cs) + mset (entries m)" "nodeSize m' = nodeSize m"
  using assms
proof (induction cs arbitrary: m thesis)
  case Nil
  then show ?case by simp
next
  case (Cons c cs)
  from Cons.prems(2,3) obtain m1 where m1: "MapRemapChain m c = Some m1" "table_ok m1"
    "mset (entries m1) = mset c + mset (entries m)" "nodeSize m1 = nodeSize m"
    by (metis MapRemapChain_table list.set_intros(1))
  from Cons.prems(3) have "\<forall>c \<in> set cs. \<forall>n \<in> set c. node_ok n" by simp
  from Cons.IH [OF _ m1(2) this] obtain m2 where m2: "MapRemapBuckets m1 cs = Some m2" "table_ok m2"
    "mset (entries m2) = mset (concat cs) + mset (entries m1)" "nodeSize m2 = nodeSize m1"
    by blast
  show ?case
    by (rule Cons.prems(1) [of m2]) (simp_all add: m1 m2)
qed

lemma unat_two_power:
  assumes "k < 32"
  shows "unat ((2 :: u32) ^ k) = 2 ^ k"
proof -
  have "(2::nat) ^ k < 2 ^ LENGTH(32)"
    using assms by (intro power_strict_increasing) auto
  then have "unat (word_of_nat (2 ^ k) :: u32) = 2 ^ k"
    by (simp only: unat_of_nat mod_less)
  then show ?thesis by simp
qed

lemma MapResize_table:
  assumes "nodes m = None \<or> table_ok m" "newSize = 2 ^ k" "3 \<le> k" "k < 32"
  obtains m' where "MapResize True m newSize = Some (m', HDF_SUCCESS)" "table_ok m'"
    "mset (entries m') = mset (entries m)" "nodeSize m' = nodeSize m"
proof -
  let ?m = "m\<lparr>nodes := Some (replicate (unat newSize) []), bucketSize := newSize\<rparr>"
  have fresh: "table_ok ?m"
    using assms by (auto simp: table_ok_def unat_two_power)
  have no_entries: "entries ?m = []"
    by (simp add: entries_def)
  show ?thesis
  proof (cases "nodes m")
    case None
    then show ?thesis
      using fresh no_entries by (intro that [of ?m]) (auto simp: MapResize_def entries_def)
  next
    case (Some bs)
    with assms(1) have t: "table_ok m" by simp
    then have len: "length bs = unat (bucketSize m)"
      using Some by (auto simp: table_ok_def unat_two_power)
    have "\<forall>c \<in> set bs. \<forall>n \<in> set c. node_ok n"
      using table_ok_node [OF t Some] by (metis in_set_conv_nth)
    from MapRemapBuckets_table [OF fresh this] obtain m' where
      "MapRemapBuckets ?m bs = Some m'" "table_ok m'"
      "mset (entries m') = mset (concat bs) + mset (entries ?m)" "nodeSize m' = nodeSize ?m"
      by blast
    then show ?thesis
      by (intro that [of m']) (auto simp: MapResize_def Some len no_entries entries_def [of m])
  qed
qed

lemma MapEnlarge_table:
  assumes "map_inv m" "unat (nodeSize m) < 2 ^ 30" "alloc \<or> nodes m \<noteq> None"
  obtains m' where "MapEnlarge alloc m = Some m'" "table_ok m'"
    "mset (entries m') = mset (entries m)" "nodeSize m' = nodeSize m"
proof (cases "nodes m")
  case None
  with assms have z: "bucketSize m = 0" and a: "alloc"
    by (auto simp: map_inv_def table_ok_def)
  have "(8 :: u32) = 2 ^ 3" by simp
  from MapResize_table [OF disjI1 [OF None] this] obtain m' where
    "MapResize True m 8 = Some (m', HDF_SUCCESS)" "table_ok m'"
    "mset (entries m') = mset (entries m)" "nodeSize m' = nodeSize m"
    by auto
  then show ?thesis
    by (intro that [of m']) (auto simp: MapEnlarge_def z a)
next
  case (Some bs)
  with assms(1) have t: "table_ok m" by (auto simp: map_inv_def)
  then obtain k where k: "3 \<le> k" "k < 32" "bucketSize m = 2 ^ k"
    by (auto simp: table_ok_def)
  show ?thesis
  proof (cases "nodeSize m \<ge> bucketSize m \<and> alloc")
    case False
    then show ?thesis
      using t by (intro that [of m]) (auto simp: MapEnlarge_def MapResize_def)
  next
    case True
    with k have "(2::nat) ^ k \<le> unat (nodeSize m)"
      by (simp add: word_le_nat_alt unat_two_power)
    with assms(2) have "(2::nat) ^ k < 2 ^ 30" by linarith
    then have "k < 30" by (simp only: power_strict_increasing_iff one_less_numeral_iff semiring_norm(76))
    have "(2::nat) ^ 3 \<le> 2 ^ k" using k(1) by (rule power_increasing) simp
    then have big: "\<not> bucketSize m < 8"
      using k by (simp add: word_less_nat_alt unat_two_power)
    have "push_bit 2 (bucketSize m) = 2 ^ (k + 2)"
      by (simp add: k(3) push_bit_eq_mult power_add)
    from MapResize_table [OF disjI2 [OF t] this] k \<open>k < 30\<close> obtain m' where
      "MapResize True m (push_bit 2 (bucketSize m)) = Some (m', HDF_SUCCESS)" "table_ok m'"
      "mset (entries m') = mset (entries m)" "nodeSize m' = nodeSize m"
      by auto
    with True big show ?thesis
      by (intro that [of m']) (auto simp: MapEnlarge_def)
  qed
qed

section \<open>The operations implement a finite map\<close>

lemma MapGet_view:
  assumes "map_inv m"
  shows "MapGet (Some m) (Some key) = Some (map_view m key)"
proof (cases "nodeSize m = 0 \<or> nodes m = None")
  case True
  then have "entries m = []"
    using assms by (auto simp: map_inv_def entries_def)
  with True show ?thesis by (simp add: MapGet_def map_view_def)
next
  case False
  then obtain bs where bs: "nodes m = Some bs" by auto
  with assms have t: "table_ok m" and d: "distinct (map mn_key (entries m))"
    by (auto simp: map_inv_def)
  note b = MapHashIdx_bound [OF t bs, of "MapHash key"]
  show ?thesis
    using False table_ok_node(1) [OF t bs b]
    by (simp add: bs MapGet_def Let_def MapBucket_table [OF t bs] map_view_bucket [OF t bs d]
        MapFindChain_map_of)
qed

lemma map_view_upd_new:
  assumes "mset (entries m') = add_mset n (mset (entries m))"
    and "distinct (map mn_key (entries m))" "map_view m (mn_key n) = None"
  shows "map_view m' = (map_view m)(mn_key n \<mapsto> mn_value n)" "distinct (map mn_key (entries m'))"
proof -
  have fresh: "mn_key n \<notin> mn_key ` set (entries m)"
    using assms(3) by (auto simp: map_view_def map_of_eq_None_iff node_kv_def image_image)
  then have d: "distinct (map mn_key (n # entries m))"
    using assms(2) by simp
  have ms: "mset (n # entries m) = mset (entries m')"
    using assms(1) by simp
  show "map_view m' = (map_view m)(mn_key n \<mapsto> mn_value n)"
    using map_of_mset_cong [OF d ms] by (simp add: map_view_def node_kv_def)
  show "distinct (map mn_key (entries m'))"
    using d ms by (metis mset_map mset_eq_imp_distinct_iff)
qed

text \<open>The insertion path, taken when the key is absent.\<close>

lemma MapInsertNew_ok:
  assumes "map_inv m" "unat (nodeSize m) < 2 ^ 30" "alloc \<or> nodes m \<noteq> None"
    and "map_view m key = None" "0 < length v" "length v \<le> 1000"
  obtains m' where "MapInsertNew alloc True m key (MapHash key) v = Some (m', HDF_SUCCESS)"
    "map_inv m'" "map_view m' = (map_view m)(key \<mapsto> v)" "nodeSize m' = nodeSize m + 1"
proof -
  let ?n = "\<lparr>mn_hash = MapHash key, mn_valueSize = word_of_nat (length v), mn_key = key, mn_value = v\<rparr>"
  from MapEnlarge_table [OF assms(1-3)] obtain m1 where m1: "MapEnlarge alloc m = Some m1" "table_ok m1"
    "mset (entries m1) = mset (entries m)" "nodeSize m1 = nodeSize m" .
  have "node_ok ?n" using assms(5,6) by (simp add: node_ok_def)
  from MapAddNode_table [OF m1(2) this] obtain m2 where m2: "MapAddNode m1 ?n = Some m2" "table_ok m2"
    "mset (entries m2) = add_mset ?n (mset (entries m1))" "nodeSize m2 = nodeSize m1"
    "bucketSize m2 = bucketSize m1" .
  let ?m' = "m2\<lparr>nodeSize := nodeSize m2 + 1\<rparr>"
  have ent: "entries ?m' = entries m2" by (simp add: entries_def)
  have d: "distinct (map mn_key (entries m))" and sz: "unat (nodeSize m) = length (entries m)"
    using assms(1) by (simp_all add: map_inv_def)
  have ms: "mset (entries ?m') = add_mset ?n (mset (entries m))"
    using m2(3) m1(3) by (simp add: ent)
  have new: "map_view m (mn_key ?n) = None" using assms(4) by simp
  have "table_ok ?m'"
    using m2(2) by (auto simp: table_ok_def MapHashIdx_def)
  moreover have "unat (nodeSize ?m') = length (entries ?m')"
  proof -
    have "length (entries ?m') = Suc (length (entries m))"
      using ms by (metis size_mset size_add_mset)
    moreover have "unat (nodeSize m + 1) = Suc (unat (nodeSize m))"
      using assms(2) by (simp add: unat_word_ariths(1))
    ultimately show ?thesis by (simp add: m2(4) m1(4) sz)
  qed
  ultimately have "map_inv ?m'"
    using map_view_upd_new(2) [OF ms d new] by (simp add: map_inv_def)
  moreover have "map_view ?m' = (map_view m)(key \<mapsto> v)"
    using map_view_upd_new(1) [OF ms d new] by simp
  moreover have "MapInsertNew alloc True m key (MapHash key) v = Some (?m', HDF_SUCCESS)"
    by (simp add: MapInsertNew_def m1(1) m2(1) MapCreateNode_def)
  ultimately show ?thesis using that [of ?m'] by (simp add: m2(4) m1(4))
qed

text \<open>Replacing the bucket of a key, the nodes of other keys untouched.\<close>

lemma bucket_split_entries:
  assumes "nodes m = Some bs" "i < length bs" "bs ! i = xs @ n # ys"
  obtains R where "mset (entries m) = add_mset n R"
    "\<And>n'. mset (entries (m\<lparr>nodes := Some (bs[i := xs @ n' # ys])\<rparr>)) = add_mset n' R"
    "mset (entries (m\<lparr>nodes := Some (bs[i := xs @ ys])\<rparr>)) = R"
proof
  let ?R = "mset (concat (bs[i := xs @ ys]))"
  have "?R + mset (xs @ n # ys) = mset (concat bs) + mset (xs @ ys)"
    using mset_concat_update [OF assms(2), of "xs @ ys"] assms(3) by (simp only:)
  then have R: "mset (concat bs) = add_mset n ?R" by simp
  then show "mset (entries m) = add_mset n ?R"
    using assms(1) by (simp add: entries_def)
  fix n'
  have "mset (concat (bs[i := xs @ n' # ys])) + mset (xs @ n # ys) = add_mset n ?R + mset (xs @ n' # ys)"
    using mset_concat_update [OF assms(2), of "xs @ n' # ys"] assms(3) R by (simp only:)
  then show "mset (entries (m\<lparr>nodes := Some (bs[i := xs @ n' # ys])\<rparr>)) = add_mset n' ?R"
    by (simp add: entries_def)
qed (simp add: entries_def)

lemma map_view_node:
  assumes "distinct (map mn_key (entries m))" "n \<in> set (entries m)"
  shows "map_view m (mn_key n) = Some (mn_value n)"
proof -
  have "distinct (map fst (map node_kv (entries m)))"
    using assms(1) by (simp add: node_kv_def comp_def)
  then show ?thesis
    using assms(2) unfolding map_view_def
    by (intro map_of_is_SomeI) (auto simp: node_kv_def image_iff)
qed

lemma map_view_replace:
  assumes "distinct (map mn_key (entries m))" "mset (entries m) = add_mset n R"
    and "mset (entries m') = add_mset n' R" "mn_key n' = mn_key n"
  shows "map_view m' = (map_view m)(mn_key n \<mapsto> mn_value n')" "distinct (map mn_key (entries m'))"
proof -
  obtain rest where rest: "mset rest = R" using ex_mset by blast
  have "image_mset mn_key (mset (entries m')) = image_mset mn_key (mset (entries m))"
    using assms(2-4) by simp
  then show d: "distinct (map mn_key (entries m'))"
    using assms(1) by (metis mset_map mset_eq_imp_distinct_iff)
  have "map_view m = map_of (map node_kv (n # rest))"
    unfolding map_view_def using assms(2) rest by (intro map_of_mset_cong [OF assms(1)]) simp
  moreover have "map_view m' = map_of (map node_kv (n' # rest))"
    unfolding map_view_def using assms(3) rest by (intro map_of_mset_cong [OF d]) simp
  ultimately show "map_view m' = (map_view m)(mn_key n \<mapsto> mn_value n')"
    using assms(4) by (simp add: node_kv_def)
qed

lemma map_view_remove:
  assumes "distinct (map mn_key (entries m))" "mset (entries m) = add_mset n R" "mset (entries m') = R"
  shows "map_view m' = (map_view m)(mn_key n := None)" "distinct (map mn_key (entries m'))"
proof -
  have ms: "mset (entries m) = mset (n # entries m')" using assms(2,3) by simp
  then have d: "distinct (map mn_key (n # entries m'))"
    using assms(1) by (metis mset_map mset_eq_imp_distinct_iff)
  then show "distinct (map mn_key (entries m'))" by simp
  have "map_view m = map_of (map node_kv (n # entries m'))"
    unfolding map_view_def using ms by (rule map_of_mset_cong [OF assms(1)])
  moreover have "map_of (map node_kv (entries m')) (mn_key n) = None"
    using d by (auto simp: map_of_eq_None_iff node_kv_def image_image)
  ultimately show "map_view m' = (map_view m)(mn_key n := None)"
    by (simp add: map_view_def node_kv_def fun_eq_iff)
qed

lemma map_inv_set_bucket:
  assumes "table_ok m" "nodes m = Some bs"
    and "\<forall>n \<in> set c. node_ok n \<and> MapHashIdx m (mn_hash n) = MapHashIdx m h"
    and "m' = m\<lparr>nodes := Some (bs[unat (MapHashIdx m h) := c])\<rparr>"
    and "distinct (map mn_key (entries m'))" "unat sz = length (entries m')"
  shows "map_inv (m'\<lparr>nodeSize := sz\<rparr>)"
proof -
  have "table_ok m'" unfolding assms(4) using assms(1-3) by (rule table_ok_update)
  then have "table_ok (m'\<lparr>nodeSize := sz\<rparr>)"
    by (auto simp: table_ok_def MapHashIdx_def)
  then show ?thesis
    using assms(5,6) by (simp add: map_inv_def entries_def)
qed

text \<open>Where a present key is found: its bucket, and the nodes around it.\<close>

lemma bucket_of_present:
  assumes "map_inv m" "map_view m key \<noteq> None"
  obtains bs where "nodes m = Some bs" "table_ok m" "0 < nodeSize m"
    "\<forall>n \<in> set (bs ! unat (MapHashIdx m (MapHash key))). node_ok n \<and> MapHashIdx m (mn_hash n) = MapHashIdx m (MapHash key)"
    "map_of (map node_kv (bs ! unat (MapHashIdx m (MapHash key)))) key = map_view m key"
proof -
  have ne: "entries m \<noteq> []" using assms(2) by (auto simp: map_view_def)
  then obtain bs where bs: "nodes m = Some bs" by (auto simp: entries_def split: option.splits)
  with assms(1) have t: "table_ok m" and d: "distinct (map mn_key (entries m))"
    and sz: "unat (nodeSize m) = length (entries m)"
    by (auto simp: map_inv_def)
  have "0 < nodeSize m"
    using ne sz by (simp add: word_less_nat_alt)
  then show ?thesis
    using that [OF bs t] map_view_bucket [OF t bs d]
      table_ok_node [OF t bs MapHashIdx_bound [OF t bs, of "MapHash key"]]
    by (simp add: word_unat_eq_iff)
qed

lemma map_same_entries:
  assumes "map_inv m" "table_ok m'" "mset (entries m') = mset (entries m)" "nodeSize m' = nodeSize m"
  shows "map_inv m'" "map_view m' = map_view m"
proof -
  have d: "distinct (map mn_key (entries m))" and sz: "unat (nodeSize m) = length (entries m)"
    using assms(1) by (simp_all add: map_inv_def)
  have "length (entries m') = length (entries m)"
    using assms(3) by (rule mset_eq_length)
  moreover have "mset (map mn_key (entries m')) = mset (map mn_key (entries m))"
    unfolding mset_map assms(3) ..
  from mset_eq_imp_distinct_iff [OF this] have "distinct (map mn_key (entries m'))"
    using d by (rule iffD2)
  ultimately show "map_inv m'"
    using assms(2,4) sz by (simp add: map_inv_def)
  show "map_view m' = map_view m"
    unfolding map_view_def by (rule map_of_mset_cong [OF d assms(3) [symmetric], symmetric])
qed

lemma node_sizes_eq:
  assumes "node_ok n" "length v \<le> 1000"
  shows "mn_valueSize n = word_of_nat (length v) \<longleftrightarrow> length v = length (mn_value n)"
proof -
  have "unat (word_of_nat l :: u32) = l" if "l \<le> 1000" for l
    using that by (simp add: unat_of_nat)
  then show ?thesis
    using assms by (metis node_ok_def)
qed

lemma MapSet_hit:
  assumes "map_inv m" "map_view m key = Some old" "0 < length v" "length v \<le> 1000" "length key \<le> 1000"
  obtains (same) m' where "length v = length old"
      "MapSet a1 a2 (Some m) (Some key) (Some v) = Some (Some m', HDF_SUCCESS)" "map_inv m'"
      "map_view m' = (map_view m)(key \<mapsto> v)" "nodeSize m' = nodeSize m"
  | (differ) "length v \<noteq> length old"
      "MapSet a1 a2 (Some m) (Some key) (Some v) = Some (Some m, HDF_ERR_INVALID_OBJECT)"
proof -
  from assms(2) have "map_view m key \<noteq> None" by simp
  from bucket_of_present [OF assms(1) this] obtain bs where bs: "nodes m = Some bs"
    and t: "table_ok m" and pos: "0 < nodeSize m"
    and ok: "\<forall>n \<in> set (bs ! unat (MapHashIdx m (MapHash key))). node_ok n \<and>
      MapHashIdx m (mn_hash n) = MapHashIdx m (MapHash key)"
    and look: "map_of (map node_kv (bs ! unat (MapHashIdx m (MapHash key)))) key = map_view m key" .
  let ?i = "unat (MapHashIdx m (MapHash key))"
  have d: "distinct (map mn_key (entries m))" and sz: "unat (nodeSize m) = length (entries m)"
    using assms(1) by (simp_all add: map_inv_def)
  have ok': "\<forall>n \<in> set (bs ! ?i). node_ok n" using ok by blast
  obtain c r where cr: "MapUpdateChain (MapHash key) key v (bs ! ?i) = Some (c, r)"
    using MapUpdateChain_None [OF ok', of key v] look assms(2) by auto
  from MapUpdateChain_hit [OF ok' cr] obtain xs n ys where n: "bs ! ?i = xs @ n # ys"
    "mn_key n = key" "node_ok n"
    and res: "(mn_valueSize n = word_of_nat (length v) \<and> r = HDF_SUCCESS \<and> c = xs @ n\<lparr>mn_value := v\<rparr> # ys)
      \<or> (mn_valueSize n \<noteq> word_of_nat (length v) \<and> r = HDF_ERR_INVALID_OBJECT \<and> c = bs ! ?i)" .
  have run: "MapSet a1 a2 (Some m) (Some key) (Some v) = Some (Some (m\<lparr>nodes := Some (bs[?i := c])\<rparr>), r)"
    using assms(3-5) pos
    by (simp add: MapSet_def Let_def MapBucket_table [OF t bs] MapSetBucket_table [OF t bs] cr bs)
  note b = MapHashIdx_bound [OF t bs, of "MapHash key"]
  obtain R where R: "mset (entries m) = add_mset n R"
    "\<And>n'. mset (entries (m\<lparr>nodes := Some (bs[?i := xs @ n' # ys])\<rparr>)) = add_mset n' R"
    using bucket_split_entries [OF bs b n(1)] by blast
  then have "n \<in> set (entries m)" by (metis set_mset_mset union_single_eq_member)
  then have old: "old = mn_value n" using map_view_node [OF d] n(2) assms(2) by fastforce
  show ?thesis
  proof (cases "length v = length old")
    case True
    with res node_sizes_eq [OF n(3) assms(4)] old have r: "r = HDF_SUCCESS"
      and c: "c = xs @ n\<lparr>mn_value := v\<rparr> # ys" by auto
    let ?m = "m\<lparr>nodes := Some (bs[?i := c])\<rparr>"
    have "node_ok (n\<lparr>mn_value := v\<rparr>)"
      using n(3) assms(3,4) True by (simp add: node_ok_def old)
    then have "\<forall>x \<in> set c. node_ok x \<and> MapHashIdx m (mn_hash x) = MapHashIdx m (MapHash key)"
      using ok by (auto simp: c n(1))
    moreover have "length (entries ?m) = length (entries m)"
      using R(1) R(2) [of "n\<lparr>mn_value := v\<rparr>"] by (metis c size_mset size_add_mset)
    ultimately have "map_inv ?m"
      using map_inv_set_bucket [OF t bs _ refl, of c "MapHash key" "nodeSize m"] sz
        map_view_replace(2) [OF d R(1) R(2) [of "n\<lparr>mn_value := v\<rparr>"]]
      by (simp add: c)
    then show ?thesis
      using map_view_replace(1) [OF d R(1) R(2) [of "n\<lparr>mn_value := v\<rparr>"]] n(2) run r True
      by (intro same [of ?m]) (auto simp: c)
  next
    case False
    with res node_sizes_eq [OF n(3) assms(4)] old have "r = HDF_ERR_INVALID_OBJECT" "c = bs ! ?i" by auto
    then show ?thesis using run False bs by (intro differ) auto
  qed
qed

lemma MapSet_miss:
  assumes "map_inv m" "map_view m key = None" "0 < length v" "length v \<le> 1000" "length key \<le> 1000"
  shows "MapSet a1 a2 (Some m) (Some key) (Some v) =
    map_option (\<lambda>(m', r). (Some m', r)) (MapInsertNew a1 a2 m key (MapHash key) v)"
proof -
  have split: "do { (m', r) \<leftarrow> x; Some (Some m', r) } = map_option (\<lambda>(m', r). (Some m', r)) x"
    for x :: "(hdf_map \<times> int) option"
    by (cases x) auto
  show ?thesis
  proof (cases "nodeSize m > 0 \<and> nodes m \<noteq> None")
    case True
    then obtain bs where bs: "nodes m = Some bs" by auto
    with assms(1) have t: "table_ok m" and d: "distinct (map mn_key (entries m))"
      by (auto simp: map_inv_def)
    have "\<forall>n \<in> set (bs ! unat (MapHashIdx m (MapHash key))). node_ok n"
      using table_ok_node [OF t bs MapHashIdx_bound [OF t bs]] by blast
    then have "MapUpdateChain (MapHash key) key v (bs ! unat (MapHashIdx m (MapHash key))) = None"
      using assms(2) map_view_bucket [OF t bs d] by (simp add: MapUpdateChain_None)
    then show ?thesis
      using assms(3-5) True by (simp add: MapSet_def Let_def MapBucket_table [OF t bs] split)
  next
    case False
    then show ?thesis
      using assms(3-5) by (auto simp: MapSet_def Let_def split)
  qed
qed

lemma MapErase_present:
  assumes "map_inv m" "map_view m key \<noteq> None"
  obtains m' where "MapErase (Some m) (Some key) = Some (Some m', HDF_SUCCESS)" "map_inv m'"
    "map_view m' = (map_view m)(key := None)" "nodeSize m' = nodeSize m - 1"
proof -
  from bucket_of_present [OF assms] obtain bs where bs: "nodes m = Some bs"
    and t: "table_ok m" and pos: "0 < nodeSize m"
    and ok: "\<forall>n \<in> set (bs ! unat (MapHashIdx m (MapHash key))). node_ok n \<and>
      MapHashIdx m (mn_hash n) = MapHashIdx m (MapHash key)"
    and look: "map_of (map node_kv (bs ! unat (MapHashIdx m (MapHash key)))) key = map_view m key" .
  let ?i = "unat (MapHashIdx m (MapHash key))"
  have d: "distinct (map mn_key (entries m))" and sz: "unat (nodeSize m) = length (entries m)"
    using assms(1) by (simp_all add: map_inv_def)
  have ok': "\<forall>n \<in> set (bs ! ?i). node_ok n" using ok by blast
  obtain c where c: "MapUnlinkChain (MapHash key) key (bs ! ?i) = Some c"
    using MapUnlinkChain_None [OF ok', of key] look assms(2) by auto
  from MapUnlinkChain_hit [OF ok' c] obtain xs n ys where n: "bs ! ?i = xs @ n # ys"
    "mn_key n = key" "c = xs @ ys" .
  let ?m = "m\<lparr>nodes := Some (bs[?i := c])\<rparr>"
  obtain R where R: "mset (entries m) = add_mset n R" "mset (entries ?m) = R"
    using bucket_split_entries [OF bs MapHashIdx_bound [OF t bs] n(1)] unfolding n(3) by metis
  have size: "unat (nodeSize m - 1) = length (entries ?m)"
  proof -
    have "length (entries m) = Suc (length (entries ?m))"
      using R by (metis size_mset size_add_mset)
    then show ?thesis using sz pos by (simp add: unat_sub word_less_nat_alt word_le_nat_alt)
  qed
  have "\<forall>x \<in> set c. node_ok x \<and> MapHashIdx m (mn_hash x) = MapHashIdx m (MapHash key)"
    using ok by (auto simp: n)
  from map_inv_set_bucket [OF t bs this refl map_view_remove(2) [OF d R] size]
  have "map_inv (?m\<lparr>nodeSize := nodeSize m - 1\<rparr>)" .
  moreover have "map_view (?m\<lparr>nodeSize := nodeSize m - 1\<rparr>) = (map_view m)(key := None)"
    using map_view_remove(1) [OF d R] n(2) by (simp add: map_view_def entries_def)
  moreover have "MapErase (Some m) (Some key) =
      Some (Some (?m\<lparr>nodeSize := nodeSize m - 1\<rparr>), HDF_SUCCESS)"
    using pos by (simp add: MapErase_def Let_def MapBucket_table [OF t bs] MapSetBucket_table [OF t bs] c bs)
  ultimately show ?thesis using that by simp
qed

lemma MapErase_absent:
  assumes "map_inv m" "map_view m key = None"
  shows "MapErase (Some m) (Some key) =
    Some (Some m, if nodeSize m = 0 \<or> nodes m = None then HDF_ERR_INVALID_PARAM else HDF_FAILURE)"
proof (cases "nodeSize m = 0 \<or> nodes m = None")
  case True
  then show ?thesis by (auto simp: MapErase_def)
next
  case False
  then obtain bs where bs: "nodes m = Some bs" by auto
  with assms(1) have t: "table_ok m" and d: "distinct (map mn_key (entries m))"
    by (auto simp: map_inv_def)
  have "\<forall>n \<in> set (bs ! unat (MapHashIdx m (MapHash key))). node_ok n"
    using table_ok_node [OF t bs MapHashIdx_bound [OF t bs]] by blast
  then have "MapUnlinkChain (MapHash key) key (bs ! unat (MapHashIdx m (MapHash key))) = None"
    using assms(2) map_view_bucket [OF t bs d] by (simp add: MapUnlinkChain_None)
  then show ?thesis
    using False by (simp add: MapErase_def Let_def MapBucket_table [OF t bs])
qed

section \<open>The map as a key-value store\<close>

definition map_step :: "hdf_map \<Rightarrow> kv_op \<Rightarrow> (hdf_map \<times> int) option" where
  "map_step m x =
     do {
       (mp, r) \<leftarrow> (case x of
                   KvPut k v \<Rightarrow> MapSet True True (Some m) (Some k) (Some v)
                 | KvErase k \<Rightarrow> MapErase (Some m) (Some k));
       (case mp of None \<Rightarrow> UB | Some m' \<Rightarrow> Some (m', r))
     }"

lemma finite_map_view: "finite (dom (map_view m))"
  by (simp add: map_view_def finite_dom_map_of)

lemma card_map_view:
  assumes "map_inv m"
  shows "card (dom (map_view m)) = unat (nodeSize m)"
proof -
  have "dom (map_view m) = mn_key ` set (entries m)"
    by (simp add: map_view_def dom_map_of_conv_image_fst node_kv_def image_image)
  moreover have "card (mn_key ` set (entries m)) = length (entries m)"
    using assms by (metis distinct_card length_map list.set_map map_inv_def)
  ultimately show ?thesis
    using assms by (simp add: map_inv_def)
qed

lemma empty_map_inv: "map_inv empty_map" "map_view empty_map = Map.empty"
  by (simp_all add: map_inv_def empty_map_def entries_def map_view_def)

lemma map_step_put:
  assumes "map_inv m" "unat (nodeSize m) < 2 ^ 30"
  shows "\<exists>m' r. map_step m (KvPut k v) = Some (m', r) \<and> map_inv m' \<and>
    kv_spec_step (map_view m) (KvPut k v) = (map_view m', r = HDF_SUCCESS)"
proof (cases "length v = 0 \<or> length v > 1000 \<or> length k > 1000")
  case True
  then show ?thesis using assms(1) by (auto simp: map_step_def MapSet_def)
next
  case False
  then have b: "0 < length v" "length v \<le> 1000" "length k \<le> 1000" by auto
  show ?thesis
  proof (cases "map_view m k")
    case None
    obtain m' where "MapInsertNew True True m k (MapHash k) v = Some (m', HDF_SUCCESS)"
      "map_inv m'" "map_view m' = (map_view m)(k \<mapsto> v)"
      using MapInsertNew_ok [OF assms _ None b(1,2)] by blast
    with None b show ?thesis
      by (simp add: map_step_def MapSet_miss [OF assms(1) None b])
  next
    case (Some old)
    show ?thesis
      by (rule MapSet_hit [OF assms(1) Some b, of True True])
        (use assms(1) Some b in \<open>auto simp: map_step_def\<close>)
  qed
qed

lemma map_step_erase:
  assumes "map_inv m"
  shows "\<exists>m' r. map_step m (KvErase k) = Some (m', r) \<and> map_inv m' \<and>
    kv_spec_step (map_view m) (KvErase k) = (map_view m', r = HDF_SUCCESS)"
proof (cases "map_view m k")
  case None
  then show ?thesis using assms by (auto simp: map_step_def MapErase_absent)
next
  case (Some v)
  then have "map_view m k \<noteq> None" by simp
  from MapErase_present [OF assms this] obtain m' where
    "MapErase (Some m) (Some k) = Some (Some m', HDF_SUCCESS)" "map_inv m'"
    "map_view m' = (map_view m)(k := None)" .
  with Some show ?thesis by (simp add: map_step_def)
qed

interpretation map_store: kv_store map_inv map_view map_step "\<lambda>m k. MapGet (Some m) (Some k)" "2 ^ 30"
proof unfold_locales
  fix m x
  assume inv: "map_inv m" and c: "card (dom (map_view m)) < 2 ^ 30"
  then have n: "unat (nodeSize m) < 2 ^ 30" by (simp only: card_map_view)
  show "\<exists>m' r. map_step m x = Some (m', r) \<and> map_inv m' \<and>
      kv_spec_step (map_view m) x = (map_view m', r = HDF_SUCCESS)"
    using map_step_put [OF inv n] map_step_erase [OF inv] by (cases x) (simp_all only:)
qed (simp_all add: MapGet_view finite_map_view)

section \<open>Properties\<close>

text \<open>
  C4. From a fresh map, every sequence of insertions and erasures (fewer than 2^30 calls,
  allocations succeeding) stays within defined behaviour, returns success exactly when
  the abstract finite map accepts the call, keeps the invariant of the table, and a later
  \<^verbatim>\<open>MapGet\<close> returns what the abstract map holds: hash collisions, rehashing and
  chain order never show.
\<close>

theorem map_run_refines:
  assumes "length xs \<le> 2 ^ 30"
  shows "\<exists>m' rs. kv_run map_step empty_map xs = Some (m', rs) \<and> map_inv m' \<and>
    kv_spec_run Map.empty xs = (map_view m', map (\<lambda>r. r = HDF_SUCCESS) rs) \<and>
    (\<forall>k. MapGet (Some m') (Some k) = Some (fst (kv_spec_run Map.empty xs) k))"
proof -
  have c: "card (dom (map_view empty_map)) + length xs \<le> 2 ^ 30"
    using assms by (simp add: empty_map_inv)
  show ?thesis
    using map_store.run_view [OF empty_map_inv(1) c] map_store.run_get [OF empty_map_inv(1) c]
    by (auto simp: empty_map_inv)
qed

theorem map_run_refines_witness:
  "\<exists>m' rs. kv_run map_step empty_map [KvPut ''a'' [1], KvPut ''b'' [2], KvErase ''a''] = Some (m', rs) \<and>
    MapGet (Some m') (Some ''b'') = Some (Some [2]) \<and> MapGet (Some m') (Some ''a'') = Some None"
  using map_run_refines [of "[KvPut ''a'' [1], KvPut ''b'' [2], KvErase ''a'']"] by auto

text \<open>
  C5. Allocation failures lose no data: on a map that already has a bucket array,
  \<^verbatim>\<open>MapSet\<close> stays within defined behaviour and keeps the invariant whichever of
  its two allocations fail; either it reports success and exactly the given key changed,
  or it reports an error and the stored map is unchanged.
\<close>

theorem MapSet_under_oom:
  assumes "map_inv m" "nodes m \<noteq> None" "unat (nodeSize m) < 2 ^ 30"
  shows "\<exists>m' r. MapSet a1 a2 (Some m) (Some key) (Some v) = Some (Some m', r) \<and> map_inv m' \<and>
    (if r = HDF_SUCCESS then map_view m' = (map_view m)(key \<mapsto> v) else map_view m' = map_view m)"
proof (cases "length v = 0 \<or> length v > 1000 \<or> length key > 1000")
  case True
  then show ?thesis using assms(1) by (auto simp: MapSet_def)
next
  case False
  then have b: "0 < length v" "length v \<le> 1000" "length key \<le> 1000" by auto
  show ?thesis
  proof (cases "map_view m key")
    case (Some old)
    show ?thesis
      by (rule MapSet_hit [OF assms(1) Some b, of a1 a2]) (use assms(1) in auto)
  next
    case None
    show ?thesis
    proof (cases a2)
      case True
      obtain m' where "MapInsertNew a1 True m key (MapHash key) v = Some (m', HDF_SUCCESS)"
        "map_inv m'" "map_view m' = (map_view m)(key \<mapsto> v)"
        using MapInsertNew_ok [OF assms(1,3) _ None b(1,2)] assms(2) by blast
      then show ?thesis by (simp add: MapSet_miss [OF assms(1) None b] True)
    next
      case False
      from MapEnlarge_table [OF assms(1,3)] assms(2) obtain m1 where m1: "MapEnlarge a1 m = Some m1"
        "table_ok m1" "mset (entries m1) = mset (entries m)" "nodeSize m1 = nodeSize m"
        by metis
      from map_same_entries [OF assms(1) m1(2-4)] show ?thesis
        by (simp add: MapSet_miss [OF assms(1) None b] MapInsertNew_def m1(1) MapCreateNode_def False)
    qed
  qed
qed

definition map1 :: hdf_map where
  "map1 = \<lparr>nodes = Some (replicate 8 []), nodeSize = 0, bucketSize = 8\<rparr>"

lemma map1_inv: "map_inv map1"
  by (auto simp: map_inv_def map1_def table_ok_def entries_def intro!: exI [of _ 3])

theorem MapSet_under_oom_witness:
  "\<exists>m' r. MapSet True False (Some map1) (Some ''k'') (Some [7]) = Some (Some m', r) \<and> map_inv m' \<and>
    (if r = HDF_SUCCESS then map_view m' = (map_view map1)(''k'' \<mapsto> [7]) else map_view m' = map_view map1)"
  by (rule MapSet_under_oom [OF map1_inv]) (simp_all add: map1_def)

text \<open>
  Enlarging the bucket array to any power of two from 8 on keeps the stored map, the
  number of nodes and the invariant: \<^verbatim>\<open>MapResize\<close> rehashes every node.
\<close>

theorem MapResize_keeps_map:
  assumes "map_inv m" "newSize = 2 ^ k" "3 \<le> k" "k < 32"
  shows "\<exists>m'. MapResize True m newSize = Some (m', HDF_SUCCESS) \<and> map_inv m' \<and>
    map_view m' = map_view m \<and> nodeSize m' = nodeSize m \<and>
    (\<exists>bs. nodes m' = Some bs)"
proof -
  have "nodes m = None \<or> table_ok m"
    using assms(1) by (auto simp: map_inv_def)
  from MapResize_table [OF this assms(2-4)] obtain m' where m': "MapResize True m newSize = Some (m', HDF_SUCCESS)"
    "table_ok m'" "mset (entries m') = mset (entries m)" "nodeSize m' = nodeSize m" .
  moreover have "\<exists>bs. nodes m' = Some bs" using m'(2) by (auto simp: table_ok_def)
  ultimately show ?thesis using map_same_entries [OF assms(1) m'(2-4)] by blast
qed

theorem MapResize_keeps_map_witness:
  "\<exists>m'. MapResize True map1 32 = Some (m', HDF_SUCCESS) \<and> map_inv m' \<and> map_view m' = map_view map1 \<and>
    nodeSize m' = nodeSize map1 \<and> (\<exists>bs. nodes m' = Some bs)"
  using MapResize_keeps_map [OF map1_inv, of 32 5] by simp

text \<open>
  The first insertion does not survive a failed allocation: \<^verbatim>\<open>MapSet\<close> ignores the
  status of \<^verbatim>\<open>MapResize\<close>, so on a fresh map whose bucket array could not be
  allocated the new node is linked through the NULL array.
\<close>

theorem MapSet_first_insert_oom:
  "MapSet False True (Some empty_map) (Some ''key'') (Some [1]) = UB"
  by (simp add: MapSet_def empty_map_def MapInsertNew_def MapEnlarge_def MapResize_def MapCreateNode_def
      MapAddNode_def MapBucket_def Let_def)

end
