(* ===== verification/Sbuf_Channel.thy ===== *)
theory Sbuf_Channel
  imports Hdf_Base
begin

text \<open>
  The interface of a serialisation buffer as its users see it (the table of functions
  \<^verbatim>\<open>struct HdfSBufImpl\<close> of utils/include/hdf_sbuf_impl.h): typed items are put
  at the end of the pending bytes and taken from their front. The laws say that an item
  is appended as its encoding or not at all, and that reading at the right type returns
  the item and consumes exactly its encoding.
\<close>

datatype sitem =
    SU64 u64 | SU32 u32 | SU16 u16 | SU8 u8
  | SI64 u64 | SI32 u32 | SI16 u16 | SI8 u8
  | SBuf "u8 list option" | SStr cstr

datatype stype = TU64 | TU32 | TU16 | TU8 | TI64 | TI32 | TI16 | TI8 | TBuf | TStr

fun type_of_item :: "sitem \<Rightarrow> stype" where
  "type_of_item (SU64 v) = TU64"
| "type_of_item (SU32 v) = TU32"
| "type_of_item (SU16 v) = TU16"
| "type_of_item (SU8 v) = TU8"
| "type_of_item (SI64 v) = TI64"
| "type_of_item (SI32 v) = TI32"
| "type_of_item (SI16 v) = TI16"
| "type_of_item (SI8 v) = TI8"
| "type_of_item (SBuf v) = TBuf"
| "type_of_item (SStr v) = TStr"

text \<open>The items that survive a round trip: buffers are NULL or not empty, strings are short.\<close>

fun item_wf :: "sitem \<Rightarrow> bool" where
  "item_wf (SBuf (Some d)) \<longleftrightarrow> 0 < length d \<and> length d < 2 ^ 31"
| "item_wf (SStr s) \<longleftrightarrow> wf_cstr s \<and> length s < 32767"
| "item_wf _ \<longleftrightarrow> True"

text \<open>The blocks an item is written as, and byte strings made of blocks padded to four bytes.\<close>

fun item_chunks :: "sitem \<Rightarrow> u8 list list" where
  "item_chunks (SU64 v) = [le_bytes 8 v]"
| "item_chunks (SU32 v) = [le_bytes 4 v]"
| "item_chunks (SU16 v) = [le_bytes 2 v]"
| "item_chunks (SU8 v) = [le_bytes 1 v]"
| "item_chunks (SI64 v) = [le_bytes 8 v]"
| "item_chunks (SI32 v) = [le_bytes 4 v]"
| "item_chunks (SI16 v) = [le_bytes 2 v]"
| "item_chunks (SI8 v) = [le_bytes 1 v]"
| "item_chunks (SBuf None) = [le_bytes 4 (0 :: u32)]"
| "item_chunks (SBuf (Some d)) = [le_bytes 4 (word_of_nat (length d) :: u32), d]"
| "item_chunks (SStr s) = [le_bytes 4 (word_of_nat (length s + 1) :: u32), bytes_of s @ [0]]"

fun padded :: "u8 list list \<Rightarrow> u8 list \<Rightarrow> bool" where
  "padded [] bs \<longleftrightarrow> bs = []"
| "padded (c # cs) bs \<longleftrightarrow>
     al4 (length c) \<le> length bs \<and> take (length c) bs = c \<and> padded cs (drop (al4 (length c)) bs)"

definition encodes :: "sitem \<Rightarrow> u8 list \<Rightarrow> bool" where
  "encodes x bs \<longleftrightarrow> padded (item_chunks x) bs"

definition chunks_size :: "u8 list list \<Rightarrow> nat" where
  "chunks_size cs = sum_list (map (\<lambda>c. al4 (length c)) cs)"

lemma padded_length: "padded cs bs \<Longrightarrow> length bs = chunks_size cs"
proof (induction cs bs rule: padded.induct)
  case (2 c cs bs)
  then show ?case by (simp add: chunks_size_def) (metis le_add_diff_inverse)
qed (simp add: chunks_size_def)

text \<open>Putting and getting a sequence, stopping at the first failure.\<close>

fun put_all :: "('b \<Rightarrow> sitem \<Rightarrow> 'b \<times> bool) \<Rightarrow> 'b \<Rightarrow> sitem list \<Rightarrow> 'b \<times> bool" where
  "put_all put b [] = (b, True)"
| "put_all put b (x # xs) =
     (let (b', ok) = put b x in if ok then put_all put b' xs else (b', False))"

fun get_all :: "('b \<Rightarrow> stype \<Rightarrow> 'b \<times> sitem option) \<Rightarrow> 'b \<Rightarrow> stype list \<Rightarrow> 'b \<times> sitem list option" where
  "get_all get b [] = (b, Some [])"
| "get_all get b (t # ts) =
     (case get b t of
        (b', None) \<Rightarrow> (b', None)
      | (b', Some x) \<Rightarrow>
          (case get_all get b' ts of
             (b'', None) \<Rightarrow> (b'', None)
           | (b'', Some xs) \<Rightarrow> (b'', Some (x # xs))))"

locale sbuf_channel =
  fixes ok :: "'b \<Rightarrow> bool"
    and pend :: "'b \<Rightarrow> u8 list"
    and put :: "'b \<Rightarrow> sitem \<Rightarrow> 'b \<times> bool"
    and get :: "'b \<Rightarrow> stype \<Rightarrow> 'b \<times> sitem option"
  assumes put_ok: "ok b \<Longrightarrow> item_wf x \<Longrightarrow> put b x = (b', True) \<Longrightarrow>
      ok b' \<and> (\<exists>bs. encodes x bs \<and> pend b' = pend b @ bs)"
    and put_fail: "ok b \<Longrightarrow> item_wf x \<Longrightarrow> put b x = (b', False) \<Longrightarrow> ok b' \<and> pend b' = pend b"
    and get_ok: "ok b \<Longrightarrow> item_wf x \<Longrightarrow> encodes x bs \<Longrightarrow> pend b = bs @ rest \<Longrightarrow>
      \<exists>b'. get b (type_of_item x) = (b', Some x) \<and> ok b' \<and> pend b' = rest"
begin

lemma put_all_ok:
  assumes "ok b" "\<forall>x \<in> set xs. item_wf x" "put_all put b xs = (b', True)"
  shows "ok b' \<and> (\<exists>bss. list_all2 encodes xs bss \<and> pend b' = pend b @ concat bss)"
  using assms
proof (induction xs arbitrary: b)
  case Nil
  then show ?case by auto
next
  case (Cons x xs)
  obtain b1 r where p: "put b x = (b1, r)" by (cases "put b x")
  with Cons.prems(3) have r: "r = True" and rest: "put_all put b1 xs = (b', True)"
    by (auto split: if_splits)
  from put_ok [OF Cons.prems(1) _ p [unfolded r]] Cons.prems(2) obtain bs where
    "ok b1" "encodes x bs" "pend b1 = pend b @ bs" by auto
  moreover from Cons.IH [OF this(1) _ rest] Cons.prems(2) obtain bss where
    "ok b'" "list_all2 encodes xs bss" "pend b' = pend b1 @ concat bss" by auto
  ultimately show ?case
    by (intro conjI exI [of _ "bs # bss"]) auto
qed

lemma get_all_ok:
  assumes "ok b" "\<forall>x \<in> set xs. item_wf x" "list_all2 encodes xs bss" "pend b = concat bss @ rest"
  shows "\<exists>b'. get_all get b (map type_of_item xs) = (b', Some xs) \<and> ok b' \<and> pend b' = rest"
  using assms
proof (induction xs arbitrary: b bss)
  case Nil
  then show ?case by simp
next
  case (Cons x xs)
  then obtain bs bss' where b: "bss = bs # bss'" "encodes x bs" "list_all2 encodes xs bss'"
    by (auto simp: list_all2_Cons1)
  with Cons.prems(4) have "pend b = bs @ (concat bss' @ rest)" by simp
  from get_ok [OF Cons.prems(1) _ b(2) this] Cons.prems(2) obtain b1 where
    b1: "get b (type_of_item x) = (b1, Some x)" "ok b1" "pend b1 = concat bss' @ rest" by auto
  from Cons.IH [OF b1(2) _ b(3) b1(3)] Cons.prems(2) b1(1) show ?case by auto
qed

text \<open>A whole message survives the trip, whatever was pending after it.\<close>

lemma round_trip:
  assumes "ok b" "pend b = []" "\<forall>x \<in> set xs. item_wf x" "put_all put b xs = (b', True)"
  shows "\<exists>b''. get_all get b' (map type_of_item xs) = (b'', Some xs) \<and> ok b'' \<and> pend b'' = []"
proof -
  from put_all_ok [OF assms(1,3,4)] assms(2) obtain bss where
    "ok b'" "list_all2 encodes xs bss" "pend b' = concat bss @ []" by auto
  from get_all_ok [OF this(1) assms(3) this(2,3)] show ?thesis by simp
qed

end

end
