(* ===== verification/Hdf_Sbuf_Raw.thy ===== *)
theory Hdf_Sbuf_Raw
  imports Sbuf_Channel
begin

text \<open>
  The raw serialisation buffer of utils/src/hdf_sbuf_impl_raw.c (64-bit \<^verbatim>\<open>size_t\<close>).
  A buffer is its data area with a write and a read position; every item is padded to
  four bytes. \<^verbatim>\<open>alloc n\<close> says whether the allocator grants a request of \<^verbatim>\<open>n\<close>
  bytes, and \<^verbatim>\<open>memcpy_s\<close> follows C11 Annex K (on a constraint violation the
  destination is zeroed and an error returned). A pointer into the data area is its
  offset.
\<close>

section \<open>Data\<close>

record sbuf_raw =
  writePos :: u64
  readPos :: u64
  capacity :: u64
  sdata :: "u8 list option"
  isBind :: bool

type_synonym osal_alloc = "u64 \<Rightarrow> bool"

abbreviation HDF_SBUF_GROW_SIZE_DEFAULT :: u64 where "HDF_SBUF_GROW_SIZE_DEFAULT \<equiv> 256"
text \<open>\<^verbatim>\<open>sizeof(struct HdfSBufRaw)\<close>: 41 function pointers, three positions, a pointer, a flag.\<close>

abbreviation SIZEOF_SBUF_RAW :: u64 where "SIZEOF_SBUF_RAW \<equiv> 368"

abbreviation HDF_SBUF_MAX_SIZE :: "'a::len word" where "HDF_SBUF_MAX_SIZE \<equiv> 524288"

section \<open>Positions\<close>

definition SbufRawImplGetAlignSize :: "u64 \<Rightarrow> u64" where
  "SbufRawImplGetAlignSize s = (s + 4 - 1) AND NOT (4 - 1)"

definition SbufRawImplGetLeftWriteSize :: "sbuf_raw \<Rightarrow> u64" where
  "SbufRawImplGetLeftWriteSize sb =
     (if capacity sb < writePos sb then 0 else capacity sb - writePos sb)"

definition SbufRawImplGetLeftReadSize :: "sbuf_raw \<Rightarrow> u64" where
  "SbufRawImplGetLeftReadSize sb =
     (if writePos sb < readPos sb then 0 else writePos sb - readPos sb)"

definition SbufRawImplWriteRollback :: "sbuf_raw \<Rightarrow> u32 \<Rightarrow> sbuf_raw \<times> bool" where
  "SbufRawImplWriteRollback sb s =
     (let alignSize = SbufRawImplGetAlignSize (ucast s) in
      if writePos sb < alignSize then (sb, False)
      else (sb\<lparr>writePos := writePos sb - alignSize\<rparr>, True))"

definition SbufRawImplReadRollback :: "sbuf_raw \<Rightarrow> u32 \<Rightarrow> sbuf_raw \<times> bool" where
  "SbufRawImplReadRollback sb s =
     (let alignSize = SbufRawImplGetAlignSize (ucast s) in
      if readPos sb < alignSize then (sb, False)
      else (sb\<lparr>readPos := readPos sb - alignSize\<rparr>, True))"

definition SbufRawImplGetData :: "sbuf_raw \<Rightarrow> u8 list option" where
  "SbufRawImplGetData sb = sdata sb"

definition SbufRawImplSetDataSize :: "sbuf_raw \<Rightarrow> u64 \<Rightarrow> sbuf_raw" where
  "SbufRawImplSetDataSize sb s =
     (if s \<le> capacity sb then sb\<lparr>readPos := 0, writePos := s\<rparr> else sb)"

definition SbufRawImplFlush :: "sbuf_raw \<Rightarrow> sbuf_raw" where
  "SbufRawImplFlush sb = sb\<lparr>readPos := 0, writePos := 0\<rparr>"

definition SbufRawImplGetCapacity :: "sbuf_raw \<Rightarrow> u64" where
  "SbufRawImplGetCapacity sb = capacity sb"

definition SbufRawImplGetDataSize :: "sbuf_raw \<Rightarrow> u64" where
  "SbufRawImplGetDataSize sb = writePos sb"

section \<open>Growing and writing\<close>

text \<open>
  \<^verbatim>\<open>newSize\<close> is a 32-bit variable: the aligned sum is truncated before the checks.
\<close>

definition SbufRawImplGrow :: "osal_alloc \<Rightarrow> sbuf_raw \<Rightarrow> u32 \<Rightarrow> sbuf_raw \<times> bool" where
  "SbufRawImplGrow alloc sb growSize =
     (if isBind sb then (sb, False)
      else
        (let newSize = ucast (SbufRawImplGetAlignSize (capacity sb + ucast growSize)) :: u32 in
         if ucast newSize < capacity sb then (sb, False)
         else if newSize > HDF_SBUF_MAX_SIZE then (sb, False)
         else if \<not> alloc (ucast newSize) then (sb, False)
         else
           (let zeros = replicate (unat newSize) 0 in
            case sdata sb of
              None \<Rightarrow> (sb\<lparr>sdata := Some zeros, capacity := ucast newSize\<rparr>, True)
            | Some d \<Rightarrow>
                if unat (writePos sb) > unat newSize then (sb, False)
                else (sb\<lparr>sdata := Some (overwrite zeros 0 (take (unat (writePos sb)) d)),
                         capacity := ucast newSize\<rparr>, True))))"

text \<open>
  \<^verbatim>\<open>memcpy_s(d + pos, destMax, src, count)\<close> on the data area: the new area and whether
  it returned \<^verbatim>\<open>EOK\<close>.
\<close>

definition memcpy_s_at :: "u8 list \<Rightarrow> nat \<Rightarrow> nat \<Rightarrow> u8 list \<Rightarrow> u8 list \<times> bool" where
  "memcpy_s_at d pos destMax src =
     (if length src \<le> destMax then (overwrite d pos src, True)
      else (overwrite d pos (replicate destMax 0), False))"

text \<open>The growth step of \<^verbatim>\<open>SbufRawImplWrite\<close>, taken when the item does not fit.\<close>

definition sbuf_reserve :: "osal_alloc \<Rightarrow> sbuf_raw \<Rightarrow> u64 \<Rightarrow> sbuf_raw \<times> bool" where
  "sbuf_reserve alloc sb alignSize =
     (if alignSize > SbufRawImplGetLeftWriteSize sb
      then SbufRawImplGrow alloc sb
             (ucast (if alignSize > HDF_SBUF_GROW_SIZE_DEFAULT
                     then alignSize + HDF_SBUF_GROW_SIZE_DEFAULT
                     else HDF_SBUF_GROW_SIZE_DEFAULT))
      else (sb, True))"

definition SbufRawImplWrite :: "osal_alloc \<Rightarrow> sbuf_raw \<Rightarrow> u8 list option \<Rightarrow> u32 \<Rightarrow> sbuf_raw \<times> bool" where
  "SbufRawImplWrite alloc sb dat s =
     (case (sdata sb, dat) of
        (Some _, Some src) \<Rightarrow>
          if s = 0 then (sb, True)
          else
            (let alignSize = SbufRawImplGetAlignSize (ucast s) in
             if alignSize < ucast s then (sb, False)
             else
               (let (sb1, ok) = sbuf_reserve alloc sb alignSize in
                if \<not> ok then (sb1, False)
                else case sdata sb1 of
                  None \<Rightarrow> (sb1, False)
                | Some d \<Rightarrow>
                    (let (d', eok) = memcpy_s_at d (unat (writePos sb1))
                                       (unat (SbufRawImplGetLeftWriteSize sb1)) (take (unat s) src) in
                     if \<not> eok then (sb1\<lparr>sdata := Some d'\<rparr>, False)
                     else (sb1\<lparr>sdata := Some d', writePos := writePos sb1 + alignSize\<rparr>, True))))
      | _ \<Rightarrow> (sb, False))"

text \<open>
  \<^verbatim>\<open>SbufRawImplRead\<close>: \<^verbatim>\<open>dst\<close> says whether the destination pointer is non-NULL;
  on success the bytes stored there are returned.
\<close>

definition SbufRawImplRead :: "sbuf_raw \<Rightarrow> bool \<Rightarrow> u32 \<Rightarrow> sbuf_raw \<times> u8 list option" where
  "SbufRawImplRead sb dst readSize =
     (case sdata sb of
        None \<Rightarrow> (sb, None)
      | Some d \<Rightarrow>
          if \<not> dst then (sb, None)
          else if readSize = 0 then (sb, Some [])
          else
            (let alignSize = SbufRawImplGetAlignSize (ucast readSize) in
             if alignSize > SbufRawImplGetLeftReadSize sb then (sb, None)
             else (sb\<lparr>readPos := readPos sb + alignSize\<rparr>,
                   Some (take (unat readSize) (drop (unat (readPos sb)) d)))))"

section \<open>Scalars\<close>

definition SbufRawImplWriteUint64 :: "osal_alloc \<Rightarrow> sbuf_raw \<Rightarrow> u64 \<Rightarrow> sbuf_raw \<times> bool" where
  "SbufRawImplWriteUint64 alloc sb v = SbufRawImplWrite alloc sb (Some (le_bytes 8 v)) 8"

definition SbufRawImplWriteUint32 :: "osal_alloc \<Rightarrow> sbuf_raw \<Rightarrow> u32 \<Rightarrow> sbuf_raw \<times> bool" where
  "SbufRawImplWriteUint32 alloc sb v = SbufRawImplWrite alloc sb (Some (le_bytes 4 v)) 4"

definition SbufRawImplWriteUint16 :: "osal_alloc \<Rightarrow> sbuf_raw \<Rightarrow> u16 \<Rightarrow> sbuf_raw \<times> bool" where
  "SbufRawImplWriteUint16 alloc sb v = SbufRawImplWrite alloc sb (Some (le_bytes 2 v)) 2"

definition SbufRawImplWriteUint8 :: "osal_alloc \<Rightarrow> sbuf_raw \<Rightarrow> u8 \<Rightarrow> sbuf_raw \<times> bool" where
  "SbufRawImplWriteUint8 alloc sb v = SbufRawImplWrite alloc sb (Some (le_bytes 1 v)) 1"

text \<open>A signed integer is the word with its two's complement bits.\<close>

definition SbufRawImplWriteInt64 :: "osal_alloc \<Rightarrow> sbuf_raw \<Rightarrow> u64 \<Rightarrow> sbuf_raw \<times> bool" where
  "SbufRawImplWriteInt64 alloc sb v = SbufRawImplWrite alloc sb (Some (le_bytes 8 v)) 8"

definition SbufRawImplWriteInt32 :: "osal_alloc \<Rightarrow> sbuf_raw \<Rightarrow> u32 \<Rightarrow> sbuf_raw \<times> bool" where
  "SbufRawImplWriteInt32 alloc sb v = SbufRawImplWrite alloc sb (Some (le_bytes 4 v)) 4"

definition SbufRawImplWriteInt16 :: "osal_alloc \<Rightarrow> sbuf_raw \<Rightarrow> u16 \<Rightarrow> sbuf_raw \<times> bool" where
  "SbufRawImplWriteInt16 alloc sb v = SbufRawImplWrite alloc sb (Some (le_bytes 2 v)) 2"

definition SbufRawImplWriteInt8 :: "osal_alloc \<Rightarrow> sbuf_raw \<Rightarrow> u8 \<Rightarrow> sbuf_raw \<times> bool" where
  "SbufRawImplWriteInt8 alloc sb v = SbufRawImplWrite alloc sb (Some (le_bytes 1 v)) 1"

text \<open>Reading a scalar: the bytes read, as an integer.\<close>

definition read_scalar :: "sbuf_raw \<times> u8 list option \<Rightarrow> sbuf_raw \<times> ('a::len word) option" where
  "read_scalar r = (fst r, map_option le_word (snd r))"

definition SbufRawImplReadUint64 :: "sbuf_raw \<Rightarrow> bool \<Rightarrow> sbuf_raw \<times> u64 option" where
  "SbufRawImplReadUint64 sb out = read_scalar (SbufRawImplRead sb out 8)"

definition SbufRawImplReadUint32 :: "sbuf_raw \<Rightarrow> bool \<Rightarrow> sbuf_raw \<times> u32 option" where
  "SbufRawImplReadUint32 sb out = read_scalar (SbufRawImplRead sb out 4)"

definition SbufRawImplReadUint16 :: "sbuf_raw \<Rightarrow> bool \<Rightarrow> sbuf_raw \<times> u16 option" where
  "SbufRawImplReadUint16 sb out = read_scalar (SbufRawImplRead sb out 2)"

definition SbufRawImplReadUint8 :: "sbuf_raw \<Rightarrow> bool \<Rightarrow> sbuf_raw \<times> u8 option" where
  "SbufRawImplReadUint8 sb out = read_scalar (SbufRawImplRead sb out 1)"

definition SbufRawImplReadInt64 :: "sbuf_raw \<Rightarrow> bool \<Rightarrow> sbuf_raw \<times> u64 option" where
  "SbufRawImplReadInt64 sb out = read_scalar (SbufRawImplRead sb out 8)"

definition SbufRawImplReadInt32 :: "sbuf_raw \<Rightarrow> bool \<Rightarrow> sbuf_raw \<times> u32 option" where
  "SbufRawImplReadInt32 sb out = read_scalar (SbufRawImplRead sb out 4)"

definition SbufRawImplReadInt16 :: "sbuf_raw \<Rightarrow> bool \<Rightarrow> sbuf_raw \<times> u16 option" where
  "SbufRawImplReadInt16 sb out = read_scalar (SbufRawImplRead sb out 2)"

definition SbufRawImplReadInt8 :: "sbuf_raw \<Rightarrow> bool \<Rightarrow> sbuf_raw \<times> u8 option" where
  "SbufRawImplReadInt8 sb out = read_scalar (SbufRawImplRead sb out 1)"

section \<open>Buffers and strings\<close>

definition SbufRawImplWriteBuffer :: "osal_alloc \<Rightarrow> sbuf_raw \<Rightarrow> u8 list option \<Rightarrow> u32 \<Rightarrow> sbuf_raw \<times> bool" where
  "SbufRawImplWriteBuffer alloc sb dat writeSize =
     (if dat = None then SbufRawImplWriteInt32 alloc sb 0
      else
        (let (sb1, ok1) = SbufRawImplWriteInt32 alloc sb writeSize in
         if \<not> ok1 then (sb1, False)
         else
           (let (sb2, ok2) = SbufRawImplWrite alloc sb1 dat writeSize in
            if \<not> ok2 then (fst (SbufRawImplWriteRollback sb2 4), False)
            else (sb2, True))))"

definition SbufRawImplWriteString :: "osal_alloc \<Rightarrow> sbuf_raw \<Rightarrow> cstr option \<Rightarrow> sbuf_raw \<times> bool" where
  "SbufRawImplWriteString alloc sb v =
     SbufRawImplWriteBuffer alloc sb (map_option (\<lambda>s. bytes_of s @ [0]) v)
       (case v of None \<Rightarrow> 0 | Some s \<Rightarrow> word_of_nat (length s + 1))"

text \<open>
  \<^verbatim>\<open>SbufRawImplReadBuffer\<close>: on success the pointer stored in \<^verbatim>\<open>*data\<close> (NULL or an
  offset) and the size stored in \<^verbatim>\<open>*readSize\<close>. \<^verbatim>\<open>buffSize\<close> is a signed
  \<^verbatim>\<open>int\<close>, sign-extended when it is passed as a \<^verbatim>\<open>size_t\<close>.
\<close>

definition SbufRawImplReadBuffer :: "sbuf_raw \<Rightarrow> bool \<Rightarrow> sbuf_raw \<times> (u64 option \<times> u32) option" where
  "SbufRawImplReadBuffer sb out =
     (if sdata sb = None \<or> \<not> out then (sb, None)
      else
        (let (sb1, r) = SbufRawImplReadInt32 sb True in
         case r of
           None \<Rightarrow> (sb1, None)
         | Some buffSize \<Rightarrow>
             if buffSize = 0 then (sb1, Some (None, 0))
             else
               (let alignSize = SbufRawImplGetAlignSize (scast buffSize) in
                if alignSize > SbufRawImplGetLeftReadSize sb1
                then (fst (SbufRawImplReadRollback sb1 4), None)
                else (sb1\<lparr>readPos := readPos sb1 + alignSize\<rparr>, Some (Some (readPos sb1), buffSize)))))"

text \<open>
  \<^verbatim>\<open>SbufRawImplReadString\<close>: the offset of the string in the data area, whose last
  byte is overwritten with NUL.
\<close>

definition SbufRawImplReadString :: "sbuf_raw \<Rightarrow> sbuf_raw \<times> u64 option" where
  "SbufRawImplReadString sb =
     (case sdata sb of
        None \<Rightarrow> (sb, None)
      | Some d \<Rightarrow>
          (let (sb1, r) = SbufRawImplReadInt32 sb True in
           case r of
             None \<Rightarrow> (sb1, None)
           | Some strLen \<Rightarrow>
               if sint strLen \<le> 0 then (sb1, None)
               else
                 (let alignSize = SbufRawImplGetAlignSize (scast strLen) in
                  if sint strLen > 32767 \<or> alignSize > SbufRawImplGetLeftReadSize sb1
                  then (fst (SbufRawImplReadRollback sb1 4), None)
                  else
                    (let p = readPos sb1 in
                     (sb1\<lparr>readPos := readPos sb1 + alignSize,
                          sdata := Some (d[unat p + (unat strLen - 1) := 0])\<rparr>, Some p)))))"

text \<open>The C string at an offset of the data area.\<close>

definition sbuf_cstr :: "sbuf_raw \<Rightarrow> u64 \<Rightarrow> cstr" where
  "sbuf_cstr sb p = (case sdata sb of None \<Rightarrow> [] | Some d \<Rightarrow> cstr_at (drop (unat p) d))"

section \<open>Creation, copy and move\<close>

definition SbufRawImplNewInstance :: "osal_alloc \<Rightarrow> u64 \<Rightarrow> sbuf_raw option" where
  "SbufRawImplNewInstance alloc cap =
     (if cap > HDF_SBUF_MAX_SIZE then None
      else if \<not> alloc SIZEOF_SBUF_RAW then None
      else if \<not> alloc cap then None
      else Some \<lparr>writePos = 0, readPos = 0, capacity = cap,
                 sdata = Some (replicate (unat cap) 0), isBind = False\<rparr>)"

definition SbufObtainRaw :: "osal_alloc \<Rightarrow> u64 \<Rightarrow> sbuf_raw option" where
  "SbufObtainRaw alloc cap = SbufRawImplNewInstance alloc cap"

text \<open>Binding to \<^verbatim>\<open>size\<close> bytes of memory at the address \<^verbatim>\<open>base\<close>, given with their contents.\<close>

definition SbufBindRaw :: "osal_alloc \<Rightarrow> u64 \<Rightarrow> u8 list \<Rightarrow> u64 \<Rightarrow> sbuf_raw option" where
  "SbufBindRaw alloc base mem s =
     (if base = 0 \<or> s = 0 then None
      else if base AND 3 \<noteq> 0 then None
      else if \<not> alloc SIZEOF_SBUF_RAW then None
      else Some \<lparr>writePos = s, readPos = 0, capacity = s,
                 sdata = Some (take (unat s) mem), isBind = True\<rparr>)"

definition SbufRawImplCopy :: "osal_alloc \<Rightarrow> sbuf_raw \<Rightarrow> sbuf_raw option" where
  "SbufRawImplCopy alloc sb =
     (case sdata sb of
        None \<Rightarrow> None
      | Some d \<Rightarrow>
          (case SbufRawImplNewInstance alloc (capacity sb) of
             None \<Rightarrow> None
           | Some new \<Rightarrow>
               Some (new\<lparr>capacity := capacity sb, readPos := 0, writePos := writePos sb,
                         sdata := map_option (\<lambda>n. overwrite n 0 (take (unat (capacity sb)) d)) (sdata new)\<rparr>)))"

text \<open>\<^verbatim>\<open>SbufRawImplMove\<close> returns the old buffer, emptied, and the new one.\<close>

definition SbufRawImplMove :: "osal_alloc \<Rightarrow> sbuf_raw \<Rightarrow> sbuf_raw \<times> sbuf_raw option" where
  "SbufRawImplMove alloc sb =
     (if isBind sb then (sb, None)
      else if \<not> alloc SIZEOF_SBUF_RAW then (sb, None)
      else (SbufRawImplFlush (sb\<lparr>sdata := None, capacity := 0\<rparr>),
            Some \<lparr>writePos = writePos sb, readPos = 0, capacity = capacity sb,
                  sdata = sdata sb, isBind = False\<rparr>))"

definition SbufRawImplTransDataOwnership :: "sbuf_raw \<Rightarrow> sbuf_raw" where
  "SbufRawImplTransDataOwnership sb = sb\<lparr>isBind := False\<rparr>"

text \<open>\<^verbatim>\<open>SbufRawImplRecycle\<close>: the data area it frees, if it owns one.\<close>

definition SbufRawImplRecycle :: "sbuf_raw \<Rightarrow> u8 list option" where
  "SbufRawImplRecycle sb = (if \<not> isBind sb then sdata sb else None)"

section \<open>Invariant and pending bytes\<close>

definition sbytes :: "sbuf_raw \<Rightarrow> u8 list" where
  "sbytes sb = (case sdata sb of None \<Rightarrow> [] | Some d \<Rightarrow> d)"

text \<open>
  The data area has the capacity's length and the positions are in order. The bound on
  the capacity is what any object in memory satisfies.
\<close>

definition sbuf_ok :: "sbuf_raw \<Rightarrow> bool" where
  "sbuf_ok sb \<longleftrightarrow> sdata sb \<noteq> None \<and> length (sbytes sb) = unat (capacity sb) \<and>
     unat (readPos sb) \<le> unat (writePos sb) \<and> unat (writePos sb) \<le> unat (capacity sb) \<and>
     unat (capacity sb) < 2 ^ 62"

definition pending :: "sbuf_raw \<Rightarrow> u8 list" where
  "pending sb = take (unat (writePos sb) - unat (readPos sb)) (drop (unat (readPos sb)) (sbytes sb))"

lemma length_pending:
  "sbuf_ok sb \<Longrightarrow> length (pending sb) = unat (writePos sb) - unat (readPos sb)"
  by (auto simp: sbuf_ok_def pending_def min_def)

lemma unat_GetAlignSize:
  "unat s + 3 < 2 ^ 64 \<Longrightarrow> unat (SbufRawImplGetAlignSize s) = al4 (unat s)"
proof -
  assume "unat s + 3 < 2 ^ 64"
  moreover have "SbufRawImplGetAlignSize s = (s + 3) AND NOT 3"
    unfolding SbufRawImplGetAlignSize_def by (rule arg_cong2 [of _ _ _ _ "(AND)"]) simp_all
  ultimately show ?thesis
    using unat_align4 [of s] by simp
qed

lemma unat_GetAlignSize_u32 [simp]:
  "unat (SbufRawImplGetAlignSize (ucast (s :: u32))) = al4 (unat s)"
proof -
  have "unat s < 2 ^ LENGTH(32)" by (rule unsigned_less)
  then show ?thesis
    using unat_GetAlignSize [of "ucast s"] by (simp add: unat_ucast_up_simp)
qed

lemma unat_LeftWriteSize:
  "sbuf_ok sb \<Longrightarrow> unat (SbufRawImplGetLeftWriteSize sb) = unat (capacity sb) - unat (writePos sb)"
  by (auto simp: SbufRawImplGetLeftWriteSize_def sbuf_ok_def word_less_nat_alt unat_sub word_le_nat_alt)

lemma unat_LeftReadSize:
  "sbuf_ok sb \<Longrightarrow> unat (SbufRawImplGetLeftReadSize sb) = length (pending sb)"
  by (auto simp: SbufRawImplGetLeftReadSize_def length_pending sbuf_ok_def word_less_nat_alt unat_sub
      word_le_nat_alt)

section \<open>Growing\<close>

lemma Grow_fail: "SbufRawImplGrow alloc sb g = (sb', False) \<Longrightarrow> sb' = sb"
  by (auto simp: SbufRawImplGrow_def Let_def split: if_splits option.splits)

lemma Grow_ok:
  assumes "sbuf_ok sb" "SbufRawImplGrow alloc sb g = (sb', True)"
  shows "sbuf_ok sb'" "writePos sb' = writePos sb" "readPos sb' = readPos sb" "isBind sb' = isBind sb"
    "pending sb' = pending sb" "unat (capacity sb) \<le> unat (capacity sb')"
    "take (unat (writePos sb)) (sbytes sb') = take (unat (writePos sb)) (sbytes sb)"
proof -
  let ?n = "ucast (SbufRawImplGetAlignSize (capacity sb + ucast g)) :: u32"
  obtain d where d: "sdata sb = Some d" using assms(1) by (auto simp: sbuf_ok_def)
  have up: "unat (ucast ?n :: u64) = unat ?n" by (simp add: unat_ucast_up_simp)
  from assms(2) d have cond: "\<not> isBind sb" "\<not> (ucast ?n :: u64) < capacity sb" "\<not> ?n > 524288"
    and sb': "sb' = sb\<lparr>sdata := Some (overwrite (replicate (unat ?n) 0) 0 (take (unat (writePos sb)) d)),
        capacity := ucast ?n\<rparr>"
    by (auto simp: SbufRawImplGrow_def Let_def split: if_splits)
  have ge: "unat (capacity sb) \<le> unat ?n"
    using cond(2) by (simp add: word_less_nat_alt up)
  have le: "unat ?n \<le> 524288"
    using cond(3) by (simp add: word_less_nat_alt)
  have w: "unat (writePos sb) \<le> length d" "unat (readPos sb) \<le> unat (writePos sb)"
    and len: "length d = unat (capacity sb)"
    using assms(1) d by (auto simp: sbuf_ok_def sbytes_def)
  have bytes: "sbytes sb' = take (unat (writePos sb)) d @ replicate (unat ?n - unat (writePos sb)) 0"
    using w len ge by (simp add: sb' sbytes_def overwrite_def)
  show "writePos sb' = writePos sb" "readPos sb' = readPos sb" "isBind sb' = isBind sb"
    by (simp_all add: sb')
  show "unat (capacity sb) \<le> unat (capacity sb')" using ge by (simp add: sb' up)
  show "take (unat (writePos sb)) (sbytes sb') = take (unat (writePos sb)) (sbytes sb)"
    using w by (simp add: bytes) (simp add: sbytes_def d)
  show "pending sb' = pending sb"
    using w unfolding pending_def bytes by (simp add: sb' sbytes_def d take_drop)
  have "length (sbytes sb') = unat ?n" using w len ge by (simp add: bytes)
  then show "sbuf_ok sb'"
    using w ge le len by (simp add: sbuf_ok_def) (simp add: sb' up)
qed

text \<open>Growing succeeds on an owned buffer whose new size stays within the limit.\<close>

lemma Grow_succeeds:
  assumes "sbuf_ok sb" "\<not> isBind sb" "al4 (unat (capacity sb) + unat g) \<le> 524288" "alloc = (\<lambda>_. True)"
  shows "\<exists>sb'. SbufRawImplGrow alloc sb g = (sb', True) \<and> unat (capacity sb') = al4 (unat (capacity sb) + unat g)"
proof -
  let ?s = "capacity sb + ucast g"
  have b: "unat (capacity sb) + unat g \<le> 524288"
    using assms(3) al4_bounds(1) [of "unat (capacity sb) + unat g"] by linarith
  then have "unat ?s = unat (capacity sb) + unat g"
    by (simp add: unat_word_ariths(1) unat_ucast_up_simp)
  then have al: "unat (SbufRawImplGetAlignSize ?s) = al4 (unat (capacity sb) + unat g)"
    using unat_GetAlignSize [of ?s] b by simp
  then have n: "unat (ucast (SbufRawImplGetAlignSize ?s) :: u32) = al4 (unat (capacity sb) + unat g)"
    using assms(3) by (simp add: unsigned_ucast_eq take_bit_eq_mod)
  obtain d where d: "sdata sb = Some d" "unat (writePos sb) \<le> unat (capacity sb)"
    using assms(1) by (auto simp: sbuf_ok_def)
  have "unat (capacity sb) \<le> al4 (unat (capacity sb) + unat g)"
    using al4_bounds(1) [of "unat (capacity sb) + unat g"] by linarith
  then show ?thesis
    using assms(2-4) d n
    by (simp add: SbufRawImplGrow_def Let_def word_less_nat_alt unat_ucast_up_simp)
qed

lemma al4_dvd: "4 dvd al4 n"
  by (simp add: al4_def)

text \<open>The checks of \<^verbatim>\<open>SbufRawImplGrow\<close> reject every truncated size.\<close>

lemma Grow_capacity:
  assumes "sbuf_ok sb" "SbufRawImplGrow alloc sb g = (sb', True)" "unat g + 3 < 2 ^ 32"
  shows "unat (capacity sb') = al4 (unat (capacity sb) + unat g)" "unat (capacity sb') \<le> 524288"
proof -
  let ?s = "capacity sb + ucast g" and ?t = "al4 (unat (capacity sb) + unat g)"
  have cap: "unat (capacity sb) < 2 ^ 62" using assms(1) by (simp add: sbuf_ok_def)
  then have "unat ?s = unat (capacity sb) + unat g"
    using assms(3) by (simp add: unat_word_ariths(1) unat_ucast_up_simp)
  then have "unat (SbufRawImplGetAlignSize ?s) = ?t"
    using unat_GetAlignSize [of ?s] cap assms(3) by simp
  then have n: "unat (ucast (SbufRawImplGetAlignSize ?s) :: u32) = ?t mod 2 ^ 32"
    by (simp add: unsigned_ucast_eq take_bit_eq_mod)
  have c': "unat (capacity sb') = ?t mod 2 ^ 32" "unat (capacity sb') \<le> 524288"
    using assms(2) n by (auto simp: SbufRawImplGrow_def Let_def unat_ucast_up_simp word_less_nat_alt
        split: if_splits option.splits)
  then show "unat (capacity sb') \<le> 524288" by blast
  have ge: "unat (capacity sb) \<le> unat (capacity sb')" by (rule Grow_ok(6) [OF assms(1,2)])
  have "?t < 2 ^ 32"
  proof (rule ccontr)
    assume "\<not> ?t < 2 ^ 32"
    moreover have "?t < unat (capacity sb) + 2 ^ 32"
      using al4_bounds(2) [of "unat (capacity sb) + unat g"] assms(3) by linarith
    moreover have "unat (capacity sb) < 2 ^ 32" using ge c'(2) by simp
    ultimately have "?t mod 2 ^ 32 = ?t - 2 ^ 32" by (simp add: mod_if)
    then show False using \<open>?t < unat (capacity sb) + 2 ^ 32\<close> \<open>\<not> ?t < 2 ^ 32\<close> ge c'(1) by linarith
  qed
  then show "unat (capacity sb') = ?t" using c'(1) by simp
qed

section \<open>Writing and reading one block\<close>

text \<open>The growth step: on success either it fits or the buffer grew; the contents stay.\<close>

lemma sbuf_reserve_cases:
  assumes "sbuf_reserve alloc sb a = (sb', ok)"
  obtains (same) "sb' = sb" "ok \<longrightarrow> \<not> a > SbufRawImplGetLeftWriteSize sb"
  | (grow) "a > SbufRawImplGetLeftWriteSize sb" "ok"
      "SbufRawImplGrow alloc sb (ucast (if a > 256 then a + 256 else 256)) = (sb', True)"
proof (cases "a > SbufRawImplGetLeftWriteSize sb")
  case True
  with assms have g: "SbufRawImplGrow alloc sb (ucast (if a > 256 then a + 256 else 256)) = (sb', ok)"
    unfolding sbuf_reserve_def by (simp only: if_True)
  then show ?thesis
    using Grow_fail [of alloc sb _ sb'] True same grow by (cases ok) auto
next
  case False
  with assms show ?thesis using same by (simp add: sbuf_reserve_def)
qed

lemma sbuf_reserve_ok:
  assumes "sbuf_ok sb" "sbuf_reserve alloc sb a = (sb', ok)"
  shows "sbuf_ok sb'" "writePos sb' = writePos sb" "readPos sb' = readPos sb" "isBind sb' = isBind sb"
    "pending sb' = pending sb"
  using assms(2)
  by (cases rule: sbuf_reserve_cases; use Grow_ok [OF assms(1)] assms(1) in auto)+

lemma sbuf_reserve_fits:
  assumes "sbuf_ok sb" "sbuf_reserve alloc sb a = (sb', True)" "unat a < 2 ^ 33"
  shows "unat a \<le> unat (capacity sb') - unat (writePos sb') \<or>
    2 ^ 32 \<le> unat a + 259 \<and> unat (capacity sb') \<le> 524288"
  using assms(2)
proof (cases rule: sbuf_reserve_cases)
  case same
  then show ?thesis
    using unat_LeftWriteSize [OF assms(1)] by (simp add: word_less_nat_alt)
next
  case grow
  let ?g = "ucast (if a > 256 then a + 256 else 256) :: u32"
  show ?thesis
  proof (cases "unat a + 259 < 2 ^ 32")
    case True
    have "unat (a + 256) = unat a + 256"
      using assms(3) by (simp add: unat_word_ariths(1))
    then have g: "unat ?g = (if unat a > 256 then unat a + 256 else 256)"
      using True by (simp add: unsigned_ucast_eq take_bit_eq_mod word_less_nat_alt)
    then have "unat ?g + 3 < 2 ^ 32" using True by auto
    from Grow_capacity(1) [OF assms(1) grow(3) this]
    have "unat (capacity sb) + unat a \<le> unat (capacity sb')"
      using al4_bounds(1) [of "unat (capacity sb) + unat ?g"] g by (auto split: if_splits)
    moreover have "unat (writePos sb') \<le> unat (capacity sb)"
      using assms(1) Grow_ok(2) [OF assms(1) grow(3)] by (simp add: sbuf_ok_def)
    ultimately show ?thesis by linarith
  next
    case False
    have "unat (capacity sb') \<le> 524288"
      using grow(3) by (auto simp: SbufRawImplGrow_def Let_def unat_ucast_up_simp word_less_nat_alt
        split: if_splits option.splits)
    with False show ?thesis by simp
  qed
qed

lemma pending_append:
  assumes "sbuf_ok sb" "unat (writePos sb) + unat a \<le> unat (capacity sb)" "length src \<le> unat a"
    and "d' = overwrite (sbytes sb) (unat (writePos sb)) src"
  shows "sbuf_ok (sb\<lparr>sdata := Some d', writePos := writePos sb + a\<rparr>)"
    "pending (sb\<lparr>sdata := Some d', writePos := writePos sb + a\<rparr>) = pending sb @ src @
      take (unat a - length src) (drop (unat (writePos sb) + length src) (sbytes sb))"
proof -
  let ?w = "unat (writePos sb)" and ?r = "unat (readPos sb)"
  have len: "length (sbytes sb) = unat (capacity sb)" and ord: "?r \<le> ?w" "?w \<le> unat (capacity sb)"
    and cap: "unat (capacity sb) < 2 ^ 62"
    using assms(1) by (auto simp: sbuf_ok_def)
  have w': "unat (writePos sb + a) = ?w + unat a"
    using assms(2) cap by (simp add: unat_word_ariths(1))
  have len': "length d' = length (sbytes sb)"
    using assms(2-4) len by simp
  then show "sbuf_ok (sb\<lparr>sdata := Some d', writePos := writePos sb + a\<rparr>)"
    using assms(1,2) len by (simp add: sbuf_ok_def w') (simp add: sbytes_def)
  have "drop ?w d' = src @ drop (?w + length src) (sbytes sb)"
    using assms(2-4) len by (simp add: overwrite_def)
  moreover have "take ?w d' = take ?w (sbytes sb)"
    using assms(4) ord len by simp
  moreover have "take (?w + unat a) d' = take ?w d' @ take (unat a) (drop ?w d')"
    by (rule take_add)
  ultimately have "take (?w + unat a) d' = take ?w (sbytes sb) @ src @
      take (unat a - length src) (drop (?w + length src) (sbytes sb))"
    using assms(3) by simp
  then have "drop ?r (take (?w + unat a) d') = drop ?r (take ?w (sbytes sb)) @ src @
      take (unat a - length src) (drop (?w + length src) (sbytes sb))"
    using ord len by simp
  then show "pending (sb\<lparr>sdata := Some d', writePos := writePos sb + a\<rparr>) = pending sb @ src @
      take (unat a - length src) (drop (?w + length src) (sbytes sb))"
    unfolding pending_def by (simp add: w' sbytes_def drop_take)
qed

lemma pending_zeroed:
  assumes "sbuf_ok sb"
    and "d' = overwrite (sbytes sb) (unat (writePos sb)) (replicate (unat (capacity sb) - unat (writePos sb)) 0)"
  shows "sbuf_ok (sb\<lparr>sdata := Some d'\<rparr>)" "pending (sb\<lparr>sdata := Some d'\<rparr>) = pending sb"
proof -
  have len: "length (sbytes sb) = unat (capacity sb)" and ord: "unat (readPos sb) \<le> unat (writePos sb)"
    "unat (writePos sb) \<le> unat (capacity sb)"
    using assms(1) by (auto simp: sbuf_ok_def)
  have "length d' = length (sbytes sb)" using assms(2) len ord by simp
  then show "sbuf_ok (sb\<lparr>sdata := Some d'\<rparr>)"
    using assms(1) by (simp add: sbuf_ok_def) (simp add: sbytes_def)
  have "take (unat (writePos sb)) d' = take (unat (writePos sb)) (sbytes sb)"
    using assms(2) len ord by simp
  then show "pending (sb\<lparr>sdata := Some d'\<rparr>) = pending sb"
    by (simp add: pending_def sbytes_def take_drop ord)
qed

text \<open>
  One block write, whatever its outcome: on success the pending bytes grow by the block
  and its padding, on failure they are unchanged.
\<close>

lemma Write_pending:
  assumes "sbuf_ok sb" "unat s = length src" "SbufRawImplWrite alloc sb (Some src) s = (sb', ok)"
  shows "sbuf_ok sb' \<and> readPos sb' = readPos sb \<and> isBind sb' = isBind sb \<and>
    (if ok then \<exists>pad. length pad = al4 (length src) - length src \<and> pending sb' = pending sb @ src @ pad
     else pending sb' = pending sb \<and> writePos sb' = writePos sb)"
proof (cases "s = 0")
  case True
  then show ?thesis using assms by (auto simp: SbufRawImplWrite_def al4_def sbuf_ok_def)
next
  case False
  obtain d0 where d0: "sdata sb = Some d0" using assms(1) by (auto simp: sbuf_ok_def)
  let ?a = "SbufRawImplGetAlignSize (ucast s)"
  have a: "unat ?a = al4 (length src)" using assms(2) by simp
  have nlt: "\<not> ?a < ucast s"
    using al4_bounds(1) [of "length src"] assms(2) a by (simp add: word_less_nat_alt unat_ucast_up_simp)
  obtain sb1 rok where res: "sbuf_reserve alloc sb ?a = (sb1, rok)" by (cases "sbuf_reserve alloc sb ?a")
  note r = sbuf_reserve_ok [OF assms(1) res]
  obtain d where d: "sdata sb1 = Some d" using r(1) by (auto simp: sbuf_ok_def)
  then have sby: "sbytes sb1 = d" by (simp add: sbytes_def)
  note left = unat_LeftWriteSize [OF r(1)]
  have src: "take (unat s) src = src" using assms(2) by simp
  note exec = assms(3) False d0 nlt res src d
  consider "\<not> rok" | "rok" "length src \<le> unat (SbufRawImplGetLeftWriteSize sb1)"
    | "rok" "\<not> length src \<le> unat (SbufRawImplGetLeftWriteSize sb1)" by blast
  then show ?thesis
  proof cases
    case 1
    with exec have "sb' = sb1" "\<not> ok" by (auto simp: SbufRawImplWrite_def Let_def)
    then show ?thesis using r by simp
  next
    case 2
    have "unat ?a < 2 ^ 33"
    proof -
      have "unat s < 2 ^ LENGTH(32)" by (rule unsigned_less)
      then show ?thesis using a al4_bounds(2) [of "length src"] assms(2) by simp
    qed
    moreover have "sbuf_reserve alloc sb ?a = (sb1, True)" using res 2(1) by simp
    ultimately have "unat ?a \<le> unat (capacity sb1) - unat (writePos sb1) \<or>
        2 ^ 32 \<le> unat ?a + 259 \<and> unat (capacity sb1) \<le> 524288"
      by (intro sbuf_reserve_fits [OF assms(1)])
    then have "unat ?a \<le> unat (capacity sb1) - unat (writePos sb1)"
      using 2(2) left a al4_bounds(2) [of "length src"] by auto
    moreover have "unat (writePos sb1) \<le> unat (capacity sb1)" using r(1) by (simp add: sbuf_ok_def)
    ultimately have fits: "unat (writePos sb1) + unat ?a \<le> unat (capacity sb1)" by simp
    have "length src \<le> unat ?a" using a al4_bounds(1) by simp
    note app = pending_append [OF r(1) fits this refl, unfolded sby]
    from exec 2 have sb': "sb' = sb1\<lparr>sdata := Some (overwrite d (unat (writePos sb1)) src),
        writePos := writePos sb1 + ?a\<rparr>" and ok: "ok"
      by (auto simp: SbufRawImplWrite_def Let_def memcpy_s_at_def)
    have "length (take (unat ?a - length src) (drop (unat (writePos sb1) + length src) d)) =
        al4 (length src) - length src"
      using fits a sby r(1) al4_bounds(1) [of "length src"] by (auto simp: sbuf_ok_def)
    then show ?thesis
      using app r ok by (auto simp: sb')
  next
    case 3
    with exec left have "sb' = sb1\<lparr>sdata := Some (overwrite d (unat (writePos sb1))
        (replicate (unat (capacity sb1) - unat (writePos sb1)) 0))\<rparr>" "\<not> ok"
      by (auto simp: SbufRawImplWrite_def Let_def memcpy_s_at_def)
    then show ?thesis
      using pending_zeroed [OF r(1) refl, unfolded sby] r by simp
  qed
qed

text \<open>An owned buffer accepts every block for which the limit leaves room.\<close>

lemma Write_succeeds:
  assumes "sbuf_ok sb" "unat s = length src" "\<not> isBind sb" "alloc = (\<lambda>_. True)"
    and "unat (writePos sb) + 2 * al4 (length src) + 260 \<le> 524288"
  shows "\<exists>sb'. SbufRawImplWrite alloc sb (Some src) s = (sb', True) \<and>
    unat (writePos sb') = unat (writePos sb) + al4 (length src)"
proof (cases "s = 0")
  case True
  then show ?thesis using assms by (auto simp: SbufRawImplWrite_def al4_def sbuf_ok_def)
next
  case False
  obtain d0 where d0: "sdata sb = Some d0" using assms(1) by (auto simp: sbuf_ok_def)
  let ?a = "SbufRawImplGetAlignSize (ucast s)"
  have a: "unat ?a = al4 (length src)" using assms(2) by simp
  have nlt: "\<not> ?a < ucast s"
    using al4_bounds(1) [of "length src"] assms(2) a by (simp add: word_less_nat_alt unat_ucast_up_simp)
  have "snd (sbuf_reserve alloc sb ?a)"
  proof (cases "?a > SbufRawImplGetLeftWriteSize sb")
    case True
    let ?g = "ucast (if ?a > 256 then ?a + 256 else 256) :: u32"
    have "unat (?a + 256) = unat ?a + 256"
      using assms(5) a by (simp add: unat_word_ariths(1))
    then have g: "unat ?g = (if unat ?a > 256 then unat ?a + 256 else 256)"
      using a assms(5) by (simp add: unsigned_ucast_eq take_bit_eq_mod word_less_nat_alt)
    have "unat (capacity sb) < unat (writePos sb) + al4 (length src)"
      using True unat_LeftWriteSize [OF assms(1)] a by (simp add: word_less_nat_alt)
    then have "al4 (unat (capacity sb) + unat ?g) \<le> 524288"
      using assms(5) a g al4_bounds(2) [of "unat (capacity sb) + unat ?g"] by (auto split: if_splits)
    from Grow_succeeds [OF assms(1,3) this assms(4)] obtain sb2 where
      "SbufRawImplGrow alloc sb ?g = (sb2, True)" by blast
    then show ?thesis
      by (simp only: sbuf_reserve_def if_P [OF True] snd_conv)
  qed (simp add: sbuf_reserve_def)
  then obtain sb1 where res: "sbuf_reserve alloc sb ?a = (sb1, True)"
    by (metis prod.collapse)
  note r = sbuf_reserve_ok [OF assms(1) res]
  obtain d where d: "sdata sb1 = Some d" using r(1) by (auto simp: sbuf_ok_def)
  have "unat ?a \<le> unat (capacity sb1) - unat (writePos sb1)"
    using sbuf_reserve_fits [OF assms(1) res] a assms(5) by auto
  then have "length src \<le> unat (SbufRawImplGetLeftWriteSize sb1)"
    using unat_LeftWriteSize [OF r(1)] a al4_bounds(1) [of "length src"] by simp
  moreover have "unat (writePos sb + ?a) = unat (writePos sb) + unat ?a"
    using assms(5) a by (simp add: unat_word_ariths(1))
  ultimately show ?thesis
    using False d0 nlt res d r(2) a assms(2)
    by (simp add: SbufRawImplWrite_def Let_def memcpy_s_at_def)
qed

text \<open>A block that does not fit is refused, although the limit may leave room for the block itself.\<close>

lemma Write_refused:
  assumes "sbuf_ok sb" "unat s = length src" "unat (capacity sb) - unat (writePos sb) < al4 (length src)"
    and "256 < al4 (length src)" "unat (capacity sb) + al4 (length src) + 256 > 524288"
    and "unat (capacity sb) \<le> 524288" "length src \<le> 524288"
  shows "\<not> snd (SbufRawImplWrite alloc sb (Some src) s)"
proof -
  have s0: "s \<noteq> 0" using assms(2,4) by (auto simp: al4_def)
  obtain d0 where d0: "sdata sb = Some d0" using assms(1) by (auto simp: sbuf_ok_def)
  let ?a = "SbufRawImplGetAlignSize (ucast s)"
  have a: "unat ?a = al4 (length src)" using assms(2) by simp
  have al: "al4 (length src) \<le> 524291" using al4_bounds(2) [of "length src"] assms(7) by linarith
  have nlt: "\<not> ?a < ucast s"
    using al4_bounds(1) [of "length src"] assms(2) a by (simp add: word_less_nat_alt unat_ucast_up_simp)
  have big: "?a > SbufRawImplGetLeftWriteSize sb" "?a > 256"
    using unat_LeftWriteSize [OF assms(1)] a assms(3,4) by (simp_all add: word_less_nat_alt)
  let ?g = "ucast (?a + 256) :: u32" and ?s = "capacity sb + ucast (ucast (?a + 256) :: u32)"
  have "unat (?a + 256) = al4 (length src) + 256" using a al by (simp add: unat_word_ariths(1))
  then have g: "unat ?g = al4 (length src) + 256" using al by (simp add: unsigned_ucast_eq take_bit_eq_mod)
  then have "unat ?s = unat (capacity sb) + (al4 (length src) + 256)"
    using assms(6) al by (simp add: unat_word_ariths(1) unat_ucast_up_simp)
  moreover from this have "unat (SbufRawImplGetAlignSize ?s) = al4 (unat (capacity sb) + (al4 (length src) + 256))"
    using unat_GetAlignSize [of ?s] assms(6) al by simp
  moreover have "al4 (unat (capacity sb) + (al4 (length src) + 256)) \<le> 1048838"
    using al4_bounds(2) [of "unat (capacity sb) + (al4 (length src) + 256)"] assms(6) al by linarith
  ultimately have "unat (ucast (SbufRawImplGetAlignSize ?s) :: u32) = al4 (unat (capacity sb) + (al4 (length src) + 256))"
    by (simp add: unsigned_ucast_eq take_bit_eq_mod)
  moreover have "524288 < al4 (unat (capacity sb) + (al4 (length src) + 256))"
    using al4_bounds(1) [of "unat (capacity sb) + (al4 (length src) + 256)"] assms(5) by linarith
  ultimately have "\<not> snd (SbufRawImplGrow alloc sb ?g)"
    by (simp add: SbufRawImplGrow_def Let_def word_less_nat_alt)
  then have "\<not> snd (sbuf_reserve alloc sb ?a)" using big by (simp add: sbuf_reserve_def)
  then show ?thesis using s0 d0 nlt by (auto simp: SbufRawImplWrite_def Let_def split: prod.splits)
qed

text \<open>Reading a block: the first bytes of what is pending, or nothing changes.\<close>

lemma pending_advance:
  assumes "sbuf_ok sb" "unat a \<le> length (pending sb)"
  shows "sbuf_ok (sb\<lparr>readPos := readPos sb + a\<rparr>)"
    "pending (sb\<lparr>readPos := readPos sb + a\<rparr>) = drop (unat a) (pending sb)"
    "unat (readPos sb + a) = unat (readPos sb) + unat a"
proof -
  have ord: "unat (readPos sb) + unat a \<le> unat (writePos sb)" "unat (writePos sb) < 2 ^ 62"
    using assms length_pending [OF assms(1)] by (auto simp: sbuf_ok_def)
  then show r: "unat (readPos sb + a) = unat (readPos sb) + unat a"
    by (simp add: unat_word_ariths(1))
  then show "sbuf_ok (sb\<lparr>readPos := readPos sb + a\<rparr>)"
    using assms(1) ord by (simp add: sbuf_ok_def) (simp add: sbytes_def)
  have fields: "readPos (sb\<lparr>readPos := readPos sb + a\<rparr>) = readPos sb + a"
    "writePos (sb\<lparr>readPos := readPos sb + a\<rparr>) = writePos sb"
    "sbytes (sb\<lparr>readPos := readPos sb + a\<rparr>) = sbytes sb"
    by (simp_all add: sbytes_def)
  have "pending (sb\<lparr>readPos := readPos sb + a\<rparr>) =
      take (unat (writePos sb) - (unat (readPos sb) + unat a)) (drop (unat (readPos sb) + unat a) (sbytes sb))"
    by (simp only: pending_def fields r)
  then show "pending (sb\<lparr>readPos := readPos sb + a\<rparr>) = drop (unat a) (pending sb)"
    by (simp add: pending_def drop_take add.commute)
qed

lemma pending_prefix:
  assumes "n \<le> length (pending sb)"
  shows "take n (drop (unat (readPos sb)) (sbytes sb)) = take n (pending sb)"
  using assms by (auto simp: pending_def min_def split: if_splits)

lemma Read_pending:
  assumes "sbuf_ok sb" "0 < unat n"
  shows "SbufRawImplRead sb True n =
    (if al4 (unat n) \<le> length (pending sb)
     then (sb\<lparr>readPos := readPos sb + SbufRawImplGetAlignSize (ucast n)\<rparr>, Some (take (unat n) (pending sb)))
     else (sb, None))"
proof -
  obtain d where d: "sdata sb = Some d" "sbytes sb = d"
    using assms(1) by (auto simp: sbuf_ok_def sbytes_def)
  have "n \<noteq> 0" using assms(2) by auto
  then show ?thesis
    using d pending_prefix [of "unat n" sb] al4_bounds(1) [of "unat n"]
    by (simp add: SbufRawImplRead_def Let_def word_less_nat_alt unat_LeftReadSize [OF assms(1)])
qed

section \<open>Typed items on the raw buffer\<close>

fun raw_put :: "osal_alloc \<Rightarrow> sbuf_raw \<Rightarrow> sitem \<Rightarrow> sbuf_raw \<times> bool" where
  "raw_put alloc sb (SU64 v) = SbufRawImplWriteUint64 alloc sb v"
| "raw_put alloc sb (SU32 v) = SbufRawImplWriteUint32 alloc sb v"
| "raw_put alloc sb (SU16 v) = SbufRawImplWriteUint16 alloc sb v"
| "raw_put alloc sb (SU8 v) = SbufRawImplWriteUint8 alloc sb v"
| "raw_put alloc sb (SI64 v) = SbufRawImplWriteInt64 alloc sb v"
| "raw_put alloc sb (SI32 v) = SbufRawImplWriteInt32 alloc sb v"
| "raw_put alloc sb (SI16 v) = SbufRawImplWriteInt16 alloc sb v"
| "raw_put alloc sb (SI8 v) = SbufRawImplWriteInt8 alloc sb v"
| "raw_put alloc sb (SBuf d) =
     SbufRawImplWriteBuffer alloc sb d (case d of None \<Rightarrow> 0 | Some bs \<Rightarrow> word_of_nat (length bs))"
| "raw_put alloc sb (SStr s) = SbufRawImplWriteString alloc sb (Some s)"

text \<open>What a reader sees behind the pointers that are returned.\<close>

definition sbuf_block :: "sbuf_raw \<Rightarrow> u64 option \<times> u32 \<Rightarrow> u8 list option" where
  "sbuf_block sb r = map_option (\<lambda>p. take (unat (snd r)) (drop (unat p) (sbytes sb))) (fst r)"

fun raw_get :: "sbuf_raw \<Rightarrow> stype \<Rightarrow> sbuf_raw \<times> sitem option" where
  "raw_get sb TU64 = apsnd (map_option SU64) (SbufRawImplReadUint64 sb True)"
| "raw_get sb TU32 = apsnd (map_option SU32) (SbufRawImplReadUint32 sb True)"
| "raw_get sb TU16 = apsnd (map_option SU16) (SbufRawImplReadUint16 sb True)"
| "raw_get sb TU8 = apsnd (map_option SU8) (SbufRawImplReadUint8 sb True)"
| "raw_get sb TI64 = apsnd (map_option SI64) (SbufRawImplReadInt64 sb True)"
| "raw_get sb TI32 = apsnd (map_option SI32) (SbufRawImplReadInt32 sb True)"
| "raw_get sb TI16 = apsnd (map_option SI16) (SbufRawImplReadInt16 sb True)"
| "raw_get sb TI8 = apsnd (map_option SI8) (SbufRawImplReadInt8 sb True)"
| "raw_get sb TBuf =
     (let (sb', r) = SbufRawImplReadBuffer sb True in (sb', map_option (\<lambda>x. SBuf (sbuf_block sb' x)) r))"
| "raw_get sb TStr =
     (let (sb', r) = SbufRawImplReadString sb in (sb', map_option (\<lambda>p. SStr (sbuf_cstr sb' p)) r))"

lemmas sbuf_scalar_defs =
  SbufRawImplWriteUint64_def SbufRawImplWriteUint32_def SbufRawImplWriteUint16_def SbufRawImplWriteUint8_def
  SbufRawImplWriteInt64_def SbufRawImplWriteInt32_def SbufRawImplWriteInt16_def SbufRawImplWriteInt8_def
  SbufRawImplReadUint64_def SbufRawImplReadUint32_def SbufRawImplReadUint16_def SbufRawImplReadUint8_def
  SbufRawImplReadInt64_def SbufRawImplReadInt32_def SbufRawImplReadInt16_def SbufRawImplReadInt8_def

lemma WriteBuffer_pending:
  assumes "sbuf_ok sb" "unat s = length src" "SbufRawImplWriteBuffer alloc sb (Some src) s = (sb', ok)"
  shows "sbuf_ok sb' \<and> readPos sb' = readPos sb \<and> isBind sb' = isBind sb \<and>
    (if ok then \<exists>bs. padded [le_bytes 4 s, src] bs \<and> pending sb' = pending sb @ bs
     else pending sb' = pending sb \<and> writePos sb' = writePos sb)"
proof -
  obtain sb1 ok1 where w1: "SbufRawImplWrite alloc sb (Some (le_bytes 4 s)) 4 = (sb1, ok1)"
    by (cases "SbufRawImplWrite alloc sb (Some (le_bytes 4 s)) 4")
  have four: "unat (4 :: u32) = length (le_bytes 4 s)" by simp
  note p1 = Write_pending [OF assms(1) four w1]
  have al44: "al4 4 = 4" by (simp add: al4_def)
  show ?thesis
  proof (cases ok1)
    case False
    with assms(3) w1 p1 show ?thesis
      by (auto simp: SbufRawImplWriteBuffer_def sbuf_scalar_defs)
  next
    case True
    with p1 have q1: "sbuf_ok sb1" "readPos sb1 = readPos sb" "isBind sb1 = isBind sb"
      "pending sb1 = pending sb @ le_bytes 4 s" by (auto simp: al44)
    obtain sb2 ok2 where w2: "SbufRawImplWrite alloc sb1 (Some src) s = (sb2, ok2)"
      by (cases "SbufRawImplWrite alloc sb1 (Some src) s")
    note p2 = Write_pending [OF q1(1) assms(2) w2]
    show ?thesis
    proof (cases ok2)
      case True
      with p2 obtain pad where pad: "length pad = al4 (length src) - length src"
        "pending sb2 = pending sb1 @ src @ pad"
        by auto
      then have "padded [le_bytes 4 s, src] (le_bytes 4 s @ src @ pad)"
        using al4_bounds(1) [of "length src"] by (simp add: al44)
      moreover have "pending sb2 = pending sb @ le_bytes 4 s @ src @ pad"
        using pad(2) q1(4) by simp
      moreover have "sb' = sb2 \<and> ok"
        using assms(3) w1 w2 \<open>ok1\<close> True
        by (simp add: SbufRawImplWriteBuffer_def sbuf_scalar_defs)
      ultimately show ?thesis
        using p2 q1(2,3) by (simp only: if_True simp_thms) blast
    next
      case False
      have a4: "SbufRawImplGetAlignSize 4 = 4"
        by (simp add: SbufRawImplGetAlignSize_def)
      have len: "unat (writePos sb2) - unat (readPos sb2) = unat (writePos sb) - unat (readPos sb) + 4"
        using p2 False q1 length_pending [of sb2] length_pending [OF assms(1)] by simp
      have ok2': "sbuf_ok sb2" "writePos sb2 = writePos sb1" "readPos sb2 = readPos sb"
        "pending sb2 = pending sb @ le_bytes 4 s" "isBind sb2 = isBind sb"
        using p2 False q1 by auto
      have grown: "unat (writePos sb2) = unat (writePos sb) + 4"
        using len ok2' assms(1) by (auto simp: sbuf_ok_def)
      moreover from this have "writePos sb2 = writePos sb + 4" by (intro word_eq_addI) simp
      ultimately have nlt: "\<not> writePos sb2 < 4" and w: "writePos sb2 - 4 = writePos sb"
        by (simp_all add: word_less_nat_alt)
      let ?sb = "sb2\<lparr>writePos := writePos sb\<rparr>"
      have out: "sb' = ?sb" "\<not> ok"
        using assms(3) w1 w2 \<open>ok1\<close> False nlt w
        by (auto simp: SbufRawImplWriteBuffer_def sbuf_scalar_defs SbufRawImplWriteRollback_def a4 Let_def)
      have "pending ?sb = take (unat (writePos sb) - unat (readPos sb)) (pending sb2)"
        using len ok2'(3) by (simp add: pending_def sbytes_def min_def)
      also have "\<dots> = pending sb"
        using ok2'(4) length_pending [OF assms(1)] by simp
      finally have "pending ?sb = pending sb" .
      moreover have "sbuf_ok ?sb"
        using ok2' assms(1) grown
        by (simp add: sbuf_ok_def) (simp add: sbytes_def)
      ultimately show ?thesis using out ok2' by simp
    qed
  qed
qed

text \<open>Reading back one block of an encoding.\<close>

lemma Read_chunk:
  assumes "sbuf_ok sb" "unat n = length c" "0 < length c" "padded (c # cs) bs" "pending sb = bs @ rest"
  shows "\<exists>sb'. SbufRawImplRead sb True n = (sb', Some c) \<and> sbuf_ok sb' \<and>
    pending sb' = drop (al4 (length c)) bs @ rest \<and> padded cs (drop (al4 (length c)) bs) \<and>
    sdata sb' = sdata sb"
proof -
  let ?a = "SbufRawImplGetAlignSize (ucast n)" and ?sb = "sb\<lparr>readPos := readPos sb + SbufRawImplGetAlignSize (ucast n)\<rparr>"
  have a: "unat ?a = al4 (length c)" using assms(2) by simp
  have le: "al4 (length c) \<le> length bs" and tk: "take (length c) bs = c"
    and tl: "padded cs (drop (al4 (length c)) bs)"
    using assms(4) by simp_all
  have fit: "al4 (length c) \<le> length (pending sb)" using le assms(5) by simp
  have "length c \<le> length bs" using le al4_bounds(1) [of "length c"] by simp
  then have "take (length c) (pending sb) = c" using tk assms(5) by simp
  then have run: "SbufRawImplRead sb True n = (?sb, Some c)"
    using Read_pending [OF assms(1), of n] assms(2,3) fit by simp
  have "unat ?a \<le> length (pending sb)" using fit a by simp
  note adv = pending_advance [OF assms(1) this]
  have "pending ?sb = drop (al4 (length c)) bs @ rest"
    using adv(2) a assms(5) le by simp
  then show ?thesis using run adv(1) tl by simp
qed

lemma Write_padded:
  assumes "sbuf_ok sb" "unat s = length src" "SbufRawImplWrite alloc sb (Some src) s = (sb', ok)"
  shows "sbuf_ok sb' \<and>
    (if ok then \<exists>bs. padded [src] bs \<and> pending sb' = pending sb @ bs else pending sb' = pending sb)"
proof (cases ok)
  case True
  with Write_pending [OF assms] obtain pad where pad: "sbuf_ok sb'"
    "length pad = al4 (length src) - length src" "pending sb' = pending sb @ src @ pad" by auto
  moreover have "padded [src] (src @ pad)"
    using pad(2) al4_bounds(1) [of "length src"] by simp
  ultimately show ?thesis using True by (simp only: if_True) blast
qed (use Write_pending [OF assms] in simp)

lemma Read_scalar:
  fixes v :: "'a::len word"
  assumes "sbuf_ok sb" "padded [le_bytes k v] bs" "pending sb = bs @ rest"
    and "unat n = k" "LENGTH('a) \<le> 8 * k"
  shows "\<exists>sb'. read_scalar (SbufRawImplRead sb True n) = (sb', Some v) \<and> sbuf_ok sb' \<and> pending sb' = rest"
proof -
  have "0 < k" using assms(5) by (cases k) auto
  with Read_chunk [OF assms(1) _ _ assms(2,3), of n] assms(4) obtain sb' where
    "SbufRawImplRead sb True n = (sb', Some (le_bytes k v))" "sbuf_ok sb'"
    "pending sb' = drop (al4 k) bs @ rest" "drop (al4 k) bs = []" by auto
  then show ?thesis
    using assms(5) by (simp add: read_scalar_def le_word_le_bytes_id)
qed

text \<open>Reading back a length field and the block behind it.\<close>

lemma Read_length:
  assumes "sbuf_ok sb" "padded [le_bytes 4 (n :: u32), c] bs" "pending sb = bs @ rest"
    and "unat n = length c" "0 < length c" "length c < 2 ^ 31"
  shows "\<exists>sb1. SbufRawImplReadInt32 sb True = (sb1, Some n) \<and> sbuf_ok sb1 \<and> sdata sb1 = sdata sb \<and>
    al4 (length c) \<le> length (pending sb1) \<and> take (length c) (pending sb1) = c \<and>
    drop (al4 (length c)) (pending sb1) = rest"
proof -
  have al44: "al4 4 = 4" by (simp add: al4_def)
  from Read_chunk [OF assms(1) _ _ assms(2,3), of 4] obtain sb1 where
    r: "SbufRawImplRead sb True 4 = (sb1, Some (le_bytes 4 n))" "sbuf_ok sb1" "sdata sb1 = sdata sb"
    "pending sb1 = drop 4 bs @ rest" "padded [c] (drop 4 bs)"
    by (auto simp: al44)
  from r(5) have b: "al4 (length c) \<le> length (drop 4 bs)" "take (length c) (drop 4 bs) = c"
    "drop (al4 (length c)) (drop 4 bs) = []" by simp_all
  moreover from b(1) have "length c \<le> length (drop 4 bs)"
    using al4_bounds(1) [of "length c"] by linarith
  ultimately show ?thesis
    using r by (simp add: SbufRawImplReadInt32_def read_scalar_def le_word_le_bytes_id)
qed

lemma ReadBuffer_item:
  assumes "sbuf_ok sb" "padded [le_bytes 4 (n :: u32), c] bs" "pending sb = bs @ rest"
    and "unat n = length c" "0 < length c" "length c < 2 ^ 31"
  shows "\<exists>sb' p. SbufRawImplReadBuffer sb True = (sb', Some (Some p, n)) \<and> sbuf_ok sb' \<and>
    pending sb' = rest \<and> sbuf_block sb' (Some p, n) = Some c"
proof -
  obtain sb1 where r: "SbufRawImplReadInt32 sb True = (sb1, Some n)" "sbuf_ok sb1" "sdata sb1 = sdata sb"
    "al4 (length c) \<le> length (pending sb1)" "take (length c) (pending sb1) = c"
    "drop (al4 (length c)) (pending sb1) = rest"
    using Read_length [OF assms] by blast
  let ?a = "SbufRawImplGetAlignSize (ucast n)"
  have a: "unat ?a = al4 (length c)" using assms(4) by simp
  have sc: "scast n = (ucast n :: u64)" using scast_int32(1) [of n] assms(4,6) by simp
  have nlt: "\<not> SbufRawImplGetLeftReadSize sb1 < ?a"
    using r(4) a by (simp add: word_less_nat_alt unat_LeftReadSize [OF r(2)])
  have n0: "n \<noteq> 0" using assms(4,5) by auto
  have "sdata sb \<noteq> None" using assms(1) by (simp add: sbuf_ok_def)
  then have run: "SbufRawImplReadBuffer sb True =
      (sb1\<lparr>readPos := readPos sb1 + ?a\<rparr>, Some (Some (readPos sb1), n))"
    using r(1) n0 nlt by (simp add: SbufRawImplReadBuffer_def Let_def sc)
  have fit: "unat ?a \<le> length (pending sb1)" using r(4) a by simp
  note adv = pending_advance [OF r(2) fit]
  have le: "length c \<le> length (pending sb1)" using r(4) al4_bounds(1) [of "length c"] by linarith
  have "sbytes (sb1\<lparr>readPos := readPos sb1 + ?a\<rparr>) = sbytes sb1" by (simp add: sbytes_def)
  then have "sbuf_block (sb1\<lparr>readPos := readPos sb1 + ?a\<rparr>) (Some (readPos sb1), n) =
      Some (take (length c) (drop (unat (readPos sb1)) (sbytes sb1)))"
    using assms(4) by (simp add: sbuf_block_def)
  also have "\<dots> = Some c" using pending_prefix [OF le] r(5) by simp
  finally show ?thesis using run adv(1,2) a r(6) by simp
qed

lemma ReadString_item:
  assumes "sbuf_ok sb" "padded [le_bytes 4 (n :: u32), bytes_of s @ [0]] bs" "pending sb = bs @ rest"
    and "unat n = length s + 1" "wf_cstr s" "length s < 32767"
  shows "\<exists>sb' p. SbufRawImplReadString sb = (sb', Some p) \<and> sbuf_ok sb' \<and>
    pending sb' = rest \<and> sbuf_cstr sb' p = s"
proof -
  let ?c = "bytes_of s @ [0]"
  have lc: "length ?c = length s + 1" by simp
  have pre: "unat n = length ?c" "0 < length ?c" "length ?c < 2 ^ 31" using assms(4,6) by simp_all
  obtain sb1 where r: "SbufRawImplReadInt32 sb True = (sb1, Some n)" "sbuf_ok sb1" "sdata sb1 = sdata sb"
    "al4 (length ?c) \<le> length (pending sb1)" "take (length ?c) (pending sb1) = ?c"
    "drop (al4 (length ?c)) (pending sb1) = rest"
    using Read_length [OF assms(1-3) pre] by blast
  let ?a = "SbufRawImplGetAlignSize (ucast n)" and ?p = "unat (readPos sb1)"
  have a: "unat ?a = al4 (length ?c)" using pre(1) by simp
  have sc: "scast n = (ucast n :: u64)" "sint n = int (length s) + 1"
    using scast_int32 [of n] pre assms(4) by simp_all
  have nlt: "\<not> SbufRawImplGetLeftReadSize sb1 < ?a"
    using r(4) a by (simp add: word_less_nat_alt unat_LeftReadSize [OF r(2)])
  obtain d where d: "sdata sb = Some d" using assms(1) by (auto simp: sbuf_ok_def)
  then have d1: "sdata sb1 = Some d" and sby: "sbytes sb1 = d" using r(3) by (simp_all add: sbytes_def)
  have le: "length ?c \<le> length (pending sb1)" using r(4) al4_bounds(1) [of "length ?c"] by linarith
  then have blk: "take (length ?c) (drop ?p d) = ?c"
    using pending_prefix [OF le] r(5) sby by simp
  then have dd: "drop ?p d = ?c @ drop (length ?c) (drop ?p d)"
    by (metis append_take_drop_id)
  have "drop ?p d ! length s = 0"
    by (subst dd) (simp add: nth_append)
  moreover have plen: "?p + length s < length d"
  proof -
    have "length ?c \<le> length (drop ?p d)" by (subst dd) simp
    then show ?thesis by simp
  qed
  ultimately have "d ! (?p + length s) = 0" by simp
  then have same: "d[?p + (unat n - 1) := 0] = d"
    using assms(4) by (simp add: list_update_same_conv plen)
  let ?sb = "sb1\<lparr>readPos := readPos sb1 + ?a\<rparr>"
  have upd: "?sb\<lparr>sdata := Some (d[?p + (unat n - 1) := 0])\<rparr> = ?sb"
    unfolding same using d1 by (cases sb1) simp
  have run: "SbufRawImplReadString sb = (?sb, Some (readPos sb1))"
    using d r(1) nlt assms(6) upd
    by (simp add: SbufRawImplReadString_def Let_def sc)
  have fit: "unat ?a \<le> length (pending sb1)" using r(4) a by simp
  note adv = pending_advance [OF r(2) fit]
  have "sbuf_cstr ?sb (readPos sb1) = cstr_at (drop ?p d)"
    using d1 by (simp add: sbuf_cstr_def)
  also have "\<dots> = s"
    by (subst dd) (simp add: cstr_at_bytes_of [OF assms(5)])
  finally show ?thesis using run adv(1,2) a r(6) by simp
qed

lemma WriteBuffer_padded:
  assumes "sbuf_ok sb" "unat s = length src" "SbufRawImplWriteBuffer alloc sb (Some src) s = (sb', ok)"
  shows "sbuf_ok sb' \<and>
    (if ok then \<exists>bs. padded [le_bytes 4 s, src] bs \<and> pending sb' = pending sb @ bs
     else pending sb' = pending sb)"
  using WriteBuffer_pending [OF assms]
  by (cases ok) (simp_all only: if_True if_False simp_thms)

text \<open>The raw buffer is a channel, whatever the allocator does.\<close>

lemma unat_of_length: "length (xs :: 'a list) < 2 ^ 32 \<Longrightarrow> unat (word_of_nat (length xs) :: u32) = length xs"
  by (simp add: unat_of_nat)

lemma scalar_put:
  assumes "sbuf_ok sb" "raw_put alloc sb x = (sb', ok)"
    and "raw_put alloc sb x = SbufRawImplWrite alloc sb (Some c) s" "unat s = length c" "item_chunks x = [c]"
  shows "sbuf_ok sb' \<and>
    (if ok then \<exists>bs. encodes x bs \<and> pending sb' = pending sb @ bs else pending sb' = pending sb)"
  unfolding encodes_def assms(5)
  by (rule Write_padded [OF assms(1,4) assms(2) [unfolded assms(3)]])

lemma raw_put_pending:
  assumes "sbuf_ok sb" "item_wf x" "raw_put alloc sb x = (sb', ok)"
  shows "sbuf_ok sb' \<and>
    (if ok then \<exists>bs. encodes x bs \<and> pending sb' = pending sb @ bs else pending sb' = pending sb)"
proof (cases x)
  case (SBuf v)
  show ?thesis
  proof (cases v)
    case None
    with SBuf assms(3) show ?thesis
      using Write_padded [OF assms(1), of 4 "le_bytes 4 (0 :: u32)" alloc sb' ok]
      by (simp add: SbufRawImplWriteBuffer_def sbuf_scalar_defs encodes_def split: if_splits)
  next
    case (Some d)
    with SBuf assms(2) have u: "unat (word_of_nat (length d) :: u32) = length d"
      by (intro unat_of_length) simp
    from SBuf Some assms(3) have "SbufRawImplWriteBuffer alloc sb (Some d) (word_of_nat (length d)) = (sb', ok)"
      by simp
    from WriteBuffer_padded [OF assms(1) u this] show ?thesis
      unfolding encodes_def item_chunks.simps SBuf Some .
  qed
next
  case (SStr s)
  let ?c = "bytes_of s @ [0]"
  have "unat (word_of_nat (length s + 1) :: u32) = length ?c"
    using unat_of_length [of ?c] SStr assms(2) by simp
  moreover from SStr assms(3) have
    "SbufRawImplWriteBuffer alloc sb (Some ?c) (word_of_nat (length s + 1)) = (sb', ok)"
    by (simp add: SbufRawImplWriteString_def)
  ultimately show ?thesis
    unfolding encodes_def item_chunks.simps SStr by (rule WriteBuffer_padded [OF assms(1)])
next
  case (SU64 v)
  show ?thesis by (rule scalar_put [OF assms(1,3), of "le_bytes 8 v" 8]) (simp_all add: SU64 sbuf_scalar_defs)
next
  case (SU32 v)
  show ?thesis by (rule scalar_put [OF assms(1,3), of "le_bytes 4 v" 4]) (simp_all add: SU32 sbuf_scalar_defs)
next
  case (SU16 v)
  show ?thesis by (rule scalar_put [OF assms(1,3), of "le_bytes 2 v" 2]) (simp_all add: SU16 sbuf_scalar_defs)
next
  case (SU8 v)
  show ?thesis by (rule scalar_put [OF assms(1,3), of "le_bytes 1 v" 1]) (simp_all add: SU8 sbuf_scalar_defs)
next
  case (SI64 v)
  show ?thesis by (rule scalar_put [OF assms(1,3), of "le_bytes 8 v" 8]) (simp_all add: SI64 sbuf_scalar_defs)
next
  case (SI32 v)
  show ?thesis by (rule scalar_put [OF assms(1,3), of "le_bytes 4 v" 4]) (simp_all add: SI32 sbuf_scalar_defs)
next
  case (SI16 v)
  show ?thesis by (rule scalar_put [OF assms(1,3), of "le_bytes 2 v" 2]) (simp_all add: SI16 sbuf_scalar_defs)
next
  case (SI8 v)
  show ?thesis by (rule scalar_put [OF assms(1,3), of "le_bytes 1 v" 1]) (simp_all add: SI8 sbuf_scalar_defs)
qed

lemma raw_get_item:
  assumes "sbuf_ok sb" "item_wf x" "encodes x bs" "pending sb = bs @ rest"
  shows "\<exists>sb'. raw_get sb (type_of_item x) = (sb', Some x) \<and> sbuf_ok sb' \<and> pending sb' = rest"
proof (cases x)
  case (SBuf v)
  show ?thesis
  proof (cases v)
    case None
    with SBuf assms(3) have "padded [le_bytes 4 (0 :: u32)] bs" by (simp add: encodes_def)
    from Read_scalar [OF assms(1) this assms(4), of 4] obtain sb' where
      "read_scalar (SbufRawImplRead sb True 4) = (sb', Some (0 :: u32))" "sbuf_ok sb'" "pending sb' = rest"
      by auto
    moreover have "sdata sb \<noteq> None" using assms(1) by (simp add: sbuf_ok_def)
    ultimately show ?thesis using SBuf None
      by (simp add: SbufRawImplReadBuffer_def sbuf_scalar_defs sbuf_block_def)
  next
    case (Some d)
    with SBuf assms(2) have u: "unat (word_of_nat (length d) :: u32) = length d"
      by (intro unat_of_length) simp
    from SBuf Some assms(2,3) have "padded [le_bytes 4 (word_of_nat (length d) :: u32), d] bs"
      and d: "0 < length d" "length d < 2 ^ 31"
      by (simp_all add: encodes_def)
    from ReadBuffer_item [OF assms(1) this(1) assms(4) u d] show ?thesis
      using SBuf Some by auto
  qed
next
  case (SStr s)
  let ?c = "bytes_of s @ [0]"
  have u: "unat (word_of_nat (length s + 1) :: u32) = length s + 1"
    using unat_of_length [of ?c] SStr assms(2) by simp
  from SStr assms(2,3) have "padded [le_bytes 4 (word_of_nat (length s + 1) :: u32), ?c] bs"
    and "wf_cstr s" "length s < 32767"
    by (simp_all add: encodes_def)
  from ReadString_item [OF assms(1) this(1) assms(4) u this(2,3)] show ?thesis
    using SStr by auto
next
  case (SU64 v)
  then show ?thesis using Read_scalar [OF assms(1) _ assms(4), of 8 v 8] assms(3)
    by (auto simp: encodes_def sbuf_scalar_defs)
next
  case (SU32 v)
  then show ?thesis using Read_scalar [OF assms(1) _ assms(4), of 4 v 4] assms(3)
    by (auto simp: encodes_def sbuf_scalar_defs)
next
  case (SU16 v)
  then show ?thesis using Read_scalar [OF assms(1) _ assms(4), of 2 v 2] assms(3)
    by (auto simp: encodes_def sbuf_scalar_defs)
next
  case (SU8 v)
  then show ?thesis using Read_scalar [OF assms(1) _ assms(4), of 1 v 1] assms(3)
    by (auto simp: encodes_def sbuf_scalar_defs)
next
  case (SI64 v)
  then show ?thesis using Read_scalar [OF assms(1) _ assms(4), of 8 v 8] assms(3)
    by (auto simp: encodes_def sbuf_scalar_defs)
next
  case (SI32 v)
  then show ?thesis using Read_scalar [OF assms(1) _ assms(4), of 4 v 4] assms(3)
    by (auto simp: encodes_def sbuf_scalar_defs)
next
  case (SI16 v)
  then show ?thesis using Read_scalar [OF assms(1) _ assms(4), of 2 v 2] assms(3)
    by (auto simp: encodes_def sbuf_scalar_defs)
next
  case (SI8 v)
  then show ?thesis using Read_scalar [OF assms(1) _ assms(4), of 1 v 1] assms(3)
    by (auto simp: encodes_def sbuf_scalar_defs)
qed

interpretation raw_channel: sbuf_channel sbuf_ok pending "raw_put alloc" raw_get for alloc
proof unfold_locales
  fix b b' :: sbuf_raw and x assume "sbuf_ok b" "item_wf x" "raw_put alloc b x = (b', True)"
  from raw_put_pending [OF this] show "sbuf_ok b' \<and> (\<exists>bs. encodes x bs \<and> pending b' = pending b @ bs)"
    by simp
next
  fix b b' :: sbuf_raw and x assume "sbuf_ok b" "item_wf x" "raw_put alloc b x = (b', False)"
  from raw_put_pending [OF this] show "sbuf_ok b' \<and> pending b' = pending b" by simp
qed (rule raw_get_item)

section \<open>A message with room is accepted\<close>

definition item_size :: "sitem \<Rightarrow> nat" where
  "item_size x = chunks_size (item_chunks x)"

lemma Write_room:
  assumes "sbuf_ok sb" "unat s = length src" "\<not> isBind sb"
    and "unat (writePos sb) + 2 * al4 (length src) + 260 \<le> 524288"
  shows "\<exists>sb'. SbufRawImplWrite (\<lambda>_. True) sb (Some src) s = (sb', True) \<and> sbuf_ok sb' \<and> \<not> isBind sb' \<and> readPos sb' = readPos sb \<and>
    unat (writePos sb') = unat (writePos sb) + al4 (length src)"
proof -
  from Write_succeeds [OF assms(1-3) refl assms(4)] obtain sb' where
    w: "SbufRawImplWrite (\<lambda>_. True) sb (Some src) s = (sb', True)"
    "unat (writePos sb') = unat (writePos sb) + al4 (length src)" by blast
  with Write_pending [OF assms(1,2) w(1)] assms(3) show ?thesis by simp
qed

lemma WriteBuffer_room:
  assumes "sbuf_ok sb" "unat s = length src" "\<not> isBind sb"
    and "unat (writePos sb) + 2 * (4 + al4 (length src)) + 260 \<le> 524288"
  shows "\<exists>sb'. SbufRawImplWriteBuffer (\<lambda>_. True) sb (Some src) s = (sb', True) \<and> \<not> isBind sb' \<and> readPos sb' = readPos sb \<and>
    unat (writePos sb') = unat (writePos sb) + 4 + al4 (length src)"
proof -
  have al44: "al4 4 = 4" by (simp add: al4_def)
  have "unat (4 :: u32) = length (le_bytes 4 s)" by simp
  from Write_room [OF assms(1) this assms(3)] assms(4) al44 obtain sb1 where
    w1: "SbufRawImplWrite (\<lambda>_. True) sb (Some (le_bytes 4 s)) 4 = (sb1, True)" "sbuf_ok sb1" "\<not> isBind sb1" "readPos sb1 = readPos sb"
    "unat (writePos sb1) = unat (writePos sb) + 4" by auto
  from Write_room [OF w1(2) assms(2) w1(3)] assms(4) w1 obtain sb2 where
    w2: "SbufRawImplWrite (\<lambda>_. True) sb1 (Some src) s = (sb2, True)" "\<not> isBind sb2" "readPos sb2 = readPos sb1"
    "unat (writePos sb2) = unat (writePos sb1) + al4 (length src)" by auto
  have "SbufRawImplWriteBuffer (\<lambda>_. True) sb (Some src) s = (sb2, True)"
    using w1(1) w2(1) by (simp add: SbufRawImplWriteBuffer_def sbuf_scalar_defs)
  then show ?thesis using w2 w1 by simp
qed

lemma scalar_room:
  assumes "sbuf_ok sb" "\<not> isBind sb" "unat (writePos sb) + 2 * item_size x + 260 \<le> 524288"
    and "raw_put (\<lambda>_. True) sb x = SbufRawImplWrite (\<lambda>_. True) sb (Some c) s" "unat s = length c" "item_chunks x = [c]"
  shows "\<exists>sb'. raw_put (\<lambda>_. True) sb x = (sb', True) \<and> \<not> isBind sb' \<and> readPos sb' = readPos sb \<and>
    unat (writePos sb') = unat (writePos sb) + item_size x"
proof -
  have "item_size x = al4 (length c)" by (simp add: item_size_def assms(6) chunks_size_def)
  then show ?thesis
    using Write_room [OF assms(1,5,2)] assms(3,4) by auto
qed

lemma raw_put_room:
  assumes "sbuf_ok sb" "\<not> isBind sb" "item_wf x" "unat (writePos sb) + 2 * item_size x + 260 \<le> 524288"
  shows "\<exists>sb'. raw_put (\<lambda>_. True) sb x = (sb', True) \<and> \<not> isBind sb' \<and> readPos sb' = readPos sb \<and>
    unat (writePos sb') = unat (writePos sb) + item_size x"
proof (cases x)
  case (SBuf v)
  have al44: "al4 4 = 4" by (simp add: al4_def)
  show ?thesis
  proof (cases v)
    case None
    show ?thesis
      by (rule scalar_room [OF assms(1,2,4), of "le_bytes 4 (0 :: u32)" 4])
        (simp_all add: SBuf None SbufRawImplWriteBuffer_def sbuf_scalar_defs)
  next
    case (Some d)
    have u: "unat (word_of_nat (length d) :: u32) = length d"
      using SBuf Some assms(3) by (intro unat_of_length) simp
    have sz: "item_size x = 4 + al4 (length d)"
      by (simp add: SBuf Some item_size_def chunks_size_def al44)
    show ?thesis
      using WriteBuffer_room [OF assms(1) u assms(2)] assms(4) by (simp add: SBuf Some sz add.assoc) (simp add: sz [unfolded SBuf Some])
  qed
next
  case (SStr s)
  let ?c = "bytes_of s @ [0]"
  have u: "unat (word_of_nat (length s + 1) :: u32) = length ?c"
    using unat_of_length [of ?c] SStr assms(3) by simp
  have sz: "item_size x = 4 + al4 (length ?c)"
    by (simp add: SStr item_size_def chunks_size_def al4_def)
  have "raw_put (\<lambda>_. True) sb x = SbufRawImplWriteBuffer (\<lambda>_. True) sb (Some ?c) (word_of_nat (length s + 1))"
    by (simp add: SStr SbufRawImplWriteString_def)
  then show ?thesis
    using WriteBuffer_room [OF assms(1) u assms(2)] assms(4) by (simp only: sz) (simp add: add.assoc)
next
  case (SU64 v)
  show ?thesis by (rule scalar_room [OF assms(1,2,4), of "le_bytes 8 v" 8]) (simp_all add: SU64 sbuf_scalar_defs)
next
  case (SU32 v)
  show ?thesis by (rule scalar_room [OF assms(1,2,4), of "le_bytes 4 v" 4]) (simp_all add: SU32 sbuf_scalar_defs)
next
  case (SU16 v)
  show ?thesis by (rule scalar_room [OF assms(1,2,4), of "le_bytes 2 v" 2]) (simp_all add: SU16 sbuf_scalar_defs)
next
  case (SU8 v)
  show ?thesis by (rule scalar_room [OF assms(1,2,4), of "le_bytes 1 v" 1]) (simp_all add: SU8 sbuf_scalar_defs)
next
  case (SI64 v)
  show ?thesis by (rule scalar_room [OF assms(1,2,4), of "le_bytes 8 v" 8]) (simp_all add: SI64 sbuf_scalar_defs)
next
  case (SI32 v)
  show ?thesis by (rule scalar_room [OF assms(1,2,4), of "le_bytes 4 v" 4]) (simp_all add: SI32 sbuf_scalar_defs)
next
  case (SI16 v)
  show ?thesis by (rule scalar_room [OF assms(1,2,4), of "le_bytes 2 v" 2]) (simp_all add: SI16 sbuf_scalar_defs)
next
  case (SI8 v)
  show ?thesis by (rule scalar_room [OF assms(1,2,4), of "le_bytes 1 v" 1]) (simp_all add: SI8 sbuf_scalar_defs)
qed

lemma put_all_room:
  assumes "sbuf_ok sb" "\<not> isBind sb" "\<forall>x \<in> set xs. item_wf x"
    and "\<forall>x \<in> set xs. unat (writePos sb) + sum_list (map item_size xs) + item_size x + 260 \<le> 524288"
  shows "\<exists>sb'. put_all (raw_put (\<lambda>_. True)) sb xs = (sb', True) \<and> readPos sb' = readPos sb \<and>
    unat (writePos sb') = unat (writePos sb) + sum_list (map item_size xs)"
  using assms
proof (induction xs arbitrary: sb)
  case (Cons x xs)
  have "item_wf x" "unat (writePos sb) + 2 * item_size x + 260 \<le> 524288" using Cons.prems(3,4) by auto
  from raw_put_room [OF Cons.prems(1,2) this] obtain sb1 where
    p: "raw_put (\<lambda>_. True) sb x = (sb1, True)" "\<not> isBind sb1" "readPos sb1 = readPos sb"
    "unat (writePos sb1) = unat (writePos sb) + item_size x" by blast
  have "sbuf_ok sb1" using raw_put_pending [OF Cons.prems(1) \<open>item_wf x\<close> p(1)] by simp
  from Cons.IH [OF this p(2)] Cons.prems(3,4) p show ?case by (simp add: add.assoc)
qed simp

section \<open>Properties\<close>

lemma ObtainRaw_ok:
  assumes "SbufObtainRaw alloc cap = Some sb"
  shows "sbuf_ok sb" "pending sb = []" "\<not> isBind sb" "writePos sb = 0" "readPos sb = 0"
  using assms
  by (auto simp: SbufObtainRaw_def SbufRawImplNewInstance_def sbuf_ok_def sbytes_def pending_def
      word_less_nat_alt not_less split: if_splits)





text \<open>
  C13. Failed writes are atomic. When an item is refused (the buffer is bound, the limit is
  reached, or memory is short) the pending bytes are what they were: the length field that
  precedes a buffer or a string is rolled back too.
\<close>

theorem sbuf_put_atomic:
  assumes "sbuf_ok sb" "item_wf x" "raw_put alloc sb x = (sb', False)"
  shows "sbuf_ok sb' \<and> pending sb' = pending sb"
  using raw_put_pending [OF assms] by simp

theorem sbuf_put_atomic_witness:
  "\<exists>sb'. sbuf_ok sb' \<and>
     pending sb' = pending \<lparr>writePos = 4, readPos = 0, capacity = 8, sdata = Some [1,2,3,4,0,0,0,0], isBind = True\<rparr>"
proof -
  let ?sb = "\<lparr>writePos = 4, readPos = 0, capacity = 8, sdata = Some [1,2,3,4,0,0,0,0], isBind = True\<rparr>"
  have "\<not> snd (raw_put (\<lambda>_. True) ?sb (SStr ''abc''))" by code_simp
  then obtain sb' where r: "raw_put (\<lambda>_. True) ?sb (SStr ''abc'') = (sb', False)"
    by (metis prod.collapse)
  have o: "sbuf_ok ?sb" by (simp add: sbuf_ok_def sbytes_def)
  have wf: "item_wf (SStr ''abc'')" by (simp add: wf_cstr_def)
  show ?thesis using sbuf_put_atomic [OF o wf r] by blast
qed

text \<open>A signed length as it is read: what the bounds check of a block compares.\<close>

lemma GetAlignSize_signed:
  assumes "n \<noteq> (0 :: u32)"
  shows "unat n < 2 ^ 31 \<and> unat (SbufRawImplGetAlignSize (scast n)) = al4 (unat n) \<or>
    2 ^ 31 \<le> unat n \<and> unat n < 4294967293 \<and> 2 ^ 62 \<le> unat (SbufRawImplGetAlignSize (scast n)) \<or>
    n \<in> {- 3, - 2, - 1} \<and> SbufRawImplGetAlignSize (scast n) = 0"
proof -
  consider "unat n < 2 ^ 31" | "2 ^ 31 \<le> unat n" "unat n < 4294967293" | "4294967293 \<le> unat n" by linarith
  then show ?thesis
  proof cases
    case 1
    then show ?thesis using scast_int32(1) [OF 1] by simp
  next
    case 2
    have e: "unat (scast n :: u64) = unat n + 18446744069414584320" by (rule scast_neg [OF 2(1)])
    then have "unat (SbufRawImplGetAlignSize (scast n)) = al4 (unat n + 18446744069414584320)"
      using unat_GetAlignSize [of "scast n"] 2(2) by simp
    then have "2 ^ 62 \<le> unat (SbufRawImplGetAlignSize (scast n))"
      using al4_bounds(1) [of "unat n + 18446744069414584320"] by simp
    then show ?thesis using 2 by blast
  next
    case 3
    have "unat n < 2 ^ LENGTH(32)" by (rule unsigned_less)
    then have "unat n = 4294967293 \<or> unat n = 4294967294 \<or> unat n = 4294967295" using 3 by auto
    moreover have "n = word_of_nat (unat n)" by simp
    ultimately have "n = - 3 \<or> n = - 2 \<or> n = - 1" by (elim disjE) (simp_all only:, simp_all)
    then show ?thesis by (elim disjE) (simp_all add: SbufRawImplGetAlignSize_def)
  qed
qed

lemma ReadInt32_cases:
  assumes "sbuf_ok sb"
  shows "SbufRawImplReadInt32 sb True = (sb, None) \<or>
    (\<exists>n. SbufRawImplReadInt32 sb True = (sb\<lparr>readPos := readPos sb + 4\<rparr>, Some n) \<and>
      n = le_word (take 4 (pending sb)) \<and> sbuf_ok (sb\<lparr>readPos := readPos sb + 4\<rparr>) \<and>
      pending (sb\<lparr>readPos := readPos sb + 4\<rparr>) = drop 4 (pending sb) \<and>
      unat (readPos sb + 4) = unat (readPos sb) + 4)"
proof -
  have al44: "al4 4 = 4" by (simp add: al4_def)
  have a4: "SbufRawImplGetAlignSize 4 = 4" by (simp add: SbufRawImplGetAlignSize_def)
  show ?thesis
  proof (cases "4 \<le> length (pending sb)")
    case True
    with pending_advance [OF assms, of 4] show ?thesis
      using Read_pending [OF assms, of 4] by (simp add: SbufRawImplReadInt32_def read_scalar_def al44 a4)
  next
    case False
    then show ?thesis
      using Read_pending [OF assms, of 4] by (simp add: SbufRawImplReadInt32_def read_scalar_def al44)
  qed
qed

text \<open>
  C8. Reading a block from untrusted bytes. On any well-formed buffer \<^verbatim>\<open>ReadBuffer\<close>
  keeps the positions in order; when it refuses, the buffer is exactly as before; and a block it
  returns lies inside the written bytes, unless the length field is one of the three values
  -3, -2, -1.
\<close>

theorem ReadBuffer_safe:
  assumes "sbuf_ok sb" "SbufRawImplReadBuffer sb True = (sb', r)"
  shows "sbuf_ok sb' \<and> (r = None \<longrightarrow> sb' = sb) \<and>
    (\<forall>p n. r = Some (Some p, n) \<longrightarrow> n \<notin> {- 3, - 2, - 1} \<longrightarrow>
       unat p + unat n \<le> unat (readPos sb') \<and> unat (readPos sb') \<le> unat (writePos sb'))"
proof -
  have dat: "sdata sb \<noteq> None" using assms(1) by (simp add: sbuf_ok_def)
  let ?sb = "sb\<lparr>readPos := readPos sb + 4\<rparr>"
  consider "SbufRawImplReadInt32 sb True = (sb, None)"
    | n where "SbufRawImplReadInt32 sb True = (?sb, Some n)" "sbuf_ok ?sb" "unat (readPos sb + 4) = unat (readPos sb) + 4"
    using ReadInt32_cases [OF assms(1)] by blast
  then show ?thesis
  proof cases
    case 1
    then have "sb' = sb \<and> r = None" using assms(2) dat by (simp add: SbufRawImplReadBuffer_def)
    then show ?thesis using assms(1) by simp
  next
    case 2
    let ?a = "SbufRawImplGetAlignSize (scast n)"
    consider "n = 0" | "n \<noteq> 0" "?a > SbufRawImplGetLeftReadSize ?sb" | "n \<noteq> 0" "\<not> ?a > SbufRawImplGetLeftReadSize ?sb"
      by blast
    then show ?thesis
    proof cases
      case 1
      then have "sb' = ?sb \<and> r = Some (None, 0)"
        using assms(2) dat 2(1) by (simp add: SbufRawImplReadBuffer_def)
      then show ?thesis using 2(2) by simp
    next
      case a: 2
      have "\<not> readPos sb + 4 < 4" using 2(3) by (simp add: word_less_nat_alt)
      then have "SbufRawImplReadRollback ?sb 4 = (sb, True)"
        by (simp add: SbufRawImplReadRollback_def SbufRawImplGetAlignSize_def)
      then have "sb' = sb \<and> r = None"
        using assms(2) dat 2(1) a by (simp add: SbufRawImplReadBuffer_def Let_def)
      then show ?thesis using assms(1) by simp
    next
      case b: 3
      have out: "sb' = ?sb\<lparr>readPos := readPos sb + 4 + ?a\<rparr> \<and> r = Some (Some (readPos sb + 4), n)"
        using assms(2) dat 2(1) b by (simp add: SbufRawImplReadBuffer_def Let_def)
      have fit: "unat ?a \<le> length (pending ?sb)"
        using b(2) by (simp add: word_less_nat_alt unat_LeftReadSize [OF 2(2)])
      note adv = pending_advance [OF 2(2) fit]
      then have ok: "sbuf_ok sb'" and rp: "unat (readPos sb') = unat (readPos sb + 4) + unat ?a"
        using out by simp_all
      have "length (pending ?sb) < 2 ^ 62"
        using 2(2) length_pending [OF 2(2)] by (simp only: sbuf_ok_def) linarith
      then have "unat n \<le> unat ?a \<or> n \<in> {- 3, - 2, - 1}"
        using GetAlignSize_signed [OF b(1)] fit al4_bounds(1) [of "unat n"] by linarith
      then show ?thesis
        using ok rp out by (simp only: sbuf_ok_def) auto
    qed
  qed
qed

theorem ReadBuffer_safe_witness:
  "sbuf_ok (fst (SbufRawImplReadBuffer \<lparr>writePos = 8, readPos = 0, capacity = 8,
     sdata = Some [200,0,0,0,1,2,3,4], isBind = True\<rparr> True))"
proof -
  let ?sb = "\<lparr>writePos = 8, readPos = 0, capacity = 8, sdata = Some [200,0,0,0,1,2,3,4], isBind = True\<rparr>"
  have o: "sbuf_ok ?sb" by (simp add: sbuf_ok_def sbytes_def)
  show ?thesis using ReadBuffer_safe [OF o, of "fst (SbufRawImplReadBuffer ?sb True)" "snd (SbufRawImplReadBuffer ?sb True)"]
    by simp
qed

text \<open>
  C14. The length check of \<^verbatim>\<open>ReadBuffer\<close> can be passed by a negative length: sign extension
  and rounding up wrap the lengths -3, -2 and -1 to zero. The call succeeds, consumes only
  the length field, and reports a block of about 4 GiB at the read position.
\<close>

theorem ReadBuffer_negative_length:
  assumes "sbuf_ok sb" "4 \<le> length (pending sb)" "take 4 (pending sb) = le_bytes 4 n"
    and "n \<in> {- 3, - 2, - 1 :: u32}"
  shows "\<exists>sb'. SbufRawImplReadBuffer sb True = (sb', Some (Some (readPos sb'), n)) \<and>
    pending sb' = drop 4 (pending sb) \<and> 4294967293 \<le> unat n"
proof -
  have dat: "sdata sb \<noteq> None" using assms(1) by (simp add: sbuf_ok_def)
  let ?sb = "sb\<lparr>readPos := readPos sb + 4\<rparr>"
  have al44: "al4 4 = 4" by (simp add: al4_def)
  have a4: "SbufRawImplGetAlignSize 4 = 4" by (simp add: SbufRawImplGetAlignSize_def)
  have "SbufRawImplReadInt32 sb True = (?sb, Some n)"
    using Read_pending [OF assms(1), of 4] assms(2,3)
    by (simp add: SbufRawImplReadInt32_def read_scalar_def al44 a4 le_word_le_bytes_id)
  moreover have "SbufRawImplGetAlignSize (scast n) = 0" "n \<noteq> 0" "4294967293 \<le> unat n"
    using assms(4) by (auto simp: SbufRawImplGetAlignSize_def unsigned_minus_1_eq_mask mask_eq_exp_minus_1)
  moreover have "pending ?sb = drop 4 (pending sb)"
    using pending_advance(2) [OF assms(1), of 4] assms(2) by simp
  ultimately show ?thesis
    using dat by (simp add: SbufRawImplReadBuffer_def Let_def)
qed

theorem ReadBuffer_negative_length_witness:
  "\<exists>sb'. SbufRawImplReadBuffer \<lparr>writePos = 8, readPos = 0, capacity = 8,
     sdata = Some [255,255,255,255,1,2,3,4], isBind = True\<rparr> True = (sb', Some (Some (readPos sb'), - 1))"
proof -
  let ?sb = "\<lparr>writePos = 8, readPos = 0, capacity = 8, sdata = Some [255,255,255,255,1,2,3,4], isBind = True\<rparr>"
  have o: "sbuf_ok ?sb" by (simp add: sbuf_ok_def sbytes_def)
  have p: "4 \<le> length (pending ?sb)" "take 4 (pending ?sb) = le_bytes 4 (- 1 :: u32)"
    by (simp_all add: pending_def sbytes_def) code_simp
  show ?thesis using ReadBuffer_negative_length [OF o p] by blast
qed

text \<open>
  Copy and move. The copy of a buffer within the limit owns its memory and holds all
  bytes written so far, ready to be read from the start; a larger (bound) buffer is not
  copied. Moving hands the very data area over: the new buffer holds the same bytes, the old
  one is left without memory, so that every later write to it is refused.
\<close>

theorem sbuf_copy_move:
  assumes "sbuf_ok sb"
  shows "(case SbufRawImplCopy (\<lambda>_. True) sb of
      None \<Rightarrow> capacity sb > HDF_SBUF_MAX_SIZE
    | Some new \<Rightarrow> sbuf_ok new \<and> \<not> isBind new \<and> pending new = take (unat (writePos sb)) (sbytes sb)) \<and>
    (case SbufRawImplMove (\<lambda>_. True) sb of
      (old, None) \<Rightarrow> isBind sb \<and> old = sb
    | (old, Some new) \<Rightarrow> sbuf_ok new \<and> pending new = take (unat (writePos sb)) (sbytes sb) \<and>
        (\<forall>alloc dat n. SbufRawImplWrite alloc old dat n = (old, False)))"
proof (rule conjI)
  obtain d where d: "sdata sb = Some d" "sbytes sb = d" and b: "length d = unat (capacity sb)"
    "unat (writePos sb) \<le> unat (capacity sb)" "unat (capacity sb) < 2 ^ 62"
    using assms by (auto simp: sbuf_ok_def sbytes_def)
  show "case SbufRawImplCopy (\<lambda>_. True) sb of
      None \<Rightarrow> capacity sb > HDF_SBUF_MAX_SIZE
    | Some new \<Rightarrow> sbuf_ok new \<and> \<not> isBind new \<and> pending new = take (unat (writePos sb)) (sbytes sb)"
    using d b
    by (simp add: SbufRawImplCopy_def SbufRawImplNewInstance_def sbuf_ok_def pending_def sbytes_def overwrite_def)
  show "case SbufRawImplMove (\<lambda>_. True) sb of
      (old, None) \<Rightarrow> isBind sb \<and> old = sb
    | (old, Some new) \<Rightarrow> sbuf_ok new \<and> pending new = take (unat (writePos sb)) (sbytes sb) \<and>
        (\<forall>alloc dat n. SbufRawImplWrite alloc old dat n = (old, False))"
    using d b
    by (simp add: SbufRawImplMove_def SbufRawImplFlush_def SbufRawImplWrite_def sbuf_ok_def pending_def sbytes_def)
qed

theorem sbuf_copy_move_witness:
  "case SbufRawImplMove (\<lambda>_. True)
       \<lparr>writePos = 4, readPos = 4, capacity = 8, sdata = Some [1,2,3,4,0,0,0,0], isBind = False\<rparr> of
      (old, None) \<Rightarrow> False
    | (old, Some new) \<Rightarrow> pending new = [1, 2, 3, 4]"
proof -
  let ?sb = "\<lparr>writePos = 4, readPos = 4, capacity = 8, sdata = Some [1,2,3,4,0,0,0,0], isBind = False\<rparr>"
  have o: "sbuf_ok ?sb" by (simp add: sbuf_ok_def sbytes_def)
  show ?thesis using conjunct2 [OF sbuf_copy_move [OF o]] by (auto simp: sbytes_def split: prod.splits option.splits)
qed

end
