(* ===== verification/Hdf_Sbuf.thy ===== *)
theory Hdf_Sbuf
  imports Hdf_Sbuf_Raw
begin

text \<open>
  The buffer objects of utils/src/hdf_sbuf.c: a table of functions (\<^verbatim>\<open>struct HdfSBufImpl\<close>)
  over an implementation state, the wrappers that check the object and the table before they
  call it, and the constructors by type. The raw implementation fills the table as
  \<^verbatim>\<open>SbufInterfaceAssign\<close> does; the two IPC constructors are weak symbols defined elsewhere
  and are parameters. On top of it, the marshalling of a service status
  (core/shared/src/service_status.c).
\<close>

section \<open>The table of functions\<close>

text \<open>
  A NULL entry is \<^verbatim>\<open>None\<close>. A pointer returned into the buffer is given by the bytes or
  the string it points to; \<^verbatim>\<open>float\<close>, \<^verbatim>\<open>double\<close> and remote-service pointers are their
  bits.
\<close>

record 's sbuf_ops =
  writeBuffer :: "(osal_alloc \<Rightarrow> 's \<Rightarrow> u8 list option \<Rightarrow> u32 \<Rightarrow> 's \<times> bool) option"
  writeUnpadBuffer :: "(osal_alloc \<Rightarrow> 's \<Rightarrow> u8 list \<Rightarrow> u32 \<Rightarrow> 's \<times> bool) option"
  writeUint64 :: "(osal_alloc \<Rightarrow> 's \<Rightarrow> u64 \<Rightarrow> 's \<times> bool) option"
  writeUint32 :: "(osal_alloc \<Rightarrow> 's \<Rightarrow> u32 \<Rightarrow> 's \<times> bool) option"
  writeUint16 :: "(osal_alloc \<Rightarrow> 's \<Rightarrow> u16 \<Rightarrow> 's \<times> bool) option"
  writeUint8 :: "(osal_alloc \<Rightarrow> 's \<Rightarrow> u8 \<Rightarrow> 's \<times> bool) option"
  writeInt64 :: "(osal_alloc \<Rightarrow> 's \<Rightarrow> u64 \<Rightarrow> 's \<times> bool) option"
  writeInt32 :: "(osal_alloc \<Rightarrow> 's \<Rightarrow> u32 \<Rightarrow> 's \<times> bool) option"
  writeInt16 :: "(osal_alloc \<Rightarrow> 's \<Rightarrow> u16 \<Rightarrow> 's \<times> bool) option"
  writeInt8 :: "(osal_alloc \<Rightarrow> 's \<Rightarrow> u8 \<Rightarrow> 's \<times> bool) option"
  writeString :: "(osal_alloc \<Rightarrow> 's \<Rightarrow> cstr option \<Rightarrow> 's \<times> bool) option"
  writeFileDescriptor :: "(osal_alloc \<Rightarrow> 's \<Rightarrow> u32 \<Rightarrow> 's \<times> bool) option"
  writeFloat :: "(osal_alloc \<Rightarrow> 's \<Rightarrow> u32 \<Rightarrow> 's \<times> bool) option"
  writeDouble :: "(osal_alloc \<Rightarrow> 's \<Rightarrow> u64 \<Rightarrow> 's \<times> bool) option"
  readDouble :: "('s \<Rightarrow> bool \<Rightarrow> 's \<times> u64 option) option"
  readFloat :: "('s \<Rightarrow> bool \<Rightarrow> 's \<times> u32 option) option"
  readFileDescriptor :: "('s \<Rightarrow> 's \<times> int) option"
  writeString16 :: "(osal_alloc \<Rightarrow> 's \<Rightarrow> u16 list option \<Rightarrow> u32 \<Rightarrow> 's \<times> bool) option"
  readBuffer :: "('s \<Rightarrow> bool \<Rightarrow> 's \<times> (u8 list option \<times> u32) option) option"
  readUnpadBuffer :: "('s \<Rightarrow> u64 \<Rightarrow> 's \<times> u8 list option) option"
  readUint64 :: "('s \<Rightarrow> bool \<Rightarrow> 's \<times> u64 option) option"
  readUint32 :: "('s \<Rightarrow> bool \<Rightarrow> 's \<times> u32 option) option"
  readUint16 :: "('s \<Rightarrow> bool \<Rightarrow> 's \<times> u16 option) option"
  readUint8 :: "('s \<Rightarrow> bool \<Rightarrow> 's \<times> u8 option) option"
  readInt64 :: "('s \<Rightarrow> bool \<Rightarrow> 's \<times> u64 option) option"
  readInt32 :: "('s \<Rightarrow> bool \<Rightarrow> 's \<times> u32 option) option"
  readInt16 :: "('s \<Rightarrow> bool \<Rightarrow> 's \<times> u16 option) option"
  readInt8 :: "('s \<Rightarrow> bool \<Rightarrow> 's \<times> u8 option) option"
  readString :: "('s \<Rightarrow> 's \<times> cstr option) option"
  readString16 :: "('s \<Rightarrow> 's \<times> u16 list option) option"
  writeRemoteService :: "('s \<Rightarrow> u64 \<Rightarrow> 's \<times> int) option"
  readRemoteService :: "('s \<Rightarrow> 's \<times> u64 option) option"
  getData :: "('s \<Rightarrow> u8 list option) option"
  flush :: "('s \<Rightarrow> 's) option"
  getCapacity :: "('s \<Rightarrow> u64) option"
  getDataSize :: "('s \<Rightarrow> u64) option"
  setDataSize :: "('s \<Rightarrow> u64 \<Rightarrow> 's) option"
  recycle :: "('s \<Rightarrow> u8 list option) option"
  move_op :: "(osal_alloc \<Rightarrow> 's \<Rightarrow> 's \<times> 's option) option"
  copy_op :: "(osal_alloc \<Rightarrow> 's \<Rightarrow> 's option) option"
  transDataOwnership :: "('s \<Rightarrow> 's) option"

record 's HdfSBuf =
  impl :: "('s sbuf_ops \<times> 's) option"
  sbuf_type :: u32

abbreviation (input) SBUF_RAW :: u32 where "SBUF_RAW \<equiv> 0"
abbreviation (input) SBUF_IPC :: u32 where "SBUF_IPC \<equiv> 1"
abbreviation (input) SBUF_IPC_HW :: u32 where "SBUF_IPC_HW \<equiv> 2"
abbreviation (input) SBUF_TYPE_MAX :: u32 where "SBUF_TYPE_MAX \<equiv> 3"
abbreviation (input) HDF_SBUF_DEFAULT_SIZE :: u64 where "HDF_SBUF_DEFAULT_SIZE \<equiv> 256"

text \<open>
  The macro \<^verbatim>\<open>HDF_SBUF_IMPL_CHECK_RETURN\<close> followed by the call of the entry it
  checked; \<^verbatim>\<open>ret\<close> is returned when the object, its implementation or the entry is NULL.
\<close>

definition sbuf_call ::
  "'s HdfSBuf option \<Rightarrow> ('s sbuf_ops \<Rightarrow> 'f option) \<Rightarrow> ('f \<Rightarrow> 's \<Rightarrow> 's \<times> 'r) \<Rightarrow> 'r \<Rightarrow> 's HdfSBuf option \<times> 'r" where
  "sbuf_call sbuf api run ret =
     (case sbuf of
        None \<Rightarrow> (sbuf, ret)
      | Some b \<Rightarrow>
          (case impl b of
             None \<Rightarrow> (sbuf, ret)
           | Some (ops, s) \<Rightarrow>
               (case api ops of
                  None \<Rightarrow> (sbuf, ret)
                | Some f \<Rightarrow> (let (s', r) = run f s in (Some (b\<lparr>impl := Some (ops, s')\<rparr>), r)))))"

text \<open>
  Two wrappers check one entry and call another (\<^verbatim>\<open>HdfSbufFlush\<close> checks
  \<^verbatim>\<open>getData\<close>, \<^verbatim>\<open>HdfSbufWriteBuffer\<close> checks \<^verbatim>\<open>getCapacity\<close>): when the
  entry called is NULL the behaviour is undefined.
\<close>

definition sbuf_call_unchecked ::
  "'s HdfSBuf option \<Rightarrow> ('s sbuf_ops \<Rightarrow> 'g option) \<Rightarrow> ('s sbuf_ops \<Rightarrow> 'f option) \<Rightarrow>
   ('f \<Rightarrow> 's \<Rightarrow> 's \<times> 'r) \<Rightarrow> 'r \<Rightarrow> ('s HdfSBuf option \<times> 'r) option" where
  "sbuf_call_unchecked sbuf checked api run ret =
     (case sbuf of
        None \<Rightarrow> Some (sbuf, ret)
      | Some b \<Rightarrow>
          (case impl b of
             None \<Rightarrow> Some (sbuf, ret)
           | Some (ops, s) \<Rightarrow>
               (case checked ops of
                  None \<Rightarrow> Some (sbuf, ret)
                | Some _ \<Rightarrow>
                    (case api ops of
                       None \<Rightarrow> UB
                     | Some f \<Rightarrow> (let (s', r) = run f s in Some (Some (b\<lparr>impl := Some (ops, s')\<rparr>), r))))))"

section \<open>The wrappers\<close>

definition HdfSbufGetData :: "'s HdfSBuf option \<Rightarrow> u8 list option" where
  "HdfSbufGetData sbuf =
     snd (sbuf_call sbuf getData (\<lambda>f s. (s, f s)) None)"

definition HdfSbufFlush :: "'s HdfSBuf option \<Rightarrow> ('s HdfSBuf option \<times> unit) option" where
  "HdfSbufFlush sbuf =
     sbuf_call_unchecked sbuf getData flush (\<lambda>f s. (f s, ())) ()"

definition HdfSbufGetCapacity :: "'s HdfSBuf option \<Rightarrow> u64" where
  "HdfSbufGetCapacity sbuf =
     snd (sbuf_call sbuf getCapacity (\<lambda>f s. (s, f s)) (word_of_int HDF_FAILURE))"

definition HdfSbufGetDataSize :: "'s HdfSBuf option \<Rightarrow> u64" where
  "HdfSbufGetDataSize sbuf =
     snd (sbuf_call sbuf getDataSize (\<lambda>f s. (s, f s)) (word_of_int HDF_FAILURE))"

definition HdfSbufSetDataSize :: "'s HdfSBuf option \<Rightarrow> u64 \<Rightarrow> 's HdfSBuf option" where
  "HdfSbufSetDataSize sbuf n =
     fst (sbuf_call sbuf setDataSize (\<lambda>f s. (f s n, ())) ())"

definition HdfSbufWriteBuffer :: "osal_alloc \<Rightarrow> 's HdfSBuf option \<Rightarrow> u8 list option \<Rightarrow> u32 \<Rightarrow> ('s HdfSBuf option \<times> bool) option" where
  "HdfSbufWriteBuffer alloc sbuf dat writeSize =
     sbuf_call_unchecked sbuf getCapacity writeBuffer (\<lambda>f s. f alloc s dat writeSize) False"

definition HdfSbufWriteUnpadBuffer :: "osal_alloc \<Rightarrow> 's HdfSBuf option \<Rightarrow> u8 list option \<Rightarrow> u32 \<Rightarrow> 's HdfSBuf option \<times> bool" where
  "HdfSbufWriteUnpadBuffer alloc sbuf dat writeSize =
     (case dat of
        None \<Rightarrow> (sbuf, False)
      | Some d \<Rightarrow> sbuf_call sbuf writeUnpadBuffer (\<lambda>f s. f alloc s d writeSize) False)"

definition HdfSbufReadUnpadBuffer :: "'s HdfSBuf option \<Rightarrow> u64 \<Rightarrow> 's HdfSBuf option \<times> u8 list option" where
  "HdfSbufReadUnpadBuffer sbuf n =
     sbuf_call sbuf readUnpadBuffer (\<lambda>f s. f s n) None"

definition HdfSbufReadBuffer :: "'s HdfSBuf option \<Rightarrow> bool \<Rightarrow> 's HdfSBuf option \<times> (u8 list option \<times> u32) option" where
  "HdfSbufReadBuffer sbuf out =
     sbuf_call sbuf readBuffer (\<lambda>f s. f s out) None"

definition HdfSbufWriteUint64 :: "osal_alloc \<Rightarrow> 's HdfSBuf option \<Rightarrow> u64 \<Rightarrow> 's HdfSBuf option \<times> bool" where
  "HdfSbufWriteUint64 alloc sbuf v =
     sbuf_call sbuf writeUint64 (\<lambda>f s. f alloc s v) False"

definition HdfSbufWriteUint32 :: "osal_alloc \<Rightarrow> 's HdfSBuf option \<Rightarrow> u32 \<Rightarrow> 's HdfSBuf option \<times> bool" where
  "HdfSbufWriteUint32 alloc sbuf v =
     sbuf_call sbuf writeUint32 (\<lambda>f s. f alloc s v) False"

definition HdfSbufWriteUint16 :: "osal_alloc \<Rightarrow> 's HdfSBuf option \<Rightarrow> u16 \<Rightarrow> 's HdfSBuf option \<times> bool" where
  "HdfSbufWriteUint16 alloc sbuf v =
     sbuf_call sbuf writeUint16 (\<lambda>f s. f alloc s v) False"

definition HdfSbufWriteUint8 :: "osal_alloc \<Rightarrow> 's HdfSBuf option \<Rightarrow> u8 \<Rightarrow> 's HdfSBuf option \<times> bool" where
  "HdfSbufWriteUint8 alloc sbuf v =
     sbuf_call sbuf writeUint8 (\<lambda>f s. f alloc s v) False"

definition HdfSbufWriteInt64 :: "osal_alloc \<Rightarrow> 's HdfSBuf option \<Rightarrow> u64 \<Rightarrow> 's HdfSBuf option \<times> bool" where
  "HdfSbufWriteInt64 alloc sbuf v =
     sbuf_call sbuf writeInt64 (\<lambda>f s. f alloc s v) False"

definition HdfSbufWriteInt32 :: "osal_alloc \<Rightarrow> 's HdfSBuf option \<Rightarrow> u32 \<Rightarrow> 's HdfSBuf option \<times> bool" where
  "HdfSbufWriteInt32 alloc sbuf v =
     sbuf_call sbuf writeInt32 (\<lambda>f s. f alloc s v) False"

definition HdfSbufWriteInt16 :: "osal_alloc \<Rightarrow> 's HdfSBuf option \<Rightarrow> u16 \<Rightarrow> 's HdfSBuf option \<times> bool" where
  "HdfSbufWriteInt16 alloc sbuf v =
     sbuf_call sbuf writeInt16 (\<lambda>f s. f alloc s v) False"

definition HdfSbufWriteInt8 :: "osal_alloc \<Rightarrow> 's HdfSBuf option \<Rightarrow> u8 \<Rightarrow> 's HdfSBuf option \<times> bool" where
  "HdfSbufWriteInt8 alloc sbuf v =
     sbuf_call sbuf writeInt8 (\<lambda>f s. f alloc s v) False"

definition HdfSbufWriteString :: "osal_alloc \<Rightarrow> 's HdfSBuf option \<Rightarrow> cstr option \<Rightarrow> 's HdfSBuf option \<times> bool" where
  "HdfSbufWriteString alloc sbuf v =
     sbuf_call sbuf writeString (\<lambda>f s. f alloc s v) False"

definition HdfSbufWriteString16 :: "osal_alloc \<Rightarrow> 's HdfSBuf option \<Rightarrow> u16 list option \<Rightarrow> u32 \<Rightarrow> 's HdfSBuf option \<times> bool" where
  "HdfSbufWriteString16 alloc sbuf v n =
     sbuf_call sbuf writeString16 (\<lambda>f s. f alloc s v n) False"

definition HdfSBufWriteString16 :: "osal_alloc \<Rightarrow> 's HdfSBuf option \<Rightarrow> u16 list option \<Rightarrow> u32 \<Rightarrow> 's HdfSBuf option \<times> bool" where
  "HdfSBufWriteString16 alloc sbuf v n =
     sbuf_call sbuf writeString16 (\<lambda>f s. f alloc s v n) False"

definition HdfSbufReadUint64 :: "'s HdfSBuf option \<Rightarrow> bool \<Rightarrow> 's HdfSBuf option \<times> u64 option" where
  "HdfSbufReadUint64 sbuf out =
     sbuf_call sbuf readUint64 (\<lambda>f s. f s out) None"

definition HdfSbufReadUint32 :: "'s HdfSBuf option \<Rightarrow> bool \<Rightarrow> 's HdfSBuf option \<times> u32 option" where
  "HdfSbufReadUint32 sbuf out =
     sbuf_call sbuf readUint32 (\<lambda>f s. f s out) None"

definition HdfSbufReadUint16 :: "'s HdfSBuf option \<Rightarrow> bool \<Rightarrow> 's HdfSBuf option \<times> u16 option" where
  "HdfSbufReadUint16 sbuf out =
     sbuf_call sbuf readUint16 (\<lambda>f s. f s out) None"

definition HdfSbufReadUint8 :: "'s HdfSBuf option \<Rightarrow> bool \<Rightarrow> 's HdfSBuf option \<times> u8 option" where
  "HdfSbufReadUint8 sbuf out =
     sbuf_call sbuf readUint8 (\<lambda>f s. f s out) None"

definition HdfSbufReadInt64 :: "'s HdfSBuf option \<Rightarrow> bool \<Rightarrow> 's HdfSBuf option \<times> u64 option" where
  "HdfSbufReadInt64 sbuf out =
     sbuf_call sbuf readInt64 (\<lambda>f s. f s out) None"

definition HdfSbufReadInt32 :: "'s HdfSBuf option \<Rightarrow> bool \<Rightarrow> 's HdfSBuf option \<times> u32 option" where
  "HdfSbufReadInt32 sbuf out =
     sbuf_call sbuf readInt32 (\<lambda>f s. f s out) None"

definition HdfSbufReadInt16 :: "'s HdfSBuf option \<Rightarrow> bool \<Rightarrow> 's HdfSBuf option \<times> u16 option" where
  "HdfSbufReadInt16 sbuf out =
     sbuf_call sbuf readInt16 (\<lambda>f s. f s out) None"

definition HdfSbufReadInt8 :: "'s HdfSBuf option \<Rightarrow> bool \<Rightarrow> 's HdfSBuf option \<times> u8 option" where
  "HdfSbufReadInt8 sbuf out =
     sbuf_call sbuf readInt8 (\<lambda>f s. f s out) None"

definition HdfSbufReadString :: "'s HdfSBuf option \<Rightarrow> 's HdfSBuf option \<times> cstr option" where
  "HdfSbufReadString sbuf =
     sbuf_call sbuf readString (\<lambda>f s. f s) None"

definition HdfSbufReadString16 :: "'s HdfSBuf option \<Rightarrow> 's HdfSBuf option \<times> u16 list option" where
  "HdfSbufReadString16 sbuf =
     sbuf_call sbuf readString16 (\<lambda>f s. f s) None"

text \<open>The default \<^verbatim>\<open>false\<close> is converted to the return type \<^verbatim>\<open>int32_t\<close>: it reads as success.\<close>

definition HdfSbufWriteRemoteService :: "'s HdfSBuf option \<Rightarrow> u64 \<Rightarrow> 's HdfSBuf option \<times> int" where
  "HdfSbufWriteRemoteService sbuf service =
     sbuf_call sbuf writeRemoteService (\<lambda>f s. f s service) HDF_SUCCESS"

definition HdfSbufReadRemoteService :: "'s HdfSBuf option \<Rightarrow> 's HdfSBuf option \<times> u64 option" where
  "HdfSbufReadRemoteService sbuf =
     sbuf_call sbuf readRemoteService (\<lambda>f s. f s) None"

definition HdfSbufWriteFloat :: "osal_alloc \<Rightarrow> 's HdfSBuf option \<Rightarrow> u32 \<Rightarrow> 's HdfSBuf option \<times> bool" where
  "HdfSbufWriteFloat alloc sbuf v =
     sbuf_call sbuf writeFloat (\<lambda>f s. f alloc s v) False"

definition HdfSbufWriteDouble :: "osal_alloc \<Rightarrow> 's HdfSBuf option \<Rightarrow> u64 \<Rightarrow> 's HdfSBuf option \<times> bool" where
  "HdfSbufWriteDouble alloc sbuf v =
     sbuf_call sbuf writeDouble (\<lambda>f s. f alloc s v) False"

definition HdfSbufWriteFileDescriptor :: "osal_alloc \<Rightarrow> 's HdfSBuf option \<Rightarrow> u32 \<Rightarrow> 's HdfSBuf option \<times> bool" where
  "HdfSbufWriteFileDescriptor alloc sbuf v =
     sbuf_call sbuf writeFileDescriptor (\<lambda>f s. f alloc s v) False"

definition HdfSbufReadFileDescriptor :: "'s HdfSBuf option \<Rightarrow> 's HdfSBuf option \<times> int" where
  "HdfSbufReadFileDescriptor sbuf =
     sbuf_call sbuf readFileDescriptor (\<lambda>f s. f s) 0"

definition HdfSbufReadDouble :: "'s HdfSBuf option \<Rightarrow> bool \<Rightarrow> 's HdfSBuf option \<times> u64 option" where
  "HdfSbufReadDouble sbuf out =
     sbuf_call sbuf readDouble (\<lambda>f s. f s out) None"

definition HdfSbufReadFloat :: "'s HdfSBuf option \<Rightarrow> bool \<Rightarrow> 's HdfSBuf option \<times> u32 option" where
  "HdfSbufReadFloat sbuf out =
     sbuf_call sbuf readFloat (\<lambda>f s. f s out) None"

section \<open>Constructors\<close>

text \<open>
  \<^verbatim>\<open>bind\<close> takes the address, the contents of the memory there, and the size. The
  allocator is asked first for the object (\<^verbatim>\<open>sizeof(struct HdfSBuf)\<close> is 16).
\<close>

record 's HdfSbufConstructor =
  obtain_op :: "(osal_alloc \<Rightarrow> u64 \<Rightarrow> ('s sbuf_ops \<times> 's) option) option"
  bind_op :: "(osal_alloc \<Rightarrow> u64 \<Rightarrow> u8 list \<Rightarrow> u64 \<Rightarrow> ('s sbuf_ops \<times> 's) option) option"

abbreviation SIZEOF_HDF_SBUF :: u64 where "SIZEOF_HDF_SBUF \<equiv> 16"

definition SbufInterfaceAssign :: "sbuf_raw sbuf_ops" where
  "SbufInterfaceAssign =
     \<lparr>writeBuffer = Some SbufRawImplWriteBuffer, writeUnpadBuffer = None,
      writeUint64 = Some SbufRawImplWriteUint64, writeUint32 = Some SbufRawImplWriteUint32,
      writeUint16 = Some SbufRawImplWriteUint16, writeUint8 = Some SbufRawImplWriteUint8,
      writeInt64 = Some SbufRawImplWriteInt64, writeInt32 = Some SbufRawImplWriteInt32,
      writeInt16 = Some SbufRawImplWriteInt16, writeInt8 = Some SbufRawImplWriteInt8,
      writeString = Some SbufRawImplWriteString, writeFileDescriptor = None,
      writeFloat = None, writeDouble = None, readDouble = None, readFloat = None,
      readFileDescriptor = None, writeString16 = None,
      readBuffer = Some (\<lambda>s out. let (s', r) = SbufRawImplReadBuffer s out in
        (s', map_option (\<lambda>x. (sbuf_block s' x, snd x)) r)),
      readUnpadBuffer = None,
      readUint64 = Some SbufRawImplReadUint64, readUint32 = Some SbufRawImplReadUint32,
      readUint16 = Some SbufRawImplReadUint16, readUint8 = Some SbufRawImplReadUint8,
      readInt64 = Some SbufRawImplReadInt64, readInt32 = Some SbufRawImplReadInt32,
      readInt16 = Some SbufRawImplReadInt16, readInt8 = Some SbufRawImplReadInt8,
      readString = Some (\<lambda>s. let (s', r) = SbufRawImplReadString s in (s', map_option (sbuf_cstr s') r)),
      readString16 = None, writeRemoteService = None, readRemoteService = None,
      getData = Some SbufRawImplGetData, flush = Some SbufRawImplFlush,
      getCapacity = Some SbufRawImplGetCapacity, getDataSize = Some SbufRawImplGetDataSize,
      setDataSize = Some SbufRawImplSetDataSize, recycle = Some SbufRawImplRecycle,
      move_op = Some SbufRawImplMove, copy_op = Some SbufRawImplCopy,
      transDataOwnership = Some SbufRawImplTransDataOwnership\<rparr>"

definition raw_constructor :: "sbuf_raw HdfSbufConstructor" where
  "raw_constructor =
     \<lparr>obtain_op = Some (\<lambda>alloc cap. map_option (Pair SbufInterfaceAssign) (SbufObtainRaw alloc cap)),
      bind_op = Some (\<lambda>alloc base mem n. map_option (Pair SbufInterfaceAssign) (SbufBindRaw alloc base mem n))\<rparr>"

definition g_sbufConstructorMap ::
  "'s HdfSbufConstructor \<Rightarrow> 's HdfSbufConstructor \<Rightarrow> 's HdfSbufConstructor \<Rightarrow> 's HdfSbufConstructor list" where
  "g_sbufConstructorMap raw ipc ipcHw = [raw, ipc, ipcHw]"

definition HdfSbufConstructorGet :: "'s HdfSbufConstructor list \<Rightarrow> u32 \<Rightarrow> 's HdfSbufConstructor option" where
  "HdfSbufConstructorGet ctors ty = (if ty \<ge> SBUF_TYPE_MAX then None else Some (ctors ! unat ty))"

definition HdfSbufTypedObtainCapacity ::
  "'s HdfSbufConstructor list \<Rightarrow> osal_alloc \<Rightarrow> u32 \<Rightarrow> u64 \<Rightarrow> 's HdfSBuf option" where
  "HdfSbufTypedObtainCapacity ctors alloc ty cap =
     (case HdfSbufConstructorGet ctors ty of
        None \<Rightarrow> None
      | Some c \<Rightarrow>
          (case obtain_op c of
             None \<Rightarrow> None
           | Some f \<Rightarrow>
               if \<not> alloc SIZEOF_HDF_SBUF then None
               else (case f alloc cap of
                       None \<Rightarrow> None
                     | Some i \<Rightarrow> Some \<lparr>impl = Some i, sbuf_type = ty\<rparr>)))"

definition HdfSbufTypedObtainInplace ::
  "osal_alloc \<Rightarrow> u32 \<Rightarrow> ('s sbuf_ops \<times> 's) option \<Rightarrow> 's HdfSBuf option" where
  "HdfSbufTypedObtainInplace alloc ty i =
     (if ty \<ge> SBUF_TYPE_MAX \<or> i = None then None
      else if \<not> alloc SIZEOF_HDF_SBUF then None
      else Some \<lparr>impl = i, sbuf_type = ty\<rparr>)"

definition HdfSbufTypedObtain :: "'s HdfSbufConstructor list \<Rightarrow> osal_alloc \<Rightarrow> u32 \<Rightarrow> 's HdfSBuf option" where
  "HdfSbufTypedObtain ctors alloc ty = HdfSbufTypedObtainCapacity ctors alloc ty HDF_SBUF_DEFAULT_SIZE"

definition HdfSbufTypedBind ::
  "'s HdfSbufConstructor list \<Rightarrow> osal_alloc \<Rightarrow> u32 \<Rightarrow> u64 \<Rightarrow> u8 list \<Rightarrow> u64 \<Rightarrow> 's HdfSBuf option" where
  "HdfSbufTypedBind ctors alloc ty base mem n =
     (case HdfSbufConstructorGet ctors ty of
        None \<Rightarrow> None
      | Some c \<Rightarrow>
          (case bind_op c of
             None \<Rightarrow> None
           | Some f \<Rightarrow>
               if \<not> alloc SIZEOF_HDF_SBUF then None
               else (case f alloc base mem n of
                       None \<Rightarrow> None
                     | Some i \<Rightarrow> Some \<lparr>impl = Some i, sbuf_type = ty\<rparr>)))"

definition HdfSbufObtain :: "'s HdfSbufConstructor list \<Rightarrow> osal_alloc \<Rightarrow> u64 \<Rightarrow> 's HdfSBuf option" where
  "HdfSbufObtain ctors alloc cap = HdfSbufTypedObtainCapacity ctors alloc SBUF_RAW cap"

definition HdfSbufObtainDefaultSize :: "'s HdfSbufConstructor list \<Rightarrow> osal_alloc \<Rightarrow> 's HdfSBuf option" where
  "HdfSbufObtainDefaultSize ctors alloc = HdfSbufObtain ctors alloc HDF_SBUF_DEFAULT_SIZE"

definition HdfSBufObtainDefaultSize :: "'s HdfSbufConstructor list \<Rightarrow> osal_alloc \<Rightarrow> 's HdfSBuf option" where
  "HdfSBufObtainDefaultSize ctors alloc = HdfSbufObtain ctors alloc HDF_SBUF_DEFAULT_SIZE"

definition HdfSbufBind ::
  "'s HdfSbufConstructor list \<Rightarrow> osal_alloc \<Rightarrow> u64 \<Rightarrow> u8 list \<Rightarrow> u64 \<Rightarrow> 's HdfSBuf option" where
  "HdfSbufBind ctors alloc base mem n = HdfSbufTypedBind ctors alloc SBUF_RAW base mem n"

section \<open>Copy, move and release\<close>

definition HdfSbufCopy :: "osal_alloc \<Rightarrow> 's HdfSBuf option \<Rightarrow> 's HdfSBuf option" where
  "HdfSbufCopy alloc sbuf =
     (case sbuf of
        None \<Rightarrow> None
      | Some b \<Rightarrow>
          (case impl b of
             None \<Rightarrow> None
           | Some (ops, s) \<Rightarrow>
               (case copy_op ops of
                  None \<Rightarrow> None
                | Some f \<Rightarrow>
                    if \<not> alloc SIZEOF_HDF_SBUF then None
                    else (case f alloc s of
                            None \<Rightarrow> None
                          | Some s' \<Rightarrow> Some \<lparr>impl = Some (ops, s'), sbuf_type = sbuf_type b\<rparr>))))"

text \<open>
  \<^verbatim>\<open>HdfSbufMove\<close> does not set the type of the new object: the memory that the
  allocator returns is not cleared, so the type is whatever it held, the argument
  \<^verbatim>\<open>junk\<close>.
\<close>

definition HdfSbufMove ::
  "osal_alloc \<Rightarrow> u32 \<Rightarrow> 's HdfSBuf option \<Rightarrow> 's HdfSBuf option \<times> 's HdfSBuf option" where
  "HdfSbufMove alloc junk sbuf =
     (case sbuf of
        None \<Rightarrow> (sbuf, None)
      | Some b \<Rightarrow>
          (case impl b of
             None \<Rightarrow> (sbuf, None)
           | Some (ops, s) \<Rightarrow>
               (case move_op ops of
                  None \<Rightarrow> (sbuf, None)
                | Some f \<Rightarrow>
                    if \<not> alloc SIZEOF_HDF_SBUF then (sbuf, None)
                    else (let (s', r) = f alloc s in
                          (Some (b\<lparr>impl := Some (ops, s')\<rparr>),
                           map_option (\<lambda>n. \<lparr>impl = Some (ops, n), sbuf_type = junk\<rparr>) r)))))"

definition HdfSbufTransDataOwnership :: "'s HdfSBuf option \<Rightarrow> 's HdfSBuf option" where
  "HdfSbufTransDataOwnership sbuf = fst (sbuf_call sbuf transDataOwnership (\<lambda>f s. (f s, ())) ())"

text \<open>The data area a release frees, if any (the object itself is always freed).\<close>

definition HdfSbufRecycle :: "'s HdfSBuf option \<Rightarrow> u8 list option" where
  "HdfSbufRecycle sbuf =
     (case sbuf of
        None \<Rightarrow> None
      | Some b \<Rightarrow>
          (case impl b of
             None \<Rightarrow> None
           | Some (ops, s) \<Rightarrow> (case recycle ops of None \<Rightarrow> None | Some f \<Rightarrow> f s)))"

definition HdfSBufRecycle :: "'s HdfSBuf option \<Rightarrow> u8 list option" where
  "HdfSBufRecycle sbuf =
     (case sbuf of
        None \<Rightarrow> None
      | Some b \<Rightarrow>
          (case impl b of
             None \<Rightarrow> None
           | Some (ops, s) \<Rightarrow> (case recycle ops of None \<Rightarrow> None | Some f \<Rightarrow> f s)))"

definition HdfSbufGetImpl :: "'s HdfSBuf option \<Rightarrow> ('s sbuf_ops \<times> 's) option" where
  "HdfSbufGetImpl sbuf = (case sbuf of None \<Rightarrow> None | Some b \<Rightarrow> impl b)"

section \<open>Buffer objects as a channel\<close>

fun hdf_put :: "osal_alloc \<Rightarrow> 's HdfSBuf option \<Rightarrow> sitem \<Rightarrow> 's HdfSBuf option \<times> bool" where
  "hdf_put alloc b (SU64 v) = HdfSbufWriteUint64 alloc b v"
| "hdf_put alloc b (SU32 v) = HdfSbufWriteUint32 alloc b v"
| "hdf_put alloc b (SU16 v) = HdfSbufWriteUint16 alloc b v"
| "hdf_put alloc b (SU8 v) = HdfSbufWriteUint8 alloc b v"
| "hdf_put alloc b (SI64 v) = HdfSbufWriteInt64 alloc b v"
| "hdf_put alloc b (SI32 v) = HdfSbufWriteInt32 alloc b v"
| "hdf_put alloc b (SI16 v) = HdfSbufWriteInt16 alloc b v"
| "hdf_put alloc b (SI8 v) = HdfSbufWriteInt8 alloc b v"
| "hdf_put alloc b (SBuf d) =
     (case HdfSbufWriteBuffer alloc b d (case d of None \<Rightarrow> 0 | Some bs \<Rightarrow> word_of_nat (length bs)) of
        None \<Rightarrow> (b, False) | Some r \<Rightarrow> r)"
| "hdf_put alloc b (SStr s) = HdfSbufWriteString alloc b (Some s)"

fun hdf_get :: "'s HdfSBuf option \<Rightarrow> stype \<Rightarrow> 's HdfSBuf option \<times> sitem option" where
  "hdf_get b TU64 = apsnd (map_option SU64) (HdfSbufReadUint64 b True)"
| "hdf_get b TU32 = apsnd (map_option SU32) (HdfSbufReadUint32 b True)"
| "hdf_get b TU16 = apsnd (map_option SU16) (HdfSbufReadUint16 b True)"
| "hdf_get b TU8 = apsnd (map_option SU8) (HdfSbufReadUint8 b True)"
| "hdf_get b TI64 = apsnd (map_option SI64) (HdfSbufReadInt64 b True)"
| "hdf_get b TI32 = apsnd (map_option SI32) (HdfSbufReadInt32 b True)"
| "hdf_get b TI16 = apsnd (map_option SI16) (HdfSbufReadInt16 b True)"
| "hdf_get b TI8 = apsnd (map_option SI8) (HdfSbufReadInt8 b True)"
| "hdf_get b TBuf = apsnd (map_option (\<lambda>x. SBuf (fst x))) (HdfSbufReadBuffer b True)"
| "hdf_get b TStr = apsnd (map_option SStr) (HdfSbufReadString b)"

definition raw_obj :: "u32 \<Rightarrow> sbuf_raw \<Rightarrow> sbuf_raw HdfSBuf option" where
  "raw_obj t sb = Some \<lparr>impl = Some (SbufInterfaceAssign, sb), sbuf_type = t\<rparr>"

definition obj_ok :: "sbuf_raw HdfSBuf option \<Rightarrow> bool" where
  "obj_ok b \<longleftrightarrow> (\<exists>t sb. b = raw_obj t sb \<and> sbuf_ok sb)"

definition obj_pending :: "sbuf_raw HdfSBuf option \<Rightarrow> u8 list" where
  "obj_pending b = (case HdfSbufGetImpl b of None \<Rightarrow> [] | Some (ops, sb) \<Rightarrow> pending sb)"

lemma obj_pending_raw [simp]: "obj_pending (raw_obj t sb) = pending sb"
  by (simp add: obj_pending_def raw_obj_def HdfSbufGetImpl_def)

lemma obj_ok_raw [simp]: "obj_ok (raw_obj t sb) \<longleftrightarrow> sbuf_ok sb"
  by (auto simp: obj_ok_def raw_obj_def)

lemma sbuf_call_raw:
  "api SbufInterfaceAssign = Some f \<Longrightarrow>
   sbuf_call (raw_obj t sb) api run ret = (let (sb', r) = run f sb in (raw_obj t sb', r))"
  by (simp add: sbuf_call_def raw_obj_def Let_def split: prod.splits)

lemmas sbuf_wrapper_defs =
  HdfSbufWriteUint64_def HdfSbufWriteUint32_def HdfSbufWriteUint16_def HdfSbufWriteUint8_def
  HdfSbufWriteInt64_def HdfSbufWriteInt32_def HdfSbufWriteInt16_def HdfSbufWriteInt8_def
  HdfSbufReadUint64_def HdfSbufReadUint32_def HdfSbufReadUint16_def HdfSbufReadUint8_def
  HdfSbufReadInt64_def HdfSbufReadInt32_def HdfSbufReadInt16_def HdfSbufReadInt8_def
  HdfSbufWriteString_def HdfSbufReadString_def HdfSbufReadBuffer_def

lemma hdf_put_raw:
  "hdf_put alloc (raw_obj t sb) x = (let (sb', ok) = raw_put alloc sb x in (raw_obj t sb', ok))"
proof (cases x)
  case (SBuf d)
  then show ?thesis
    by (simp add: HdfSbufWriteBuffer_def sbuf_call_unchecked_def raw_obj_def SbufInterfaceAssign_def
        split: prod.splits)
qed (simp_all add: sbuf_wrapper_defs sbuf_call_raw SbufInterfaceAssign_def)

lemma hdf_get_raw:
  "hdf_get (raw_obj t sb) ty = (let (sb', r) = raw_get sb ty in (raw_obj t sb', r))"
  by (cases ty)
    (simp_all add: sbuf_wrapper_defs sbuf_call_raw SbufInterfaceAssign_def option.map_comp comp_def
      split: prod.splits)

interpretation hdf_channel: sbuf_channel obj_ok obj_pending "hdf_put alloc" hdf_get for alloc
proof unfold_locales
  fix b b' x assume "obj_ok b" "item_wf x" "hdf_put alloc b x = (b', True)"
  then obtain t sb sb' where "b = raw_obj t sb" "sbuf_ok sb" "b' = raw_obj t sb'" "raw_put alloc sb x = (sb', True)"
    by (auto simp: obj_ok_def hdf_put_raw split: prod.splits)
  with raw_channel.put_ok [of sb x alloc sb'] \<open>item_wf x\<close>
  show "obj_ok b' \<and> (\<exists>bs. encodes x bs \<and> obj_pending b' = obj_pending b @ bs)"
    by (auto simp: obj_ok_def)
next
  fix b b' x assume "obj_ok b" "item_wf x" "hdf_put alloc b x = (b', False)"
  then obtain t sb sb' where "b = raw_obj t sb" "sbuf_ok sb" "b' = raw_obj t sb'" "raw_put alloc sb x = (sb', False)"
    by (auto simp: obj_ok_def hdf_put_raw split: prod.splits)
  with raw_channel.put_fail [of sb x alloc sb'] \<open>item_wf x\<close>
  show "obj_ok b' \<and> obj_pending b' = obj_pending b"
    by (auto simp: obj_ok_def)
next
  fix b x bs rest assume "obj_ok b" "item_wf x" "encodes x bs" "obj_pending b = bs @ rest"
  then obtain t sb where "b = raw_obj t sb" "sbuf_ok sb" "pending sb = bs @ rest"
    by (auto simp: obj_ok_def)
  with raw_channel.get_ok [of sb x bs rest] \<open>item_wf x\<close> \<open>encodes x bs\<close>
  show "\<exists>b'. hdf_get b (type_of_item x) = (b', Some x) \<and> obj_ok b' \<and> obj_pending b' = rest"
    by (auto simp: hdf_get_raw)
qed

section \<open>A client: the service status\<close>

record ServiceStatus =
  serviceName :: "cstr option"
  deviceClass :: u16
  status :: u16
  info :: "cstr option"

definition ServiceStatusMarshalling ::
  "osal_alloc \<Rightarrow> ServiceStatus option \<Rightarrow> 's HdfSBuf option \<Rightarrow> 's HdfSBuf option \<times> int" where
  "ServiceStatusMarshalling alloc st buf =
     (case st of
        None \<Rightarrow> (buf, HDF_ERR_INVALID_PARAM)
      | Some st \<Rightarrow>
          if buf = None \<or> serviceName st = None then (buf, HDF_ERR_INVALID_PARAM)
          else
            (let (b1, ok1) = HdfSbufWriteString alloc buf (serviceName st) in
             if \<not> ok1 then (b1, HDF_FAILURE)
             else (let (b2, ok2) = HdfSbufWriteUint16 alloc b1 (deviceClass st) in
             if \<not> ok2 then (b2, HDF_FAILURE)
             else (let (b3, ok3) = HdfSbufWriteUint16 alloc b2 (status st) in
             if \<not> ok3 then (b3, HDF_FAILURE)
             else (let (b4, ok4) = HdfSbufWriteString alloc b3
                       (if info st \<noteq> None then info st else Some '''') in
             if \<not> ok4 then (b4, HDF_FAILURE) else (b4, HDF_SUCCESS))))))"

definition ServiceStatusUnMarshalling ::
  "ServiceStatus option \<Rightarrow> 's HdfSBuf option \<Rightarrow> ServiceStatus option \<times> 's HdfSBuf option \<times> int" where
  "ServiceStatusUnMarshalling st buf =
     (case st of
        None \<Rightarrow> (st, buf, HDF_ERR_INVALID_PARAM)
      | Some s0 \<Rightarrow>
          if buf = None then (st, buf, HDF_ERR_INVALID_PARAM)
          else
            (let (b1, nm) = HdfSbufReadString buf; s1 = s0\<lparr>serviceName := nm\<rparr> in
             if nm = None then (Some s1, b1, HDF_FAILURE)
             else (let (b2, cls) = HdfSbufReadUint16 b1 True in
               case cls of
                 None \<Rightarrow> (Some s1, b2, HDF_FAILURE)
               | Some c \<Rightarrow>
                   (let s2 = s1\<lparr>deviceClass := c\<rparr>; (b3, stt) = HdfSbufReadUint16 b2 True in
                    case stt of
                      None \<Rightarrow> (Some s2, b3, HDF_FAILURE)
                    | Some t \<Rightarrow>
                        (let s3 = s2\<lparr>status := t\<rparr>; (b4, i) = HdfSbufReadString b3 in
                         (Some (s3\<lparr>info := i\<rparr>), b4, HDF_SUCCESS))))))"

text \<open>The message a status is sent as, and the two functions as channel operations.\<close>

definition status_message :: "cstr \<Rightarrow> u16 \<Rightarrow> u16 \<Rightarrow> cstr \<Rightarrow> sitem list" where
  "status_message nm c t i = [SStr nm, SU16 c, SU16 t, SStr i]"

lemma Marshalling_put_all:
  assumes "serviceName st = Some nm" "b \<noteq> None"
  shows "ServiceStatusMarshalling alloc (Some st) b =
    (let (b', ok) = put_all (hdf_put alloc) b
        (status_message nm (deviceClass st) (status st) (case info st of None \<Rightarrow> '''' | Some j \<Rightarrow> j))
     in (b', if ok then HDF_SUCCESS else HDF_FAILURE))"
  using assms
  by (simp add: ServiceStatusMarshalling_def status_message_def Let_def split: prod.splits option.splits)

lemma UnMarshalling_get_all:
  assumes "get_all hdf_get b [TStr, TU16, TU16, TStr] = (b', Some (status_message nm c t i))" "b \<noteq> None"
  shows "ServiceStatusUnMarshalling (Some s0) b =
    (Some (s0\<lparr>serviceName := Some nm, deviceClass := c, status := t, info := Some i\<rparr>), b', HDF_SUCCESS)"
  using assms
  by (auto simp: ServiceStatusUnMarshalling_def status_message_def Let_def apsnd_def map_prod_def
      split: prod.splits option.splits)

section \<open>Properties\<close>

lemma Obtain_raw:
  assumes "HdfSbufObtain (g_sbufConstructorMap raw_constructor ipc ipcHw) alloc cap = b" "b \<noteq> None"
  shows "\<exists>sb. b = raw_obj SBUF_RAW sb \<and> SbufObtainRaw alloc cap = Some sb"
  using assms
  by (auto simp: HdfSbufObtain_def HdfSbufTypedObtainCapacity_def HdfSbufConstructorGet_def
      g_sbufConstructorMap_def raw_constructor_def raw_obj_def split: if_splits option.splits)

text \<open>
  C9. Marshalling a service status into a fresh raw buffer and unmarshalling it gives the
  status back (a NULL information string arrives as the empty string), whatever the allocator
  does, once the marshalling reports success.
\<close>

theorem ServiceStatus_roundtrip:
  assumes "HdfSbufObtain (g_sbufConstructorMap raw_constructor ipc ipcHw) alloc cap = b" "b \<noteq> None"
    and "serviceName st = Some nm" "item_wf (SStr nm)" "\<forall>i. info st = Some i \<longrightarrow> item_wf (SStr i)"
    and "ServiceStatusMarshalling alloc (Some st) b = (b', HDF_SUCCESS)"
  shows "\<exists>b''. ServiceStatusUnMarshalling (Some s0) b' =
    (Some (s0\<lparr>serviceName := Some nm, deviceClass := deviceClass st, status := status st,
               info := Some (case info st of None \<Rightarrow> '''' | Some i \<Rightarrow> i)\<rparr>), b'', HDF_SUCCESS)"
proof -
  let ?i = "case info st of None \<Rightarrow> '''' | Some i \<Rightarrow> i"
  let ?m = "status_message nm (deviceClass st) (status st) ?i"
  from Obtain_raw [OF assms(1,2)] obtain sb where sb: "b = raw_obj SBUF_RAW sb" "SbufObtainRaw alloc cap = Some sb"
    by blast
  then have ok: "obj_ok b" "obj_pending b = []" using ObtainRaw_ok [OF sb(2)] by simp_all
  have wf: "\<forall>x \<in> set ?m. item_wf x"
    using assms(4,5) by (auto simp: status_message_def wf_cstr_def split: option.splits)
  have put: "put_all (hdf_put alloc) b ?m = (b', True)"
    using assms(6) Marshalling_put_all [OF assms(3,2), of alloc] by (auto split: prod.splits if_splits)
  from hdf_channel.round_trip [OF ok wf put] obtain b'' where
    get: "get_all hdf_get b' (map type_of_item ?m) = (b'', Some ?m)" by blast
  have "b' \<noteq> None" using hdf_channel.put_all_ok [OF ok(1) wf put] by (auto simp: obj_ok_def raw_obj_def)
  with get show ?thesis
    using UnMarshalling_get_all [of b' b'' nm "deviceClass st" "status st" ?i s0]
    by (simp add: status_message_def)
qed

theorem ServiceStatus_roundtrip_witness:
  "\<exists>(b' :: sbuf_raw HdfSBuf option) b''. ServiceStatusUnMarshalling
      (Some \<lparr>serviceName = None, deviceClass = 0, status = 0, info = None\<rparr>) b' =
    (Some \<lparr>serviceName = Some ''svc'', deviceClass = 4, status = 1, info = Some ''''\<rparr>, b'', HDF_SUCCESS)"
proof -
  let ?c = "\<lparr>obtain_op = None, bind_op = None\<rparr>"
  let ?sb = "\<lparr>writePos = 0, readPos = 0, capacity = 256, sdata = Some (replicate 256 0), isBind = False\<rparr>"
  let ?st = "\<lparr>serviceName = Some ''svc'', deviceClass = 4, status = 1, info = None\<rparr>"
  have ob: "HdfSbufObtain (g_sbufConstructorMap raw_constructor ?c ?c) (\<lambda>_. True) 256 = raw_obj SBUF_RAW ?sb"
    by (simp add: HdfSbufObtain_def HdfSbufTypedObtainCapacity_def HdfSbufConstructorGet_def
        g_sbufConstructorMap_def raw_constructor_def SbufObtainRaw_def SbufRawImplNewInstance_def raw_obj_def)
  have "snd (ServiceStatusMarshalling (\<lambda>_. True) (Some ?st) (raw_obj SBUF_RAW ?sb)) = HDF_SUCCESS"
    by code_simp
  then obtain b' where m: "ServiceStatusMarshalling (\<lambda>_. True) (Some ?st) (raw_obj SBUF_RAW ?sb) = (b', HDF_SUCCESS)"
    by (metis prod.collapse)
  show ?thesis
    using ServiceStatus_roundtrip [OF ob _ _ _ _ m, of "''svc''" "\<lparr>serviceName = None, deviceClass = 0, status = 0, info = None\<rparr>"]
    by (auto simp: raw_obj_def wf_cstr_def)
qed

text \<open>
  Operations that the raw buffer does not have are refused without touching the object.
  For two of them the refusal cannot be told from success: \<^verbatim>\<open>HdfSbufWriteRemoteService\<close>
  returns the status of success, and \<^verbatim>\<open>HdfSbufReadFileDescriptor\<close> the descriptor 0.
\<close>

theorem raw_unsupported:
  "HdfSbufWriteUnpadBuffer alloc (raw_obj t sb) dat n = (raw_obj t sb, False) \<and>
   HdfSbufReadUnpadBuffer (raw_obj t sb) len = (raw_obj t sb, None) \<and>
   HdfSbufWriteString16 alloc (raw_obj t sb) w n = (raw_obj t sb, False) \<and>
   HdfSbufReadString16 (raw_obj t sb) = (raw_obj t sb, None) \<and>
   HdfSbufWriteFloat alloc (raw_obj t sb) f = (raw_obj t sb, False) \<and>
   HdfSbufWriteDouble alloc (raw_obj t sb) g = (raw_obj t sb, False) \<and>
   HdfSbufReadFloat (raw_obj t sb) out = (raw_obj t sb, None) \<and>
   HdfSbufReadDouble (raw_obj t sb) out = (raw_obj t sb, None) \<and>
   HdfSbufWriteFileDescriptor alloc (raw_obj t sb) fd = (raw_obj t sb, False) \<and>
   HdfSbufWriteRemoteService (raw_obj t sb) service = (raw_obj t sb, HDF_SUCCESS) \<and>
   HdfSbufReadFileDescriptor (raw_obj t sb) = (raw_obj t sb, 0)"
  by (simp add: HdfSbufWriteUnpadBuffer_def HdfSbufReadUnpadBuffer_def HdfSbufWriteString16_def
      HdfSbufReadString16_def HdfSbufWriteFloat_def HdfSbufWriteDouble_def HdfSbufReadFloat_def
      HdfSbufReadDouble_def HdfSbufWriteFileDescriptor_def HdfSbufWriteRemoteService_def
      HdfSbufReadFileDescriptor_def sbuf_call_def raw_obj_def SbufInterfaceAssign_def split: option.splits)

end
