(* ===== verification/Power_State.thy ===== *)
theory Power_State
  imports Hdf_Base "HOL-Library.Multiset"
begin

text \<open>
  Power management of a device: the strong reference (utils/src/hdf_sref.c), the power state
  token built on it (core/host/src/power_state_token.c), the requests of the power manager
  (core/host/src/hdf_power_manager.c) and the entry points of a device object
  (core/host/src/hdf_device_object.c). The callbacks a driver registers are entries that are
  NULL or return a status; the list \<^verbatim>\<open>calls\<close> records which ones were called.
\<close>

section \<open>Strong references\<close>

text \<open>
  The listener of a reference works on the object \<^verbatim>\<open>'t\<close> that contains the reference.
  The counter is a 32-bit integer.
\<close>

record 't IHdfSRefListener =
  OnFirstAcquire :: "('t \<Rightarrow> 't) option"
  OnLastRelease :: "('t \<Rightarrow> 't) option"

definition HdfSRefAcquire :: "'t IHdfSRefListener option \<Rightarrow> u32 \<times> 't \<Rightarrow> u32 \<times> 't" where
  "HdfSRefAcquire listener s =
     (case s of (refs, t) \<Rightarrow>
        let lockRef = refs + 1 in
        (lockRef,
         case listener of
           None \<Rightarrow> t
         | Some l \<Rightarrow>
             if lockRef = 1 then (case OnFirstAcquire l of None \<Rightarrow> t | Some f \<Rightarrow> f t) else t))"

definition HdfSRefRelease :: "'t IHdfSRefListener option \<Rightarrow> u32 \<times> 't \<Rightarrow> u32 \<times> 't" where
  "HdfSRefRelease listener s =
     (case s of (refs, t) \<Rightarrow>
        let lockRef = refs - 1 in
        (lockRef,
         case listener of
           None \<Rightarrow> t
         | Some l \<Rightarrow>
             if lockRef = 0 then (case OnLastRelease l of None \<Rightarrow> t | Some f \<Rightarrow> f t) else t))"

definition HdfSRefCount :: "u32 \<times> 't \<Rightarrow> u32" where
  "HdfSRefCount s = fst s"

definition HdfSRefConstruct :: "'t IHdfSRefListener option \<Rightarrow> u32 \<Rightarrow> u32 \<times> 't IHdfSRefListener option" where
  "HdfSRefConstruct listener refs = (case listener of None \<Rightarrow> (refs, None) | Some l \<Rightarrow> (0, Some l))"

text \<open>
  The contract between a reference and its user: the first acquisition switches the object
  on, the last release switches it off, and switching off again changes nothing that matters.
\<close>

locale sref_user =
  fixes is_on :: "'t \<Rightarrow> bool"
    and first :: "'t \<Rightarrow> 't"
    and last_release :: "'t \<Rightarrow> 't"
  assumes first_on: "is_on (first t)"
    and last_off: "\<not> is_on (last_release t)"
begin

definition listener :: "'t IHdfSRefListener option" where
  "listener = Some \<lparr>OnFirstAcquire = Some first, OnLastRelease = Some last_release\<rparr>"

definition consistent :: "u32 \<times> 't \<Rightarrow> bool" where
  "consistent s \<longleftrightarrow> (is_on (snd s) \<longleftrightarrow> 0 < unat (fst s))"

lemma acquire_consistent:
  assumes "consistent s" "unat (fst s) < 2 ^ 32 - 1"
  shows "consistent (HdfSRefAcquire listener s)" "unat (fst (HdfSRefAcquire listener s)) = unat (fst s) + 1"
proof -
  obtain r t where s: "s = (r, t)" by (cases s)
  have u: "unat (r + 1) = unat r + 1" using assms(2) s by (simp add: unat_word_ariths(1))
  then show "unat (fst (HdfSRefAcquire listener s)) = unat (fst s) + 1"
    by (simp add: s HdfSRefAcquire_def Let_def)
  have "r + 1 = 1 \<longleftrightarrow> unat r = 0" by (simp add: unat_eq_0)
  then show "consistent (HdfSRefAcquire listener s)"
    using assms(1) u first_on by (auto simp: s HdfSRefAcquire_def Let_def listener_def consistent_def)
qed

lemma release_consistent:
  assumes "consistent s" "0 < unat (fst s)"
  shows "consistent (HdfSRefRelease listener s)" "unat (fst (HdfSRefRelease listener s)) = unat (fst s) - 1"
proof -
  obtain r t where s: "s = (r, t)" by (cases s)
  have "(1 :: u32) \<le> r" using assms(2) s by (simp add: word_le_nat_alt)
  then have u: "unat (r - 1) = unat r - 1" by (simp add: unat_sub)
  then show "unat (fst (HdfSRefRelease listener s)) = unat (fst s) - 1"
    by (simp add: s HdfSRefRelease_def Let_def)
  have "r - 1 = 0 \<longleftrightarrow> unat r - 1 = 0" by (metis u unat_eq_0)
  then show "consistent (HdfSRefRelease listener s)"
    using assms u last_off by (auto simp: s HdfSRefRelease_def Let_def listener_def consistent_def)
qed

end

section \<open>The power state token\<close>

datatype HdfPsmState = PSM_STATE_IDLE | PSM_STATE_ACTIVE | PSM_STATE_INACTIVE

datatype HdfPowerState = POWER_STATE_DOZE_RESUME | POWER_STATE_DOZE_SUSPEND | POWER_STATE_RESUME
  | POWER_STATE_SUSPEND | POWER_STATE_MAX

text \<open>The states are compared as the numbers that the enumeration gives them.\<close>

fun power_state_number :: "HdfPowerState \<Rightarrow> nat" where
  "power_state_number POWER_STATE_DOZE_RESUME = 0"
| "power_state_number POWER_STATE_DOZE_SUSPEND = 1"
| "power_state_number POWER_STATE_RESUME = 2"
| "power_state_number POWER_STATE_SUSPEND = 3"
| "power_state_number POWER_STATE_MAX = 4"

lemma power_state_number_inj: "power_state_number x = power_state_number y \<longleftrightarrow> x = y"
  by (cases x; cases y) simp_all

instantiation HdfPowerState :: linorder
begin

definition less_eq_HdfPowerState :: "HdfPowerState \<Rightarrow> HdfPowerState \<Rightarrow> bool" where
  "less_eq_HdfPowerState x y \<longleftrightarrow> power_state_number x \<le> power_state_number y"

definition less_HdfPowerState :: "HdfPowerState \<Rightarrow> HdfPowerState \<Rightarrow> bool" where
  "less_HdfPowerState x y \<longleftrightarrow> power_state_number x < power_state_number y"

instance
  by standard (auto simp: less_eq_HdfPowerState_def less_HdfPowerState_def power_state_number_inj dest: antisym)

end

datatype pm_call = CallResume | CallSuspend | CallDozeSuspend | CallDozeResume

abbreviation (input) HDF_POWER_SYS_CTRL :: u32 where "HDF_POWER_SYS_CTRL \<equiv> 0"
abbreviation (input) HDF_POWER_DYNAMIC_CTRL :: u32 where "HDF_POWER_DYNAMIC_CTRL \<equiv> 1"
abbreviation (input) HDF_POWER_MODE_MAX :: u32 where "HDF_POWER_MODE_MAX \<equiv> 2"

text \<open>An entry of the listener is NULL or the status that the driver's function returns.\<close>

record IPowerEventListener =
  DozeResume :: "int option"
  DozeSuspend :: "int option"
  Resume :: "int option"
  Suspend :: "int option"

record PowerStateToken =
  listener :: "IPowerEventListener option"
  wakeRef :: u32
  psmState :: HdfPsmState
  mode :: u32
  calls :: "pm_call list"

definition call_listener :: "(IPowerEventListener \<Rightarrow> int option) \<Rightarrow> pm_call \<Rightarrow> PowerStateToken \<Rightarrow> PowerStateToken" where
  "call_listener entry c t =
     (case listener t of
        None \<Rightarrow> t
      | Some l \<Rightarrow> (case entry l of None \<Rightarrow> t | Some _ \<Rightarrow> t\<lparr>calls := calls t @ [c]\<rparr>))"

definition PowerStateTokenOnFirstAcquire :: "PowerStateToken \<Rightarrow> PowerStateToken" where
  "PowerStateTokenOnFirstAcquire t =
     (if psmState t = PSM_STATE_ACTIVE then t
      else
        (let t1 = (if psmState t = PSM_STATE_INACTIVE \<or> psmState t = PSM_STATE_IDLE
                   then call_listener Resume CallResume t else t)
         in t1\<lparr>psmState := PSM_STATE_ACTIVE\<rparr>))"

definition PowerStateTokenOnLastRelease :: "PowerStateToken \<Rightarrow> PowerStateToken" where
  "PowerStateTokenOnLastRelease t =
     (if psmState t \<noteq> PSM_STATE_ACTIVE \<and> psmState t \<noteq> PSM_STATE_IDLE then t
      else (call_listener Suspend CallSuspend t)\<lparr>psmState := PSM_STATE_INACTIVE\<rparr>)"

definition PowerStateChange :: "PowerStateToken option \<Rightarrow> HdfPowerState \<Rightarrow> PowerStateToken option \<times> int" where
  "PowerStateChange tok pEvent =
     (case tok of
        None \<Rightarrow> (tok, HDF_SUCCESS)
      | Some t \<Rightarrow>
          (case listener t of
             None \<Rightarrow> (tok, HDF_SUCCESS)
           | Some l \<Rightarrow>
               if mode t \<noteq> HDF_POWER_SYS_CTRL then (tok, HDF_SUCCESS)
               else
                 (let run = (\<lambda>entry c. case entry l of
                        None \<Rightarrow> (tok, HDF_SUCCESS)
                      | Some r \<Rightarrow> (Some (call_listener entry c t), r))
                  in case pEvent of
                       POWER_STATE_SUSPEND \<Rightarrow> run Suspend CallSuspend
                     | POWER_STATE_RESUME \<Rightarrow> run Resume CallResume
                     | POWER_STATE_DOZE_SUSPEND \<Rightarrow> run DozeSuspend CallDozeSuspend
                     | POWER_STATE_DOZE_RESUME \<Rightarrow> run DozeResume CallDozeResume
                     | POWER_STATE_MAX \<Rightarrow> (tok, HDF_SUCCESS))))"

definition token_sref_listener :: "PowerStateToken IHdfSRefListener option" where
  "token_sref_listener =
     Some \<lparr>OnFirstAcquire = Some PowerStateTokenOnFirstAcquire, OnLastRelease = Some PowerStateTokenOnLastRelease\<rparr>"

text \<open>Running an operation of the embedded reference.\<close>

definition on_wakeRef :: "(u32 \<times> PowerStateToken \<Rightarrow> u32 \<times> PowerStateToken) \<Rightarrow> PowerStateToken \<Rightarrow> PowerStateToken" where
  "on_wakeRef f t = (case f (wakeRef t, t) of (r, t') \<Rightarrow> t'\<lparr>wakeRef := r\<rparr>)"

definition PowerStateTokenAcquireWakeLock :: "PowerStateToken option \<Rightarrow> PowerStateToken option" where
  "PowerStateTokenAcquireWakeLock tok =
     (case tok of
        None \<Rightarrow> None
      | Some t \<Rightarrow>
          if mode t \<noteq> HDF_POWER_DYNAMIC_CTRL then Some t
          else Some (on_wakeRef (HdfSRefAcquire token_sref_listener) t))"

definition PowerStateTokenReleaseWakeLock :: "PowerStateToken option \<Rightarrow> PowerStateToken option" where
  "PowerStateTokenReleaseWakeLock tok =
     (case tok of
        None \<Rightarrow> None
      | Some t \<Rightarrow>
          if mode t \<noteq> HDF_POWER_DYNAMIC_CTRL then Some t
          else if HdfSRefCount (wakeRef t, t) = 0 then Some (PowerStateTokenOnLastRelease t)
          else Some (on_wakeRef (HdfSRefRelease token_sref_listener) t))"

text \<open>
  \<^verbatim>\<open>PowerStateTokenConstruct\<close> fills a cleared token; the two flags say whether the
  allocations of the token and of the listener of its reference succeed.
\<close>

definition PowerStateTokenConstruct ::
  "bool \<Rightarrow> IPowerEventListener option \<Rightarrow> PowerStateToken \<Rightarrow> PowerStateToken \<times> int" where
  "PowerStateTokenConstruct allocOk l t =
     (if \<not> allocOk then (t, HDF_ERR_MALLOC_FAIL)
      else (t\<lparr>psmState := PSM_STATE_IDLE, listener := l,
              wakeRef := fst (HdfSRefConstruct token_sref_listener (wakeRef t))\<rparr>, HDF_SUCCESS))"

definition PowerStateTokenNewInstance ::
  "bool \<Rightarrow> bool \<Rightarrow> IPowerEventListener option \<Rightarrow> PowerStateToken option" where
  "PowerStateTokenNewInstance allocToken allocListener l =
     (if \<not> allocToken then None
      else
        (case PowerStateTokenConstruct allocListener l
                \<lparr>listener = None, wakeRef = 0, psmState = PSM_STATE_IDLE, mode = HDF_POWER_SYS_CTRL, calls = []\<rparr> of
           (t, ret) \<Rightarrow> if ret \<noteq> HDF_SUCCESS then None else Some t))"

section \<open>Requests\<close>

datatype HDF_PM_REQUEST_TYPE = HDF_PM_REQUEST_ACQUIRE | HDF_PM_REQUEST_RELEASE

definition PmTaskFunc :: "HDF_PM_REQUEST_TYPE \<Rightarrow> PowerStateToken option \<Rightarrow> PowerStateToken option" where
  "PmTaskFunc pmType tok =
     (case pmType of
        HDF_PM_REQUEST_ACQUIRE \<Rightarrow> PowerStateTokenAcquireWakeLock tok
      | HDF_PM_REQUEST_RELEASE \<Rightarrow> PowerStateTokenReleaseWakeLock tok)"

text \<open>
  \<^verbatim>\<open>HdfPmTaskPut\<close> on the queue of pending requests for a token. Without a queue the
  request is dropped (and its memory is not freed).
\<close>

definition HdfPmTaskPut ::
  "bool \<Rightarrow> PowerStateToken option \<Rightarrow> HDF_PM_REQUEST_TYPE \<Rightarrow> HDF_PM_REQUEST_TYPE list option \<Rightarrow>
   HDF_PM_REQUEST_TYPE list option" where
  "HdfPmTaskPut allocOk powerToken ty taskQueue =
     (if powerToken = None then taskQueue
      else if \<not> allocOk then taskQueue
      else map_option (\<lambda>q. q @ [ty]) taskQueue)"

text \<open>The entry points of a device object, whose device node holds the token.\<close>

definition HdfPmAcquireDevice :: "PowerStateToken option \<Rightarrow> PowerStateToken option" where
  "HdfPmAcquireDevice powerToken = PowerStateTokenAcquireWakeLock powerToken"

definition HdfPmReleaseDevice :: "PowerStateToken option \<Rightarrow> PowerStateToken option" where
  "HdfPmReleaseDevice powerToken = PowerStateTokenReleaseWakeLock powerToken"

definition HdfPmAcquireDeviceAsync ::
  "bool \<Rightarrow> PowerStateToken option \<Rightarrow> HDF_PM_REQUEST_TYPE list option \<Rightarrow> HDF_PM_REQUEST_TYPE list option" where
  "HdfPmAcquireDeviceAsync allocOk powerToken q = HdfPmTaskPut allocOk powerToken HDF_PM_REQUEST_ACQUIRE q"

definition HdfPmReleaseDeviceAsync ::
  "bool \<Rightarrow> PowerStateToken option \<Rightarrow> HDF_PM_REQUEST_TYPE list option \<Rightarrow> HDF_PM_REQUEST_TYPE list option" where
  "HdfPmReleaseDeviceAsync allocOk powerToken q = HdfPmTaskPut allocOk powerToken HDF_PM_REQUEST_RELEASE q"

definition HdfPmSetMode :: "PowerStateToken option \<Rightarrow> u32 \<Rightarrow> PowerStateToken option" where
  "HdfPmSetMode powerToken m =
     (if m > HDF_POWER_MODE_MAX then powerToken else map_option (\<lambda>t. t\<lparr>mode := m\<rparr>) powerToken)"

section \<open>Sequences of operations\<close>

interpretation token_ref: sref_user
  "\<lambda>t. psmState t = PSM_STATE_ACTIVE" PowerStateTokenOnFirstAcquire PowerStateTokenOnLastRelease
  by unfold_locales
    (auto simp: PowerStateTokenOnFirstAcquire_def PowerStateTokenOnLastRelease_def Let_def call_listener_def
      split: option.splits HdfPsmState.splits)

lemma token_listener_eq: "token_ref.listener = token_sref_listener"
  by (simp add: token_ref.listener_def token_sref_listener_def)

datatype pm_op = OpAcquire | OpRelease | OpMode u32

fun pm_step :: "pm_op \<Rightarrow> PowerStateToken option \<Rightarrow> PowerStateToken option" where
  "pm_step OpAcquire tok = HdfPmAcquireDevice tok"
| "pm_step OpRelease tok = HdfPmReleaseDevice tok"
| "pm_step (OpMode m) tok = HdfPmSetMode tok m"

definition pm_run :: "pm_op list \<Rightarrow> PowerStateToken option \<Rightarrow> PowerStateToken option" where
  "pm_run ops tok = fold pm_step ops tok"

text \<open>The counting specification: releases at zero are ignored, and so is everything outside dynamic control.\<close>

fun pm_spec_step :: "pm_op \<Rightarrow> u32 \<times> nat \<Rightarrow> u32 \<times> nat" where
  "pm_spec_step OpAcquire (m, n) = (m, if m = HDF_POWER_DYNAMIC_CTRL then n + 1 else n)"
| "pm_spec_step OpRelease (m, n) = (m, if m = HDF_POWER_DYNAMIC_CTRL then n - 1 else n)"
| "pm_spec_step (OpMode m') (m, n) = ((if m' > HDF_POWER_MODE_MAX then m else m'), n)"

definition pm_abs :: "PowerStateToken \<Rightarrow> u32 \<times> nat" where
  "pm_abs t = (mode t, unat (wakeRef t))"

definition token_ok :: "PowerStateToken \<Rightarrow> bool" where
  "token_ok t \<longleftrightarrow> (psmState t = PSM_STATE_ACTIVE \<longleftrightarrow> 0 < unat (wakeRef t))"

lemma call_listener_fields [simp]:
  "psmState (call_listener e c t) = psmState t" "mode (call_listener e c t) = mode t"
  "wakeRef (call_listener e c t) = wakeRef t" "listener (call_listener e c t) = listener t"
  by (auto simp: call_listener_def split: option.splits)

lemma token_callbacks_fields [simp]:
  "mode (PowerStateTokenOnFirstAcquire t) = mode t" "mode (PowerStateTokenOnLastRelease t) = mode t"
  "wakeRef (PowerStateTokenOnFirstAcquire t) = wakeRef t" "wakeRef (PowerStateTokenOnLastRelease t) = wakeRef t"
  "listener (PowerStateTokenOnFirstAcquire t) = listener t" "listener (PowerStateTokenOnLastRelease t) = listener t"
  by (simp_all add: PowerStateTokenOnFirstAcquire_def PowerStateTokenOnLastRelease_def Let_def)

lemma on_wakeRef_fields:
  assumes "f = HdfSRefAcquire token_sref_listener \<or> f = HdfSRefRelease token_sref_listener"
  shows "wakeRef (on_wakeRef f t) = fst (f (wakeRef t, t))" "psmState (on_wakeRef f t) = psmState (snd (f (wakeRef t, t)))"
    "mode (on_wakeRef f t) = mode t" "listener (on_wakeRef f t) = listener t" "calls (on_wakeRef f t) = calls (snd (f (wakeRef t, t)))"
  using assms
  by (auto simp: on_wakeRef_def HdfSRefAcquire_def HdfSRefRelease_def token_sref_listener_def Let_def)

lemma pm_step_ok:
  assumes "token_ok t" "unat (wakeRef t) < 2 ^ 32 - 1"
  shows "\<exists>t'. pm_step opn (Some t) = Some t' \<and> token_ok t' \<and> pm_abs t' = pm_spec_step opn (pm_abs t) \<and>
    unat (wakeRef t') \<le> Suc (unat (wakeRef t)) \<and> listener t' = listener t"
proof (cases opn)
  case OpAcquire
  let ?f = "HdfSRefAcquire token_sref_listener"
  have c: "token_ref.consistent (wakeRef t, t)"
    using assms(1) by (simp add: token_ref.consistent_def token_ok_def)
  note a = token_ref.acquire_consistent [OF c, unfolded token_listener_eq fst_conv, OF assms(2)]
  show ?thesis
  proof (cases "mode t = HDF_POWER_DYNAMIC_CTRL")
    case True
    have "token_ok (on_wakeRef ?f t)" "unat (wakeRef (on_wakeRef ?f t)) = unat (wakeRef t) + 1"
      using a by (simp_all add: token_ok_def token_ref.consistent_def on_wakeRef_fields)
    then show ?thesis
      using True OpAcquire by (simp add: HdfPmAcquireDevice_def PowerStateTokenAcquireWakeLock_def pm_abs_def on_wakeRef_fields)
  next
    case False
    then show ?thesis
      using OpAcquire assms(1) by (simp add: HdfPmAcquireDevice_def PowerStateTokenAcquireWakeLock_def pm_abs_def)
  qed
next
  case OpRelease
  let ?f = "HdfSRefRelease token_sref_listener"
  show ?thesis
  proof (cases "mode t = HDF_POWER_DYNAMIC_CTRL")
    case True
    show ?thesis
    proof (cases "wakeRef t = 0")
      case zero: True
      have "token_ok (PowerStateTokenOnLastRelease t)"
        using token_ref.last_off [of t] zero by (simp add: token_ok_def)
      then show ?thesis
        using True zero OpRelease
        by (simp add: HdfPmReleaseDevice_def PowerStateTokenReleaseWakeLock_def HdfSRefCount_def pm_abs_def)
    next
      case False
      have c: "token_ref.consistent (wakeRef t, t)" "0 < unat (fst (wakeRef t, t))"
        using assms(1) False by (simp_all add: token_ref.consistent_def token_ok_def unat_gt_0)
      note r = token_ref.release_consistent [OF c, unfolded token_listener_eq fst_conv]
      have "token_ok (on_wakeRef ?f t)" "unat (wakeRef (on_wakeRef ?f t)) = unat (wakeRef t) - 1"
        using r by (simp_all add: token_ok_def token_ref.consistent_def on_wakeRef_fields)
      then show ?thesis
        using True False OpRelease
        by (simp add: HdfPmReleaseDevice_def PowerStateTokenReleaseWakeLock_def HdfSRefCount_def pm_abs_def on_wakeRef_fields)
    qed
  next
    case False
    then show ?thesis
      using OpRelease assms(1) by (simp add: HdfPmReleaseDevice_def PowerStateTokenReleaseWakeLock_def pm_abs_def)
  qed
next
  case (OpMode m)
  then show ?thesis using assms(1) by (simp add: HdfPmSetMode_def token_ok_def pm_abs_def)
qed

text \<open>The calls a driver sees are alternating, and the last one tells the state.\<close>

definition calls_ok :: "PowerStateToken \<Rightarrow> bool" where
  "calls_ok t \<longleftrightarrow> successively (\<noteq>) (calls t) \<and> set (calls t) \<subseteq> {CallResume, CallSuspend} \<and>
     (psmState t = PSM_STATE_IDLE \<longleftrightarrow> calls t = []) \<and>
     (calls t \<noteq> [] \<longrightarrow> (psmState t = PSM_STATE_ACTIVE \<longleftrightarrow> last (calls t) = CallResume))"

lemma callbacks_calls_ok:
  assumes "calls_ok t" "listener t = Some l" "Resume l \<noteq> None" "Suspend l \<noteq> None"
  shows "calls_ok (PowerStateTokenOnFirstAcquire t)" "calls_ok (PowerStateTokenOnLastRelease t)"
  using assms
  by (auto simp: calls_ok_def PowerStateTokenOnFirstAcquire_def PowerStateTokenOnLastRelease_def Let_def
      call_listener_def successively_append_iff split: option.splits) (cases "psmState t"; force)+

lemma pm_step_calls:
  assumes "calls_ok t" "listener t = Some l" "Resume l \<noteq> None" "Suspend l \<noteq> None" "pm_step opn (Some t) = Some t'"
  shows "calls_ok t'"
proof -
  note cb = callbacks_calls_ok [OF assms(1-4)]
  have wr: "calls_ok (t1\<lparr>wakeRef := r\<rparr>) \<longleftrightarrow> calls_ok t1" "calls_ok (t1\<lparr>mode := m\<rparr>) \<longleftrightarrow> calls_ok t1" for t1 r m
    by (simp_all add: calls_ok_def)
  show ?thesis
    using assms(1,5) cb
    by (cases opn) (auto simp: HdfPmAcquireDevice_def HdfPmReleaseDevice_def HdfPmSetMode_def
        PowerStateTokenAcquireWakeLock_def PowerStateTokenReleaseWakeLock_def on_wakeRef_def
        HdfSRefAcquire_def HdfSRefRelease_def token_sref_listener_def Let_def wr split: if_splits)
qed

lemma pm_run_ok:
  assumes "token_ok t" "unat (wakeRef t) + length ops < 2 ^ 32"
  shows "\<exists>t'. pm_run ops (Some t) = Some t' \<and> token_ok t' \<and> pm_abs t' = fold pm_spec_step ops (pm_abs t)"
  using assms
proof (induction ops arbitrary: t)
  case Nil
  then show ?case by (simp add: pm_run_def)
next
  case (Cons opn ops)
  have "unat (wakeRef t) < 2 ^ 32 - 1" using Cons.prems(2) by simp
  from pm_step_ok [OF Cons.prems(1) this, of opn] obtain t1 where
    t1: "pm_step opn (Some t) = Some t1" "token_ok t1" "pm_abs t1 = pm_spec_step opn (pm_abs t)"
    "unat (wakeRef t1) \<le> Suc (unat (wakeRef t))" by blast
  then have "unat (wakeRef t1) + length ops < 2 ^ 32" using Cons.prems(2) by simp
  from Cons.IH [OF t1(2) this] t1 show ?case by (simp add: pm_run_def)
qed

lemma new_token:
  "PowerStateTokenNewInstance True True l = Some t \<Longrightarrow>
   t = \<lparr>listener = l, wakeRef = 0, psmState = PSM_STATE_IDLE, mode = HDF_POWER_SYS_CTRL, calls = []\<rparr>"
  by (auto simp: PowerStateTokenNewInstance_def PowerStateTokenConstruct_def HdfSRefConstruct_def
      token_sref_listener_def)

text \<open>
  C15. Reference counting of the power state. For every sequence (shorter than 2^32) of
  acquire, release and mode requests on a fresh token, executed one after the other, the counter
  follows the specification that ignores requests outside dynamic control and releases at zero,
  and the device is active exactly while the counter is positive.
\<close>

theorem pm_token_refines:
  assumes "PowerStateTokenNewInstance True True l = Some t" "length ops < 2 ^ 32"
  shows "\<exists>t'. pm_run ops (Some t) = Some t' \<and> pm_abs t' = fold pm_spec_step ops (HDF_POWER_SYS_CTRL, 0) \<and>
    (psmState t' = PSM_STATE_ACTIVE \<longleftrightarrow> 0 < snd (fold pm_spec_step ops (HDF_POWER_SYS_CTRL, 0)))"
proof -
  have t: "token_ok t" "wakeRef t = 0" "pm_abs t = (HDF_POWER_SYS_CTRL, 0)"
    using new_token [OF assms(1)] by (simp_all add: token_ok_def pm_abs_def)
  from pm_run_ok [OF t(1), of ops] assms(2) t(2,3) obtain t' where
    r: "pm_run ops (Some t) = Some t'" "token_ok t'" "pm_abs t' = fold pm_spec_step ops (HDF_POWER_SYS_CTRL, 0)"
    by auto
  then have "snd (fold pm_spec_step ops (HDF_POWER_SYS_CTRL, 0)) = unat (wakeRef t')"
    by (metis pm_abs_def snd_conv)
  then show ?thesis using r by (simp add: token_ok_def)
qed

theorem pm_token_refines_witness:
  "\<exists>t'. pm_run [OpMode 1, OpAcquire, OpAcquire, OpRelease]
      (Some \<lparr>listener = None, wakeRef = 0, psmState = PSM_STATE_IDLE, mode = HDF_POWER_SYS_CTRL, calls = []\<rparr>) = Some t' \<and>
    psmState t' = PSM_STATE_ACTIVE"
proof -
  have "PowerStateTokenNewInstance True True None =
      Some \<lparr>listener = None, wakeRef = 0, psmState = PSM_STATE_IDLE, mode = HDF_POWER_SYS_CTRL, calls = []\<rparr>"
    by (simp add: PowerStateTokenNewInstance_def PowerStateTokenConstruct_def HdfSRefConstruct_def token_sref_listener_def)
  from pm_token_refines [OF this, of "[OpMode 1, OpAcquire, OpAcquire, OpRelease]"] show ?thesis by auto
qed

lemma pm_run_calls:
  assumes "calls_ok t" "token_ok t" "unat (wakeRef t) + length ops < 2 ^ 32"
    and "listener t = Some l" "Resume l \<noteq> None" "Suspend l \<noteq> None" "pm_run ops (Some t) = Some t'"
  shows "calls_ok t'"
  using assms
proof (induction ops arbitrary: t)
  case Nil
  then show ?case by (simp add: pm_run_def)
next
  case (Cons opn ops)
  have "unat (wakeRef t) < 2 ^ 32 - 1" using Cons.prems(3) by simp
  from pm_step_ok [OF Cons.prems(2) this, of opn] obtain t1 where
    t1: "pm_step opn (Some t) = Some t1" "token_ok t1" "unat (wakeRef t1) \<le> Suc (unat (wakeRef t))"
    "listener t1 = listener t" by blast
  have "calls_ok t1" by (rule pm_step_calls [OF Cons.prems(1,4-6) t1(1)])
  from Cons.IH [OF this t1(2)] Cons.prems t1 show ?case by (simp add: pm_run_def)
qed

text \<open>
  C16. What the driver sees. Under the same sequences, a driver that has both callbacks is
  resumed and suspended in strict alternation, only through these two, and the last call agrees
  with the state of the token.
\<close>

theorem pm_calls_alternate:
  assumes "PowerStateTokenNewInstance True True (Some l) = Some t" "length ops < 2 ^ 32"
    and "Resume l \<noteq> None" "Suspend l \<noteq> None" "pm_run ops (Some t) = Some t'"
  shows "successively (\<noteq>) (calls t') \<and> set (calls t') \<subseteq> {CallResume, CallSuspend} \<and>
    (calls t' \<noteq> [] \<longrightarrow> (psmState t' = PSM_STATE_ACTIVE \<longleftrightarrow> last (calls t') = CallResume))"
proof -
  have t: "token_ok t" "wakeRef t = 0" "calls_ok t" "listener t = Some l"
    using new_token [OF assms(1)] by (simp_all add: token_ok_def calls_ok_def)
  from pm_run_calls [OF t(3,1) _ t(4) assms(3-5)] assms(2) t(2) show ?thesis
    by (simp add: calls_ok_def)
qed

theorem pm_calls_alternate_witness:
  "\<exists>t' :: PowerStateToken. calls t' = [CallResume, CallSuspend] \<and> successively (\<noteq>) (calls t')"
proof -
  let ?l = "\<lparr>DozeResume = None, DozeSuspend = None, Resume = Some 0, Suspend = Some 0\<rparr>"
  let ?t = "\<lparr>listener = Some ?l, wakeRef = 0, psmState = PSM_STATE_IDLE, mode = HDF_POWER_SYS_CTRL, calls = []\<rparr>"
  have new: "PowerStateTokenNewInstance True True (Some ?l) = Some ?t"
    by (simp add: PowerStateTokenNewInstance_def PowerStateTokenConstruct_def HdfSRefConstruct_def token_sref_listener_def)
  have "map_option calls (pm_run [OpMode 1, OpAcquire, OpRelease, OpRelease] (Some ?t)) = Some [CallResume, CallSuspend]"
    by code_simp
  then obtain t' where t': "pm_run [OpMode 1, OpAcquire, OpRelease, OpRelease] (Some ?t) = Some t'"
    "calls t' = [CallResume, CallSuspend]" by auto
  have "successively (\<noteq>) (calls t')"
    using pm_calls_alternate [OF new _ _ _ t'(1)] by simp
  then show ?thesis using t'(2) by blast
qed

section \<open>Interleaved acquisitions\<close>

text \<open>
  \<^verbatim>\<open>HdfSRefAcquire\<close> increments the counter and reads it back in two atomic steps. The
  state is the counter, the number of calls of \<^verbatim>\<open>OnFirstAcquire\<close>, and the program
  counter of each thread that is in the function.
\<close>

datatype acq_pc = AcqStart | AcqIncremented | AcqRead u32 | AcqDone

inductive acq_step :: "u32 \<times> nat \<times> acq_pc list \<Rightarrow> u32 \<times> nat \<times> acq_pc list \<Rightarrow> bool" where
  acq_inc: "i < length pcs \<Longrightarrow> pcs ! i = AcqStart \<Longrightarrow>
    acq_step (refs, n, pcs) (refs + 1, n, pcs[i := AcqIncremented])"
| acq_read: "i < length pcs \<Longrightarrow> pcs ! i = AcqIncremented \<Longrightarrow>
    acq_step (refs, n, pcs) (refs, n, pcs[i := AcqRead refs])"
| acq_call: "i < length pcs \<Longrightarrow> pcs ! i = AcqRead lockRef \<Longrightarrow>
    acq_step (refs, n, pcs) (refs, if lockRef = 1 then Suc n else n, pcs[i := AcqDone])"

inductive_cases acq_stepE: "acq_step s s'"

text \<open>
  C18. Two threads that acquire the same fresh reference can both return without
  \<^verbatim>\<open>OnFirstAcquire\<close> having been called: both increments may come before the first read.
\<close>

theorem HdfSRefAcquire_race:
  "acq_step\<^sup>*\<^sup>* (0, 0, [AcqStart, AcqStart]) (2, 0, [AcqDone, AcqDone])"
proof -
  have 1: "acq_step (0, 0, [AcqStart, AcqStart]) (1, 0, [AcqIncremented, AcqStart])"
    using acq_inc [of 0 "[AcqStart, AcqStart]" 0 0] by simp
  have 2: "acq_step (1, 0, [AcqIncremented, AcqStart]) (2, 0, [AcqIncremented, AcqIncremented])"
    using acq_inc [of 1 "[AcqIncremented, AcqStart]" 1 0] by simp
  have 3: "acq_step (2, 0, [AcqIncremented, AcqIncremented]) (2, 0, [AcqRead 2, AcqIncremented])"
    using acq_read [of 0 "[AcqIncremented, AcqIncremented]" 2 0] by simp
  have 4: "acq_step (2, 0, [AcqRead 2, AcqIncremented]) (2, 0, [AcqRead 2, AcqRead 2])"
    using acq_read [of 1 "[AcqRead 2, AcqIncremented]" 2 0] by simp
  have 5: "acq_step (2, 0, [AcqRead 2, AcqRead 2]) (2, 0, [AcqDone, AcqRead 2])"
    using acq_call [of 0 "[AcqRead 2, AcqRead 2]" 2 2 0] by simp
  have 6: "acq_step (2, 0, [AcqDone, AcqRead 2]) (2, 0, [AcqDone, AcqDone])"
    using acq_call [of 1 "[AcqDone, AcqRead 2]" 2 2 0] by simp
  show ?thesis
    using 1 2 3 4 5 6 by (meson converse_rtranclp_into_rtranclp rtranclp.rtrancl_refl)
qed

text \<open>
  In the other direction the counter is enough. The invariant counts the threads by their
  program counters.
\<close>

abbreviation at_pc :: "acq_pc \<Rightarrow> acq_pc list \<Rightarrow> nat" where
  "at_pc p pcs \<equiv> count (mset pcs) p"

definition acq_inv :: "u32 \<times> nat \<times> acq_pc list \<Rightarrow> bool" where
  "acq_inv s = (case s of (refs, n, pcs) \<Rightarrow>
     length pcs < 2 ^ 32 \<and> unat refs + at_pc AcqStart pcs = length pcs \<and>
     n + at_pc AcqIncremented pcs + at_pc (AcqRead 1) pcs \<le> unat refs \<and>
     n + at_pc (AcqRead 1) pcs \<le> 1)"

lemma at_pc_update:
  assumes "i < length pcs"
  shows "at_pc q (pcs[i := p]) = at_pc q pcs - (if pcs ! i = q then 1 else 0) + (if p = q then 1 else 0)"
  using assms by (simp add: mset_update)

lemma at_pc_pos:
  assumes "i < length pcs" "pcs ! i = p"
  shows "0 < at_pc p pcs"
  using assms nth_mem by fastforce

lemma acq_step_inv:
  assumes "acq_step s s'" "acq_inv s"
  shows "acq_inv s'"
  using assms
proof (cases rule: acq_step.cases)
  case (acq_inc i pcs refs n)
  have pos: "0 < at_pc AcqStart pcs" by (rule at_pc_pos [OF acq_inc(3,4)])
  moreover have "unat refs + at_pc AcqStart pcs = length pcs" "length pcs < 2 ^ 32"
    using assms(2) acq_inc(1) by (simp_all add: acq_inv_def)
  ultimately have "unat refs + 1 < 2 ^ 32" by linarith
  then have "unat (refs + 1) = unat refs + 1" by (simp add: unat_word_ariths(1))
  then show ?thesis
    using assms(2) acq_inc pos by (simp add: acq_inv_def at_pc_update)
next
  case (acq_read i pcs refs n)
  have pos: "0 < at_pc AcqIncremented pcs" by (rule at_pc_pos [OF acq_read(3,4)])
  have inv: "n + at_pc AcqIncremented pcs + at_pc (AcqRead 1) pcs \<le> unat refs" "n + at_pc (AcqRead 1) pcs \<le> 1"
    using assms(2) acq_read(1) by (simp_all add: acq_inv_def)
  have "n + at_pc (AcqRead 1) pcs = 0" if "refs = 1"
  proof -
    have "unat refs = 1" using that by simp
    then show ?thesis using pos inv(1) by linarith
  qed
  moreover have "at_pc (AcqRead 1) (pcs[i := AcqRead refs]) = at_pc (AcqRead 1) pcs + (if refs = 1 then 1 else 0)"
    "at_pc AcqIncremented (pcs[i := AcqRead refs]) = at_pc AcqIncremented pcs - 1"
    "at_pc AcqStart (pcs[i := AcqRead refs]) = at_pc AcqStart pcs"
    using acq_read(3,4) by (simp_all add: at_pc_update del: count_mset)
  ultimately show ?thesis
    using assms(2) acq_read(1,2) pos inv by (cases "refs = 1") (simp_all add: acq_inv_def)
next
  case (acq_call i pcs lockRef refs n)
  have pos: "0 < at_pc (AcqRead lockRef) pcs" by (rule at_pc_pos [OF acq_call(3,4)])
  have upd: "at_pc (AcqRead 1) (pcs[i := AcqDone]) = at_pc (AcqRead 1) pcs - (if lockRef = 1 then 1 else 0)"
    "at_pc AcqIncremented (pcs[i := AcqDone]) = at_pc AcqIncremented pcs"
    "at_pc AcqStart (pcs[i := AcqDone]) = at_pc AcqStart pcs"
    using acq_call(3,4) by (simp_all add: at_pc_update del: count_mset)
  then have *: "length pcs < 2 ^ 32" "unat refs + at_pc AcqStart (pcs[i := AcqDone]) = length pcs"
    using assms(2) acq_call(1) by (simp_all add: acq_inv_def)
  note upd
  moreover have "n + at_pc AcqIncremented pcs + at_pc (AcqRead 1) pcs \<le> unat refs" "n + at_pc (AcqRead 1) pcs \<le> 1"
    using assms(2) acq_call(1) by (simp_all add: acq_inv_def)
  ultimately have "(if lockRef = 1 then Suc n else n) + at_pc AcqIncremented (pcs[i := AcqDone]) +
       at_pc (AcqRead 1) (pcs[i := AcqDone]) \<le> unat refs \<and>
     (if lockRef = 1 then Suc n else n) + at_pc (AcqRead 1) (pcs[i := AcqDone]) \<le> 1"
    using pos by (auto split: if_splits simp del: count_greater_zero_iff)
  with * show ?thesis using acq_call(2) by (simp only: acq_inv_def prod.case length_list_update)
qed

text \<open>
  C17. Whatever the interleaving of fewer than 2^32 threads that acquire a fresh reference,
  \<^verbatim>\<open>OnFirstAcquire\<close> is called at most once while nothing is released.
\<close>

theorem HdfSRefAcquire_at_most_once:
  assumes "acq_step\<^sup>*\<^sup>* (0, 0, replicate k AcqStart) (refs, n, pcs)" "k < 2 ^ 32"
  shows "n \<le> 1"
proof -
  have "acq_inv (0, 0, replicate k AcqStart)" using assms(2) by (simp add: acq_inv_def)
  with assms(1) have "acq_inv (refs, n, pcs)"
    by (induction rule: rtranclp_induct) (auto intro: acq_step_inv)
  then show ?thesis by (simp add: acq_inv_def)
qed

theorem HdfSRefAcquire_at_most_once_witness:
  "acq_step\<^sup>*\<^sup>* (0, 0, replicate 1 AcqStart) (1, 1, [AcqDone]) \<and> (1 :: nat) \<le> 1"
proof -
  have "acq_step (0, 0, [AcqStart]) (1, 0, [AcqIncremented])"
    using acq_inc [of 0 "[AcqStart]" 0 0] by simp
  moreover have "acq_step (1, 0, [AcqIncremented]) (1, 0, [AcqRead 1])"
    using acq_read [of 0 "[AcqIncremented]" 1 0] by simp
  moreover have "acq_step (1, 0, [AcqRead 1]) (1, 1, [AcqDone])"
    using acq_call [of 0 "[AcqRead 1]" 1 1 0] by simp
  ultimately have "acq_step\<^sup>*\<^sup>* (0, 0, [AcqStart]) (1, 1, [AcqDone])"
    by (meson converse_rtranclp_into_rtranclp rtranclp.rtrancl_refl)
  then have r: "acq_step\<^sup>*\<^sup>* (0, 0, replicate 1 AcqStart) (1, 1, [AcqDone])"
    by simp
  from HdfSRefAcquire_at_most_once [OF r] r show ?thesis by simp
qed

end
