(* ===== verification/Hdf_Cstring.thy ===== *)
theory Hdf_Cstring
  imports Hdf_Base
begin

text \<open>
  The string helpers of utils/src/hdf_cstring.c: the 31-bit hash key under which services are
  registered, sized strings, and string copies. Whether an allocation succeeds is an argument.
  \<^verbatim>\<open>strncpy_s\<close> is called with a destination that has room for the source, so it only
  refuses strings beyond the limit of the bounds-checking library.
\<close>

abbreviation CSTRING_MAX :: nat where "CSTRING_MAX \<equiv> 1024"
abbreviation SECUREC_STRING_MAX_LEN :: nat where "SECUREC_STRING_MAX_LEN \<equiv> 2147483647"

record HdfCString =
  cstring_size :: int
  cstring_value :: cstr

definition HdfStringMakeHashKey :: "cstr option \<Rightarrow> u32 \<Rightarrow> u32" where
  "HdfStringMakeHashKey key msk =
     ((case key of None \<Rightarrow> 0 | Some s \<Rightarrow> bkdr_loop 0 s) AND 0x7FFFFFFF) OR msk"

definition strncpy_s_ok :: "nat \<Rightarrow> nat \<Rightarrow> bool" where
  "strncpy_s_ok destMax count \<longleftrightarrow> 0 < destMax \<and> destMax \<le> SECUREC_STRING_MAX_LEN \<and> count < destMax"

definition HdfCStringObtain :: "bool \<Rightarrow> cstr option \<Rightarrow> HdfCString option" where
  "HdfCStringObtain allocOk str =
     (case str of
        None \<Rightarrow> None
      | Some s \<Rightarrow>
          (let strLen = length s in
           if strLen > CSTRING_MAX then None
           else if \<not> allocOk then None
           else if \<not> strncpy_s_ok (strLen + 1) strLen then None
           else Some \<lparr>cstring_size = int strLen, cstring_value = s\<rparr>))"

definition HdfStringCopy :: "bool \<Rightarrow> cstr option \<Rightarrow> cstr option" where
  "HdfStringCopy allocOk src =
     (case src of
        None \<Rightarrow> None
      | Some s \<Rightarrow>
          (let srcSize = length s; dstSize = srcSize + 1 in
           if \<not> allocOk then None
           else if \<not> strncpy_s_ok dstSize srcSize then None
           else Some s))"

lemma HdfStringCopy_SomeD: "HdfStringCopy ok src = Some s \<Longrightarrow> src = Some s"
  by (auto simp: HdfStringCopy_def Let_def split: option.splits if_splits)

lemma HdfStringCopy_ok: "length s < SECUREC_STRING_MAX_LEN \<Longrightarrow> HdfStringCopy True (Some s) = Some s"
  by (simp add: HdfStringCopy_def strncpy_s_ok_def)

lemma HdfCStringObtain_SomeD:
  "HdfCStringObtain ok src = Some c \<Longrightarrow> src = Some (cstring_value c) \<and> cstring_size c = int (length (cstring_value c))"
  by (auto simp: HdfCStringObtain_def Let_def split: option.splits if_splits)

text \<open>Keys have 31 bits, so two service names can share one.\<close>

lemma hash_key_bound: "unat (HdfStringMakeHashKey k 0) < 2 ^ 31"
proof -
  have "(2147483647 :: u32) = mask 31" by (simp add: mask_eq_exp_minus_1)
  then have "HdfStringMakeHashKey k 0 = take_bit 31 (case k of None \<Rightarrow> 0 | Some s \<Rightarrow> bkdr_loop 0 s)"
    by (simp add: HdfStringMakeHashKey_def take_bit_eq_mask)
  then show ?thesis
    using take_bit_nat_less_exp [of 31] by (simp add: unsigned_take_bit_eq)
qed

end
