(* ===== verification/Dev_Svc_Manager.thy ===== *)
theory Dev_Svc_Manager
  imports Hdf_Cstring Hdf_Sbuf
begin

text \<open>
  The device service manager of the kernel: the registry of services
  (core/manager/src/devsvc_manager.c, core/shared/src/hdf_service_record.c), the holders of
  service status listeners (core/manager/src/servstat_listener_holder.c) and the commands by
  which clients register them (core/manager/src/devsvc_manager_ext.c). Holders live in a memory
  of their own and are on two lists, so the model keeps their addresses; using a freed holder
  is undefined behaviour (\<^verbatim>\<open>None\<close>).
\<close>

section \<open>State\<close>

text \<open>\<^verbatim>\<open>'o\<close> is the type of pointers to device objects.\<close>

record 'o DevSvcRecord =
  svc_key :: u32
  svc_value :: "'o option"
  servName :: "cstr option"
  servInfo :: "cstr option"
  devClass :: u16

text \<open>
  A holder together with the structure that contains it. The only function the code stores in
  the entries \<^verbatim>\<open>NotifyStatus\<close> and \<^verbatim>\<open>Recycle\<close> are the two below, so the
  entries say whether they are set.
\<close>

record ServStatListenerHolder =
  listenClass :: u16
  index :: u64
  NotifyStatus :: bool
  Recycle :: bool
  listenerClient :: "u64 option"

text \<open>A notification: the client it is for, the status, and the code the entry returned.\<close>

type_synonym svc_event = "u64 \<times> ServiceStatus \<times> int"

record 'o DevSvcManager =
  services :: "'o DevSvcRecord list"
  svcstatListeners :: "nat list"
  g_holderList :: "nat list"
  holder_mem :: "nat \<rightharpoonup> ServStatListenerHolder"
  events :: "svc_event list"

text \<open>
  What the manager meets when it notifies: the allocator, and the function that sends an event
  to a client (\<^verbatim>\<open>HdfDeviceSendEventToClient\<close>). Both may depend on what was sent before.
\<close>

record notify_env =
  ne_alloc :: "svc_event list \<Rightarrow> osal_alloc"
  ne_send :: "svc_event list \<Rightarrow> u64 \<Rightarrow> u32 \<Rightarrow> sbuf_raw HdfSBuf option \<Rightarrow> int"

abbreviation (input) SERVIE_STATUS_START :: u16 where "SERVIE_STATUS_START \<equiv> 0"
abbreviation (input) SERVIE_STATUS_CHANGE :: u16 where "SERVIE_STATUS_CHANGE \<equiv> 1"
abbreviation (input) SERVIE_STATUS_STOP :: u16 where "SERVIE_STATUS_STOP \<equiv> 2"

text \<open>In the kernel the two IPC constructors are weak and NULL.\<close>

definition kernel_ctors :: "sbuf_raw HdfSbufConstructor list" where
  "kernel_ctors = g_sbufConstructorMap raw_constructor
     \<lparr>obtain_op = None, bind_op = None\<rparr> \<lparr>obtain_op = None, bind_op = None\<rparr>"

section \<open>Listener holders\<close>

text \<open>The second component says whether the buffer is left behind.\<close>

definition KServStatListenerHolderNotifyStatus ::
  "osal_alloc \<Rightarrow> (u64 \<Rightarrow> u32 \<Rightarrow> sbuf_raw HdfSBuf option \<Rightarrow> int) \<Rightarrow>
   ServStatListenerHolder option \<Rightarrow> ServiceStatus option \<Rightarrow> int \<times> bool" where
  "KServStatListenerHolderNotifyStatus alloc send holder st =
     (case (holder, st) of
        (Some h, Some s) \<Rightarrow>
          (case listenerClient h of
             None \<Rightarrow> (HDF_ERR_INVALID_PARAM, False)
           | Some client \<Rightarrow>
               (let dat = HdfSbufObtainDefaultSize kernel_ctors alloc in
                if dat = None then (HDF_ERR_MALLOC_FAIL, False)
                else (let (dat1, ret) = ServiceStatusMarshalling alloc (Some s) dat in
                  if ret \<noteq> HDF_SUCCESS then (HDF_ERR_INVALID_PARAM, False)
                  else if send client 0 dat1 \<noteq> HDF_SUCCESS then (HDF_FAILURE, True)
                  else (HDF_SUCCESS, False))))
      | _ \<Rightarrow> (HDF_ERR_INVALID_PARAM, False))"

text \<open>
  Releasing a holder takes it off the global list (if it is on it) and frees it.
\<close>

definition ServStatListenerHolderRelease :: "nat option \<Rightarrow> 'o DevSvcManager \<Rightarrow> 'o DevSvcManager option" where
  "ServStatListenerHolderRelease holder m =
     (case holder of
        None \<Rightarrow> Some m
      | Some a \<Rightarrow>
          (case holder_mem m a of
             None \<Rightarrow> UB
           | Some h \<Rightarrow>
               Some (m\<lparr>g_holderList := remove1 a (g_holderList m), holder_mem := (holder_mem m)(a := None)\<rparr>)))"

definition KServStatListenerHolderRecycle :: "nat option \<Rightarrow> 'o DevSvcManager \<Rightarrow> 'o DevSvcManager option" where
  "KServStatListenerHolderRecycle holder m =
     (if holder = None then Some m else ServStatListenerHolderRelease holder m)"

text \<open>\<^verbatim>\<open>newHolder\<close> is the address the allocator returns, or NULL.\<close>

definition ServStatListenerHolderCreate ::
  "nat option \<Rightarrow> u64 \<Rightarrow> u16 \<Rightarrow> 'o DevSvcManager \<Rightarrow> 'o DevSvcManager \<times> nat option" where
  "ServStatListenerHolderCreate newHolder lsn cls m =
     (if lsn = 0 then (m, None)
      else
        (case newHolder of
           None \<Rightarrow> (m, None)
         | Some a \<Rightarrow>
             (m\<lparr>holder_mem := (holder_mem m)(a \<mapsto>
                   \<lparr>listenClass = cls, index = lsn, NotifyStatus = True, Recycle = True, listenerClient = Some lsn\<rparr>),
                g_holderList := g_holderList m @ [a]\<rparr>, Some a)))"

fun holder_search :: "(nat \<rightharpoonup> ServStatListenerHolder) \<Rightarrow> u64 \<Rightarrow> nat list \<Rightarrow> nat option option" where
  "holder_search mem idx [] = Some None"
| "holder_search mem idx (a # as) =
     (case mem a of
        None \<Rightarrow> UB
      | Some h \<Rightarrow> if index h = idx then Some (Some a) else holder_search mem idx as)"

definition ServStatListenerHolderGet :: "u64 \<Rightarrow> 'o DevSvcManager \<Rightarrow> nat option option" where
  "ServStatListenerHolderGet idx m = holder_search (holder_mem m) idx (g_holderList m)"

section \<open>Notification\<close>

definition svc_status :: "'o DevSvcRecord \<Rightarrow> u16 \<Rightarrow> ServiceStatus" where
  "svc_status r st = \<lparr>serviceName = servName r, deviceClass = devClass r, status = st, info = servInfo r\<rparr>"

text \<open>One call of the entry \<^verbatim>\<open>NotifyStatus\<close>, recorded.\<close>

definition notify_one ::
  "notify_env \<Rightarrow> ServStatListenerHolder \<Rightarrow> ServiceStatus \<Rightarrow> 'o DevSvcManager \<Rightarrow> 'o DevSvcManager \<times> int" where
  "notify_one env h st m =
     (let ret = fst (KServStatListenerHolderNotifyStatus (ne_alloc env (events m)) (ne_send env (events m))
                       (Some h) (Some st))
      in (m\<lparr>events := events m @ [(index h, st, ret)]\<rparr>, ret))"

text \<open>
  The loop keeps the next holder before it works on the current one: the list argument is what
  is left to visit. \<^verbatim>\<open>DListRemove\<close> follows the links of the holder, which are NULL when
  it is not on the list.
\<close>

fun notify_loop ::
  "notify_env \<Rightarrow> u16 \<Rightarrow> ServiceStatus \<Rightarrow> nat list \<Rightarrow> 'o DevSvcManager \<Rightarrow> 'o DevSvcManager option" where
  "notify_loop env cls st [] m = Some m"
| "notify_loop env cls st (a # as) m =
     (case holder_mem m a of
        None \<Rightarrow> UB
      | Some h \<Rightarrow>
          if listenClass h AND cls \<noteq> 0 \<and> NotifyStatus h then
            (let (m1, ret) = notify_one env h st m in
             if ret = HDF_FAILURE then
               (if a \<notin> set (svcstatListeners m1) then UB
                else
                  (let m2 = m1\<lparr>svcstatListeners := remove1 a (svcstatListeners m1)\<rparr> in
                   if Recycle h then
                     (case KServStatListenerHolderRecycle (Some a) m2 of
                        None \<Rightarrow> UB
                      | Some m3 \<Rightarrow> notify_loop env cls st as m3)
                   else notify_loop env cls st as m2))
             else notify_loop env cls st as m1)
          else notify_loop env cls st as m)"

definition NotifyServiceStatusLocked ::
  "notify_env \<Rightarrow> 'o DevSvcRecord \<Rightarrow> u16 \<Rightarrow> 'o DevSvcManager \<Rightarrow> 'o DevSvcManager option" where
  "NotifyServiceStatusLocked env r st m =
     notify_loop env (devClass r) (svc_status r st) (svcstatListeners m) m"

fun register_loop ::
  "notify_env \<Rightarrow> ServStatListenerHolder \<Rightarrow> 'o DevSvcRecord list \<Rightarrow> 'o DevSvcManager \<Rightarrow> 'o DevSvcManager" where
  "register_loop env h [] m = m"
| "register_loop env h (r # rs) m =
     (if listenClass h AND devClass r = 0 then register_loop env h rs m
      else if NotifyStatus h then
        register_loop env h rs (fst (notify_one env h (svc_status r SERVIE_STATUS_START) m))
      else register_loop env h rs m)"

definition NotifyServiceStatusOnRegisterLocked ::
  "notify_env \<Rightarrow> nat \<Rightarrow> 'o DevSvcManager \<Rightarrow> 'o DevSvcManager option" where
  "NotifyServiceStatusOnRegisterLocked env a m =
     (case holder_mem m a of None \<Rightarrow> UB | Some h \<Rightarrow> Some (register_loop env h (services m) m))"
section \<open>The registry of services\<close>

definition DevSvcRecordNewInstance :: "bool \<Rightarrow> 'o DevSvcRecord option" where
  "DevSvcRecordNewInstance allocOk =
     (if allocOk then Some \<lparr>svc_key = 0, svc_value = None, servName = None, servInfo = None, devClass = 0\<rparr>
      else None)"

text \<open>The manager is a pointer that may be NULL; a record found is given by its contents.\<close>

definition DevSvcManagerSearchService :: "'o DevSvcManager option \<Rightarrow> u32 \<Rightarrow> 'o DevSvcRecord option" where
  "DevSvcManagerSearchService inst serviceKey =
     (case inst of
        None \<Rightarrow> None
      | Some m \<Rightarrow> find (\<lambda>r. svc_key r = serviceKey) (services m))"

text \<open>Writing through the pointer to the record that a search for the key returns.\<close>

fun update_record :: "u32 \<Rightarrow> ('o DevSvcRecord \<Rightarrow> 'o DevSvcRecord) \<Rightarrow> 'o DevSvcRecord list \<Rightarrow> 'o DevSvcRecord list" where
  "update_record k f [] = []"
| "update_record k f (r # rs) = (if svc_key r = k then f r # rs else r # update_record k f rs)"

text \<open>The outcomes of the allocations of the record and of the two strings.\<close>

record svc_alloc =
  sa_record :: bool
  sa_name :: bool
  sa_info :: bool

definition DevSvcManagerAddService ::
  "notify_env \<Rightarrow> svc_alloc \<Rightarrow> 'o DevSvcManager option \<Rightarrow> cstr option \<Rightarrow> u16 \<Rightarrow> 'o option \<Rightarrow> cstr option \<Rightarrow>
   ('o DevSvcManager option \<times> int) option" where
  "DevSvcManagerAddService env al inst nm cls service sinfo =
     (case inst of
        None \<Rightarrow> Some (inst, HDF_FAILURE)
      | Some m \<Rightarrow>
          if service = None \<or> nm = None then Some (inst, HDF_FAILURE)
          else
            (let k = HdfStringMakeHashKey nm 0 in
             if DevSvcManagerSearchService inst k \<noteq> None then
               Some (Some (m\<lparr>services := update_record k (\<lambda>r. r\<lparr>svc_value := service\<rparr>) (services m)\<rparr>), HDF_SUCCESS)
             else
               (case DevSvcRecordNewInstance (sa_record al) of
                  None \<Rightarrow> Some (inst, HDF_FAILURE)
                | Some r0 \<Rightarrow>
                    (let r = r0\<lparr>svc_key := k, svc_value := service, devClass := cls,
                                servName := HdfStringCopy (sa_name al) nm,
                                servInfo := HdfStringCopy (sa_info al) sinfo\<rparr> in
                     if servName r = None then Some (inst, HDF_ERR_MALLOC_FAIL)
                     else
                       (case NotifyServiceStatusLocked env r SERVIE_STATUS_START (m\<lparr>services := services m @ [r]\<rparr>) of
                          None \<Rightarrow> UB
                        | Some m' \<Rightarrow> Some (Some m', HDF_SUCCESS))))))"

definition DevSvcManagerUpdateService ::
  "notify_env \<Rightarrow> bool \<Rightarrow> 'o DevSvcManager option \<Rightarrow> cstr option \<Rightarrow> u16 \<Rightarrow> 'o option \<Rightarrow> cstr option \<Rightarrow>
   ('o DevSvcManager option \<times> int) option" where
  "DevSvcManagerUpdateService env infoAlloc inst nm cls service sinfo =
     (case inst of
        None \<Rightarrow> Some (inst, HDF_FAILURE)
      | Some m \<Rightarrow>
          if service = None \<or> nm = None then Some (inst, HDF_FAILURE)
          else
            (let k = HdfStringMakeHashKey nm 0 in
             case DevSvcManagerSearchService inst k of
               None \<Rightarrow> Some (inst, HDF_DEV_ERR_NO_DEVICE)
             | Some r0 \<Rightarrow>
                 (case HdfStringCopy infoAlloc sinfo of
                    None \<Rightarrow> Some (inst, HDF_ERR_MALLOC_FAIL)
                  | Some infoStr \<Rightarrow>
                      (let f = (\<lambda>r. r\<lparr>svc_value := service, devClass := cls, servInfo := Some infoStr\<rparr>) in
                       case NotifyServiceStatusLocked env (f r0) SERVIE_STATUS_CHANGE
                              (m\<lparr>services := update_record k f (services m)\<rparr>) of
                         None \<Rightarrow> UB
                       | Some m' \<Rightarrow> Some (Some m', HDF_SUCCESS)))))"

definition DevSvcManagerRemoveService ::
  "notify_env \<Rightarrow> 'o DevSvcManager option \<Rightarrow> cstr option \<Rightarrow> 'o DevSvcManager option option" where
  "DevSvcManagerRemoveService env inst nm =
     (let k = HdfStringMakeHashKey nm 0 in
      case inst of
        None \<Rightarrow> Some inst
      | Some m \<Rightarrow>
          if nm = None then Some inst
          else
            (case DevSvcManagerSearchService inst k of
               None \<Rightarrow> Some inst
             | Some r \<Rightarrow>
                 (case NotifyServiceStatusLocked env r SERVIE_STATUS_STOP m of
                    None \<Rightarrow> UB
                  | Some m' \<Rightarrow> Some (Some (m'\<lparr>services := remove1 r (services m')\<rparr>)))))"

definition DevSvcManagerGetObject :: "'o DevSvcManager option \<Rightarrow> cstr option \<Rightarrow> 'o option" where
  "DevSvcManagerGetObject inst nm =
     (if nm = None then None
      else (case DevSvcManagerSearchService inst (HdfStringMakeHashKey nm 0) of
              None \<Rightarrow> None
            | Some r \<Rightarrow> svc_value r))"

text \<open>\<^verbatim>\<open>objService\<close> reads the field \<^verbatim>\<open>service\<close> of a device object.\<close>

definition DevSvcManagerGetService :: "('o \<Rightarrow> 's option) \<Rightarrow> 'o DevSvcManager option \<Rightarrow> cstr option \<Rightarrow> 's option" where
  "DevSvcManagerGetService objService inst nm =
     (case DevSvcManagerGetObject inst nm of None \<Rightarrow> None | Some obj \<Rightarrow> objService obj)"

text \<open>
  \<^verbatim>\<open>DevSvcManagerSubscribeService\<close>: what it does next. \<^verbatim>\<open>hasDevmgr\<close> says
  whether the device manager service exists; without the service it is asked to load the device.
\<close>

datatype 's subscribe_action = SubscribeFails | SubscribeConnected "'s option" | SubscribeLoads cstr

definition DevSvcManagerSubscribeService ::
  "bool \<Rightarrow> ('o \<Rightarrow> 's option) \<Rightarrow> 'o DevSvcManager option \<Rightarrow> cstr option \<Rightarrow> bool \<Rightarrow> 's subscribe_action" where
  "DevSvcManagerSubscribeService hasDevmgr objService inst svcName hasCallback =
     (case (inst, svcName) of
        (Some _, Some nm) \<Rightarrow>
          if \<not> hasDevmgr then SubscribeFails
          else (case DevSvcManagerGetService objService inst svcName of
                  Some s \<Rightarrow> SubscribeConnected (if hasCallback then Some s else None)
                | None \<Rightarrow> SubscribeLoads nm)
      | _ \<Rightarrow> SubscribeFails)"

fun list_services :: "osal_alloc \<Rightarrow> u16 \<Rightarrow> 'o DevSvcRecord list \<Rightarrow> 's HdfSBuf option \<Rightarrow> 's HdfSBuf option" where
  "list_services alloc cls [] b = b"
| "list_services alloc cls (r # rs) b =
     (if devClass r = cls then list_services alloc cls rs (fst (HdfSbufWriteString alloc b (servName r)))
      else list_services alloc cls rs b)"

definition DevSvcManagerListService ::
  "osal_alloc \<Rightarrow> 'o DevSvcManager option \<Rightarrow> 's HdfSBuf option \<Rightarrow> u16 \<Rightarrow> 's HdfSBuf option" where
  "DevSvcManagerListService alloc inst nameSet cls =
     (case inst of None \<Rightarrow> nameSet | Some m \<Rightarrow> list_services alloc cls (services m) nameSet)"

definition DevSvcManagerRegsterServListener ::
  "notify_env \<Rightarrow> 'o DevSvcManager option \<Rightarrow> nat option \<Rightarrow> ('o DevSvcManager option \<times> int) option" where
  "DevSvcManagerRegsterServListener env inst holder =
     (case (inst, holder) of
        (Some m, Some a) \<Rightarrow>
          (case NotifyServiceStatusOnRegisterLocked env a (m\<lparr>svcstatListeners := svcstatListeners m @ [a]\<rparr>) of
             None \<Rightarrow> UB
           | Some m' \<Rightarrow> Some (Some m', HDF_SUCCESS))
      | _ \<Rightarrow> Some (inst, HDF_ERR_INVALID_PARAM))"

definition DevSvcManagerUnregsterServListener ::
  "'o DevSvcManager option \<Rightarrow> nat option \<Rightarrow> 'o DevSvcManager option option" where
  "DevSvcManagerUnregsterServListener inst holder =
     (case (inst, holder) of
        (Some m, Some a) \<Rightarrow>
          if holder_mem m a = None \<or> a \<notin> set (svcstatListeners m) then UB
          else Some (Some (m\<lparr>svcstatListeners := remove1 a (svcstatListeners m)\<rparr>))
      | _ \<Rightarrow> Some inst)"

definition DevSvcManagerConstruct :: "bool \<Rightarrow> 'o DevSvcManager option \<Rightarrow> 'o DevSvcManager option \<times> bool" where
  "DevSvcManagerConstruct mutexOk inst =
     (case inst of
        None \<Rightarrow> (inst, False)
      | Some m \<Rightarrow>
          if \<not> mutexOk then (inst, False)
          else (Some (m\<lparr>services := [], svcstatListeners := []\<rparr>), True))"

section \<open>Commands from user space\<close>

text \<open>
  \<^verbatim>\<open>clientOk\<close> says that the client has a device with private data. The class is read
  from the request buffer.
\<close>

definition DevSvcManagerExtRegisterListener ::
  "notify_env \<Rightarrow> nat option \<Rightarrow> bool \<Rightarrow> 'o DevSvcManager \<Rightarrow> u64 \<Rightarrow> 's HdfSBuf option \<Rightarrow>
   ('o DevSvcManager \<times> int) option" where
  "DevSvcManagerExtRegisterListener env newHolder clientOk m client dat =
     (if \<not> clientOk then Some (m, HDF_ERR_INVALID_PARAM)
      else
        (case snd (HdfSbufReadUint16 dat True) of
           None \<Rightarrow> Some (m, HDF_ERR_INVALID_PARAM)
         | Some cls \<Rightarrow>
             (case ServStatListenerHolderGet client m of
                None \<Rightarrow> UB
              | Some (Some a) \<Rightarrow>
                  (case holder_mem m a of
                     None \<Rightarrow> UB
                   | Some h \<Rightarrow> Some (m\<lparr>holder_mem := (holder_mem m)(a \<mapsto> h\<lparr>listenClass := cls\<rparr>)\<rparr>, HDF_SUCCESS))
              | Some None \<Rightarrow>
                  (case ServStatListenerHolderCreate newHolder client cls m of
                     (m1, None) \<Rightarrow> Some (m1, HDF_ERR_MALLOC_FAIL)
                   | (m1, Some a) \<Rightarrow>
                       (case DevSvcManagerRegsterServListener env (Some m1) (Some a) of
                          Some (Some m2, ret) \<Rightarrow> Some (m2, ret)
                        | _ \<Rightarrow> UB)))))"

definition DevSvcManagerExtUnRegisterListener ::
  "bool \<Rightarrow> 'o DevSvcManager \<Rightarrow> u64 \<Rightarrow> ('o DevSvcManager \<times> int) option" where
  "DevSvcManagerExtUnRegisterListener clientOk m client =
     (if \<not> clientOk then Some (m, HDF_ERR_INVALID_PARAM)
      else
        (case ServStatListenerHolderGet client m of
           None \<Rightarrow> UB
         | Some None \<Rightarrow> Some (m, HDF_DEV_ERR_NO_DEVICE_SERVICE)
         | Some (Some a) \<Rightarrow>
             (let m1 = (if a \<in> set (svcstatListeners m)
                        then DevSvcManagerUnregsterServListener (Some m) (Some a) else Some (Some m)) in
              case m1 of
                Some (Some m2) \<Rightarrow>
                  (case ServStatListenerHolderRelease (Some a) m2 of
                     None \<Rightarrow> UB
                   | Some m3 \<Rightarrow> Some (m3, HDF_SUCCESS))
              | _ \<Rightarrow> UB)))"

abbreviation (input) SVCMGR_REGISTER_LISTENER :: int where "SVCMGR_REGISTER_LISTENER \<equiv> 0"
abbreviation (input) SVCMGR_UNREGISTER_LISTENER :: int where "SVCMGR_UNREGISTER_LISTENER \<equiv> 1"

text \<open>
  The adapter passes the client in the reply buffer, which is flushed before the command runs.
\<close>

definition DeviceSvcMgrDispatch ::
  "notify_env \<Rightarrow> nat option \<Rightarrow> (u64 \<Rightarrow> bool) \<Rightarrow> 'o DevSvcManager \<Rightarrow> bool \<Rightarrow> int \<Rightarrow>
   's HdfSBuf option \<Rightarrow> 's HdfSBuf option \<Rightarrow> ('o DevSvcManager \<times> 's HdfSBuf option \<times> int) option" where
  "DeviceSvcMgrDispatch env newHolder clientOk m service cmdId dat reply =
     (if \<not> service \<or> dat = None \<or> reply = None then Some (m, reply, HDF_ERR_INVALID_PARAM)
      else
        (case HdfSbufReadUint64 reply True of
           (reply1, ptr) \<Rightarrow>
             (case ptr of
                None \<Rightarrow> Some (m, reply1, HDF_FAILURE)
              | Some client \<Rightarrow>
                  if client = 0 then Some (m, reply1, HDF_FAILURE)
                  else
                    (case HdfSbufFlush reply1 of
                       None \<Rightarrow> UB
                     | Some (reply2, _) \<Rightarrow>
                         if cmdId = SVCMGR_REGISTER_LISTENER then
                           map_option (\<lambda>(m', ret). (m', reply2, ret))
                             (DevSvcManagerExtRegisterListener env newHolder (clientOk client) m client dat)
                         else if cmdId = SVCMGR_UNREGISTER_LISTENER then
                           map_option (\<lambda>(m', ret). (m', reply2, ret))
                             (DevSvcManagerExtUnRegisterListener (clientOk client) m client)
                         else Some (m, reply2, HDF_ERR_NOT_SUPPORT)))))"

definition DeviceSvcMgrRelease ::
  "(u64 \<Rightarrow> bool) \<Rightarrow> 'o DevSvcManager \<Rightarrow> u64 option \<Rightarrow> 'o DevSvcManager option" where
  "DeviceSvcMgrRelease clientOk m client =
     (case client of
        None \<Rightarrow> Some m
      | Some c \<Rightarrow> map_option fst (DevSvcManagerExtUnRegisterListener (clientOk c) m c))"
section \<open>Invariant\<close>

text \<open>
  Both lists hold exactly the live holders, each once; a client has one holder; every holder
  was filled by \<^verbatim>\<open>ServStatListenerHolderCreate\<close>.
\<close>

definition holders_ok :: "nat list \<Rightarrow> nat list \<Rightarrow> (nat \<rightharpoonup> ServStatListenerHolder) \<Rightarrow> bool" where
  "holders_ok L G mem \<longleftrightarrow>
     distinct L \<and> distinct G \<and> set L = dom mem \<and> set G = dom mem \<and>
     (\<forall>a h. mem a = Some h \<longrightarrow> NotifyStatus h \<and> Recycle h \<and> listenerClient h = Some (index h)) \<and>
     (\<forall>a b h k. mem a = Some h \<and> mem b = Some k \<and> index h = index k \<longrightarrow> a = b)"

definition services_ok :: "'o DevSvcRecord list \<Rightarrow> bool" where
  "services_ok rs \<longleftrightarrow> distinct (map svc_key rs) \<and>
     (\<forall>r \<in> set rs. servName r \<noteq> None \<and> svc_value r \<noteq> None \<and> svc_key r = HdfStringMakeHashKey (servName r) 0)"

definition mgr_ok :: "'o DevSvcManager \<Rightarrow> bool" where
  "mgr_ok m \<longleftrightarrow> services_ok (services m) \<and> holders_ok (svcstatListeners m) (g_holderList m) (holder_mem m)"

lemma holders_okI:
  assumes "distinct L" "distinct G" "set L = dom mem" "set G = dom mem"
    and "\<And>a h. mem a = Some h \<Longrightarrow> NotifyStatus h \<and> Recycle h \<and> listenerClient h = Some (index h)"
    and "\<And>a b h k. mem a = Some h \<Longrightarrow> mem b = Some k \<Longrightarrow> index h = index k \<Longrightarrow> a = b"
  shows "holders_ok L G mem"
  unfolding holders_ok_def using assms by blast

lemma holders_okD:
  assumes "holders_ok L G mem"
  shows "distinct L" "distinct G" "set L = dom mem" "set G = dom mem"
    "mem a = Some h \<Longrightarrow> NotifyStatus h \<and> Recycle h \<and> listenerClient h = Some (index h)"
    "mem a = Some h \<Longrightarrow> mem b = Some k \<Longrightarrow> index h = index k \<Longrightarrow> a = b"
  using assms unfolding holders_ok_def by blast+

lemma holders_ok_free:
  assumes "holders_ok L G mem"
  shows "holders_ok (remove1 a L) (remove1 a G) (mem(a := None))"
proof (rule holders_okI)
  note d = holders_okD [OF assms]
  show "distinct (remove1 a L)" "distinct (remove1 a G)" using d(1,2) by simp_all
  show "set (remove1 a L) = dom (mem(a := None))" "set (remove1 a G) = dom (mem(a := None))"
    using d(1-4) by (auto simp: set_remove1_eq)
  show "NotifyStatus h \<and> Recycle h \<and> listenerClient h = Some (index h)" if "(mem(a := None)) b = Some h" for b h
    using d(5) that by (simp split: if_splits)
  show "b = c" if "(mem(a := None)) b = Some h" "(mem(a := None)) c = Some k" "index h = index k" for b c h k
    using d(6) [of b h c k] that by (simp split: if_splits)
qed

lemma holders_ok_class:
  assumes "holders_ok L G mem" "mem a = Some h"
  shows "holders_ok L G (mem(a \<mapsto> h\<lparr>listenClass := cls\<rparr>))"
proof (rule holders_okI)
  note d = holders_okD [OF assms(1)]
  show "distinct L" "distinct G" using d(1,2) by simp_all
  show "set L = dom (mem(a \<mapsto> h\<lparr>listenClass := cls\<rparr>))" "set G = dom (mem(a \<mapsto> h\<lparr>listenClass := cls\<rparr>))"
    using d(3,4) assms(2) by auto
  show "NotifyStatus k \<and> Recycle k \<and> listenerClient k = Some (index k)"
    if "(mem(a \<mapsto> h\<lparr>listenClass := cls\<rparr>)) b = Some k" for b k
    using d(5) [of b k] d(5) [OF assms(2)] that by (auto split: if_splits)
  show "b = c" if "(mem(a \<mapsto> h\<lparr>listenClass := cls\<rparr>)) b = Some k" "(mem(a \<mapsto> h\<lparr>listenClass := cls\<rparr>)) c = Some j"
    "index k = index j" for b c k j
    using d(6) [of b k c j] d(6) [OF assms(2), of c j] d(6) [OF _ assms(2), of b k] that
    by (auto split: if_splits)
qed

lemma notify_one_fields [simp]:
  "services (fst (notify_one env h st m)) = services m"
  "svcstatListeners (fst (notify_one env h st m)) = svcstatListeners m"
  "g_holderList (fst (notify_one env h st m)) = g_holderList m"
  "holder_mem (fst (notify_one env h st m)) = holder_mem m"
  "events (fst (notify_one env h st m)) = events m @ [(index h, st, snd (notify_one env h st m))]"
  by (simp_all add: notify_one_def Let_def)

text \<open>
  What a notification of a class does: every listener that stays has been sent the status once
  if it listens to the class and has not been sent anything otherwise, and every listener that
  goes had its entry fail.
\<close>

definition notify_effect :: "u16 \<Rightarrow> ServiceStatus \<Rightarrow> nat list \<Rightarrow> 'o DevSvcManager \<Rightarrow> 'o DevSvcManager \<Rightarrow> bool" where
  "notify_effect cls st as m m' \<longleftrightarrow>
     services m' = services m \<and> holders_ok (svcstatListeners m') (g_holderList m') (holder_mem m') \<and>
     (\<exists>evs. events m' = events m @ evs \<and>
        (\<forall>a h. holder_mem m' a = Some h \<longrightarrow> holder_mem m a = Some h \<and>
           (if a \<in> set as \<and> listenClass h AND cls \<noteq> 0
            then \<exists>r. r \<noteq> HDF_FAILURE \<and> filter (\<lambda>e. fst e = index h) evs = [(index h, st, r)]
            else filter (\<lambda>e. fst e = index h) evs = [])) \<and>
        (\<forall>a h. holder_mem m a = Some h \<and> holder_mem m' a = None \<longrightarrow>
           a \<in> set as \<and> listenClass h AND cls \<noteq> 0 \<and> (index h, st, HDF_FAILURE) \<in> set evs))"

lemma notify_effectE:
  assumes "notify_effect cls st as m m'"
  obtains evs where "services m' = services m" "events m' = events m @ evs"
    "holders_ok (svcstatListeners m') (g_holderList m') (holder_mem m')"
    "\<And>a h. holder_mem m' a = Some h \<Longrightarrow> holder_mem m a = Some h"
    "\<And>a h. holder_mem m' a = Some h \<Longrightarrow> a \<in> set as \<Longrightarrow> listenClass h AND cls \<noteq> 0 \<Longrightarrow>
       \<exists>r. r \<noteq> HDF_FAILURE \<and> filter (\<lambda>e. fst e = index h) evs = [(index h, st, r)]"
    "\<And>a h. holder_mem m' a = Some h \<Longrightarrow> a \<notin> set as \<or> listenClass h AND cls = 0 \<Longrightarrow>
       filter (\<lambda>e. fst e = index h) evs = []"
    "\<And>a h. holder_mem m a = Some h \<Longrightarrow> holder_mem m' a = None \<Longrightarrow>
       a \<in> set as \<and> listenClass h AND cls \<noteq> 0 \<and> (index h, st, HDF_FAILURE) \<in> set evs"
proof -
  from assms obtain evs where e: "services m' = services m" "events m' = events m @ evs"
    "holders_ok (svcstatListeners m') (g_holderList m') (holder_mem m')"
    "\<forall>a h. holder_mem m' a = Some h \<longrightarrow> holder_mem m a = Some h \<and>
           (if a \<in> set as \<and> listenClass h AND cls \<noteq> 0
            then \<exists>r. r \<noteq> HDF_FAILURE \<and> filter (\<lambda>e. fst e = index h) evs = [(index h, st, r)]
            else filter (\<lambda>e. fst e = index h) evs = [])"
    "\<forall>a h. holder_mem m a = Some h \<and> holder_mem m' a = None \<longrightarrow>
           a \<in> set as \<and> listenClass h AND cls \<noteq> 0 \<and> (index h, st, HDF_FAILURE) \<in> set evs"
    unfolding notify_effect_def by blast
  show thesis
  proof (rule that [OF e(1-3)])
    fix a h assume "holder_mem m' a = Some h"
    with e(4) have *: "holder_mem m a = Some h"
      "if a \<in> set as \<and> listenClass h AND cls \<noteq> 0
       then \<exists>r. r \<noteq> HDF_FAILURE \<and> filter (\<lambda>e. fst e = index h) evs = [(index h, st, r)]
       else filter (\<lambda>e. fst e = index h) evs = []" by blast+
    show "holder_mem m a = Some h" by (rule *(1))
    show "\<exists>r. r \<noteq> HDF_FAILURE \<and> filter (\<lambda>e. fst e = index h) evs = [(index h, st, r)]"
      if "a \<in> set as" "listenClass h AND cls \<noteq> 0" using *(2) that by simp
    show "filter (\<lambda>e. fst e = index h) evs = []" if "a \<notin> set as \<or> listenClass h AND cls = 0"
      using *(2) that by (auto split: if_splits)
  next
    fix a h assume "holder_mem m a = Some h" "holder_mem m' a = None"
    with e(5) show "a \<in> set as \<and> listenClass h AND cls \<noteq> 0 \<and> (index h, st, HDF_FAILURE) \<in> set evs" by blast
  qed
qed

lemma notify_effectI:
  assumes "services m' = services m" "events m' = events m @ evs"
    and "holders_ok (svcstatListeners m') (g_holderList m') (holder_mem m')"
    and "\<And>a h. holder_mem m' a = Some h \<Longrightarrow> holder_mem m a = Some h"
    and "\<And>a h. holder_mem m' a = Some h \<Longrightarrow> a \<in> set as \<Longrightarrow> listenClass h AND cls \<noteq> 0 \<Longrightarrow>
       \<exists>r. r \<noteq> HDF_FAILURE \<and> filter (\<lambda>e. fst e = index h) evs = [(index h, st, r)]"
    and "\<And>a h. holder_mem m' a = Some h \<Longrightarrow> a \<notin> set as \<or> listenClass h AND cls = 0 \<Longrightarrow>
       filter (\<lambda>e. fst e = index h) evs = []"
    and "\<And>a h. holder_mem m a = Some h \<Longrightarrow> holder_mem m' a = None \<Longrightarrow>
       a \<in> set as \<and> listenClass h AND cls \<noteq> 0 \<and> (index h, st, HDF_FAILURE) \<in> set evs"
  shows "notify_effect cls st as m m'"
  unfolding notify_effect_def
proof (intro conjI exI [of _ evs] allI impI)
  fix a h assume h: "holder_mem m' a = Some h"
  show "holder_mem m a = Some h" by (rule assms(4) [OF h])
  show "if a \<in> set as \<and> listenClass h AND cls \<noteq> 0
       then \<exists>r. r \<noteq> HDF_FAILURE \<and> filter (\<lambda>e. fst e = index h) evs = [(index h, st, r)]
       else filter (\<lambda>e. fst e = index h) evs = []"
  proof (cases "a \<in> set as \<and> listenClass h AND cls \<noteq> 0")
    case True
    show ?thesis unfolding if_P [OF True] using assms(5) [OF h] True by blast
  next
    case False
    show ?thesis unfolding if_not_P [OF False] using assms(6) [OF h] False by blast
  qed
qed (use assms in blast)+

lemma notify_effect_Cons:
  assumes "notify_effect cls st [a] m m1" "notify_effect cls st as m1 m2" "a \<notin> set as"
  shows "notify_effect cls st (a # as) m m2"
proof -
  from assms(1) obtain e1 where 1: "services m1 = services m" "events m1 = events m @ e1"
    "holders_ok (svcstatListeners m1) (g_holderList m1) (holder_mem m1)"
    "\<And>a h. holder_mem m1 a = Some h \<Longrightarrow> holder_mem m a = Some h"
    "\<And>b h. holder_mem m1 b = Some h \<Longrightarrow> b \<in> set [a] \<Longrightarrow> listenClass h AND cls \<noteq> 0 \<Longrightarrow>
       \<exists>r. r \<noteq> HDF_FAILURE \<and> filter (\<lambda>e. fst e = index h) e1 = [(index h, st, r)]"
    "\<And>b h. holder_mem m1 b = Some h \<Longrightarrow> b \<notin> set [a] \<or> listenClass h AND cls = 0 \<Longrightarrow>
       filter (\<lambda>e. fst e = index h) e1 = []"
    "\<And>b h. holder_mem m b = Some h \<Longrightarrow> holder_mem m1 b = None \<Longrightarrow>
       b \<in> set [a] \<and> listenClass h AND cls \<noteq> 0 \<and> (index h, st, HDF_FAILURE) \<in> set e1" by (elim notify_effectE) blast
  from assms(2) obtain e2 where 2: "services m2 = services m1" "events m2 = events m1 @ e2"
    "holders_ok (svcstatListeners m2) (g_holderList m2) (holder_mem m2)"
    "\<And>a h. holder_mem m2 a = Some h \<Longrightarrow> holder_mem m1 a = Some h"
    "\<And>b h. holder_mem m2 b = Some h \<Longrightarrow> b \<in> set as \<Longrightarrow> listenClass h AND cls \<noteq> 0 \<Longrightarrow>
       \<exists>r. r \<noteq> HDF_FAILURE \<and> filter (\<lambda>e. fst e = index h) e2 = [(index h, st, r)]"
    "\<And>b h. holder_mem m2 b = Some h \<Longrightarrow> b \<notin> set as \<or> listenClass h AND cls = 0 \<Longrightarrow>
       filter (\<lambda>e. fst e = index h) e2 = []"
    "\<And>b h. holder_mem m1 b = Some h \<Longrightarrow> holder_mem m2 b = None \<Longrightarrow>
       b \<in> set as \<and> listenClass h AND cls \<noteq> 0 \<and> (index h, st, HDF_FAILURE) \<in> set e2" by (elim notify_effectE) blast
  show ?thesis
  proof (rule notify_effectI [where evs = "e1 @ e2"])
    show "services m2 = services m" "events m2 = events m @ e1 @ e2"
      "holders_ok (svcstatListeners m2) (g_holderList m2) (holder_mem m2)" using 1(1,2) 2(1-3) by simp_all
  next
    fix b h assume b: "holder_mem m2 b = Some h"
    note b1 = 2(4) [OF b]
    show "holder_mem m b = Some h" by (rule 1(4) [OF b1])
    show "\<exists>r. r \<noteq> HDF_FAILURE \<and> filter (\<lambda>e. fst e = index h) (e1 @ e2) = [(index h, st, r)]"
      if c: "b \<in> set (a # as)" "listenClass h AND cls \<noteq> 0"
    proof (cases "b = a")
      case True
      then show ?thesis using 1(5) [OF b1 _ c(2)] 2(6) [OF b] assms(3) by auto
    next
      case False
      then show ?thesis using 1(6) [OF b1] 2(5) [OF b _ c(2)] c(1) by auto
    qed
    show "filter (\<lambda>e. fst e = index h) (e1 @ e2) = []" if "b \<notin> set (a # as) \<or> listenClass h AND cls = 0"
      using 1(6) [OF b1] 2(6) [OF b] that by auto
  next
    fix b h assume b: "holder_mem m b = Some h" "holder_mem m2 b = None"
    show "b \<in> set (a # as) \<and> listenClass h AND cls \<noteq> 0 \<and> (index h, st, HDF_FAILURE) \<in> set (e1 @ e2)"
    proof (cases "holder_mem m1 b")
      case None
      then show ?thesis using 1(7) [OF b(1)] by auto
    next
      case (Some k)
      then have "k = h" using 1(4) b(1) by fastforce
      then show ?thesis using 2(7) [of b h] Some b(2) by auto
    qed
  qed
qed
lemma KNotify_codes:
  "fst (KServStatListenerHolderNotifyStatus alloc send (Some h) (Some st)) \<in>
     {HDF_SUCCESS, HDF_FAILURE, HDF_ERR_INVALID_PARAM, HDF_ERR_MALLOC_FAIL}"
  by (auto simp: KServStatListenerHolderNotifyStatus_def Let_def split: option.splits prod.splits)

text \<open>The three ways one round of the loop can go.\<close>

lemma notify_skip:
  assumes "holders_ok (svcstatListeners m) (g_holderList m) (holder_mem m)" "holder_mem m a = Some h" "listenClass h AND cls = 0"
  shows "notify_effect cls st [a] m m"
  by (rule notify_effectI [where evs = "[]"]) (use assms in auto)

lemma notify_stay:
  assumes "holders_ok (svcstatListeners m) (g_holderList m) (holder_mem m)" "holder_mem m a = Some h"
    and "listenClass h AND cls \<noteq> 0" "notify_one env h st m = (m1, ret)" "ret \<noteq> HDF_FAILURE"
  shows "notify_effect cls st [a] m m1"
proof -
  have m1: "m1 = fst (notify_one env h st m)" "ret = snd (notify_one env h st m)" using assms(4) by simp_all
  show ?thesis
  proof (rule notify_effectI [where evs = "[(index h, st, ret)]"])
    fix b k assume b: "holder_mem m1 b = Some k"
    then have bm: "holder_mem m b = Some k" using m1 by simp
    then show "holder_mem m b = Some k" .
    show "\<exists>r. r \<noteq> HDF_FAILURE \<and> filter (\<lambda>e. fst e = index k) [(index h, st, ret)] = [(index k, st, r)]"
      if "b \<in> set [a]" "listenClass k AND cls \<noteq> 0"
      using that bm assms(2,5) by auto
    show "filter (\<lambda>e. fst e = index k) [(index h, st, ret)] = []" if "b \<notin> set [a] \<or> listenClass k AND cls = 0"
      using that bm assms(2,3) holders_okD(6) [OF assms(1) bm assms(2)] by auto
  qed (use assms(1) m1 in simp_all)
qed

lemma notify_drop:
  assumes "holders_ok (svcstatListeners m) (g_holderList m) (holder_mem m)" "holder_mem m a = Some h"
    and "listenClass h AND cls \<noteq> 0" "notify_one env h st m = (m1, HDF_FAILURE)"
  shows "notify_effect cls st [a] m (m1\<lparr>svcstatListeners := remove1 a (svcstatListeners m1),
      g_holderList := remove1 a (g_holderList m1), holder_mem := (holder_mem m1)(a := None)\<rparr>)"
    (is "notify_effect cls st [a] m ?m2")
proof -
  have m1: "m1 = fst (notify_one env h st m)" "HDF_FAILURE = snd (notify_one env h st m)" using assms(4) by simp_all
  show ?thesis
  proof (rule notify_effectI [where evs = "[(index h, st, HDF_FAILURE)]"])
    show "holders_ok (svcstatListeners ?m2) (g_holderList ?m2) (holder_mem ?m2)"
      using holders_ok_free [OF assms(1), of a] m1(1) by simp
  next
    fix b k assume "holder_mem ?m2 b = Some k"
    then have b: "b \<noteq> a" "holder_mem m b = Some k" using m1(1) by (auto split: if_splits)
    then show "holder_mem m b = Some k" by simp
    show "\<exists>r. r \<noteq> HDF_FAILURE \<and> filter (\<lambda>e. fst e = index k) [(index h, st, HDF_FAILURE)] = [(index k, st, r)]"
      if "b \<in> set [a]" using that b by simp
    show "filter (\<lambda>e. fst e = index k) [(index h, st, HDF_FAILURE)] = []"
      using holders_okD(6) [OF assms(1) b(2) assms(2)] b(1) by auto
  next
    fix b k assume "holder_mem m b = Some k" "holder_mem ?m2 b = None"
    then show "b \<in> set [a] \<and> listenClass k AND cls \<noteq> 0 \<and> (index k, st, HDF_FAILURE) \<in> set [(index h, st, HDF_FAILURE)]"
      using m1(1) assms(2,3) by (auto split: if_splits)
  qed (use m1 in simp_all)
qed

lemma notify_loop_effect:
  assumes "holders_ok (svcstatListeners m) (g_holderList m) (holder_mem m)" "distinct as" "set as \<subseteq> dom (holder_mem m)"
  shows "\<exists>m'. notify_loop env cls st as m = Some m' \<and> notify_effect cls st as m m'"
  using assms
proof (induction as arbitrary: m)
  case Nil
  then show ?case by (simp add: notify_effect_def)
next
  case (Cons a as)
  from Cons.prems(3) obtain h where h: "holder_mem m a = Some h" by auto
  note d = holders_okD [OF Cons.prems(1)]
  have hh: "NotifyStatus h" "Recycle h" using d(5) [OF h] by simp_all
  have a: "a \<notin> set as" "distinct as" using Cons.prems(2) by simp_all
  have aL: "a \<in> set (svcstatListeners m)" using d(3) h by auto
  have step: "\<exists>m'. notify_loop env cls st as m1 = Some m' \<and> notify_effect cls st (a # as) m m'"
    if m1: "notify_effect cls st [a] m m1" "set as \<subseteq> dom (holder_mem m1)" for m1
  proof -
    have "holders_ok (svcstatListeners m1) (g_holderList m1) (holder_mem m1)"
      using m1(1) by (rule notify_effectE)
    from Cons.IH [OF this a(2) m1(2)] notify_effect_Cons [OF m1(1) _ a(1)] show ?thesis by blast
  qed
  show ?case
  proof (cases "listenClass h AND cls = 0")
    case True
    have "set as \<subseteq> dom (holder_mem m)" using Cons.prems(3) by simp
    from step [OF notify_skip [OF Cons.prems(1) h True] this] obtain m' where
      m': "notify_loop env cls st as m = Some m'" "notify_effect cls st (a # as) m m'" by blast
    have "notify_loop env cls st (a # as) m = notify_loop env cls st as m" using h True by simp
    then show ?thesis using m' by (simp only:) blast
  next
    case False
    obtain m1 ret where n: "notify_one env h st m = (m1, ret)" by (cases "notify_one env h st m")
    then have m1: "holder_mem m1 = holder_mem m" "svcstatListeners m1 = svcstatListeners m" "g_holderList m1 = g_holderList m"
      using notify_one_fields [of env h st m] by simp_all
    show ?thesis
    proof (cases "ret = HDF_FAILURE")
      case True
      let ?m2 = "m1\<lparr>svcstatListeners := remove1 a (svcstatListeners m1),
        g_holderList := remove1 a (g_holderList m1), holder_mem := (holder_mem m1)(a := None)\<rparr>"
      have "set as \<subseteq> dom (holder_mem ?m2)" using Cons.prems(3) a(1) m1 by auto
      from step [OF notify_drop [OF Cons.prems(1) h False n [unfolded True]] this] obtain m' where
        m': "notify_loop env cls st as ?m2 = Some m'" "notify_effect cls st (a # as) m m'" by blast
      have "notify_loop env cls st (a # as) m = notify_loop env cls st as ?m2"
        using h False hh n True aL m1
        by (simp add: KServStatListenerHolderRecycle_def ServStatListenerHolderRelease_def)
      then show ?thesis using m' by (simp only:) blast
    next
      case stay: False
      have "set as \<subseteq> dom (holder_mem m1)" using Cons.prems(3) m1 by simp
      from step [OF notify_stay [OF Cons.prems(1) h False n stay] this] obtain m' where
        m': "notify_loop env cls st as m1 = Some m'" "notify_effect cls st (a # as) m m'" by blast
      have "notify_loop env cls st (a # as) m = notify_loop env cls st as m1"
        using h False hh n stay by simp
      then show ?thesis using m' by (simp only:) blast
    qed
  qed
qed
lemma NotifyServiceStatusLocked_effect:
  assumes "holders_ok (svcstatListeners m) (g_holderList m) (holder_mem m)"
  shows "\<exists>m'. NotifyServiceStatusLocked env r st m = Some m' \<and>
    notify_effect (devClass r) (svc_status r st) (svcstatListeners m) m m'"
  using notify_loop_effect [OF assms] holders_okD(1,3) [OF assms]
  by (simp add: NotifyServiceStatusLocked_def)

section \<open>Lookups\<close>

abbreviation (input) find_key :: "u32 \<Rightarrow> 'o DevSvcRecord list \<Rightarrow> 'o DevSvcRecord option" where
  "find_key k rs \<equiv> find (\<lambda>r. svc_key r = k) rs"

lemma find_key_Some: "find_key k rs = Some r \<Longrightarrow> r \<in> set rs \<and> svc_key r = k"
  by (auto simp: find_Some_iff)

lemma find_key_None: "find_key k rs = None \<longleftrightarrow> k \<notin> svc_key ` set rs"
  by (auto simp: find_None_iff)

lemma find_key_append:
  "find_key k (rs @ [r]) = (case find_key k rs of None \<Rightarrow> if svc_key r = k then Some r else None | Some x \<Rightarrow> Some x)"
  by (induction rs) auto

lemma find_key_update:
  assumes "\<And>r. svc_key (f r) = svc_key r"
  shows "find_key k' (update_record k f rs) = (if k' = k then map_option f (find_key k' rs) else find_key k' rs)"
  using assms by (induction rs) auto

lemma find_key_remove1:
  assumes "distinct (map svc_key rs)" "r \<in> set rs"
  shows "find_key k (remove1 r rs) = (if k = svc_key r then None else find_key k rs)"
  using assms
proof (induction rs)
  case (Cons x rs)
  show ?case
  proof (cases "x = r")
    case True
    with Cons.prems show ?thesis by (auto simp: find_None_iff) (metis imageI)
  next
    case False
    with Cons.prems have "r \<in> set rs" by simp
    with Cons.prems(1) have "svc_key x \<noteq> svc_key r" by auto
    with False Cons \<open>r \<in> set rs\<close> show ?thesis by auto
  qed
qed simp

lemma set_update_record:
  assumes "distinct (map svc_key rs)" "\<And>r. svc_key (f r) = svc_key r"
  shows "set (update_record k f rs) = (\<lambda>r. if svc_key r = k then f r else r) ` set rs"
proof -
  have "set (update_record k f rs) = set rs" if "k \<notin> svc_key ` set rs" for rs
    using that by (induction rs) auto
  moreover have "(\<lambda>r. if svc_key r = k then f r else r) ` set rs = set rs" if "k \<notin> svc_key ` set rs" for rs
    using that by (force simp: image_def)
  ultimately show ?thesis
    using assms(1) by (induction rs) auto
qed

lemma map_key_update_record:
  "(\<And>r. svc_key (f r) = svc_key r) \<Longrightarrow> map svc_key (update_record k f rs) = map svc_key rs"
  by (induction rs) auto

lemma services_ok_update:
  assumes "services_ok rs" "\<And>r. svc_key (f r) = svc_key r" "\<And>r. servName (f r) = servName r" "\<And>r. svc_value (f r) \<noteq> None"
  shows "services_ok (update_record k f rs)"
  using assms by (auto simp: services_ok_def map_key_update_record set_update_record)

lemma services_ok_append:
  "services_ok rs \<Longrightarrow> find_key (svc_key r) rs = None \<Longrightarrow> servName r \<noteq> None \<Longrightarrow> svc_value r \<noteq> None \<Longrightarrow>
   svc_key r = HdfStringMakeHashKey (servName r) 0 \<Longrightarrow> services_ok (rs @ [r])"
  unfolding find_key_None by (auto simp: services_ok_def)

lemma services_ok_remove1: "services_ok rs \<Longrightarrow> services_ok (remove1 r rs)"
  unfolding services_ok_def using distinct_remove1 notin_set_remove1
  by (metis (no_types, lifting) distinct_map inj_on_subset set_remove1_subset subsetD)

section \<open>The effect of the operations\<close>

lemma AddService_effect:
  assumes "mgr_ok m"
  obtains
    (exists) r where "find_key (HdfStringMakeHashKey (Some nm) 0) (services m) = Some r"
      "DevSvcManagerAddService env al (Some m) (Some nm) cls (Some v) sinfo =
         Some (Some (m\<lparr>services := update_record (HdfStringMakeHashKey (Some nm) 0) (\<lambda>r. r\<lparr>svc_value := Some v\<rparr>) (services m)\<rparr>), HDF_SUCCESS)"
  | (added) r m' where "find_key (HdfStringMakeHashKey (Some nm) 0) (services m) = None"
      "r = \<lparr>svc_key = HdfStringMakeHashKey (Some nm) 0, svc_value = Some v, servName = Some nm,
            servInfo = HdfStringCopy (sa_info al) sinfo, devClass = cls\<rparr>"
      "sa_record al" "HdfStringCopy (sa_name al) (Some nm) = Some nm"
      "DevSvcManagerAddService env al (Some m) (Some nm) cls (Some v) sinfo = Some (Some m', HDF_SUCCESS)"
      "notify_effect cls (svc_status r SERVIE_STATUS_START) (svcstatListeners m) (m\<lparr>services := services m @ [r]\<rparr>) m'"
  | (refused) ret where "find_key (HdfStringMakeHashKey (Some nm) 0) (services m) = None"
      "\<not> (sa_record al \<and> HdfStringCopy (sa_name al) (Some nm) = Some nm)"
      "DevSvcManagerAddService env al (Some m) (Some nm) cls (Some v) sinfo = Some (Some m, ret)" "ret \<noteq> HDF_SUCCESS"
proof (cases "find_key (HdfStringMakeHashKey (Some nm) 0) (services m)")
  case (Some r)
  then show ?thesis
    by (intro exists) (simp_all add: DevSvcManagerAddService_def DevSvcManagerSearchService_def Let_def)
next
  case None
  let ?r = "\<lparr>svc_key = HdfStringMakeHashKey (Some nm) 0, svc_value = Some v, servName = Some nm,
            servInfo = HdfStringCopy (sa_info al) sinfo, devClass = cls\<rparr>"
  have nm: "HdfStringCopy (sa_name al) (Some nm) = None \<or> HdfStringCopy (sa_name al) (Some nm) = Some nm"
    by (auto simp: HdfStringCopy_def Let_def)
  show ?thesis
  proof (cases "sa_record al \<and> HdfStringCopy (sa_name al) (Some nm) = Some nm")
    case True
    have "holders_ok (svcstatListeners (m\<lparr>services := services m @ [?r]\<rparr>)) (g_holderList (m\<lparr>services := services m @ [?r]\<rparr>))
        (holder_mem (m\<lparr>services := services m @ [?r]\<rparr>))" using assms by (simp add: mgr_ok_def)
    from NotifyServiceStatusLocked_effect [OF this, of env ?r SERVIE_STATUS_START] obtain m' where
      "NotifyServiceStatusLocked env ?r SERVIE_STATUS_START (m\<lparr>services := services m @ [?r]\<rparr>) = Some m'"
      "notify_effect cls (svc_status ?r SERVIE_STATUS_START) (svcstatListeners m) (m\<lparr>services := services m @ [?r]\<rparr>) m'"
      by auto
    then show ?thesis
      using None True
      by (intro added [of ?r m'])
        (simp_all add: DevSvcManagerAddService_def DevSvcManagerSearchService_def DevSvcRecordNewInstance_def Let_def)
  next
    case False
    then show ?thesis
      using None nm
      by (intro refused [of "if sa_record al then HDF_ERR_MALLOC_FAIL else HDF_FAILURE"])
        (auto simp: DevSvcManagerAddService_def DevSvcManagerSearchService_def DevSvcRecordNewInstance_def Let_def)
  qed
qed
lemma UpdateService_effect:
  assumes "mgr_ok m"
  obtains
    (updated) r i m' where "find_key (HdfStringMakeHashKey (Some nm) 0) (services m) = Some r"
      "HdfStringCopy ok sinfo = Some i"
      "DevSvcManagerUpdateService env ok (Some m) (Some nm) cls (Some v) sinfo = Some (Some m', HDF_SUCCESS)"
      "notify_effect cls
         (svc_status (r\<lparr>svc_value := Some v, devClass := cls, servInfo := Some i\<rparr>) SERVIE_STATUS_CHANGE)
         (svcstatListeners m)
         (m\<lparr>services := update_record (HdfStringMakeHashKey (Some nm) 0)
              (\<lambda>r. r\<lparr>svc_value := Some v, devClass := cls, servInfo := Some i\<rparr>) (services m)\<rparr>) m'"
  | (refused) ret where
      "find_key (HdfStringMakeHashKey (Some nm) 0) (services m) = None \<or> HdfStringCopy ok sinfo = None"
      "DevSvcManagerUpdateService env ok (Some m) (Some nm) cls (Some v) sinfo = Some (Some m, ret)" "ret \<noteq> HDF_SUCCESS"
proof (cases "find_key (HdfStringMakeHashKey (Some nm) 0) (services m)")
  case None
  then show ?thesis
    by (intro refused [of HDF_DEV_ERR_NO_DEVICE])
      (simp_all add: DevSvcManagerUpdateService_def DevSvcManagerSearchService_def Let_def)
next
  case (Some r)
  show ?thesis
  proof (cases "HdfStringCopy ok sinfo")
    case None
    then show ?thesis
      using Some by (intro refused [of HDF_ERR_MALLOC_FAIL])
        (simp_all add: DevSvcManagerUpdateService_def DevSvcManagerSearchService_def Let_def)
  next
    case i: (Some i)
    let ?f = "\<lambda>r. r\<lparr>svc_value := Some v, devClass := cls, servInfo := Some i\<rparr>"
    let ?m = "m\<lparr>services := update_record (HdfStringMakeHashKey (Some nm) 0) ?f (services m)\<rparr>"
    have "holders_ok (svcstatListeners ?m) (g_holderList ?m) (holder_mem ?m)" using assms by (simp add: mgr_ok_def)
    from NotifyServiceStatusLocked_effect [OF this, of env "?f r" SERVIE_STATUS_CHANGE] obtain m' where
      "NotifyServiceStatusLocked env (?f r) SERVIE_STATUS_CHANGE ?m = Some m'"
      "notify_effect cls (svc_status (?f r) SERVIE_STATUS_CHANGE) (svcstatListeners m) ?m m'"
      by auto
    then show ?thesis
      using Some i
      by (intro updated [of r i m'])
        (simp_all add: DevSvcManagerUpdateService_def DevSvcManagerSearchService_def Let_def)
  qed
qed

lemma RemoveService_effect:
  assumes "mgr_ok m"
  obtains
    (removed) r m' where "find_key (HdfStringMakeHashKey (Some nm) 0) (services m) = Some r"
      "DevSvcManagerRemoveService env (Some m) (Some nm) = Some (Some (m'\<lparr>services := remove1 r (services m)\<rparr>))"
      "notify_effect (devClass r) (svc_status r SERVIE_STATUS_STOP) (svcstatListeners m) m m'"
  | (absent) "find_key (HdfStringMakeHashKey (Some nm) 0) (services m) = None"
      "DevSvcManagerRemoveService env (Some m) (Some nm) = Some (Some m)"
proof (cases "find_key (HdfStringMakeHashKey (Some nm) 0) (services m)")
  case None
  then show ?thesis
    by (intro absent) (simp_all add: DevSvcManagerRemoveService_def DevSvcManagerSearchService_def Let_def)
next
  case (Some r)
  have "holders_ok (svcstatListeners m) (g_holderList m) (holder_mem m)" using assms by (simp add: mgr_ok_def)
  from NotifyServiceStatusLocked_effect [OF this, of env r SERVIE_STATUS_STOP] obtain m' where
    m': "NotifyServiceStatusLocked env r SERVIE_STATUS_STOP m = Some m'"
    "notify_effect (devClass r) (svc_status r SERVIE_STATUS_STOP) (svcstatListeners m) m m'" by blast
  then have "services m' = services m" by (elim notify_effectE)
  with Some m' show ?thesis
    by (intro removed [of r m']) (simp_all add: DevSvcManagerRemoveService_def DevSvcManagerSearchService_def Let_def)
qed

text \<open>Commands. The search over the global list finds the holder of the client, if there is one.\<close>

lemma holder_search_ok:
  assumes "set G \<subseteq> dom mem"
  shows "(\<exists>a h. holder_search mem c G = Some (Some a) \<and> mem a = Some h \<and> index h = c) \<or>
    (holder_search mem c G = Some None \<and> (\<forall>a \<in> set G. \<forall>h. mem a = Some h \<longrightarrow> index h \<noteq> c))"
  using assms by (induction G) (auto split: option.splits)

lemma holder_of_client:
  assumes "mgr_ok m"
  obtains (found) a h where "ServStatListenerHolderGet c m = Some (Some a)" "holder_mem m a = Some h" "index h = c"
  | (none) "ServStatListenerHolderGet c m = Some None" "\<And>a h. holder_mem m a = Some h \<Longrightarrow> index h \<noteq> c"
proof -
  have "set (g_holderList m) = dom (holder_mem m)" using assms by (auto simp: mgr_ok_def holders_ok_def)
  with holder_search_ok [of "g_holderList m" "holder_mem m" c] found none show thesis
    unfolding ServStatListenerHolderGet_def by blast
qed

definition start_events :: "ServStatListenerHolder \<Rightarrow> 'o DevSvcRecord list \<Rightarrow> ServiceStatus list" where
  "start_events h rs = map (\<lambda>r. svc_status r SERVIE_STATUS_START) (filter (\<lambda>r. listenClass h AND devClass r \<noteq> 0) rs)"

lemma register_loop_effect:
  assumes "NotifyStatus h"
  shows "\<exists>rets. length rets = length (start_events h rs) \<and>
     register_loop env h rs m =
       m\<lparr>events := events m @ map (\<lambda>(st, r). (index h, st, r)) (zip (start_events h rs) rets)\<rparr>"
proof (induction rs arbitrary: m)
  case Nil
  then show ?case by (simp add: start_events_def)
next
  case (Cons r rs)
  show ?case
  proof (cases "listenClass h AND devClass r = 0")
    case True
    then show ?thesis using Cons.IH [of m] by (simp add: start_events_def)
  next
    case False
    let ?st = "svc_status r SERVIE_STATUS_START"
    obtain ret where n: "fst (notify_one env h ?st m) = m\<lparr>events := events m @ [(index h, ?st, ret)]\<rparr>"
      by (simp add: notify_one_def Let_def)
    from Cons.IH [of "m\<lparr>events := events m @ [(index h, ?st, ret)]\<rparr>"] obtain rets where
      "length rets = length (start_events h rs)"
      "register_loop env h rs (m\<lparr>events := events m @ [(index h, ?st, ret)]\<rparr>) =
        m\<lparr>events := (events m @ [(index h, ?st, ret)]) @ map (\<lambda>(st, r). (index h, st, r)) (zip (start_events h rs) rets)\<rparr>"
      by auto
    then show ?thesis
      using False assms n by (intro exI [of _ "ret # rets"]) (simp add: start_events_def)
  qed
qed

lemma holders_ok_create:
  assumes "holders_ok L G mem" "mem a = None" "\<And>b k. mem b = Some k \<Longrightarrow> index k \<noteq> c"
  shows "holders_ok (L @ [a]) (G @ [a]) (mem(a \<mapsto>
    \<lparr>listenClass = cls, index = c, NotifyStatus = True, Recycle = True, listenerClient = Some c\<rparr>))"
    (is "holders_ok _ _ ?mem")
proof (rule holders_okI)
  note d = holders_okD [OF assms(1)]
  show "distinct (L @ [a])" "distinct (G @ [a])" using d(1-4) assms(2) by auto
  show "set (L @ [a]) = dom ?mem" "set (G @ [a]) = dom ?mem" using d(3,4) by auto
  show "NotifyStatus k \<and> Recycle k \<and> listenerClient k = Some (index k)" if "?mem b = Some k" for b k
    using d(5) [of b k] that by (auto split: if_splits)
  show "b = b'" if "?mem b = Some k" "?mem b' = Some j" "index k = index j" for b b' k j
    using d(6) [of b k b' j] assms(3) [of b k] assms(3) [of b' j] that by (auto split: if_splits)
qed

lemma RegisterListener_effect:
  assumes "mgr_ok m" "\<forall>a. newHolder = Some a \<longrightarrow> holder_mem m a = None"
  obtains
    (created) cls a h rets where "snd (HdfSbufReadUint16 dat True) = Some cls" "newHolder = Some a"
      "h = \<lparr>listenClass = cls, index = c, NotifyStatus = True, Recycle = True, listenerClient = Some c\<rparr>"
      "\<And>b k. holder_mem m b = Some k \<Longrightarrow> index k \<noteq> c" "length rets = length (start_events h (services m))"
      "DevSvcManagerExtRegisterListener env newHolder True m c dat = Some (m\<lparr>
         svcstatListeners := svcstatListeners m @ [a], g_holderList := g_holderList m @ [a],
         holder_mem := (holder_mem m)(a \<mapsto> h),
         events := events m @ map (\<lambda>(st, r). (c, st, r)) (zip (start_events h (services m)) rets)\<rparr>, HDF_SUCCESS)"
  | (changed) cls a h where "snd (HdfSbufReadUint16 dat True) = Some cls" "holder_mem m a = Some h" "index h = c"
      "DevSvcManagerExtRegisterListener env newHolder True m c dat =
         Some (m\<lparr>holder_mem := (holder_mem m)(a \<mapsto> h\<lparr>listenClass := cls\<rparr>)\<rparr>, HDF_SUCCESS)"
  | (refused) ret where "DevSvcManagerExtRegisterListener env newHolder True m c dat = Some (m, ret)" "ret \<noteq> HDF_SUCCESS"
proof (cases "snd (HdfSbufReadUint16 dat True)")
  case None
  then show ?thesis
    by (intro refused [of HDF_ERR_INVALID_PARAM]) (simp_all add: DevSvcManagerExtRegisterListener_def)
next
  case (Some cls)
  from assms(1) show ?thesis
  proof (cases rule: holder_of_client [where c = c])
    case (found a h)
    then show ?thesis
      using Some by (intro changed [of cls a h]) (simp_all add: DevSvcManagerExtRegisterListener_def)
  next
    case none
    show ?thesis
    proof (cases "c = 0 \<or> newHolder = None")
      case True
      then have "ServStatListenerHolderCreate newHolder c cls m = (m, None)"
        by (auto simp: ServStatListenerHolderCreate_def split: option.splits)
      then show ?thesis
        using Some none by (intro refused [of HDF_ERR_MALLOC_FAIL]) (simp_all add: DevSvcManagerExtRegisterListener_def)
    next
      case False
      then obtain a where a: "newHolder = Some a" "c \<noteq> 0" by auto
      let ?h = "\<lparr>listenClass = cls, index = c, NotifyStatus = True, Recycle = True, listenerClient = Some c\<rparr>"
      let ?m = "m\<lparr>holder_mem := (holder_mem m)(a \<mapsto> ?h), g_holderList := g_holderList m @ [a],
        svcstatListeners := svcstatListeners m @ [a]\<rparr>"
      from register_loop_effect [of ?h "services m" env ?m] obtain rets where
        r: "length rets = length (start_events ?h (services m))" "register_loop env ?h (services m) ?m =
          ?m\<lparr>events := events m @ map (\<lambda>(st, r). (c, st, r)) (zip (start_events ?h (services m)) rets)\<rparr>" by auto
      have "DevSvcManagerExtRegisterListener env newHolder True m c dat = Some (register_loop env ?h (services m) ?m, HDF_SUCCESS)"
        using Some none(1) a
        by (simp add: DevSvcManagerExtRegisterListener_def ServStatListenerHolderCreate_def
            DevSvcManagerRegsterServListener_def NotifyServiceStatusOnRegisterLocked_def)
      then have "DevSvcManagerExtRegisterListener env newHolder True m c dat = Some (m\<lparr>
         svcstatListeners := svcstatListeners m @ [a], g_holderList := g_holderList m @ [a],
         holder_mem := (holder_mem m)(a \<mapsto> ?h),
         events := events m @ map (\<lambda>(st, r). (c, st, r)) (zip (start_events ?h (services m)) rets)\<rparr>, HDF_SUCCESS)"
        unfolding r(2) by simp
      with created [of cls a ?h rets] Some a none(2) r(1) show ?thesis by blast
    qed
  qed
qed

lemma UnRegisterListener_effect:
  assumes "mgr_ok m"
  obtains
    (released) a h where "holder_mem m a = Some h" "index h = c"
      "DevSvcManagerExtUnRegisterListener True m c = Some (m\<lparr>
         svcstatListeners := remove1 a (svcstatListeners m), g_holderList := remove1 a (g_holderList m),
         holder_mem := (holder_mem m)(a := None)\<rparr>, HDF_SUCCESS)"
  | (absent) "DevSvcManagerExtUnRegisterListener True m c = Some (m, HDF_DEV_ERR_NO_DEVICE_SERVICE)"
  using assms
proof (cases rule: holder_of_client [where c = c])
  case (found a h)
  have "a \<in> set (svcstatListeners m)" using assms found(2) by (auto simp: mgr_ok_def holders_ok_def)
  then show ?thesis
    using found by (intro released [of a h])
      (simp_all add: DevSvcManagerExtUnRegisterListener_def DevSvcManagerUnregsterServListener_def
        ServStatListenerHolderRelease_def Let_def)
next
  case none
  then show ?thesis by (intro absent) (simp add: DevSvcManagerExtUnRegisterListener_def)
qed

end
