(* ===== verification/Service_Events.thy ===== *)
theory Service_Events
  imports Dev_Svc_Manager
begin

text \<open>
  The receiving side of service status notifications: the listener that decodes an event
  (core/shared/src/ioserstat_listener.c) and the client of the service manager node
  (core/shared/src/svcmgr_ioservice.c). The node is reached through an adapter that is a
  parameter: \<^verbatim>\<open>'k\<close> is the state behind it. With the kernel side of
  \<^verbatim>\<open>Dev_Svc_Manager\<close> this closes the path of a notification.
\<close>

section \<open>Listeners\<close>

record IoServiceStatusListener =
  ilClass :: u16
  ilCallback :: bool

definition IoServiceStatusListenerNewInstance :: "bool \<Rightarrow> IoServiceStatusListener option" where
  "IoServiceStatusListenerNewInstance allocOk =
     (if allocOk then Some \<lparr>ilClass = 0, ilCallback = False\<rparr> else None)"

text \<open>The first component is the status the callback is called with, if it is called.\<close>

definition OnIoServiceEventReceive ::
  "IoServiceStatusListener option \<Rightarrow> bool \<Rightarrow> 's HdfSBuf option \<Rightarrow> ServiceStatus option \<times> 's HdfSBuf option \<times> int" where
  "OnIoServiceEventReceive lsn service dat =
     (case lsn of
        None \<Rightarrow> (None, dat, HDF_ERR_INVALID_PARAM)
      | Some l \<Rightarrow>
          if \<not> service \<or> dat = None then (None, dat, HDF_ERR_INVALID_PARAM)
          else
            (case ServiceStatusUnMarshalling
                    (Some \<lparr>serviceName = None, deviceClass = 0, status = 0, info = None\<rparr>) dat of
               (Some st, dat', ret) \<Rightarrow>
                 if ret \<noteq> HDF_SUCCESS then (None, dat', HDF_ERR_INVALID_PARAM)
                 else if ilCallback l \<and> ilClass l AND deviceClass st \<noteq> 0 then (Some st, dat', HDF_SUCCESS)
                 else (None, dat', HDF_SUCCESS)
             | (None, dat', ret) \<Rightarrow> (None, dat', HDF_ERR_INVALID_PARAM)))"

section \<open>The client of the service manager node\<close>

text \<open>
  \<^verbatim>\<open>dispatch\<close> is the dispatcher of the node, if there is one; \<^verbatim>\<open>regEvent\<close>,
  \<^verbatim>\<open>unregEvent\<close> and \<^verbatim>\<open>listenerCount\<close> are the functions of the adapter that
  keep the listeners of the node's client. The request buffer is not recycled on any path.
\<close>

record 'k iosvc_adapter =
  dispatch :: "('k \<Rightarrow> int \<Rightarrow> sbuf_raw HdfSBuf option \<Rightarrow> 'k \<times> int) option"
  regEvent :: "'k \<Rightarrow> nat \<Rightarrow> 'k \<times> int"
  unregEvent :: "'k \<Rightarrow> nat \<Rightarrow> 'k \<times> int"
  listenerCount :: "'k \<Rightarrow> int"

abbreviation (input) DEVICE_CLASS_MAX :: u16 where "DEVICE_CLASS_MAX \<equiv> 0x100"

definition class_request :: "osal_alloc \<Rightarrow> u16 \<Rightarrow> sbuf_raw HdfSBuf option" where
  "class_request alloc cls =
     fst (HdfSbufWriteUint16 alloc (HdfSbufObtainDefaultSize kernel_ctors alloc) cls)"

definition SetListenClass :: "osal_alloc \<Rightarrow> 'k iosvc_adapter \<Rightarrow> 'k \<Rightarrow> u16 \<Rightarrow> 'k \<times> int" where
  "SetListenClass alloc ad k cls =
     (if HdfSbufObtainDefaultSize kernel_ctors alloc = None then (k, HDF_ERR_MALLOC_FAIL)
      else (case dispatch ad of
              None \<Rightarrow> (k, HDF_ERR_INVALID_OBJECT)
            | Some d \<Rightarrow> d k SVCMGR_REGISTER_LISTENER (class_request alloc cls)))"

definition UnSetListenClass :: "osal_alloc \<Rightarrow> 'k iosvc_adapter \<Rightarrow> 'k \<Rightarrow> u16 \<Rightarrow> 'k \<times> int" where
  "UnSetListenClass alloc ad k cls =
     (if HdfSbufObtainDefaultSize kernel_ctors alloc = None then (k, HDF_ERR_MALLOC_FAIL)
      else (case dispatch ad of
              None \<Rightarrow> (k, HDF_ERR_INVALID_OBJECT)
            | Some d \<Rightarrow> d k SVCMGR_UNREGISTER_LISTENER (class_request alloc cls)))"

text \<open>Listeners are a store of instances by address.\<close>

definition SvcMgrIoserviceRegSvcStatListener ::
  "osal_alloc \<Rightarrow> 'k iosvc_adapter \<Rightarrow> bool \<Rightarrow> nat option \<Rightarrow> u16 \<Rightarrow>
   'k \<times> (nat \<rightharpoonup> IoServiceStatusListener) \<Rightarrow> ('k \<times> (nat \<rightharpoonup> IoServiceStatusListener)) \<times> int" where
  "SvcMgrIoserviceRegSvcStatListener alloc ad self lsn cls s =
     (case s of (k, ls) \<Rightarrow>
       (case lsn of
          None \<Rightarrow> (s, HDF_ERR_INVALID_PARAM)
        | Some a \<Rightarrow>
            if \<not> self \<or> cls \<ge> DEVICE_CLASS_MAX then (s, HDF_ERR_INVALID_PARAM)
            else
              (let ls1 = ls(a := map_option (\<lambda>l. l\<lparr>ilClass := cls\<rparr>) (ls a));
                   (k1, ret) = SetListenClass alloc ad k cls
               in if ret \<noteq> HDF_SUCCESS then ((k1, ls1), ret)
                  else (let (k2, ret2) = regEvent ad k1 a in ((k2, ls1), ret2)))))"

definition SvcMgrIoserviceUnRegSvcStatListener ::
  "osal_alloc \<Rightarrow> 'k iosvc_adapter \<Rightarrow> bool \<Rightarrow> nat option \<Rightarrow>
   'k \<times> (nat \<rightharpoonup> IoServiceStatusListener) \<Rightarrow> ('k \<times> (nat \<rightharpoonup> IoServiceStatusListener)) \<times> int" where
  "SvcMgrIoserviceUnRegSvcStatListener alloc ad self lsn s =
     (case s of (k, ls) \<Rightarrow>
       (case lsn of
          None \<Rightarrow> (s, HDF_ERR_INVALID_PARAM)
        | Some a \<Rightarrow>
            if \<not> self then (s, HDF_ERR_INVALID_PARAM)
            else
              (let (k1, ret) = unregEvent ad k a in
               if ret \<noteq> HDF_SUCCESS then ((k1, ls), ret)
               else if listenerCount ad k1 = 0 then
                 (let (k2, ret2) = UnSetListenClass alloc ad k1 (case ls a of None \<Rightarrow> 0 | Some l \<Rightarrow> ilClass l)
                  in ((k2, ls), ret2))
               else ((k1, ls), ret))))"

section \<open>A notification arrives\<close>

lemma put_all_raw_obj:
  "put_all (hdf_put alloc) (raw_obj t sb) xs = (let (sb', ok) = put_all (raw_put alloc) sb xs in (raw_obj t sb', ok))"
  by (induction xs arbitrary: sb) (simp_all add: hdf_put_raw split: prod.splits)

definition status_info :: "ServiceStatus \<Rightarrow> cstr" where
  "status_info st = (case info st of None \<Rightarrow> '''' | Some j \<Rightarrow> j)"

text \<open>Statuses that fit: proper strings, and room in a buffer that can grow to 512 KiB.\<close>

definition status_fits :: "ServiceStatus \<Rightarrow> bool" where
  "status_fits st \<longleftrightarrow> (\<exists>nm. serviceName st = Some nm \<and> item_wf (SStr nm) \<and> item_wf (SStr (status_info st)))"

lemma item_size_str: "item_size (SStr s) \<le> length s + 8"
  using al4_bounds(2) [of "length s + 1"] by (simp add: item_size_def chunks_size_def al4_def)

lemma default_buffer:
  "\<exists>sb. HdfSbufObtainDefaultSize kernel_ctors (\<lambda>_. True) = raw_obj SBUF_RAW sb \<and> SbufObtainRaw (\<lambda>_. True) HDF_SBUF_DEFAULT_SIZE = Some sb"
  by (simp add: HdfSbufObtainDefaultSize_def HdfSbufObtain_def HdfSbufTypedObtainCapacity_def HdfSbufConstructorGet_def
      kernel_ctors_def g_sbufConstructorMap_def raw_constructor_def SbufObtainRaw_def SbufRawImplNewInstance_def raw_obj_def)

text \<open>The buffer that carries a status.\<close>

definition status_buffer :: "ServiceStatus \<Rightarrow> sbuf_raw HdfSBuf option" where
  "status_buffer st = fst (ServiceStatusMarshalling (\<lambda>_. True) (Some st) (HdfSbufObtainDefaultSize kernel_ctors (\<lambda>_. True)))"

lemma status_marshals:
  assumes "status_fits st"
  shows "ServiceStatusMarshalling (\<lambda>_. True) (Some st) (HdfSbufObtainDefaultSize kernel_ctors (\<lambda>_. True)) = (status_buffer st, HDF_SUCCESS)"
proof -
  obtain nm where nm: "serviceName st = Some nm" "item_wf (SStr nm)" "item_wf (SStr (status_info st))"
    using assms by (auto simp: status_fits_def)
  obtain sb where sb: "HdfSbufObtainDefaultSize kernel_ctors (\<lambda>_. True) = raw_obj SBUF_RAW sb"
    "SbufObtainRaw (\<lambda>_. True) HDF_SBUF_DEFAULT_SIZE = Some sb" using default_buffer by blast
  let ?m = "status_message nm (deviceClass st) (status st) (status_info st)"
  note fresh = ObtainRaw_ok [OF sb(2)]
  have "sum_list (map item_size ?m) \<le> length nm + length (status_info st) + 24"
    using item_size_str [of nm] item_size_str [of "status_info st"]
    by (simp add: status_message_def item_size_def chunks_size_def al4_def)
  then have "unat (writePos sb) + 2 * sum_list (map item_size ?m) + 260 \<le> 524288"
    using nm(2,3) fresh(4) by simp
  moreover have "item_size x \<le> sum_list (map item_size ?m)" if "x \<in> set ?m" for x
    using that by (intro member_le_sum_list) auto
  ultimately have "\<forall>x \<in> set ?m. unat (writePos sb) + sum_list (map item_size ?m) + item_size x + 260 \<le> 524288"
    by fastforce
  from put_all_room [OF fresh(1,3) _ this] nm(2,3) obtain sb' where
    "put_all (raw_put (\<lambda>_. True)) sb ?m = (sb', True)" by (auto simp: status_message_def)
  moreover have "raw_obj SBUF_RAW sb \<noteq> None" by (simp add: raw_obj_def)
  ultimately have "snd (ServiceStatusMarshalling (\<lambda>_. True) (Some st) (raw_obj SBUF_RAW sb)) = HDF_SUCCESS"
    using Marshalling_put_all [OF nm(1), of "raw_obj SBUF_RAW sb" "\<lambda>_. True"]
    by (simp add: put_all_raw_obj status_info_def)
  then show ?thesis unfolding status_buffer_def sb(1) by (metis prod.collapse)
qed

lemma KNotify_delivers:
  assumes "status_fits st" "listenerClient h = Some c"
  shows "KServStatListenerHolderNotifyStatus (\<lambda>_. True) send (Some h) (Some st) =
    (if send c 0 (status_buffer st) = HDF_SUCCESS then (HDF_SUCCESS, False) else (HDF_FAILURE, True))"
proof -
  have "HdfSbufObtainDefaultSize kernel_ctors (\<lambda>_. True) \<noteq> None" using default_buffer by (metis raw_obj_def option.distinct(1))
  then show ?thesis
    using assms(2) by (simp add: KServStatListenerHolderNotifyStatus_def Let_def status_marshals [OF assms(1)])
qed
text \<open>
  C22. From the registry to the callback. With memory and an accepting channel, notifying a
  holder sends one buffer to its client and reports success; the listener that receives this
  buffer calls its callback with exactly the status sent (a NULL information string arrives
  empty), if it has a callback and listens to the class, and not otherwise.
\<close>

theorem notification_end_to_end:
  assumes "status_fits st" "listenerClient h = Some c" "send c 0 (status_buffer st) = HDF_SUCCESS"
  shows "KServStatListenerHolderNotifyStatus (\<lambda>_. True) send (Some h) (Some st) = (HDF_SUCCESS, False) \<and>
    (\<exists>b. OnIoServiceEventReceive (Some l) True (status_buffer st) =
       (if ilCallback l \<and> ilClass l AND deviceClass st \<noteq> 0
        then Some \<lparr>serviceName = serviceName st, deviceClass = deviceClass st, status = status st, info = Some (status_info st)\<rparr>
        else None, b, HDF_SUCCESS))"
proof
  show "KServStatListenerHolderNotifyStatus (\<lambda>_. True) send (Some h) (Some st) = (HDF_SUCCESS, False)"
    using KNotify_delivers [OF assms(1,2), of send] assms(3) by simp
  obtain nm where nm: "serviceName st = Some nm" "item_wf (SStr nm)" "item_wf (SStr (status_info st))"
    using assms(1) by (auto simp: status_fits_def)
  let ?s0 = "\<lparr>serviceName = None, deviceClass = 0, status = 0, info = None\<rparr>"
  obtain sb where sb: "HdfSbufObtainDefaultSize kernel_ctors (\<lambda>_. True) = raw_obj SBUF_RAW sb" using default_buffer by blast
  have ob: "HdfSbufObtain (g_sbufConstructorMap raw_constructor \<lparr>obtain_op = None, bind_op = None\<rparr> \<lparr>obtain_op = None, bind_op = None\<rparr>)
      (\<lambda>_. True) HDF_SBUF_DEFAULT_SIZE = raw_obj SBUF_RAW sb"
    using sb by (simp add: HdfSbufObtainDefaultSize_def kernel_ctors_def)
  have m: "ServiceStatusMarshalling (\<lambda>_. True) (Some st) (raw_obj SBUF_RAW sb) = (status_buffer st, HDF_SUCCESS)"
    using status_marshals [OF assms(1)] sb by simp
  have wf: "\<forall>x \<in> set (status_message nm (deviceClass st) (status st) (status_info st)). item_wf x"
    using nm(2,3) by (auto simp: status_message_def)
  from Obtain_raw [OF ob] obtain sb' where sb': "raw_obj SBUF_RAW sb = raw_obj SBUF_RAW sb'"
    "SbufObtainRaw (\<lambda>_. True) HDF_SBUF_DEFAULT_SIZE = Some sb'" by (auto simp: raw_obj_def)
  have ok: "obj_ok (raw_obj SBUF_RAW sb)" "obj_pending (raw_obj SBUF_RAW sb) = []"
    using ObtainRaw_ok [OF sb'(2)] unfolding sb'(1) by simp_all
  have put: "put_all (hdf_put (\<lambda>_. True)) (raw_obj SBUF_RAW sb)
      (status_message nm (deviceClass st) (status st) (status_info st)) = (status_buffer st, True)"
    using m Marshalling_put_all [OF nm(1), of "raw_obj SBUF_RAW sb" "\<lambda>_. True"]
    by (auto simp: raw_obj_def status_info_def split: prod.splits if_splits)
  from hdf_channel.round_trip [OF ok wf put] obtain b where
    get: "get_all hdf_get (status_buffer st) [TStr, TU16, TU16, TStr] =
      (b, Some (status_message nm (deviceClass st) (status st) (status_info st)))"
    by (auto simp: status_message_def)
  have ne: "status_buffer st \<noteq> None"
    using hdf_channel.put_all_ok [OF ok(1) wf put] by (auto simp: obj_ok_def raw_obj_def)
  from UnMarshalling_get_all [OF get ne, of ?s0] have
    "ServiceStatusUnMarshalling (Some ?s0) (status_buffer st) = (Some
       \<lparr>serviceName = serviceName st, deviceClass = deviceClass st, status = status st, info = Some (status_info st)\<rparr>, b, HDF_SUCCESS)"
    by (simp add: nm(1))
  then show "\<exists>b. OnIoServiceEventReceive (Some l) True (status_buffer st) =
       (if ilCallback l \<and> ilClass l AND deviceClass st \<noteq> 0
        then Some \<lparr>serviceName = serviceName st, deviceClass = deviceClass st, status = status st, info = Some (status_info st)\<rparr>
        else None, b, HDF_SUCCESS)"
    using ne by (intro exI [of _ b]) (simp add: OnIoServiceEventReceive_def)
qed

theorem notification_end_to_end_witness:
  "\<exists>b :: sbuf_raw HdfSBuf option. OnIoServiceEventReceive (Some \<lparr>ilClass = 4, ilCallback = True\<rparr>) True
     (status_buffer \<lparr>serviceName = Some ''svc'', deviceClass = 4, status = 0, info = None\<rparr>) =
   (Some \<lparr>serviceName = Some ''svc'', deviceClass = 4, status = 0, info = Some ''''\<rparr>, b, HDF_SUCCESS)"
proof -
  let ?st = "\<lparr>serviceName = Some ''svc'', deviceClass = 4, status = 0, info = None\<rparr>"
  let ?h = "\<lparr>listenClass = 4, index = 5, NotifyStatus = True, Recycle = True, listenerClient = Some 5\<rparr>"
  have "status_fits ?st" by (simp add: status_fits_def status_info_def wf_cstr_def)
  from notification_end_to_end [OF this, of ?h 5 "\<lambda>_ _ _. HDF_SUCCESS" "\<lparr>ilClass = 4, ilCallback = True\<rparr>"]
  show ?thesis by (auto simp: status_info_def)
qed

end
