(* ===== verification/Dev_Svc_Run.thy ===== *)
theory Dev_Svc_Run
  imports Service_Events "HOL-Library.Sublist"
begin

text \<open>
  Sequences of requests to the device service manager of \<^verbatim>\<open>Dev_Svc_Manager\<close>: every
  sequence runs without undefined behaviour, the registry follows a finite map as long as no two
  names share a key, and a listener that received its notifications knows the live services of
  its class.
\<close>

section \<open>Requests\<close>

text \<open>
  Each request carries what it meets in the environment. A registration says whether the holder
  can be allocated and which request buffer it reads.
\<close>

datatype 'o svc_op =
    SvcAdd notify_env svc_alloc cstr u16 'o "cstr option"
  | SvcUpdate notify_env bool cstr u16 'o "cstr option"
  | SvcRemove notify_env cstr
  | SvcListen notify_env bool u64 "sbuf_raw HdfSBuf option"
  | SvcUnlisten u64

text \<open>\<^verbatim>\<open>malloc\<close> gives the address of a new block, from the blocks in use.\<close>

fun svc_step :: "(nat list \<Rightarrow> nat) \<Rightarrow> 'o svc_op \<Rightarrow> 'o DevSvcManager \<Rightarrow> 'o DevSvcManager option" where
  "svc_step malloc (SvcAdd env al nm cls v i) m =
     Option.bind (DevSvcManagerAddService env al (Some m) (Some nm) cls (Some v) i) fst"
| "svc_step malloc (SvcUpdate env ok nm cls v i) m =
     Option.bind (DevSvcManagerUpdateService env ok (Some m) (Some nm) cls (Some v) i) fst"
| "svc_step malloc (SvcRemove env nm) m =
     Option.bind (DevSvcManagerRemoveService env (Some m) (Some nm)) id"
| "svc_step malloc (SvcListen env ok c dat) m =
     map_option fst (DevSvcManagerExtRegisterListener env
       (if ok then Some (malloc (g_holderList m)) else None) True m c dat)"
| "svc_step malloc (SvcUnlisten c) m = map_option fst (DevSvcManagerExtUnRegisterListener True m c)"

fun svc_run :: "(nat list \<Rightarrow> nat) \<Rightarrow> 'o svc_op list \<Rightarrow> 'o DevSvcManager \<Rightarrow> 'o DevSvcManager option" where
  "svc_run malloc [] m = Some m"
| "svc_run malloc (x # xs) m = Option.bind (svc_step malloc x m) (svc_run malloc xs)"

text \<open>The manager after \<^verbatim>\<open>DevSvcManagerConstruct\<close> and \<^verbatim>\<open>ServStatListenerHolderinit\<close>.\<close>

definition svc_start :: "'o DevSvcManager" where
  "svc_start = the (fst (DevSvcManagerConstruct True (Some
     \<lparr>services = [], svcstatListeners = [], g_holderList = [], holder_mem = Map.empty, events = []\<rparr>)))"

lemma mgr_ok_start: "mgr_ok svc_start"
  by (simp add: svc_start_def DevSvcManagerConstruct_def mgr_ok_def services_ok_def holders_ok_def)

section \<open>One request\<close>

text \<open>
  What a request does: the services after it, and the events it adds for a client that takes no
  part in it, whose holder either stays as it was or is gone.
\<close>

fun services_after :: "'o svc_op \<Rightarrow> 'o DevSvcRecord list \<Rightarrow> 'o DevSvcRecord list" where
  "services_after (SvcAdd env al nm cls v i) rs =
     (let k = HdfStringMakeHashKey (Some nm) 0 in
      if find_key k rs \<noteq> None then update_record k (\<lambda>r. r\<lparr>svc_value := Some v\<rparr>) rs
      else if sa_record al \<and> HdfStringCopy (sa_name al) (Some nm) = Some nm then
        rs @ [\<lparr>svc_key = k, svc_value = Some v, servName = Some nm, servInfo = HdfStringCopy (sa_info al) i, devClass = cls\<rparr>]
      else rs)"
| "services_after (SvcUpdate env ok nm cls v i) rs =
     (let k = HdfStringMakeHashKey (Some nm) 0 in
      case HdfStringCopy ok i of
        None \<Rightarrow> rs
      | Some j \<Rightarrow> update_record k (\<lambda>r. r\<lparr>svc_value := Some v, devClass := cls, servInfo := Some j\<rparr>) rs)"
| "services_after (SvcRemove env nm) rs =
     (case find_key (HdfStringMakeHashKey (Some nm) 0) rs of None \<Rightarrow> rs | Some r \<Rightarrow> remove1 r rs)"
| "services_after (SvcListen env ok c dat) rs = rs"
| "services_after (SvcUnlisten c) rs = rs"

text \<open>The status a request tells the listeners about, if any.\<close>

fun status_sent :: "'o svc_op \<Rightarrow> 'o DevSvcRecord list \<Rightarrow> ServiceStatus option" where
  "status_sent (SvcAdd env al nm cls v i) rs =
     (let k = HdfStringMakeHashKey (Some nm) 0 in
      if find_key k rs \<noteq> None \<or> \<not> (sa_record al \<and> HdfStringCopy (sa_name al) (Some nm) = Some nm) then None
      else Some \<lparr>serviceName = Some nm, deviceClass = cls, status = SERVIE_STATUS_START,
                 info = HdfStringCopy (sa_info al) i\<rparr>)"
| "status_sent (SvcUpdate env ok nm cls v i) rs =
     (case (find_key (HdfStringMakeHashKey (Some nm) 0) rs, HdfStringCopy ok i) of
        (Some r, Some j) \<Rightarrow> Some \<lparr>serviceName = servName r, deviceClass = cls, status = SERVIE_STATUS_CHANGE, info = Some j\<rparr>
      | _ \<Rightarrow> None)"
| "status_sent (SvcRemove env nm) rs =
     map_option (\<lambda>r. svc_status r SERVIE_STATUS_STOP) (find_key (HdfStringMakeHashKey (Some nm) 0) rs)"
| "status_sent (SvcListen env ok c dat) rs = None"
| "status_sent (SvcUnlisten c) rs = None"

fun op_client :: "'o svc_op \<Rightarrow> u64 option" where
  "op_client (SvcListen env ok c dat) = Some c"
| "op_client (SvcUnlisten c) = Some c"
| "op_client _ = None"

definition step_effect :: "'o svc_op \<Rightarrow> 'o DevSvcManager \<Rightarrow> 'o DevSvcManager \<Rightarrow> bool" where
  "step_effect opn m m' \<longleftrightarrow> mgr_ok m' \<and> services m' = services_after opn (services m) \<and>
     (\<exists>evs. events m' = events m @ evs \<and>
       (\<forall>a h. holder_mem m' a = Some h \<and> op_client opn \<noteq> Some (index h) \<longrightarrow>
          holder_mem m a = Some h \<and>
          (\<exists>r. r \<noteq> HDF_FAILURE \<and> filter (\<lambda>e. fst e = index h) evs =
             (case status_sent opn (services m) of
                None \<Rightarrow> []
              | Some st \<Rightarrow> if listenClass h AND deviceClass st \<noteq> 0 then [(index h, st, r)] else []))))"

lemma step_effectI:
  assumes "mgr_ok m'" "services m' = services_after opn (services m)" "events m' = events m @ evs"
    and "\<And>a h. holder_mem m' a = Some h \<Longrightarrow> op_client opn \<noteq> Some (index h) \<Longrightarrow> holder_mem m a = Some h"
    and "\<And>a h. holder_mem m' a = Some h \<Longrightarrow> op_client opn \<noteq> Some (index h) \<Longrightarrow>
      \<exists>r. r \<noteq> HDF_FAILURE \<and> filter (\<lambda>e. fst e = index h) evs =
        (case status_sent opn (services m) of
           None \<Rightarrow> []
         | Some st \<Rightarrow> if listenClass h AND deviceClass st \<noteq> 0 then [(index h, st, r)] else [])"
  shows "step_effect opn m m'"
  unfolding step_effect_def using assms by (intro conjI exI [of _ evs] allI impI) blast+

lemma step_effect_client:
  assumes "step_effect opn m m'" "holder_mem m' a = Some h" "op_client opn \<noteq> Some (index h)"
  shows "holder_mem m a = Some h \<and> (\<exists>evs r. events m' = events m @ evs \<and> filter (\<lambda>e. fst e = index h) evs =
     (case status_sent opn (services m) of
        None \<Rightarrow> []
      | Some st \<Rightarrow> if listenClass h AND deviceClass st \<noteq> 0 then [(index h, st, r)] else []))"
  using assms unfolding step_effect_def by blast

text \<open>A request that notifies everybody.\<close>

lemma notify_step_effect:
  assumes ok: "mgr_ok m" and n: "notify_effect (deviceClass st) st (svcstatListeners m) (m\<lparr>services := rs\<rparr>) m1"
    and rs: "services_ok rs'" "m' = m1\<lparr>services := rs'\<rparr>" "rs' = services_after opn (services m)"
    and st: "status_sent opn (services m) = Some st"
  shows "step_effect opn m m'"
  using n
proof (rule notify_effectE)
  fix evs
  assume e: "services m1 = services (m\<lparr>services := rs\<rparr>)" "events m1 = events (m\<lparr>services := rs\<rparr>) @ evs"
    "holders_ok (svcstatListeners m1) (g_holderList m1) (holder_mem m1)"
    "\<And>a h. holder_mem m1 a = Some h \<Longrightarrow> holder_mem (m\<lparr>services := rs\<rparr>) a = Some h"
    "\<And>a h. holder_mem m1 a = Some h \<Longrightarrow> a \<in> set (svcstatListeners m) \<Longrightarrow> listenClass h AND deviceClass st \<noteq> 0 \<Longrightarrow>
       \<exists>r. r \<noteq> HDF_FAILURE \<and> filter (\<lambda>e. fst e = index h) evs = [(index h, st, r)]"
    "\<And>a h. holder_mem m1 a = Some h \<Longrightarrow> a \<notin> set (svcstatListeners m) \<or> listenClass h AND deviceClass st = 0 \<Longrightarrow>
       filter (\<lambda>e. fst e = index h) evs = []"
  show ?thesis
  proof (rule step_effectI [where evs = evs])
    show "mgr_ok m'" using e(3) rs by (simp add: mgr_ok_def)
    show "services m' = services_after opn (services m)" "events m' = events m @ evs" using rs e(2) by simp_all
    fix a h assume "holder_mem m' a = Some h"
    then have a: "holder_mem m1 a = Some h" using rs(2) by simp
    show am: "holder_mem m a = Some h" using e(4) [OF a] by simp
    then have L: "a \<in> set (svcstatListeners m)" using ok by (auto simp: mgr_ok_def holders_ok_def)
    show "\<exists>r. r \<noteq> HDF_FAILURE \<and> filter (\<lambda>e. fst e = index h) evs =
        (case status_sent opn (services m) of
           None \<Rightarrow> []
         | Some st \<Rightarrow> if listenClass h AND deviceClass st \<noteq> 0 then [(index h, st, r)] else [])"
    proof (cases "listenClass h AND deviceClass st = 0")
      case True
      then show ?thesis unfolding st using e(6) [OF a] by (intro exI [of _ 0]) simp
    next
      case False
      then show ?thesis unfolding st using e(5) [OF a L False] by simp
    qed
  qed
qed

text \<open>A request that notifies nobody.\<close>

lemma quiet_step_effect:
  assumes "mgr_ok m" "services_ok rs" "m' = m\<lparr>services := rs\<rparr>" "rs = services_after opn (services m)"
    "status_sent opn (services m) = None"
  shows "step_effect opn m m'"
proof (rule step_effectI [where evs = "[]"])
  show "mgr_ok m'" using assms(1-3) by (simp add: mgr_ok_def)
qed (use assms in \<open>auto intro: exI [of _ 0]\<close>)
lemma update_record_same: "find_key k rs = None \<Longrightarrow> update_record k f rs = rs"
  by (induction rs) (auto split: if_splits)

lemma svc_step_effect:
  assumes ok: "mgr_ok m" and malloc: "\<forall>L. malloc L \<notin> set L"
  shows "\<exists>m'. svc_step malloc opn m = Some m' \<and> step_effect opn m m'"
proof -
  have sok: "services_ok (services m)" and hok: "holders_ok (svcstatListeners m) (g_holderList m) (holder_mem m)"
    using ok by (simp_all add: mgr_ok_def)
  show ?thesis
  proof (cases opn)
    case (SvcAdd env al nm cls v i)
    from ok show ?thesis
    proof (cases rule: AddService_effect [where nm = nm and env = env and al = al and cls = cls and v = v and sinfo = i])
      case (exists r)
      have "step_effect opn m (m\<lparr>services := update_record (HdfStringMakeHashKey (Some nm) 0) (\<lambda>r. r\<lparr>svc_value := Some v\<rparr>) (services m)\<rparr>)"
        by (rule quiet_step_effect [OF ok services_ok_update [OF sok]]) (use exists(1) SvcAdd in \<open>auto simp: Let_def\<close>)
      then show ?thesis using exists(2) SvcAdd by simp
    next
      case (added r m')
      have "step_effect opn m m'"
      proof (rule notify_step_effect [where ?m1.0 = m' and rs' = "services m @ [r]"])
        show "mgr_ok m" by (rule ok)
        show "notify_effect (deviceClass (svc_status r SERVIE_STATUS_START)) (svc_status r SERVIE_STATUS_START)
            (svcstatListeners m) (m\<lparr>services := services m @ [r]\<rparr>) m'"
          using added(2,6) by (simp add: svc_status_def)
        show "services_ok (services m @ [r])"
          by (rule services_ok_append [OF sok]) (use added(1,2) in simp_all)
        have "services m' = services m @ [r]" using added(6) by (elim notify_effectE) simp
        then show "m' = m'\<lparr>services := services m @ [r]\<rparr>" by (metis DevSvcManager.surjective DevSvcManager.update_convs(1))
        show "services m @ [r] = services_after opn (services m)" using added(1-4) SvcAdd by (simp add: Let_def)
        show "status_sent opn (services m) = Some (svc_status r SERVIE_STATUS_START)"
          using added(1-4) SvcAdd by (simp add: svc_status_def Let_def)
      qed
      then show ?thesis using added(5) SvcAdd by simp
    next
      case (refused ret)
      have "step_effect opn m (m\<lparr>services := services m\<rparr>)"
        by (rule quiet_step_effect [OF ok sok]) (use refused(1,2) SvcAdd in \<open>auto simp: Let_def\<close>)
      then show ?thesis using refused(3) SvcAdd by simp
    qed
  next
    case (SvcUpdate env uok nm cls v i)
    from ok show ?thesis
    proof (cases rule: UpdateService_effect [where nm = nm and env = env and ok = uok and cls = cls and v = v and sinfo = i])
      case (updated r j m')
      let ?rs = "update_record (HdfStringMakeHashKey (Some nm) 0)
              (\<lambda>r. r\<lparr>svc_value := Some v, devClass := cls, servInfo := Some j\<rparr>) (services m)"
      let ?st = "svc_status (r\<lparr>svc_value := Some v, devClass := cls, servInfo := Some j\<rparr>) SERVIE_STATUS_CHANGE"
      have "step_effect opn m m'"
      proof (rule notify_step_effect [where ?m1.0 = m' and rs' = ?rs])
        show "mgr_ok m" by (rule ok)
        show "notify_effect (deviceClass ?st) ?st (svcstatListeners m) (m\<lparr>services := ?rs\<rparr>) m'"
          using updated(4) by (simp add: svc_status_def)
        show "services_ok ?rs" by (rule services_ok_update [OF sok]) simp_all
        have "services m' = ?rs" using updated(4) by (elim notify_effectE) simp
        then show "m' = m'\<lparr>services := ?rs\<rparr>" by (metis DevSvcManager.surjective DevSvcManager.update_convs(1))
        show "?rs = services_after opn (services m)" using updated(2) SvcUpdate by (simp add: Let_def)
        show "status_sent opn (services m) = Some ?st" using updated(1,2) SvcUpdate by (simp add: svc_status_def)
      qed
      then show ?thesis using updated(3) SvcUpdate by simp
    next
      case (refused ret)
      have "step_effect opn m (m\<lparr>services := services m\<rparr>)"
        by (rule quiet_step_effect [OF ok sok])
          (use refused(1) SvcUpdate in \<open>auto simp: Let_def update_record_same split: option.splits\<close>)
      then show ?thesis using refused(2) SvcUpdate by simp
    qed
  next
    case (SvcRemove env nm)
    from ok show ?thesis
    proof (cases rule: RemoveService_effect [where nm = nm and env = env])
      case (removed r m')
      have "step_effect opn m (m'\<lparr>services := remove1 r (services m)\<rparr>)"
      proof (rule notify_step_effect [where rs = "services m" and st = "svc_status r SERVIE_STATUS_STOP"])
        show "mgr_ok m" by (rule ok)
        show "notify_effect (deviceClass (svc_status r SERVIE_STATUS_STOP)) (svc_status r SERVIE_STATUS_STOP)
            (svcstatListeners m) (m\<lparr>services := services m\<rparr>) m'"
          using removed(3) by (simp add: svc_status_def)
        show "services_ok (remove1 r (services m))" by (rule services_ok_remove1 [OF sok])
        show "remove1 r (services m) = services_after opn (services m)" using removed(1) SvcRemove by simp
        show "status_sent opn (services m) = Some (svc_status r SERVIE_STATUS_STOP)" using removed(1) SvcRemove by simp
      qed simp
      then show ?thesis using removed(2) SvcRemove by simp
    next
      case absent
      have "step_effect opn m (m\<lparr>services := services m\<rparr>)"
        by (rule quiet_step_effect [OF ok sok]) (use absent(1) SvcRemove in simp_all)
      then show ?thesis using absent(2) SvcRemove by simp
    qed
  next
    case (SvcListen env aok c dat)
    let ?new = "if aok then Some (malloc (g_holderList m)) else None"
    have fresh: "\<forall>a. ?new = Some a \<longrightarrow> holder_mem m a = None"
      using malloc holders_okD(4) [OF hok] by (auto split: if_splits)
    show ?thesis
    proof (cases rule: RegisterListener_effect [OF ok fresh, where env = env and c = c and dat = dat, case_names created changed refused])
      case (created cls a h rets)
      let ?m = "m\<lparr>svcstatListeners := svcstatListeners m @ [a], g_holderList := g_holderList m @ [a],
         holder_mem := (holder_mem m)(a \<mapsto> h),
         events := events m @ map (\<lambda>(st, r). (c, st, r)) (zip (start_events h (services m)) rets)\<rparr>"
      have "step_effect opn m ?m"
      proof (rule step_effectI [where evs = "map (\<lambda>(st, r). (c, st, r)) (zip (start_events h (services m)) rets)"])
        show "mgr_ok ?m"
          using holders_ok_create [OF hok fresh [rule_format, OF created(2)] created(4)] sok unfolding created(3)
          by (simp add: mgr_ok_def)
        fix b k assume b: "holder_mem ?m b = Some k" "op_client opn \<noteq> Some (index k)"
        then have ne: "index k \<noteq> c" using SvcListen by simp
        then show "holder_mem m b = Some k" using b(1) created(3) by (auto split: if_splits)
        show "\<exists>r. r \<noteq> HDF_FAILURE \<and>
           filter (\<lambda>e. fst e = index k) (map (\<lambda>(st, r). (c, st, r)) (zip (start_events h (services m)) rets)) =
           (case status_sent opn (services m) of
              None \<Rightarrow> []
            | Some st \<Rightarrow> if listenClass k AND deviceClass st \<noteq> 0 then [(index k, st, r)] else [])"
          using ne SvcListen by (intro exI [of _ 0]) (auto simp: filter_empty_conv)
      qed (use SvcListen in simp_all)
      then show ?thesis using created(6) SvcListen by (simp only: svc_step.simps option.map fst_conv) blast
    next
      case (changed cls a h)
      let ?m = "m\<lparr>holder_mem := (holder_mem m)(a \<mapsto> h\<lparr>listenClass := cls\<rparr>)\<rparr>"
      have "step_effect opn m ?m"
      proof (rule step_effectI [where evs = "[]"])
        show "mgr_ok ?m" using holders_ok_class [OF hok changed(2)] sok by (simp add: mgr_ok_def)
        fix b k assume b: "holder_mem ?m b = Some k" "op_client opn \<noteq> Some (index k)"
        show "holder_mem m b = Some k" using b changed(3) SvcListen by (auto split: if_splits)
      qed (use SvcListen in \<open>auto intro: exI [of _ 0]\<close>)
      then show ?thesis using changed(4) SvcListen by (simp only: svc_step.simps option.map fst_conv) blast
    next
      case (refused ret)
      have "step_effect opn m (m\<lparr>services := services m\<rparr>)"
        by (rule quiet_step_effect [OF ok sok]) (use SvcListen in simp_all)
      then show ?thesis using refused(1) SvcListen by simp
    qed
  next
    case (SvcUnlisten c)
    from ok show ?thesis
    proof (cases rule: UnRegisterListener_effect [where c = c])
      case (released a h)
      let ?m = "m\<lparr>svcstatListeners := remove1 a (svcstatListeners m), g_holderList := remove1 a (g_holderList m),
         holder_mem := (holder_mem m)(a := None)\<rparr>"
      have "step_effect opn m ?m"
      proof (rule step_effectI [where evs = "[]"])
        show "mgr_ok ?m" using holders_ok_free [OF hok] sok by (simp add: mgr_ok_def)
        fix b k assume "holder_mem ?m b = Some k"
        then show "holder_mem m b = Some k" by (auto split: if_splits)
      qed (use SvcUnlisten in \<open>auto intro: exI [of _ 0]\<close>)
      then show ?thesis using released(3) SvcUnlisten by (simp only: svc_step.simps option.map fst_conv) blast
    next
      case absent
      have "step_effect opn m (m\<lparr>services := services m\<rparr>)"
        by (rule quiet_step_effect [OF ok sok]) (use SvcUnlisten in simp_all)
      then show ?thesis using absent SvcUnlisten by simp
    qed
  qed
qed
section \<open>Sequences of requests\<close>

lemma svc_run_ok:
  assumes "mgr_ok m" "\<forall>L. malloc L \<notin> set L"
  shows "\<exists>m'. svc_run malloc ops m = Some m' \<and> mgr_ok m' \<and> services m' = fold services_after ops (services m)"
  using assms(1)
proof (induction ops arbitrary: m)
  case (Cons x xs)
  from svc_step_effect [OF Cons.prems assms(2), of x] obtain m1 where
    m1: "svc_step malloc x m = Some m1" "mgr_ok m1" "services m1 = services_after x (services m)"
    unfolding step_effect_def by blast
  from Cons.IH [OF m1(2)] m1 show ?case by simp
qed simp

text \<open>
  C19. Every sequence of requests runs without undefined behaviour, whichever allocations
  and notifications fail: no freed holder is used and none is taken off a list it is not on. At
  the end the keys of the services are distinct, the listeners and the global list hold exactly
  the live holders, each once, and no client has two.
\<close>

theorem svc_requests_safe:
  assumes "\<forall>L. malloc L \<notin> set L"
  shows "\<exists>m. svc_run malloc ops svc_start = Some m \<and> distinct (map svc_key (services m)) \<and>
    distinct (svcstatListeners m) \<and> set (svcstatListeners m) = dom (holder_mem m) \<and>
    distinct (g_holderList m) \<and> set (g_holderList m) = dom (holder_mem m) \<and>
    inj_on (\<lambda>a. index (the (holder_mem m a))) (dom (holder_mem m))"
proof -
  from svc_run_ok [OF mgr_ok_start assms, of ops] obtain m where
    m: "svc_run malloc ops svc_start = Some m" "mgr_ok m" by blast
  then have h: "holders_ok (svcstatListeners m) (g_holderList m) (holder_mem m)" by (simp add: mgr_ok_def)
  have "inj_on (\<lambda>a. index (the (holder_mem m a))) (dom (holder_mem m))"
    using holders_okD(6) [OF h] by (auto simp: inj_on_def)
  then show ?thesis
    using m holders_okD(1-4) [OF h] by (auto simp: mgr_ok_def services_ok_def)
qed

definition fresh_addr :: "nat list \<Rightarrow> nat" where
  "fresh_addr L = Suc (foldr max L 0)"

lemma fresh_addr: "fresh_addr L \<notin> set L"
proof -
  have "a \<in> set L \<Longrightarrow> a \<le> foldr max L 0" for a by (induction L) auto
  then show ?thesis by (fastforce simp: fresh_addr_def)
qed

text \<open>An environment in which everything is delivered, for the examples.\<close>

definition view_env :: notify_env where
  "view_env = \<lparr>ne_alloc = (\<lambda>_ _. True), ne_send = (\<lambda>_ _ _ _. HDF_SUCCESS)\<rparr>"

theorem svc_requests_safe_witness:
  "\<exists>m :: nat DevSvcManager. svc_run fresh_addr [SvcUnlisten 3, SvcRemove view_env ''svc''] svc_start = Some m \<and>
    distinct (map svc_key (services m))"
  using svc_requests_safe [of fresh_addr "[SvcUnlisten 3, SvcRemove view_env ''svc'']"] fresh_addr by blast

section \<open>The registry as a map of names\<close>

type_synonym 'o svc_entry = "'o option \<times> u16 \<times> cstr option"

definition svc_entry :: "'o DevSvcRecord \<Rightarrow> 'o svc_entry" where
  "svc_entry r = (svc_value r, devClass r, servInfo r)"

fun reg_spec_step :: "'o svc_op \<Rightarrow> (cstr \<rightharpoonup> 'o svc_entry) \<Rightarrow> (cstr \<rightharpoonup> 'o svc_entry)" where
  "reg_spec_step (SvcAdd env al nm cls v i) f =
     (case f nm of
        Some (w, c, j) \<Rightarrow> f(nm \<mapsto> (Some v, c, j))
      | None \<Rightarrow> if sa_record al \<and> HdfStringCopy (sa_name al) (Some nm) = Some nm
                then f(nm \<mapsto> (Some v, cls, HdfStringCopy (sa_info al) i)) else f)"
| "reg_spec_step (SvcUpdate env ok nm cls v i) f =
     (case (f nm, HdfStringCopy ok i) of
        (Some _, Some j) \<Rightarrow> f(nm \<mapsto> (Some v, cls, Some j))
      | _ \<Rightarrow> f)"
| "reg_spec_step (SvcRemove env nm) f = f(nm := None)"
| "reg_spec_step (SvcListen env ok c dat) f = f"
| "reg_spec_step (SvcUnlisten c) f = f"

fun op_name :: "'o svc_op \<Rightarrow> cstr option" where
  "op_name (SvcAdd env al nm cls v i) = Some nm"
| "op_name (SvcUpdate env ok nm cls v i) = Some nm"
| "op_name (SvcRemove env nm) = Some nm"
| "op_name _ = None"

definition name_key :: "cstr \<Rightarrow> u32" where
  "name_key nm = HdfStringMakeHashKey (Some nm) 0"

definition reg_abs :: "cstr set \<Rightarrow> 'o DevSvcRecord list \<Rightarrow> (cstr \<rightharpoonup> 'o svc_entry) \<Rightarrow> bool" where
  "reg_abs N rs f \<longleftrightarrow> (\<forall>nm \<in> N. map_option svc_entry (find_key (name_key nm) rs) = f nm)"

lemma reg_abs_step:
  assumes "reg_abs N rs f" "inj_on name_key N" "distinct (map svc_key rs)" "\<forall>nm. op_name opn = Some nm \<longrightarrow> nm \<in> N"
  shows "reg_abs N (services_after opn rs) (reg_spec_step opn f)"
  unfolding reg_abs_def
proof
  fix n assume n: "n \<in> N"
  have fn: "map_option svc_entry (find_key (name_key n) rs) = f n" using assms(1) n by (simp add: reg_abs_def)
  have other: "name_key nm = name_key n \<longleftrightarrow> nm = n" if "op_name opn = Some nm" for nm
    using assms(2,4) that n by (auto simp: inj_on_def)
  show "map_option svc_entry (find_key (name_key n) (services_after opn rs)) = reg_spec_step opn f n"
  proof (cases opn)
    case (SvcAdd env al nm cls v i)
    then have nm: "nm \<in> N" "name_key nm = name_key n \<longleftrightarrow> nm = n" using assms(4) other by auto
    then have fm: "map_option svc_entry (find_key (name_key nm) rs) = f nm" using assms(1) by (simp add: reg_abs_def)
    show ?thesis
    proof (cases "find_key (name_key nm) rs")
      case None
      then have "f nm = None" using fm by simp
      then show ?thesis
        using fn None nm(2) SvcAdd
        by (cases "find_key (name_key n) rs")
          (auto simp: Let_def find_key_append svc_entry_def name_key_def [symmetric])
    next
      case (Some r)
      then have "f nm = Some (svc_entry r)" using fm by simp
      then show ?thesis
        using fn Some nm(2) SvcAdd
        by (auto simp: Let_def find_key_update svc_entry_def name_key_def [symmetric])
    qed
  next
    case (SvcUpdate env ok nm cls v i)
    then have nm: "nm \<in> N" "name_key nm = name_key n \<longleftrightarrow> nm = n" using assms(4) other by auto
    then have fm: "map_option svc_entry (find_key (name_key nm) rs) = f nm" using assms(1) by (simp add: reg_abs_def)
    show ?thesis
    proof (cases "find_key (name_key nm) rs")
      case None
      then have "f nm = None" using fm by simp
      then show ?thesis
        using fn None SvcUpdate
        by (simp add: Let_def update_record_same name_key_def [symmetric] split: option.split)
    next
      case (Some r)
      then have "f nm = Some (svc_entry r)" using fm by simp
      then show ?thesis
        using fn Some nm(2) SvcUpdate
        by (auto simp: Let_def find_key_update svc_entry_def name_key_def [symmetric] split: option.split)
    qed
  next
    case (SvcRemove env nm)
    then have nm: "nm \<in> N" "name_key nm = name_key n \<longleftrightarrow> nm = n" using assms(4) other by auto
    show ?thesis
    proof (cases "find_key (name_key nm) rs")
      case None
      then show ?thesis using fn SvcRemove by (auto simp: name_key_def)
    next
      case (Some r)
      then have "r \<in> set rs" "svc_key r = name_key nm" using find_key_Some by blast+
      then show ?thesis
        using fn nm(2) SvcRemove Some find_key_remove1 [OF assms(3), of r "name_key n"]
        by (cases "nm = n") (simp_all add: name_key_def [symmetric] eq_commute [of "name_key n"])
    qed
  qed (use fn in simp_all)
qed

lemma services_after_ok:
  assumes "services_ok rs"
  shows "services_ok (services_after opn rs)"
proof (cases opn)
  case (SvcAdd env al nm cls v i)
  show ?thesis
  proof (cases "find_key (HdfStringMakeHashKey (Some nm) 0) rs")
    case None
    then have "services_ok (rs @ [\<lparr>svc_key = HdfStringMakeHashKey (Some nm) 0, svc_value = Some v, servName = Some nm,
        servInfo = HdfStringCopy (sa_info al) i, devClass = cls\<rparr>])"
      by (intro services_ok_append [OF assms]) simp_all
    then show ?thesis using SvcAdd None assms by (simp only: services_after.simps Let_def) simp
  next
    case (Some r)
    have "services_ok (update_record (HdfStringMakeHashKey (Some nm) 0) (\<lambda>r. r\<lparr>svc_value := Some v\<rparr>) rs)"
      by (intro services_ok_update [OF assms]) simp_all
    then show ?thesis using SvcAdd Some by (simp only: services_after.simps Let_def) simp
  qed
next
  case (SvcUpdate env ok nm cls v i)
  have "services_ok (update_record (HdfStringMakeHashKey (Some nm) 0)
      (\<lambda>r. r\<lparr>svc_value := Some v, devClass := cls, servInfo := Some j\<rparr>) rs)" for j
    by (intro services_ok_update [OF assms]) simp_all
  then show ?thesis using SvcUpdate assms by (simp only: services_after.simps Let_def split: option.split) blast
next
  case (SvcRemove env nm)
  then show ?thesis using assms services_ok_remove1 by (simp split: option.split) blast
qed (use assms in simp_all)

lemma reg_abs_run:
  assumes "reg_abs N rs f" "inj_on name_key N" "services_ok rs" "\<forall>x \<in> set ops. \<forall>nm. op_name x = Some nm \<longrightarrow> nm \<in> N"
  shows "reg_abs N (fold services_after ops rs) (fold reg_spec_step ops f)"
  using assms
proof (induction ops arbitrary: rs f)
  case (Cons x xs)
  have "distinct (map svc_key rs)" using Cons.prems(3) by (simp add: services_ok_def)
  from Cons.IH [OF reg_abs_step [OF Cons.prems(1,2) this, of x] Cons.prems(2) services_after_ok [OF Cons.prems(3)]]
    Cons.prems(4) show ?case by simp
qed simp

text \<open>
  C20. As long as no two names in use have the same hash key, the registry is a finite
  map of names: after any sequence of requests a name is resolved to the object that the
  specification holds for it, and an unknown name to NULL.
\<close>

theorem svc_registry_refines:
  assumes "\<forall>L. malloc L \<notin> set L" "inj_on name_key N"
    and "\<forall>x \<in> set ops. \<forall>nm. op_name x = Some nm \<longrightarrow> nm \<in> N"
    and "svc_run malloc ops svc_start = Some m" "nm \<in> N"
  shows "DevSvcManagerGetObject (Some m) (Some nm) =
    (case fold reg_spec_step ops Map.empty nm of None \<Rightarrow> None | Some (v, _, _) \<Rightarrow> v)"
proof -
  from svc_run_ok [OF mgr_ok_start assms(1), of ops] assms(4)
  have "services m = fold services_after ops (services svc_start)" by auto
  moreover have "reg_abs N (fold services_after ops []) (fold reg_spec_step ops Map.empty)"
    by (rule reg_abs_run [OF _ assms(2) _ assms(3)]) (simp_all add: reg_abs_def services_ok_def)
  ultimately have "map_option svc_entry (find_key (name_key nm) (services m)) = fold reg_spec_step ops Map.empty nm"
    using assms(5) by (simp add: reg_abs_def svc_start_def DevSvcManagerConstruct_def)
  then show ?thesis
    by (auto simp: DevSvcManagerGetObject_def DevSvcManagerSearchService_def name_key_def svc_entry_def
        split: option.splits)
qed
theorem svc_registry_refines_witness:
  "\<exists>m :: nat DevSvcManager. DevSvcManagerGetObject (Some m) (Some ''b'') = Some 7"
proof -
  let ?al = "\<lparr>sa_record = True, sa_name = True, sa_info = True\<rparr>"
  let ?ops = "[SvcAdd env ?al ''a'' 1 (5 :: nat) None, SvcAdd env ?al ''b'' 1 6 None, SvcRemove env ''a'', SvcAdd env ?al ''b'' 1 7 None]"
  have "name_key ''a'' \<noteq> name_key ''b''" by code_simp
  then have inj: "inj_on name_key {''a'', ''b''}" by (auto simp: inj_on_def)
  have copy: "HdfStringCopy True (Some [c]) = Some [c]" for c by (simp add: HdfStringCopy_ok)
  obtain m where m: "svc_run fresh_addr ?ops svc_start = Some m"
    using svc_run_ok [OF mgr_ok_start, of fresh_addr ?ops] fresh_addr by blast
  have "DevSvcManagerGetObject (Some m) (Some ''b'') = Some 7"
    using svc_registry_refines [OF _ inj _ m, of "''b''"] by (simp add: fresh_addr copy)
  then show ?thesis by blast
qed

text \<open>
  C24. The key is a 31-bit hash, and names that share one are mixed up: registering
  \<^verbatim>\<open>svc_yjvxth\<close> when \<^verbatim>\<open>svc_adezhs\<close> exists reports success, stores nothing
  under the new name and replaces the object of the old one.
\<close>

theorem svc_name_collision:
  assumes "find_key (name_key ''svc_adezhs'') (services m) = Some r"
  shows "\<exists>m'. DevSvcManagerAddService env al (Some m) (Some ''svc_yjvxth'') cls (Some v) sinfo = Some (Some m', HDF_SUCCESS) \<and>
    map servName (services m') = map servName (services m) \<and>
    DevSvcManagerGetObject (Some m') (Some ''svc_adezhs'') = Some v"
proof -
  have eq: "HdfStringMakeHashKey (Some ''svc_yjvxth'') 0 = HdfStringMakeHashKey (Some ''svc_adezhs'') 0" by code_simp
  let ?m = "m\<lparr>services := update_record (HdfStringMakeHashKey (Some ''svc_adezhs'') 0) (\<lambda>r. r\<lparr>svc_value := Some v\<rparr>) (services m)\<rparr>"
  have "DevSvcManagerAddService env al (Some m) (Some ''svc_yjvxth'') cls (Some v) sinfo = Some (Some ?m, HDF_SUCCESS)"
    using assms unfolding name_key_def by (simp add: DevSvcManagerAddService_def DevSvcManagerSearchService_def eq)
  moreover have "map servName (update_record k (\<lambda>r. r\<lparr>svc_value := Some v\<rparr>) rs) = map servName rs" for k and rs :: "'a DevSvcRecord list"
    by (induction rs) auto
  moreover have "DevSvcManagerGetObject (Some ?m) (Some ''svc_adezhs'') = Some v"
    using assms unfolding name_key_def
    by (simp add: DevSvcManagerGetObject_def DevSvcManagerSearchService_def find_key_update)
  ultimately show ?thesis by (intro exI [of _ ?m]) simp
qed

theorem svc_name_collision_witness:
  "\<exists>m' :: nat DevSvcManager. DevSvcManagerGetObject (Some m') (Some ''svc_adezhs'') = Some 9"
proof -
  let ?r = "\<lparr>svc_key = name_key ''svc_adezhs'', svc_value = Some 8, servName = Some ''svc_adezhs'', servInfo = None, devClass = 1\<rparr>"
  let ?m = "(svc_start :: nat DevSvcManager)\<lparr>services := [?r]\<rparr>"
  have "find_key (name_key ''svc_adezhs'') (services ?m) = Some ?r" by simp
  from svc_name_collision [OF this, of env al cls 9 None] show ?thesis by blast
qed

section \<open>What a listener knows\<close>

text \<open>
  The names a client holds live after the notifications it received: a start adds the name, a
  stop takes it out, and a notification that was not delivered changes nothing.
\<close>

fun view_step :: "svc_event \<Rightarrow> cstr set \<Rightarrow> cstr set" where
  "view_step (c, st, ret) S =
     (if ret \<noteq> HDF_SUCCESS then S
      else
        (case serviceName st of
           None \<Rightarrow> S
         | Some nm \<Rightarrow>
             if status st = SERVIE_STATUS_START then insert nm S
             else if status st = SERVIE_STATUS_STOP then S - {nm}
             else S))"

definition client_view :: "u64 \<Rightarrow> svc_event list \<Rightarrow> cstr set" where
  "client_view c evs = fold view_step (filter (\<lambda>e. fst e = c) evs) {}"

definition live_names :: "u16 \<Rightarrow> 'o DevSvcRecord list \<Rightarrow> cstr set" where
  "live_names cls rs = {nm. \<exists>r \<in> set rs. servName r = Some nm \<and> cls AND devClass r \<noteq> 0}"

text \<open>Every service keeps the class it has: \<^verbatim>\<open>kcls\<close> is the class of a key.\<close>

definition classes_ok :: "(u32 \<Rightarrow> u16) \<Rightarrow> 'o DevSvcRecord list \<Rightarrow> bool" where
  "classes_ok kcls rs \<longleftrightarrow> (\<forall>r \<in> set rs. devClass r = kcls (svc_key r))"

fun op_class_ok :: "(u32 \<Rightarrow> u16) \<Rightarrow> 'o svc_op \<Rightarrow> bool" where
  "op_class_ok kcls (SvcAdd env al nm cls v i) \<longleftrightarrow> cls = kcls (name_key nm)"
| "op_class_ok kcls (SvcUpdate env ok nm cls v i) \<longleftrightarrow> cls = kcls (name_key nm)"
| "op_class_ok kcls _ \<longleftrightarrow> True"

lemma live_names_update:
  assumes "services_ok rs" "\<And>r. svc_key (f r) = svc_key r" "\<And>r. servName (f r) = servName r"
    "\<And>r. r \<in> set rs \<Longrightarrow> svc_key r = k \<Longrightarrow> devClass (f r) = devClass r"
  shows "live_names cls (update_record k f rs) = live_names cls rs"
proof -
  let ?g = "\<lambda>r. if svc_key r = k then f r else r"
  have g: "set (update_record k f rs) = ?g ` set rs"
    by (rule set_update_record) (use assms(1,2) in \<open>simp_all add: services_ok_def\<close>)
  have "servName (if svc_key r = k then f r else r) = servName r"
    "devClass (if svc_key r = k then f r else r) = devClass r" if "r \<in> set rs" for r
    using assms(3,4) that by simp_all
  then have "(\<exists>r \<in> set rs. servName (?g r) = Some nm \<and> cls AND devClass (?g r) \<noteq> 0) \<longleftrightarrow>
      (\<exists>r \<in> set rs. servName r = Some nm \<and> cls AND devClass r \<noteq> 0)" for nm
    by (intro bex_cong) simp_all
  then show ?thesis unfolding live_names_def g bex_simps(7) by blast
qed

lemma live_names_remove:
  assumes "services_ok rs" "r \<in> set rs"
  shows "live_names cls (remove1 r rs) =
    (if cls AND devClass r \<noteq> 0 then live_names cls rs - {the (servName r)} else live_names cls rs)"
proof -
  have d: "distinct rs" "inj_on svc_key (set rs)" using assms(1) by (simp_all add: services_ok_def distinct_map)
  have nm: "servName s = servName r \<Longrightarrow> s = r" if "s \<in> set rs" for s
    using assms that d(2) unfolding services_ok_def by (metis inj_onD)
  have "servName r \<noteq> None" using assms unfolding services_ok_def by blast
  then obtain n where n: "servName r = Some n" by blast
  have rm: "set (remove1 r rs) = set rs - {r}" using d(1) by simp
  have "live_names cls (remove1 r rs) = live_names cls rs - {n}" if c: "cls AND devClass r \<noteq> 0"
  proof (rule set_eqI)
    fix m
    show "m \<in> live_names cls (remove1 r rs) \<longleftrightarrow> m \<in> live_names cls rs - {n}"
    proof (cases "m = n")
      case True
      have "servName s \<noteq> Some n" if "s \<in> set rs - {r}" for s using nm [of s] n that by auto
      then show ?thesis using True unfolding live_names_def rm by blast
    next
      case False
      then have "servName r \<noteq> Some m" using n by simp
      then show ?thesis using False unfolding live_names_def rm by blast
    qed
  qed
  moreover have "live_names cls (remove1 r rs) = live_names cls rs" if "cls AND devClass r = 0"
    using that assms(2) unfolding live_names_def rm by blast
  ultimately show ?thesis using n by auto
qed
definition sees :: "u16 \<Rightarrow> ServiceStatus option \<Rightarrow> cstr set \<Rightarrow> cstr set" where
  "sees lc st S = (case st of None \<Rightarrow> S | Some s \<Rightarrow> if lc AND deviceClass s \<noteq> 0 then view_step (0, s, HDF_SUCCESS) S else S)"

lemma live_names_step:
  assumes "services_ok rs" "classes_ok kcls rs" "op_class_ok kcls opn"
  shows "live_names lc (services_after opn rs) = sees lc (status_sent opn rs) (live_names lc rs)"
proof (cases opn)
  case (SvcAdd env al nm cls v i)
  let ?k = "HdfStringMakeHashKey (Some nm) 0"
  show ?thesis
  proof (cases "find_key ?k rs")
    case None
    then show ?thesis
      using SvcAdd by (auto simp: sees_def live_names_def Let_def)
  next
    case (Some r)
    have "live_names lc (update_record ?k (\<lambda>r. r\<lparr>svc_value := Some v\<rparr>) rs) = live_names lc rs"
      by (rule live_names_update [OF assms(1)]) simp_all
    then show ?thesis using SvcAdd Some by (simp add: sees_def Let_def)
  qed
next
  case (SvcUpdate env ok nm cls v i)
  let ?k = "HdfStringMakeHashKey (Some nm) 0"
  have "devClass r = cls" if "r \<in> set rs" "svc_key r = ?k" for r
    using assms(2,3) SvcUpdate that by (simp add: classes_ok_def name_key_def)
  then have "live_names lc (update_record ?k (\<lambda>r. r\<lparr>svc_value := Some v, devClass := cls, servInfo := Some j\<rparr>) rs) = live_names lc rs" for j
    by (intro live_names_update [OF assms(1)]) simp_all
  then show ?thesis
    using SvcUpdate by (auto simp: sees_def Let_def split: option.splits)
next
  case (SvcRemove env nm)
  show ?thesis
  proof (cases "find_key (HdfStringMakeHashKey (Some nm) 0) rs")
    case None
    then show ?thesis using SvcRemove by (simp add: sees_def)
  next
    case (Some r)
    then have r: "r \<in> set rs" using find_key_Some by blast
    then have "servName r \<noteq> None" using assms(1) unfolding services_ok_def by blast
    then obtain n where "servName r = Some n" by blast
    then show ?thesis
      using SvcRemove Some live_names_remove [OF assms(1) r, of lc] by (simp add: sees_def svc_status_def)
  qed
qed (simp_all add: sees_def)

lemma classes_ok_step:
  assumes "services_ok rs" "classes_ok kcls rs" "op_class_ok kcls opn"
  shows "classes_ok kcls (services_after opn rs)"
proof -
  have upd: "classes_ok kcls (update_record k f rs)"
    if "\<And>r. svc_key (f r) = svc_key r" "\<And>r. devClass (f r) = kcls k \<or> devClass (f r) = devClass r" for k f
  proof -
    have g: "set (update_record k f rs) = (\<lambda>r. if svc_key r = k then f r else r) ` set rs"
      by (rule set_update_record) (use assms(1) that(1) in \<open>simp_all add: services_ok_def\<close>)
    show ?thesis unfolding classes_ok_def g using assms(2) that by (auto simp: classes_ok_def) (metis that(2))
  qed
  show ?thesis
  proof (cases opn)
    case (SvcAdd env al nm cls v i)
    have "classes_ok kcls (update_record (HdfStringMakeHashKey (Some nm) 0) (\<lambda>r. r\<lparr>svc_value := Some v\<rparr>) rs)"
      by (rule upd) simp_all
    then show ?thesis using SvcAdd assms(2,3) by (auto simp: classes_ok_def Let_def name_key_def)
  next
    case (SvcUpdate env ok nm cls v i)
    have "classes_ok kcls (update_record (HdfStringMakeHashKey (Some nm) 0)
       (\<lambda>r. r\<lparr>svc_value := Some v, devClass := cls, servInfo := Some j\<rparr>) rs)" for j
      by (rule upd) (use assms(3) SvcUpdate in \<open>simp_all add: name_key_def\<close>)
    then show ?thesis using SvcUpdate assms(2) by (simp add: Let_def split: option.split)
  next
    case (SvcRemove env nm)
    have "classes_ok kcls (remove1 r rs)" for r
      using assms(2) set_remove1_subset [of r rs] unfolding classes_ok_def by blast
    then show ?thesis using SvcRemove assms(2) by (simp split: option.split)
  qed (use assms(2) in simp_all)
qed

lemma classes_ok_fold:
  "services_ok rs \<Longrightarrow> classes_ok kcls rs \<Longrightarrow> \<forall>x \<in> set ops. op_class_ok kcls x \<Longrightarrow>
   classes_ok kcls (fold services_after ops rs)"
proof (induction ops arbitrary: rs)
  case (Cons x xs)
  then show ?case using services_after_ok [of rs x] classes_ok_step [of rs kcls x] by simp
qed simp

definition delivered :: "u64 \<Rightarrow> svc_event list \<Rightarrow> bool" where
  "delivered c evs \<longleftrightarrow> (\<forall>e \<in> set evs. fst e = c \<longrightarrow> snd (snd e) = HDF_SUCCESS)"

lemma view_run:
  assumes "mgr_ok m" "\<forall>L. malloc L \<notin> set L" "classes_ok kcls (services m)"
    and "\<forall>x \<in> set ops. op_class_ok kcls x \<and> op_client x \<noteq> Some (index h)"
    and "svc_run malloc ops m = Some m'" "holder_mem m' a = Some h"
  shows "holder_mem m a = Some h \<and> (\<exists>evs. events m' = events m @ evs \<and>
    (delivered (index h) evs \<longrightarrow>
       fold view_step (filter (\<lambda>e. fst e = index h) evs) (live_names (listenClass h) (services m)) =
       live_names (listenClass h) (services m')))"
  using assms(1,3,4,5)
proof (induction ops arbitrary: m)
  case Nil
  then show ?case using assms(6) by simp
next
  case (Cons x xs)
  let ?f = "\<lambda>evs. filter (\<lambda>e. fst e = index h) evs" and ?l = "\<lambda>rs. live_names (listenClass h) rs"
  from svc_step_effect [OF Cons.prems(1) assms(2), of x] obtain m1 where
    m1: "svc_step malloc x m = Some m1" "step_effect x m m1" by blast
  have run: "svc_run malloc xs m1 = Some m'" using Cons.prems(4) m1(1) by simp
  have ok1: "mgr_ok m1" "services m1 = services_after x (services m)" using m1(2) by (simp_all add: step_effect_def)
  have sok: "services_ok (services m)" using Cons.prems(1) by (simp add: mgr_ok_def)
  have opx: "op_class_ok kcls x" "op_client x \<noteq> Some (index h)" using Cons.prems(3) by simp_all
  have cls1: "classes_ok kcls (services m1)" using classes_ok_step [OF sok Cons.prems(2) opx(1)] ok1(2) by simp
  from Cons.IH [OF ok1(1) cls1 _ run] Cons.prems(3) obtain e2 where
    h1: "holder_mem m1 a = Some h" and e2: "events m' = events m1 @ e2"
    "delivered (index h) e2 \<Longrightarrow> fold view_step (?f e2) (?l (services m1)) = ?l (services m')" by auto
  from m1(2) h1 opx(2) obtain e1 r where hm: "holder_mem m a = Some h" and e1: "events m1 = events m @ e1"
    and f1: "?f e1 = (case status_sent x (services m) of
                None \<Rightarrow> []
              | Some st \<Rightarrow> if listenClass h AND deviceClass st \<noteq> 0 then [(index h, st, r)] else [])"
    unfolding step_effect_def by blast
  have "fold view_step (?f (e1 @ e2)) (?l (services m)) = ?l (services m')" if d: "delivered (index h) (e1 @ e2)"
  proof -
    have d1: "\<forall>e \<in> set (?f e1). snd (snd e) = HDF_SUCCESS" and d2: "delivered (index h) e2"
      using d by (auto simp: delivered_def)
    have "fold view_step (?f e1) (?l (services m)) = sees (listenClass h) (status_sent x (services m)) (?l (services m))"
      using d1 unfolding f1 sees_def by (auto split: option.splits)
    then show ?thesis
      using e2(2) [OF d2] live_names_step [OF sok Cons.prems(2) opx(1)] ok1(2) by simp
  qed
  then show ?case using hm e1 e2(1) by (intro conjI exI [of _ "e1 @ e2"]) simp_all
qed
lemma start_events_view:
  assumes "length rets = length (start_events h rs)" "\<forall>r \<in> set rs. servName r \<noteq> None"
    and "delivered c (map (\<lambda>(st, r). (c, st, r)) (zip (start_events h rs) rets))"
  shows "fold view_step (map (\<lambda>(st, r). (c, st, r)) (zip (start_events h rs) rets)) S =
    S \<union> live_names (listenClass h) rs"
  using assms
proof (induction rs arbitrary: rets S)
  case Nil
  then show ?case by (simp add: start_events_def live_names_def)
next
  case (Cons r rs)
  obtain n where n: "servName r = Some n" using Cons.prems(2) by auto
  show ?case
  proof (cases "listenClass h AND devClass r = 0")
    case True
    have "start_events h (r # rs) = start_events h rs" using True by (simp add: start_events_def)
    moreover have "live_names (listenClass h) (r # rs) = live_names (listenClass h) rs"
      using True by (auto simp: live_names_def)
    ultimately show ?thesis using Cons.IH [of rets S] Cons.prems by simp
  next
    case False
    then have se: "start_events h (r # rs) = svc_status r SERVIE_STATUS_START # start_events h rs"
      by (simp add: start_events_def)
    then obtain ret rets' where r: "rets = ret # rets'" "length rets' = length (start_events h rs)"
      using Cons.prems(1) by (cases rets) auto
    have d: "ret = HDF_SUCCESS" "delivered c (map (\<lambda>(st, r). (c, st, r)) (zip (start_events h rs) rets'))"
      using Cons.prems(3) se r by (auto simp: delivered_def)
    have l: "live_names (listenClass h) (r # rs) = insert n (live_names (listenClass h) rs)"
      using False n by (auto simp: live_names_def)
    show ?thesis
      using Cons.IH [OF r(2) _ d(2), of "insert n S"] Cons.prems(2) se r(1) d(1) n l
      by (simp add: svc_status_def)
  qed
qed

text \<open>
  C21. What a registered client knows. A client registers after some requests, and others follow
  that do not concern its registration; no service changes its class. If the client is still
  registered at the end and all notifications for it were delivered, then the starts and stops it
  was told since it registered give exactly the names of the live services of its classes.
\<close>

theorem listener_view_exact:
  assumes "\<forall>L. malloc L \<notin> set L" "\<forall>x \<in> set (before @ after). op_class_ok kcls x"
    and "svc_run malloc before svc_start = Some m0"
    and "\<forall>b k. holder_mem m0 b = Some k \<longrightarrow> index k \<noteq> c"
    and "svc_run malloc (SvcListen env allocOk c dat # after) m0 = Some m"
    and "\<forall>x \<in> set after. op_client x \<noteq> Some c"
    and "holder_mem m a = Some h" "index h = c"
    and "delivered c (drop (length (events m0)) (events m))"
  shows "client_view c (drop (length (events m0)) (events m)) = live_names (listenClass h) (services m)"
proof -
  let ?new = "if allocOk then Some (malloc (g_holderList m0)) else None"
  from svc_run_ok [OF mgr_ok_start assms(1), of before] assms(3) have
    ok0: "mgr_ok m0" and s0: "services m0 = fold services_after before (services svc_start)" by auto
  have cls0: "classes_ok kcls (services m0)"
    unfolding s0 by (rule classes_ok_fold)
      (use assms(2) in \<open>simp_all add: svc_start_def DevSvcManagerConstruct_def services_ok_def classes_ok_def\<close>)
  from assms(5) obtain m1 where m1: "svc_step malloc (SvcListen env allocOk c dat) m0 = Some m1" "svc_run malloc after m1 = Some m"
    by (auto simp: bind_eq_Some_conv)
  from svc_step_effect [OF ok0 assms(1), of "SvcListen env allocOk c dat"] m1(1) have
    ok1: "mgr_ok m1" "services m1 = services m0" by (auto simp: step_effect_def)
  have "\<forall>x \<in> set after. op_class_ok kcls x \<and> op_client x \<noteq> Some (index h)"
    using assms(2,6,8) by auto
  from view_run [OF ok1(1) assms(1) _ this m1(2) assms(7)] cls0 ok1(2) obtain evs where
    h1: "holder_mem m1 a = Some h" and evs: "events m = events m1 @ evs"
    "delivered c evs \<Longrightarrow> fold view_step (filter (\<lambda>e. fst e = c) evs) (live_names (listenClass h) (services m1)) =
       live_names (listenClass h) (services m)" using assms(8) by auto
  have fresh: "\<forall>a. ?new = Some a \<longrightarrow> holder_mem m0 a = None"
    using assms(1) ok0 by (auto simp: mgr_ok_def holders_ok_def split: if_splits)
  have noc: "holder_mem m0 b \<noteq> Some k \<or> index k \<noteq> c" for b k using assms(4) by blast
  show ?thesis
  proof (cases rule: RegisterListener_effect [OF ok0 fresh, where env = env and c = c and dat = dat, case_names created changed refused])
    case (created cls a' h' rets)
    let ?e1 = "map (\<lambda>(st, r). (c, st, r)) (zip (start_events h' (services m0)) rets)"
    have m1': "events m1 = events m0 @ ?e1" "holder_mem m1 = (holder_mem m0)(a' \<mapsto> h')"
      using m1(1) created(6) by auto
    then have "h' = h" using h1 noc assms(8) by (auto split: if_splits)
    have d: "drop (length (events m0)) (events m) = ?e1 @ evs" using evs(1) m1'(1) by simp
    then have dl: "delivered c ?e1" "delivered c evs" using assms(9) by (auto simp: delivered_def)
    have "\<forall>r \<in> set (services m0). servName r \<noteq> None" using ok0 unfolding mgr_ok_def services_ok_def by blast
    then have v: "fold view_step ?e1 {} = live_names (listenClass h') (services m0)"
      using start_events_view [OF created(5) _ dl(1)] by simp
    have "filter (\<lambda>e. fst e = c) ?e1 = ?e1" by (rule filter_True) auto
    then show ?thesis
      using evs(2) [OF dl(2)] ok1(2) v \<open>h' = h\<close> unfolding client_view_def d by simp
  next
    case (changed cls b k)
    then show ?thesis using noc by blast
  next
    case (refused ret)
    then have "m1 = m0" using m1(1) by simp
    then show ?thesis using h1 noc assms(8) by blast
  qed
qed
text \<open>A concrete run: a service, a registration for class 4, another service, a removal.\<close>

definition view_request :: "sbuf_raw HdfSBuf option" where
  "view_request = raw_obj SBUF_RAW \<lparr>writePos = 4, readPos = 0, capacity = 4, sdata = Some [4, 0, 0, 0], isBind = True\<rparr>"

definition view_alloc :: svc_alloc where
  "view_alloc = \<lparr>sa_record = True, sa_name = True, sa_info = True\<rparr>"

lemma view_env_delivers:
  "status_fits st \<Longrightarrow> listenerClient h = Some c \<Longrightarrow>
   notify_one view_env h st m = (m\<lparr>events := events m @ [(index h, st, HDF_SUCCESS)]\<rparr>, HDF_SUCCESS)"
  by (simp add: notify_one_def view_env_def KNotify_delivers Let_def)

lemma view_request_class: "snd (HdfSbufReadUint16 view_request True) = Some 4"
  by code_simp

lemma view_run_events:
  "map_option (\<lambda>m. (holder_mem m 1, map (snd \<circ> snd) (events m), map servName (services m)))
      (svc_run fresh_addr (SvcListen view_env True 5 view_request # [SvcAdd view_env view_alloc ''b'' 4 2 None, SvcRemove view_env ''a''])
        (svc_start\<lparr>services := [\<lparr>svc_key = name_key ''a'', svc_value = Some (1 :: nat), servName = Some ''a'', servInfo = None, devClass = 4\<rparr>]\<rparr>)) =
    Some (Some \<lparr>listenClass = 4, index = 5, NotifyStatus = True, Recycle = True, listenerClient = Some 5\<rparr>, [0, 0, 0], [Some ''b''])"
proof -
  have k: "name_key ''a'' = 97" "HdfStringMakeHashKey (Some ''a'') 0 = 97" "HdfStringMakeHashKey (Some ''b'') 0 = 98" by code_simp+
  have f: "status_fits \<lparr>serviceName = Some [c], deviceClass = d, status = s, info = None\<rparr>" if "c \<noteq> CHR 0x00" for c d s
    using that by (simp add: status_fits_def status_info_def wf_cstr_def)
  have copy: "HdfStringCopy True (Some [c]) = Some [c]" for c by (simp add: HdfStringCopy_ok)
  have copyN: "HdfStringCopy b None = None" for b by (simp add: HdfStringCopy_def)
  show ?thesis
    by (simp add: svc_start_def DevSvcManagerConstruct_def DevSvcManagerExtRegisterListener_def view_request_class
        ServStatListenerHolderGet_def ServStatListenerHolderCreate_def fresh_addr_def DevSvcManagerRegsterServListener_def
        NotifyServiceStatusOnRegisterLocked_def view_env_delivers svc_status_def f
        DevSvcManagerAddService_def DevSvcManagerSearchService_def DevSvcRecordNewInstance_def k view_alloc_def copy copyN
        NotifyServiceStatusLocked_def DevSvcManagerRemoveService_def)
qed
lemma view_before_run:
  "svc_run fresh_addr [SvcAdd view_env view_alloc ''a'' 4 1 None] svc_start = Some
     (svc_start\<lparr>services := [\<lparr>svc_key = name_key ''a'', svc_value = Some (1 :: nat), servName = Some ''a'', servInfo = None, devClass = 4\<rparr>]\<rparr>)"
proof -
  have copy: "HdfStringCopy True (Some ''a'') = Some ''a''" by (simp add: HdfStringCopy_ok)
  have copyN: "HdfStringCopy b None = None" for b by (simp add: HdfStringCopy_def)
  show ?thesis
    by (simp add: svc_start_def DevSvcManagerConstruct_def DevSvcManagerAddService_def DevSvcManagerSearchService_def
        DevSvcRecordNewInstance_def view_alloc_def copy copyN NotifyServiceStatusLocked_def name_key_def Let_def)
qed

lemma map_option_SomeE:
  assumes "map_option f x = Some y"
  obtains z where "x = Some z" "f z = y"
  using assms by (cases x) auto

theorem listener_view_exact_witness:
  "\<exists>(m :: nat DevSvcManager). client_view 5 (events m) = live_names 4 (services m) \<and> map servName (services m) = [Some ''b'']"
proof -
  let ?h = "\<lparr>listenClass = 4, index = 5, NotifyStatus = True, Recycle = True, listenerClient = Some 5\<rparr>"
  let ?after = "[SvcAdd view_env view_alloc ''b'' 4 (2 :: nat) None, SvcRemove view_env ''a'']"
  obtain m where m:
    "svc_run fresh_addr (SvcListen view_env True 5 view_request # ?after)
      (svc_start\<lparr>services := [\<lparr>svc_key = name_key ''a'', svc_value = Some 1, servName = Some ''a'', servInfo = None, devClass = 4\<rparr>]\<rparr>) = Some m"
    and f: "(holder_mem m 1, map (snd \<circ> snd) (events m), map servName (services m)) = (Some ?h, [0, 0, 0], [Some ''b''])"
    by (rule map_option_SomeE [OF view_run_events])
  have m2: "holder_mem m 1 = Some ?h" and m3: "map (snd \<circ> snd) (events m) = [0, 0, 0]"
    and m4: "map servName (services m) = [Some ''b'']" using f unfolding prod.inject by blast+
  have start: "events (svc_start :: nat DevSvcManager) = []" "holder_mem (svc_start :: nat DevSvcManager) = Map.empty"
    by (simp_all add: svc_start_def DevSvcManagerConstruct_def)
  have "set (map (snd \<circ> snd) (events m)) = {0}" unfolding m3 by simp
  then have d: "delivered 5 (events m)" by (auto simp: delivered_def)
  have "client_view 5 (drop (length (events (svc_start :: nat DevSvcManager))) (events m)) = live_names (listenClass ?h) (services m)"
    using listener_view_exact [OF _ _ view_before_run _ m _ m2, of "\<lambda>_. 4"] d
    by (simp add: fresh_addr start)
  then show ?thesis using m4 start by auto
qed

text \<open>
  C25. The kernel keeps one class mask per client, the one of its last registration. A client
  that registers a second listener for another class is no longer told about services of the
  first one.
\<close>

theorem second_listener_hides_first:
  assumes "\<forall>L. malloc L \<notin> set L" "svc_run malloc ops svc_start = Some m"
    and "holder_mem m a = Some h" "snd (HdfSbufReadUint16 dat True) = Some cls2"
    and "cls2 AND devClass r = 0"
  shows "\<exists>m1. svc_step malloc (SvcListen env allocOk (index h) dat) m = Some m1 \<and> holder_mem m1 a = Some (h\<lparr>listenClass := cls2\<rparr>) \<and>
    (\<exists>m2 evs. NotifyServiceStatusLocked env r st m1 = Some m2 \<and> events m2 = events m @ evs \<and> (\<forall>e \<in> set evs. fst e \<noteq> index h))"
proof -
  from svc_run_ok [OF mgr_ok_start assms(1), of ops] assms(2) have ok: "mgr_ok m" by auto
  then have hok: "holders_ok (svcstatListeners m) (g_holderList m) (holder_mem m)" by (simp add: mgr_ok_def)
  let ?m1 = "m\<lparr>holder_mem := (holder_mem m)(a \<mapsto> h\<lparr>listenClass := cls2\<rparr>)\<rparr>"
  from ok have "DevSvcManagerExtRegisterListener env (if allocOk then Some (malloc (g_holderList m)) else None) True m (index h) dat =
      Some (?m1, HDF_SUCCESS)"
  proof (cases rule: holder_of_client [where c = "index h"])
    case (found b k)
    then have "b = a" using holders_okD(6) [OF hok _ assms(3)] by blast
    then show ?thesis using found assms(3,4) by (simp add: DevSvcManagerExtRegisterListener_def)
  qed (use assms(3) in blast)
  then have step: "svc_step malloc (SvcListen env allocOk (index h) dat) m = Some ?m1" by simp
  have hok1: "holders_ok (svcstatListeners ?m1) (g_holderList ?m1) (holder_mem ?m1)"
    using holders_ok_class [OF hok assms(3)] by simp
  from NotifyServiceStatusLocked_effect [OF this, of env r st] obtain m2 where
    m2: "NotifyServiceStatusLocked env r st ?m1 = Some m2"
    "notify_effect (devClass r) (svc_status r st) (svcstatListeners ?m1) ?m1 m2" by blast
  let ?h = "h\<lparr>listenClass := cls2\<rparr>"
  have h1: "holder_mem ?m1 a = Some ?h" by simp
  from m2(2) obtain evs where evs: "events m2 = events ?m1 @ evs"
    "\<And>b k. holder_mem m2 b = Some k \<Longrightarrow> b \<notin> set (svcstatListeners ?m1) \<or> listenClass k AND devClass r = 0 \<Longrightarrow>
       filter (\<lambda>e. fst e = index k) evs = []"
    "\<And>b k. holder_mem ?m1 b = Some k \<Longrightarrow> holder_mem m2 b = None \<Longrightarrow> listenClass k AND devClass r \<noteq> 0"
    "\<And>b k. holder_mem m2 b = Some k \<Longrightarrow> holder_mem ?m1 b = Some k" by (elim notify_effectE) blast
  have "holder_mem m2 a = Some ?h"
  proof (cases "holder_mem m2 a")
    case None
    then show ?thesis using evs(3) [OF h1] assms(5) by simp
  next
    case (Some k)
    then show ?thesis using evs(4) [OF Some] h1 by simp
  qed
  from evs(2) [OF this] assms(5) have "filter (\<lambda>e. fst e = index h) evs = []" by simp
  then have "\<forall>e \<in> set evs. fst e \<noteq> index h" by (simp add: filter_empty_conv)
  then show ?thesis using step m2(1) evs(1) h1 by (intro exI [of _ ?m1]) auto
qed
theorem second_listener_hides_first_witness:
  "\<exists>(m1 :: nat DevSvcManager) h. holder_mem m1 1 = Some h \<and> listenClass h = 2 \<and> listenClass h AND 4 = 0"
proof -
  let ?h = "\<lparr>listenClass = 4, index = 5, NotifyStatus = True, Recycle = True, listenerClient = Some 5\<rparr>"
  let ?dat = "raw_obj SBUF_RAW \<lparr>writePos = 4, readPos = 0, capacity = 4, sdata = Some [2, 0, 0, 0], isBind = True\<rparr>"
  let ?r = "\<lparr>svc_key = 97, svc_value = Some (1 :: nat), servName = Some ''a'', servInfo = None, devClass = 4\<rparr>"
  have "\<exists>m :: nat DevSvcManager. svc_run fresh_addr [SvcListen view_env True 5 view_request] svc_start = Some m \<and> holder_mem m 1 = Some ?h"
    by (simp add: svc_start_def DevSvcManagerConstruct_def DevSvcManagerExtRegisterListener_def view_request_class
        ServStatListenerHolderGet_def ServStatListenerHolderCreate_def fresh_addr_def DevSvcManagerRegsterServListener_def
        NotifyServiceStatusOnRegisterLocked_def)
  then obtain m :: "nat DevSvcManager" where
    m: "svc_run fresh_addr [SvcListen view_env True 5 view_request] svc_start = Some m" "holder_mem m 1 = Some ?h" by blast
  have c: "snd (HdfSbufReadUint16 ?dat True) = Some 2" by code_simp
  have fr: "\<forall>L. fresh_addr L \<notin> set L" and z: "(2 :: u16) AND devClass ?r = 0" by (simp_all add: fresh_addr)
  from second_listener_hides_first [OF fr m(1,2) c z] obtain m1 :: "nat DevSvcManager" where
    "holder_mem m1 1 = Some (?h\<lparr>listenClass := 2\<rparr>)" by blast
  then show ?thesis by (intro exI [of _ m1] exI [of _ "?h\<lparr>listenClass := 2\<rparr>"]) simp
qed

text \<open>
  C26. An update that moves a service to another class is not announced to the listeners of the
  old class only: a client that was told the service started is told neither of the change nor,
  later, that the service stopped, and goes on believing it is live.
\<close>

theorem class_change_loses_stop:
  assumes "\<forall>L. malloc L \<notin> set L" "svc_run malloc ops svc_start = Some m"
    and "find_key (name_key nm) (services m) = Some r"
    and "HdfStringCopy ok (Some i) = Some i"
    and "svc_run malloc [SvcUpdate env ok nm cls v (Some i), SvcRemove env2 nm] m = Some m2"
    and "holder_mem m2 a = Some h" "listenClass h AND cls = 0"
  shows "find_key (name_key nm) (services m2) = None \<and>
    (\<exists>evs. events m2 = events m @ evs \<and> (\<forall>e \<in> set evs. fst e \<noteq> index h))"
proof -
  from svc_run_ok [OF mgr_ok_start assms(1), of ops] assms(2) have ok: "mgr_ok m" by auto
  let ?x = "SvcUpdate env ok nm cls v (Some i)" and ?y = "SvcRemove env2 nm"
  from svc_step_effect [OF ok assms(1), of ?x] obtain m1 where
    m1: "svc_step malloc ?x m = Some m1" "step_effect ?x m m1" by blast
  have ok1: "mgr_ok m1" "services m1 = services_after ?x (services m)" using m1(2) by (simp_all add: step_effect_def)
  have step2: "svc_step malloc ?y m1 = Some m2" using assms(5) m1(1) by (auto simp: bind_eq_Some_conv)
  from svc_step_effect [OF ok1(1) assms(1), of ?y] step2 have m2: "step_effect ?y m1 m2" by auto
  let ?f = "\<lambda>r. r\<lparr>svc_value := Some v, devClass := cls, servInfo := Some i\<rparr>"
  have s1: "services m1 = update_record (name_key nm) ?f (services m)"
    using ok1(2) assms(4) by (simp add: name_key_def Let_def)
  have f1: "find_key (name_key nm) (services m1) = Some (?f r)"
    unfolding s1 using assms(3) by (simp add: find_key_update)
  have d1: "distinct (map svc_key (services m1))" using ok1(1) by (simp add: mgr_ok_def services_ok_def)
  have "services m2 = remove1 (?f r) (services m1)"
    using m2 f1 by (simp add: step_effect_def name_key_def)
  moreover have r1: "?f r \<in> set (services m1)" "svc_key (?f r) = name_key nm" using f1 find_key_Some by blast+
  ultimately have gone: "find_key (name_key nm) (services m2) = None"
    using find_key_remove1 [OF d1 r1(1), of "name_key nm"] r1(2) by simp
  have st2: "status_sent ?y (services m1) = Some (svc_status (?f r) SERVIE_STATUS_STOP)"
    using f1 by (simp add: name_key_def)
  from step_effect_client [OF m2 assms(6)] obtain e2 where e2: "events m2 = events m1 @ e2" "holder_mem m1 a = Some h"
    "filter (\<lambda>e. fst e = index h) e2 = []"
    unfolding st2 using assms(7) by (auto simp: svc_status_def)
  have st1: "status_sent ?x (services m) = Some \<lparr>serviceName = servName r, deviceClass = cls, status = SERVIE_STATUS_CHANGE, info = Some i\<rparr>"
    using assms(3,4) by (simp add: name_key_def)
  from step_effect_client [OF m1(2) e2(2)] obtain e1 where e1: "events m1 = events m @ e1" "filter (\<lambda>e. fst e = index h) e1 = []"
    unfolding st1 using assms(7) by auto
  have "\<forall>e \<in> set (e1 @ e2). fst e \<noteq> index h"
    using e1(2) e2(3) by (auto simp: filter_empty_conv)
  then show ?thesis using gone e1(1) e2(1) by (intro conjI exI [of _ "e1 @ e2"]) simp_all
qed
theorem class_change_loses_stop_witness:
  "\<exists>(m2 :: nat DevSvcManager) (evs :: svc_event list). find_key (name_key ''a'') (services m2) = None \<and> (\<forall>e \<in> set evs. fst e \<noteq> 5)"
proof -
  let ?h = "\<lparr>listenClass = 4, index = 5, NotifyStatus = True, Recycle = True, listenerClient = Some 5\<rparr>"
  let ?ops = "[SvcListen view_env True 5 view_request, SvcAdd view_env view_alloc ''a'' 4 (1 :: nat) None]"
  let ?ops2 = "[SvcUpdate view_env True ''a'' 2 1 (Some ''i''), SvcRemove view_env ''a'']"
  have k: "name_key ''a'' = 97" "HdfStringMakeHashKey (Some ''a'') 0 = 97" by code_simp+
  have f: "status_fits \<lparr>serviceName = Some ''a'', deviceClass = d, status = s, info = None\<rparr>" for d s
    by (simp add: status_fits_def status_info_def wf_cstr_def)
  have copy: "HdfStringCopy True (Some [c]) = Some [c]" for c by (simp add: HdfStringCopy_ok)
  have copyN: "HdfStringCopy b None = None" for b by (simp add: HdfStringCopy_def)
  note sd = svc_start_def DevSvcManagerConstruct_def DevSvcManagerExtRegisterListener_def view_request_class
    ServStatListenerHolderGet_def ServStatListenerHolderCreate_def fresh_addr_def DevSvcManagerRegsterServListener_def
    NotifyServiceStatusOnRegisterLocked_def view_env_delivers svc_status_def f k view_alloc_def copy copyN
    DevSvcManagerAddService_def DevSvcManagerSearchService_def DevSvcRecordNewInstance_def
    NotifyServiceStatusLocked_def DevSvcManagerUpdateService_def DevSvcManagerRemoveService_def
  have run1: "map_option (\<lambda>m. map_option servName (find_key (name_key ''a'') (services m))) (svc_run fresh_addr ?ops svc_start) = Some (Some (Some ''a''))"
    by (simp add: sd)
  obtain m where m: "svc_run fresh_addr ?ops svc_start = Some m"
    and fa: "map_option servName (find_key (name_key ''a'') (services m)) = Some (Some ''a'')"
    by (rule map_option_SomeE [OF run1])
  obtain r where r: "find_key (name_key ''a'') (services m) = Some r" using fa by (rule map_option_SomeE)
  have run2: "map_option (\<lambda>m. holder_mem m 1) (Option.bind (svc_run fresh_addr ?ops svc_start) (svc_run fresh_addr ?ops2)) = Some (Some ?h)"
    by (simp add: sd)
  obtain m2 where m2: "Option.bind (svc_run fresh_addr ?ops svc_start) (svc_run fresh_addr ?ops2) = Some m2"
    and h: "holder_mem m2 1 = Some ?h" by (rule map_option_SomeE [OF run2])
  have fr: "\<forall>L. fresh_addr L \<notin> set L" and z: "listenClass ?h AND 2 = 0" by (simp_all add: fresh_addr)
  have run: "svc_run fresh_addr ?ops2 m = Some m2" using m2 unfolding m by simp
  from class_change_loses_stop [OF fr m r copy run h z] show ?thesis by (simp only: ServStatListenerHolder.select_convs) blast
qed

section \<open>Listing services\<close>

text \<open>The names of a class, and those of a list of names whose write is accepted.\<close>

definition class_names :: "u16 \<Rightarrow> 'o DevSvcRecord list \<Rightarrow> cstr list" where
  "class_names cls rs = map (the \<circ> servName) (filter (\<lambda>r. devClass r = cls) rs)"

fun accepted_names :: "osal_alloc \<Rightarrow> cstr list \<Rightarrow> 's HdfSBuf option \<Rightarrow> cstr list" where
  "accepted_names alloc [] b = []"
| "accepted_names alloc (nm # nms) b =
     (case HdfSbufWriteString alloc b (Some nm) of
        (b', ok) \<Rightarrow> if ok then nm # accepted_names alloc nms b' else accepted_names alloc nms b')"

lemma accepted_subseq: "subseq (accepted_names alloc nms b) nms"
  by (induction nms arbitrary: b) (auto split: prod.splits)

lemma accepted_set: "set (accepted_names alloc nms b) \<subseteq> set nms"
  by (induction nms arbitrary: b) (auto split: prod.splits)

lemma list_services_writes:
  assumes "obj_ok b" "\<forall>r \<in> set rs. \<exists>nm. servName r = Some nm \<and> item_wf (SStr nm)"
  shows "\<exists>bss. obj_ok (list_services alloc cls rs b) \<and>
    list_all2 encodes (map SStr (accepted_names alloc (class_names cls rs) b)) bss \<and>
    obj_pending (list_services alloc cls rs b) = obj_pending b @ concat bss"
  using assms
proof (induction rs arbitrary: b)
  case (Cons r rs)
  obtain nm where nm: "servName r = Some nm" "item_wf (SStr nm)" using Cons.prems(2) by auto
  show ?case
  proof (cases "devClass r = cls")
    case False
    then show ?thesis using Cons by (simp add: class_names_def)
  next
    case True
    obtain b1 ok where p: "hdf_put alloc b (SStr nm) = (b1, ok)" by (cases "hdf_put alloc b (SStr nm)")
    have cn: "class_names cls (r # rs) = nm # class_names cls rs" using True nm(1) by (simp add: class_names_def)
    have l: "list_services alloc cls (r # rs) b = list_services alloc cls rs b1" using True nm(1) p by simp
    have wf: "\<forall>r \<in> set rs. \<exists>nm. servName r = Some nm \<and> item_wf (SStr nm)" using Cons.prems(2) by simp
    show ?thesis
    proof (cases ok)
      case False
      then have "obj_ok b1" "obj_pending b1 = obj_pending b"
        using hdf_channel.put_fail [OF Cons.prems(1) nm(2)] p by auto
      then show ?thesis using Cons.IH [OF _ wf, of b1] l cn p False by simp
    next
      case ok: True
      with hdf_channel.put_ok [OF Cons.prems(1) nm(2)] p obtain bs where
        1: "obj_ok b1" "encodes (SStr nm) bs" "obj_pending b1 = obj_pending b @ bs" by auto
      from Cons.IH [OF 1(1) wf] obtain bss where
        2: "obj_ok (list_services alloc cls rs b1)" "list_all2 encodes (map SStr (accepted_names alloc (class_names cls rs) b1)) bss"
          "obj_pending (list_services alloc cls rs b1) = obj_pending b1 @ concat bss" by blast
      then show ?thesis using 1 l cn p ok by (intro exI [of _ "bs # bss"]) simp
    qed
  qed
qed (simp add: class_names_def)

text \<open>With memory, a buffer that has room accepts every name.\<close>

definition names_fit :: "cstr list \<Rightarrow> sbuf_raw \<Rightarrow> bool" where
  "names_fit nms sb \<longleftrightarrow> \<not> isBind sb \<and>
     (\<forall>nm \<in> set nms. unat (writePos sb) + sum_list (map (item_size \<circ> SStr) nms) + item_size (SStr nm) + 260 \<le> 524288)"

lemma accepted_all:
  assumes "sbuf_ok sb" "\<forall>nm \<in> set nms. item_wf (SStr nm)" "names_fit nms sb"
  shows "accepted_names (\<lambda>_. True) nms (raw_obj t sb) = nms"
  using assms
proof (induction nms arbitrary: sb)
  case (Cons nm nms)
  have fit: "\<not> isBind sb" "item_wf (SStr nm)" "unat (writePos sb) + 2 * item_size (SStr nm) + 260 \<le> 524288"
    using Cons.prems(2,3) by (auto simp: names_fit_def)
  from raw_put_room [OF Cons.prems(1) fit] obtain sb1 where
    p: "raw_put (\<lambda>_. True) sb (SStr nm) = (sb1, True)" "\<not> isBind sb1" "unat (writePos sb1) = unat (writePos sb) + item_size (SStr nm)"
    by blast
  have "sbuf_ok sb1" using raw_put_pending [OF Cons.prems(1) fit(2) p(1)] by simp
  moreover have "names_fit nms sb1" using Cons.prems(3) p(2,3) by (auto simp: names_fit_def add.assoc)
  ultimately have "accepted_names (\<lambda>_. True) nms (raw_obj t sb1) = nms" using Cons.IH Cons.prems(2) by simp
  moreover have "HdfSbufWriteString (\<lambda>_. True) (raw_obj t sb) (Some nm) = (raw_obj t sb1, True)"
    using hdf_put_raw [of "\<lambda>_. True" t sb "SStr nm"] p(1) by simp
  ultimately show ?case by simp
qed simp

text \<open>
  C23. A client that lists the services of a class reads exactly the names of that class whose write
  into the buffer was accepted, in the order of registration and with nothing after them, whatever
  allocations fail; a name that cannot be written is left out and damages nothing. With memory, a
  buffer that has room for all of them gives the client the names of all services of the class.
\<close>

theorem list_services_readable:
  assumes "obj_ok b" "obj_pending b = []" "DevSvcManagerListService alloc (Some m) b cls = b'"
    and "\<forall>r \<in> set (services m). \<exists>nm. servName r = Some nm \<and> item_wf (SStr nm)"
  shows "\<exists>ns b''. ns = accepted_names alloc (class_names cls (services m)) b \<and> subseq ns (class_names cls (services m)) \<and>
    get_all hdf_get b' (replicate (length ns) TStr) = (b'', Some (map SStr ns)) \<and> obj_pending b'' = [] \<and>
    (\<forall>t sb. b = raw_obj t sb \<longrightarrow> alloc = (\<lambda>_. True) \<longrightarrow> names_fit (class_names cls (services m)) sb \<longrightarrow>
       ns = class_names cls (services m))"
proof -
  let ?all = "class_names cls (services m)" let ?ns = "accepted_names alloc ?all b"
  obtain bss where s: "obj_ok b'" "list_all2 encodes (map SStr ?ns) bss" "obj_pending b' = concat bss @ []"
    using list_services_writes [OF assms(1,4), of alloc cls] assms(2,3) by (auto simp: DevSvcManagerListService_def)
  have wf: "\<forall>nm \<in> set ?all. item_wf (SStr nm)" using assms(4) by (fastforce simp: class_names_def)
  have "\<forall>x \<in> set (map SStr ?ns). item_wf x" using wf accepted_set [of alloc ?all b] by auto
  from hdf_channel.get_all_ok [OF s(1) this s(2,3)] obtain b'' where
    "get_all hdf_get b' (map type_of_item (map SStr ?ns)) = (b'', Some (map SStr ?ns))" "obj_pending b'' = []" by auto
  moreover have "map type_of_item (map SStr ns) = replicate (length ns) TStr" for ns by (induction ns) auto
  moreover have "?ns = ?all" if "b = raw_obj t sb" "alloc = (\<lambda>_. True)" "names_fit ?all sb" for t sb
    using accepted_all [OF _ wf that(3), of t] assms(1) that(1,2) by simp
  ultimately show ?thesis using accepted_subseq [of alloc ?all b] by auto
qed

theorem list_services_readable_witness:
  "\<exists>b' b'' sb. SbufObtainRaw (\<lambda>_. True) 256 = Some sb \<and>
     DevSvcManagerListService (\<lambda>_. True) (Some (svc_start\<lparr>services :=
       [\<lparr>svc_key = 97, svc_value = Some (1 :: nat), servName = Some ''a'', servInfo = None, devClass = 4\<rparr>,
        \<lparr>svc_key = 98, svc_value = Some 2, servName = Some ''b'', servInfo = None, devClass = 5\<rparr>,
        \<lparr>svc_key = 99, svc_value = Some 3, servName = Some ''c'', servInfo = None, devClass = 4\<rparr>]\<rparr>)) (raw_obj SBUF_RAW sb) 4 = b' \<and>
     get_all hdf_get b' [TStr, TStr] = (b'', Some [SStr ''a'', SStr ''c'']) \<and> obj_pending b'' = []"
proof -
  let ?m = "svc_start\<lparr>services :=
       [\<lparr>svc_key = 97, svc_value = Some (1 :: nat), servName = Some ''a'', servInfo = None, devClass = 4\<rparr>,
        \<lparr>svc_key = 98, svc_value = Some 2, servName = Some ''b'', servInfo = None, devClass = 5\<rparr>,
        \<lparr>svc_key = 99, svc_value = Some 3, servName = Some ''c'', servInfo = None, devClass = 4\<rparr>]\<rparr>"
  obtain sb where sb: "SbufObtainRaw (\<lambda>_. True) 256 = Some sb" using default_buffer by blast
  note f = ObtainRaw_ok [OF sb]
  have ns: "class_names 4 (services ?m) = [''a'', ''c'']" by (simp add: class_names_def)
  have fit: "names_fit [''a'', ''c''] sb" using f by (simp add: names_fit_def item_size_def chunks_size_def al4_def bytes_of_def)
  have wf: "\<forall>r \<in> set (services ?m). \<exists>nm. servName r = Some nm \<and> item_wf (SStr nm)" by (simp add: wf_cstr_def)
  have b: "obj_ok (raw_obj SBUF_RAW sb)" "obj_pending (raw_obj SBUF_RAW sb) = []" using f by simp_all
  from list_services_readable [OF b refl wf, of "\<lambda>_. True" 4] fit show ?thesis
    unfolding ns using sb by (auto simp: numeral_2_eq_2)
qed

end
