(* ===== verification/Dev_Svc_Clnt.thy ===== *)
theory Dev_Svc_Clnt
  imports Dev_Svc_Manager
begin

text \<open>
  The client of the service manager that the host uses (core/host/src/devsvc_manager_clnt.c): it
  calls the entries of the interface \<^verbatim>\<open>struct IDevSvcManager\<close> after checking them. The
  table that \<^verbatim>\<open>DevSvcManagerConstruct\<close> fills is given over the operations of
  \<^verbatim>\<open>Dev_Svc_Manager\<close>; undefined behaviour of an operation is passed on.
\<close>

abbreviation (input) CLNT_CLASS_MAX :: u16 where "CLNT_CLASS_MAX \<equiv> 0x100"

record ('m, 'o, 's) IDevSvcManager =
  ops_AddService :: "('m \<Rightarrow> cstr option \<Rightarrow> u16 \<Rightarrow> 'o option \<Rightarrow> cstr option \<Rightarrow> ('m \<times> int) option) option"
  ops_UpdateService :: "('m \<Rightarrow> cstr option \<Rightarrow> u16 \<Rightarrow> 'o option \<Rightarrow> cstr option \<Rightarrow> ('m \<times> int) option) option"
  ops_SubscribeService :: "('m \<Rightarrow> cstr option \<Rightarrow> bool \<Rightarrow> 's subscribe_action) option"
  ops_UnsubscribeService :: "('m \<Rightarrow> cstr option \<Rightarrow> int) option"
  ops_GetService :: "('m \<Rightarrow> cstr option \<Rightarrow> 's option) option"
  ops_GetObject :: "('m \<Rightarrow> cstr option \<Rightarrow> 'o option) option"
  ops_RemoveService :: "('m \<Rightarrow> cstr option \<Rightarrow> 'm option) option"

text \<open>
  The client: NULL, or an instance whose interface pointer may be NULL. The interface is its
  table and the state behind it.
\<close>

type_synonym ('m, 'o, 's) svcmgr_clnt = "(('m, 'o, 's) IDevSvcManager \<times> 'm) option option"

definition clnt_state :: "('m, 'o, 's) svcmgr_clnt \<Rightarrow> 'm \<Rightarrow> ('m, 'o, 's) svcmgr_clnt" where
  "clnt_state c m = map_option (map_option (\<lambda>(ops, _). (ops, m))) c"

definition DevSvcManagerClntAddService ::
  "('m, 'o, 's) svcmgr_clnt \<Rightarrow> cstr option \<Rightarrow> u16 \<Rightarrow> 'o option \<Rightarrow> cstr option \<Rightarrow> (('m, 'o, 's) svcmgr_clnt \<times> int) option" where
  "DevSvcManagerClntAddService c svcName cls service sinfo =
     (case c of
        None \<Rightarrow> Some (c, HDF_FAILURE)
      | Some clnt \<Rightarrow>
          if cls \<ge> CLNT_CLASS_MAX then Some (c, HDF_FAILURE)
          else
            (case clnt of
               None \<Rightarrow> Some (c, HDF_FAILURE)
             | Some (ops, m) \<Rightarrow>
                 (case ops_AddService ops of
                    None \<Rightarrow> Some (c, HDF_FAILURE)
                  | Some f \<Rightarrow>
                      map_option (\<lambda>(m', ret). (clnt_state c m', ret)) (f m svcName cls service sinfo))))"

definition DevSvcManagerClntUpdateService ::
  "('m, 'o, 's) svcmgr_clnt \<Rightarrow> cstr option \<Rightarrow> u16 \<Rightarrow> 'o option \<Rightarrow> cstr option \<Rightarrow> (('m, 'o, 's) svcmgr_clnt \<times> int) option" where
  "DevSvcManagerClntUpdateService c svcName cls service sinfo =
     (case c of
        None \<Rightarrow> Some (c, HDF_FAILURE)
      | Some clnt \<Rightarrow>
          if cls \<ge> CLNT_CLASS_MAX then Some (c, HDF_FAILURE)
          else
            (case clnt of
               None \<Rightarrow> Some (c, HDF_FAILURE)
             | Some (ops, m) \<Rightarrow>
                 (case ops_UpdateService ops of
                    None \<Rightarrow> Some (c, HDF_FAILURE)
                  | Some f \<Rightarrow>
                      map_option (\<lambda>(m', ret). (clnt_state c m', ret)) (f m svcName cls service sinfo))))"

definition DevSvcManagerClntGetService :: "('m, 'o, 's) svcmgr_clnt \<Rightarrow> cstr option \<Rightarrow> 's option" where
  "DevSvcManagerClntGetService c svcName =
     (case c of
        Some (Some (ops, m)) \<Rightarrow> (case ops_GetService ops of None \<Rightarrow> None | Some f \<Rightarrow> f m svcName)
      | _ \<Rightarrow> None)"

definition DevSvcManagerClntGetDeviceObject :: "('m, 'o, 's) svcmgr_clnt \<Rightarrow> cstr option \<Rightarrow> 'o option" where
  "DevSvcManagerClntGetDeviceObject c svcName =
     (case c of
        Some (Some (ops, m)) \<Rightarrow> (case ops_GetObject ops of None \<Rightarrow> None | Some f \<Rightarrow> f m svcName)
      | _ \<Rightarrow> None)"

definition DevSvcManagerClntSubscribeService ::
  "('m, 'o, 's) svcmgr_clnt \<Rightarrow> cstr option \<Rightarrow> bool \<Rightarrow> 's subscribe_action" where
  "DevSvcManagerClntSubscribeService c svcName hasCallback =
     (case c of
        Some (Some (ops, m)) \<Rightarrow>
          (case ops_SubscribeService ops of None \<Rightarrow> SubscribeFails | Some f \<Rightarrow> f m svcName hasCallback)
      | _ \<Rightarrow> SubscribeFails)"

definition DevSvcManagerClntUnsubscribeService :: "('m, 'o, 's) svcmgr_clnt \<Rightarrow> cstr option \<Rightarrow> int" where
  "DevSvcManagerClntUnsubscribeService c svcName =
     (case c of
        Some (Some (ops, m)) \<Rightarrow>
          (case ops_UnsubscribeService ops of None \<Rightarrow> HDF_FAILURE | Some f \<Rightarrow> f m svcName)
      | _ \<Rightarrow> HDF_FAILURE)"

definition DevSvcManagerClntRemoveService ::
  "('m, 'o, 's) svcmgr_clnt \<Rightarrow> cstr option \<Rightarrow> ('m, 'o, 's) svcmgr_clnt option" where
  "DevSvcManagerClntRemoveService c svcName =
     (case c of
        Some (Some (ops, m)) \<Rightarrow>
          (case ops_RemoveService ops of
             None \<Rightarrow> Some c
           | Some f \<Rightarrow> map_option (clnt_state c) (f m svcName))
      | _ \<Rightarrow> Some c)"

text \<open>
  The table of the kernel's manager, for given environments of the calls. The entry of
  \<^verbatim>\<open>UnsubscribeService\<close> is NULL.
\<close>

definition manager_ops ::
  "notify_env \<Rightarrow> svc_alloc \<Rightarrow> bool \<Rightarrow> ('o \<Rightarrow> 's option) \<Rightarrow> ('o DevSvcManager, 'o, 's) IDevSvcManager" where
  "manager_ops env al hasDevmgr objService =
     \<lparr>ops_AddService = Some (\<lambda>m nm cls v i. map_option (\<lambda>(m', r). (the m', r)) (DevSvcManagerAddService env al (Some m) nm cls v i)),
      ops_UpdateService = Some (\<lambda>m nm cls v i. map_option (\<lambda>(m', r). (the m', r)) (DevSvcManagerUpdateService env (sa_info al) (Some m) nm cls v i)),
      ops_SubscribeService = Some (\<lambda>m nm. DevSvcManagerSubscribeService hasDevmgr objService (Some m) nm),
      ops_UnsubscribeService = None,
      ops_GetService = Some (\<lambda>m nm. DevSvcManagerGetService objService (Some m) nm),
      ops_GetObject = Some (\<lambda>m nm. DevSvcManagerGetObject (Some m) nm),
      ops_RemoveService = Some (\<lambda>m nm. map_option the (DevSvcManagerRemoveService env (Some m) nm))\<rparr>"

end
