(* ===== verification/Task_Queue.thy ===== *)
theory Task_Queue
  imports Hdf_Base "HOL-Library.Multiset"
begin

text \<open>
  The task queue of utils/src/hdf_task_queue.c: threads that call \<^verbatim>\<open>HdfTaskEnqueue\<close>,
  workers that run \<^verbatim>\<open>HdfThreadTasker\<close> and a thread that calls
  \<^verbatim>\<open>HdfTaskQueueDestroy\<close>, as three step relations on one state. A step is what a
  thread does between two points where it can be interrupted: the mutex, the semaphore and the
  flag \<^verbatim>\<open>threadRunFlag\<close> are shared, the list is only used under the mutex. The waits of
  the mutex and of the semaphore succeed, as the OSAL documents for valid objects, and
  \<^verbatim>\<open>OsalThreadStart\<close> always starts one more thread that runs the worker. Tasks do
  not use the queue they run on: the worker holds the mutex while it runs them. A worker that leaves
  its loop frees the queue; what a thread does with the freed queue is undefined, and the execution
  ends there.
\<close>

section \<open>State\<close>

datatype tq_owner = OwnWorker nat | OwnProducer nat

text \<open>A caller of \<^verbatim>\<open>HdfTaskEnqueue\<close> with the task it brings.\<close>

datatype enq_pc = EnqCall nat | EnqLocked nat | EnqStarted nat | EnqInserted | EnqUnlocked | EnqDone

datatype tasker_pc = TkCheck | TkWait | TkLock | TkRun | TkUnlock | TkFree | TkExit

datatype destroy_pc = DesNone | DesCall | DesStopped | DesDone

text \<open>The memory of the queue: there, freed by a worker, or used after that.\<close>

datatype queue_mem = TqLive | TqFreed | TqMisused

record HdfTaskQueue =
  tq_memory :: queue_mem
  tq_mutex :: "tq_owner option"
  tq_sem :: nat
  tq_head :: "nat list"
  threadRunFlag :: bool
  tq_taskers :: "tasker_pc list"
  tq_callers :: "enq_pc list"
  tq_destroyer :: destroy_pc
  tq_inserted :: "nat list"
  tq_executed :: "nat list"

text \<open>
  \<^verbatim>\<open>HdfTaskQueueCreate\<close>: the outcomes of the allocation, of the mutex, of the semaphore
  and of the thread creation; the callers to come are part of the state.
\<close>

definition HdfTaskQueueCreate :: "bool \<Rightarrow> bool \<Rightarrow> bool \<Rightarrow> bool \<Rightarrow> nat list \<Rightarrow> destroy_pc \<Rightarrow> HdfTaskQueue option" where
  "HdfTaskQueueCreate allocOk mutexOk semOk threadOk ts d =
     (if \<not> allocOk \<or> \<not> mutexOk \<or> \<not> semOk \<or> \<not> threadOk then None
      else Some \<lparr>tq_memory = TqLive, tq_mutex = None, tq_sem = 0, tq_head = [], threadRunFlag = False, tq_taskers = [],
                 tq_callers = map EnqCall ts, tq_destroyer = d, tq_inserted = [], tq_executed = []\<rparr>)"

text \<open>The flag is set, then a thread starts at the head of the loop, beside the threads that were started before.\<close>

definition hdfQueueStartThread :: "HdfTaskQueue \<Rightarrow> HdfTaskQueue" where
  "hdfQueueStartThread q = q\<lparr>threadRunFlag := True, tq_taskers := tq_taskers q @ [TkCheck]\<rparr>"

definition HdfTaskDequeue :: "HdfTaskQueue \<Rightarrow> HdfTaskQueue \<times> nat option" where
  "HdfTaskDequeue q = (case tq_head q of [] \<Rightarrow> (q, None) | t # ts \<Rightarrow> (q\<lparr>tq_head := ts\<rparr>, Some t))"

section \<open>Steps\<close>

abbreviation set_caller :: "nat \<Rightarrow> enq_pc \<Rightarrow> HdfTaskQueue \<Rightarrow> HdfTaskQueue" where
  "set_caller i pc q \<equiv> q\<lparr>tq_callers := (tq_callers q)[i := pc]\<rparr>"

abbreviation set_worker :: "nat \<Rightarrow> tasker_pc \<Rightarrow> HdfTaskQueue \<Rightarrow> HdfTaskQueue" where
  "set_worker j pc q \<equiv> q\<lparr>tq_taskers := (tq_taskers q)[j := pc]\<rparr>"

abbreviation worker_at :: "HdfTaskQueue \<Rightarrow> nat \<Rightarrow> tasker_pc \<Rightarrow> bool" where
  "worker_at q j pc \<equiv> j < length (tq_taskers q) \<and> tq_taskers q ! j = pc"

abbreviation caller_at :: "HdfTaskQueue \<Rightarrow> nat \<Rightarrow> enq_pc \<Rightarrow> bool" where
  "caller_at q i pc \<equiv> i < length (tq_callers q) \<and> tq_callers q ! i = pc"

text \<open>Every caller that sees the flag clear starts a thread, also after a destruction has cleared it.\<close>

inductive HdfTaskEnqueue_step :: "HdfTaskQueue \<Rightarrow> HdfTaskQueue \<Rightarrow> bool" where
  enq_lock: "caller_at q i (EnqCall t) \<Longrightarrow> tq_mutex q = None \<Longrightarrow>
    HdfTaskEnqueue_step q (set_caller i (EnqLocked t) (q\<lparr>tq_mutex := Some (OwnProducer i)\<rparr>))"
| enq_start: "caller_at q i (EnqLocked t) \<Longrightarrow> \<not> threadRunFlag q \<Longrightarrow>
    HdfTaskEnqueue_step q (set_caller i (EnqStarted t) (hdfQueueStartThread q))"
| enq_running: "caller_at q i (EnqLocked t) \<Longrightarrow> threadRunFlag q \<Longrightarrow>
    HdfTaskEnqueue_step q (set_caller i (EnqStarted t) q)"
| enq_insert: "caller_at q i (EnqStarted t) \<Longrightarrow>
    HdfTaskEnqueue_step q (set_caller i EnqInserted
      (q\<lparr>tq_head := tq_head q @ [t], tq_inserted := tq_inserted q @ [t]\<rparr>))"
| enq_unlock: "caller_at q i EnqInserted \<Longrightarrow>
    HdfTaskEnqueue_step q (set_caller i EnqUnlocked (q\<lparr>tq_mutex := None\<rparr>))"
| enq_post: "caller_at q i EnqUnlocked \<Longrightarrow>
    HdfTaskEnqueue_step q (set_caller i EnqDone (q\<lparr>tq_sem := Suc (tq_sem q)\<rparr>))"

text \<open>On leaving the loop a worker destroys the mutex and the semaphore and frees the queue.\<close>

inductive HdfThreadTasker_step :: "HdfTaskQueue \<Rightarrow> HdfTaskQueue \<Rightarrow> bool" where
  tk_continue: "worker_at q j TkCheck \<Longrightarrow> threadRunFlag q \<Longrightarrow> HdfThreadTasker_step q (set_worker j TkWait q)"
| tk_leave: "worker_at q j TkCheck \<Longrightarrow> \<not> threadRunFlag q \<Longrightarrow> HdfThreadTasker_step q (set_worker j TkFree q)"
| tk_wait: "worker_at q j TkWait \<Longrightarrow> tq_sem q = Suc n \<Longrightarrow>
    HdfThreadTasker_step q (set_worker j TkLock (q\<lparr>tq_sem := n\<rparr>))"
| tk_lock: "worker_at q j TkLock \<Longrightarrow> tq_mutex q = None \<Longrightarrow>
    HdfThreadTasker_step q (set_worker j TkRun (q\<lparr>tq_mutex := Some (OwnWorker j)\<rparr>))"
| tk_task: "worker_at q j TkRun \<Longrightarrow> HdfTaskDequeue q = (q', Some t) \<Longrightarrow>
    HdfThreadTasker_step q (q'\<lparr>tq_executed := tq_executed q @ [t]\<rparr>)"
| tk_drained: "worker_at q j TkRun \<Longrightarrow> HdfTaskDequeue q = (q', None) \<Longrightarrow>
    HdfThreadTasker_step q (set_worker j TkUnlock q')"
| tk_unlock: "worker_at q j TkUnlock \<Longrightarrow>
    HdfThreadTasker_step q (set_worker j TkCheck (q\<lparr>tq_mutex := None\<rparr>))"
| tk_free: "worker_at q j TkFree \<Longrightarrow>
    HdfThreadTasker_step q (set_worker j TkExit (q\<lparr>tq_memory := TqFreed\<rparr>))"

inductive HdfTaskQueueDestroy_step :: "HdfTaskQueue \<Rightarrow> HdfTaskQueue \<Rightarrow> bool" where
  des_stop: "tq_destroyer q = DesCall \<Longrightarrow>
    HdfTaskQueueDestroy_step q (q\<lparr>threadRunFlag := False, tq_destroyer := DesStopped\<rparr>)"
| des_post: "tq_destroyer q = DesStopped \<Longrightarrow>
    HdfTaskQueueDestroy_step q (q\<lparr>tq_sem := Suc (tq_sem q), tq_destroyer := DesDone\<rparr>)"

text \<open>
  The threads take turns while the queue is there. Once it is freed, the next action of any thread
  that has not finished its call or its loop would use freed memory.
\<close>

definition tq_pending :: "HdfTaskQueue \<Rightarrow> bool" where
  "tq_pending q \<longleftrightarrow> (\<exists>pc \<in> set (tq_callers q). pc \<noteq> EnqDone) \<or> (\<exists>pc \<in> set (tq_taskers q). pc \<noteq> TkExit) \<or>
     tq_destroyer q = DesCall \<or> tq_destroyer q = DesStopped"

definition tq_step :: "HdfTaskQueue \<Rightarrow> HdfTaskQueue \<Rightarrow> bool" where
  "tq_step q q' \<longleftrightarrow>
     (case tq_memory q of
        TqLive \<Rightarrow> HdfTaskEnqueue_step q q' \<or> HdfThreadTasker_step q q' \<or> HdfTaskQueueDestroy_step q q'
      | TqFreed \<Rightarrow> tq_pending q \<and> q' = q\<lparr>tq_memory := TqMisused\<rparr>
      | TqMisused \<Rightarrow> False)"

inductive_cases HdfTaskEnqueue_stepE: "HdfTaskEnqueue_step q q'"
inductive_cases HdfThreadTasker_stepE: "HdfThreadTasker_step q q'"
inductive_cases HdfTaskQueueDestroy_stepE: "HdfTaskQueueDestroy_step q q'"

lemma tq_step_cases [consumes 1, case_names enqueue worker destroy misuse]:
  assumes "tq_step q q'"
  obtains "HdfTaskEnqueue_step q q'" "tq_memory q = TqLive" | "HdfThreadTasker_step q q'" "tq_memory q = TqLive"
    | "HdfTaskQueueDestroy_step q q'" "tq_memory q = TqLive" | "tq_memory q = TqFreed" "q' = q\<lparr>tq_memory := TqMisused\<rparr>"
  using assms by (auto simp: tq_step_def split: queue_mem.splits)

lemma HdfTaskDequeue_simps:
  "HdfTaskDequeue q = (q', Some t) \<longleftrightarrow> (\<exists>ts. tq_head q = t # ts \<and> q' = q\<lparr>tq_head := ts\<rparr>)"
  "HdfTaskDequeue q = (q', None) \<longleftrightarrow> tq_head q = [] \<and> q' = q"
  by (auto simp: HdfTaskDequeue_def split: list.splits)

section \<open>Every execution ends\<close>

text \<open>Each step uses up some of the work that is left.\<close>

fun enq_work :: "enq_pc \<Rightarrow> nat" where
  "enq_work (EnqCall t) = 14" | "enq_work (EnqLocked t) = 13" | "enq_work (EnqStarted t) = 10"
| "enq_work EnqInserted = 8" | "enq_work EnqUnlocked = 7" | "enq_work EnqDone = 0"

fun tasker_work :: "tasker_pc \<Rightarrow> nat" where
  "tasker_work TkCheck = 2" | "tasker_work TkWait = 0" | "tasker_work TkLock = 5" | "tasker_work TkRun = 4"
| "tasker_work TkUnlock = 3" | "tasker_work TkFree = 1" | "tasker_work TkExit = 0"

fun destroy_work :: "destroy_pc \<Rightarrow> nat" where
  "destroy_work DesNone = 0" | "destroy_work DesCall = 8" | "destroy_work DesStopped = 7" | "destroy_work DesDone = 0"

fun memory_work :: "queue_mem \<Rightarrow> nat" where
  "memory_work TqLive = 1" | "memory_work TqFreed = 1" | "memory_work TqMisused = 0"

definition tq_work :: "HdfTaskQueue \<Rightarrow> nat" where
  "tq_work q = sum_list (map enq_work (tq_callers q)) + 6 * tq_sem q + length (tq_head q) +
     sum_list (map tasker_work (tq_taskers q)) + destroy_work (tq_destroyer q) + memory_work (tq_memory q)"

lemma sum_list_set:
  fixes f :: "'a \<Rightarrow> nat"
  assumes "i < length pcs \<and> pcs ! i = p" "f p' + n = f p"
  shows "sum_list (map f (pcs[i := p'])) + n = sum_list (map f pcs)"
proof -
  have "f (pcs ! i) \<le> sum_list (map f pcs)"
    using assms(1) elem_le_sum_list [of i "map f pcs"] by simp
  then show ?thesis
    using assms by (simp add: map_update sum_list_update)
qed

lemma sum_list_grow:
  fixes f :: "'a \<Rightarrow> nat"
  assumes "i < length pcs \<and> pcs ! i = p" "f p' = f p + n"
  shows "sum_list (map f (pcs[i := p'])) = sum_list (map f pcs) + n"
proof -
  have "f (pcs ! i) \<le> sum_list (map f pcs)"
    using assms(1) elem_le_sum_list [of i "map f pcs"] by simp
  then show ?thesis
    using assms by (simp add: map_update sum_list_update)
qed

lemma enqueue_work: "HdfTaskEnqueue_step q q' \<Longrightarrow> tq_work q' < tq_work q"
proof (induction rule: HdfTaskEnqueue_step.induct)
  case (enq_lock q i t)
  then show ?case using sum_list_set [where f = enq_work, OF enq_lock(1), of "EnqLocked t" 1] by (simp add: tq_work_def)
next
  case (enq_start q i t)
  then show ?case using sum_list_set [where f = enq_work, OF enq_start(1), of "EnqStarted t" 3]
    by (simp add: tq_work_def hdfQueueStartThread_def)
next
  case (enq_running q i t)
  then show ?case using sum_list_set [where f = enq_work, OF enq_running(1), of "EnqStarted t" 3] by (simp add: tq_work_def)
next
  case (enq_insert q i t)
  then show ?case using sum_list_set [where f = enq_work, OF enq_insert(1), of EnqInserted 2] by (simp add: tq_work_def)
next
  case (enq_unlock q i)
  then show ?case using sum_list_set [where f = enq_work, OF enq_unlock(1), of EnqUnlocked 1] by (simp add: tq_work_def)
next
  case (enq_post q i)
  then show ?case using sum_list_set [where f = enq_work, OF enq_post(1), of EnqDone 7] by (simp add: tq_work_def)
qed

lemma worker_work: "HdfThreadTasker_step q q' \<Longrightarrow> tq_memory q = TqLive \<Longrightarrow> tq_work q' < tq_work q"
proof (induction rule: HdfThreadTasker_step.induct)
  case (tk_continue q j)
  then show ?case using sum_list_set [where f = tasker_work, OF tk_continue(1), of TkWait 2] by (simp add: tq_work_def)
next
  case (tk_leave q j)
  then show ?case using sum_list_set [where f = tasker_work, OF tk_leave(1), of TkFree 1] by (simp add: tq_work_def)
next
  case (tk_wait q j n)
  then show ?case using sum_list_grow [where f = tasker_work, OF tk_wait(1), of TkLock 5] by (simp add: tq_work_def)
next
  case (tk_lock q j)
  then show ?case using sum_list_set [where f = tasker_work, OF tk_lock(1), of TkRun 1] by (simp add: tq_work_def)
next
  case (tk_task q j q' t)
  then show ?case by (auto simp: tq_work_def HdfTaskDequeue_simps)
next
  case (tk_drained q j q')
  then show ?case using sum_list_set [where f = tasker_work, OF tk_drained(1), of TkUnlock 1]
    by (auto simp: tq_work_def HdfTaskDequeue_simps)
next
  case (tk_unlock q j)
  then show ?case using sum_list_set [where f = tasker_work, OF tk_unlock(1), of TkCheck 1] by (simp add: tq_work_def)
next
  case (tk_free q j)
  then show ?case using sum_list_set [where f = tasker_work, OF tk_free(1), of TkExit 1] by (simp add: tq_work_def)
qed

lemma tq_step_work:
  assumes "tq_step q q'"
  shows "tq_work q' < tq_work q"
  using assms
proof (cases rule: tq_step_cases)
  case destroy
  from destroy(1) show ?thesis by cases (auto simp: tq_work_def)
qed (simp_all add: enqueue_work worker_work, simp add: tq_work_def)

section \<open>Invariant while the queue is not destroyed\<close>

fun in_section :: "enq_pc \<Rightarrow> bool" where
  "in_section (EnqLocked t) \<longleftrightarrow> True" | "in_section (EnqStarted t) \<longleftrightarrow> True" | "in_section EnqInserted \<longleftrightarrow> True"
| "in_section _ \<longleftrightarrow> False"

fun brought :: "enq_pc \<Rightarrow> nat multiset" where
  "brought (EnqCall t) = {#t#}" | "brought (EnqLocked t) = {#t#}" | "brought (EnqStarted t) = {#t#}"
| "brought _ = {#}"

definition worker_in :: "HdfTaskQueue \<Rightarrow> bool" where
  "worker_in q \<longleftrightarrow> TkRun \<in> set (tq_taskers q) \<or> TkUnlock \<in> set (tq_taskers q)"

definition mutex_inv :: "HdfTaskQueue \<Rightarrow> bool" where
  "mutex_inv q \<longleftrightarrow>
     (case tq_mutex q of
        None \<Rightarrow> \<not> worker_in q \<and> (\<forall>i < length (tq_callers q). \<not> in_section (tq_callers q ! i))
      | Some (OwnWorker j) \<Rightarrow> worker_in q \<and> (\<forall>i < length (tq_callers q). \<not> in_section (tq_callers q ! i))
      | Some (OwnProducer j) \<Rightarrow> \<not> worker_in q \<and> caller_at q j (tq_callers q ! j) \<and> in_section (tq_callers q ! j) \<and>
          (\<forall>i < length (tq_callers q). i \<noteq> j \<longrightarrow> \<not> in_section (tq_callers q ! i)))"

lemma section_owner:
  assumes "mutex_inv q" "caller_at q i p" "in_section p"
  shows "tq_mutex q = Some (OwnProducer i)"
  using assms by (auto simp: mutex_inv_def split: option.splits tq_owner.splits)

lemma worker_owner: "mutex_inv q \<Longrightarrow> worker_in q \<Longrightarrow> \<exists>j. tq_mutex q = Some (OwnWorker j)"
  by (auto simp: mutex_inv_def split: option.splits tq_owner.splits)

text \<open>A task in the list is about to be seen: a wake-up is on its way or the worker is.\<close>

definition wakeup_inv :: "HdfTaskQueue \<Rightarrow> bool" where
  "wakeup_inv q \<longleftrightarrow> (tq_head q \<noteq> [] \<longrightarrow>
     0 < tq_sem q \<or> TkLock \<in> set (tq_taskers q) \<or> TkRun \<in> set (tq_taskers q) \<or>
     (\<exists>i. caller_at q i EnqInserted \<or> caller_at q i EnqUnlocked))"

lemma wakeup_other:
  assumes "wakeup_inv q" "caller_at q i p" "p \<noteq> EnqInserted" "p \<noteq> EnqUnlocked"
    and "tq_head q' = tq_head q" "tq_sem q' = tq_sem q" "tq_taskers q' = tq_taskers q" "tq_callers q' = (tq_callers q)[i := p']"
  shows "wakeup_inv q'"
proof -
  have "caller_at q' j pc" if "caller_at q j pc" "pc = EnqInserted \<or> pc = EnqUnlocked" for j pc
    using that assms(2-4,8) by (auto simp: nth_list_update)
  then show ?thesis using assms(1,5-7) unfolding wakeup_inv_def by metis
qed

text \<open>There is one worker, from the first caller on, and it neither leaves its loop nor frees the queue.\<close>

definition flag_inv :: "HdfTaskQueue \<Rightarrow> bool" where
  "flag_inv q \<longleftrightarrow> tq_destroyer q = DesNone \<and> tq_memory q = TqLive \<and>
     (if threadRunFlag q
      then (\<exists>pc. tq_taskers q = [pc] \<and> pc \<noteq> TkFree \<and> pc \<noteq> TkExit \<and> (pc = TkUnlock \<longrightarrow> tq_head q = []))
      else tq_taskers q = [] \<and> tq_head q = []) \<and>
     (\<forall>i t. caller_at q i (EnqStarted t) \<longrightarrow> threadRunFlag q)"

lemma flag_other:
  assumes "flag_inv q" "caller_at q i p" "\<forall>t. p' = EnqStarted t \<longrightarrow> threadRunFlag q"
    and "tq_taskers q' = tq_taskers q" "threadRunFlag q' = threadRunFlag q" "tq_destroyer q' = tq_destroyer q"
    and "tq_memory q' = tq_memory q" "tq_callers q' = (tq_callers q)[i := p']"
    and "tq_head q' = tq_head q \<or> threadRunFlag q \<and> tq_taskers q \<noteq> [TkUnlock]"
  shows "flag_inv q'"
proof -
  have "threadRunFlag q'" if "caller_at q' j (EnqStarted t)" for j t
  proof (cases "j = i")
    case True
    then show ?thesis using that assms(2,3,5,8) by auto
  next
    case False
    then have "caller_at q j (EnqStarted t)" using that assms(8) by simp
    then show ?thesis using assms(1,5) unfolding flag_inv_def by blast
  qed
  then show ?thesis using assms(1,4-7,9) by (auto simp: flag_inv_def split: if_splits)
qed

text \<open>A step of the worker changes its position, the semaphore, the mutex and the list.\<close>

lemma flag_worker:
  assumes "flag_inv q" "worker_at q j pc"
  shows "threadRunFlag q" "tq_taskers q = [pc]" "j = 0" "pc \<noteq> TkFree" "pc = TkUnlock \<Longrightarrow> tq_head q = []"
  using assms by (auto simp: flag_inv_def split: if_splits)

definition tasks_inv :: "nat list \<Rightarrow> HdfTaskQueue \<Rightarrow> bool" where
  "tasks_inv ts q \<longleftrightarrow> tq_inserted q = tq_executed q @ tq_head q \<and>
     mset ts = mset (tq_inserted q) + sum_list (map brought (tq_callers q))"

lemma sum_list_brought:
  assumes "i < length pcs"
  shows "sum_list (map brought (pcs[i := p])) + brought (pcs ! i) = sum_list (map brought pcs) + brought p"
  using assms
proof (induction pcs arbitrary: i)
  case (Cons x xs)
  show ?case
  proof (cases i)
    case (Suc j)
    then have "sum_list (map brought (xs[j := p])) + brought (xs ! j) = sum_list (map brought xs) + brought p"
      using Cons.IH [of j] Cons.prems by simp
    then have "brought x + (sum_list (map brought (xs[j := p])) + brought (xs ! j)) = brought x + (sum_list (map brought xs) + brought p)"
      by (rule arg_cong)
    then show ?thesis using Suc by (simp only: list_update.simps list.map sum_list.Cons nth_Cons_Suc add.assoc nat.case)
  next
    case 0
    have "brought p + sum_list (map brought xs) + brought x = brought x + sum_list (map brought xs) + brought p"
      by (simp only: ac_simps)
    then show ?thesis using 0 by (simp only: list_update.simps list.map sum_list.Cons nth_Cons_0 nat.case)
  qed
qed simp

lemma tasks_inv_caller:
  assumes "tasks_inv ts q" "caller_at q i p" "brought p' = brought p"
  shows "mset ts = mset (tq_inserted q) + sum_list (map brought ((tq_callers q)[i := p']))"
  using assms sum_list_brought [of i "tq_callers q" p'] by (auto simp: tasks_inv_def)

definition tq_inv :: "nat list \<Rightarrow> HdfTaskQueue \<Rightarrow> bool" where
  "tq_inv ts q \<longleftrightarrow> mutex_inv q \<and> wakeup_inv q \<and> flag_inv q \<and> tasks_inv ts q"

lemma enqueue_inv:
  assumes "HdfTaskEnqueue_step q q'" "tq_inv ts q"
  shows "tq_inv ts q'"
proof -
  have inv: "mutex_inv q" "wakeup_inv q" "flag_inv q" "tasks_inv ts q" using assms(2) by (simp_all add: tq_inv_def)
  have m: "mutex_inv q'" using assms(1)
  proof cases
    case (enq_lock i t)
    then show ?thesis using inv(1) by (simp add: mutex_inv_def worker_in_def nth_list_update)
  next
    case (enq_start i t)
    then show ?thesis using inv(1) section_owner [OF inv(1), of i "EnqLocked t"]
      by (simp add: mutex_inv_def worker_in_def nth_list_update hdfQueueStartThread_def)
  next
    case (enq_running i t)
    then show ?thesis using inv(1) section_owner [OF inv(1), of i "EnqLocked t"]
      by (simp add: mutex_inv_def worker_in_def nth_list_update)
  next
    case (enq_insert i t)
    then show ?thesis using inv(1) section_owner [OF inv(1), of i "EnqStarted t"]
      by (simp add: mutex_inv_def worker_in_def nth_list_update)
  next
    case (enq_unlock i)
    then show ?thesis using inv(1) section_owner [OF inv(1), of i EnqInserted]
      by (simp add: mutex_inv_def worker_in_def nth_list_update)
  next
    case (enq_post i)
    then show ?thesis using inv(1)
      by (auto simp: mutex_inv_def worker_in_def nth_list_update split: option.splits tq_owner.splits)
  qed
  have w: "wakeup_inv q'" using assms(1)
  proof cases
    case (enq_lock i t)
    then show ?thesis by (intro wakeup_other [OF inv(2), of i "EnqCall t"]) simp_all
  next
    case (enq_start i t)
    then show ?thesis using inv(3) by (simp add: wakeup_inv_def hdfQueueStartThread_def flag_inv_def)
  next
    case (enq_running i t)
    then show ?thesis by (intro wakeup_other [OF inv(2), of i "EnqLocked t"]) simp_all
  next
    case (enq_insert i t)
    then show ?thesis by (auto simp: wakeup_inv_def intro!: exI [of _ i])
  next
    case (enq_unlock i)
    then show ?thesis by (auto simp: wakeup_inv_def intro!: exI [of _ i])
  next
    case (enq_post i)
    then show ?thesis by (simp add: wakeup_inv_def)
  qed
  have "tq_taskers q \<noteq> [TkUnlock]" if "caller_at q i (EnqStarted t)" for i t
    using section_owner [OF inv(1) that] worker_owner [OF inv(1)] by (auto simp: worker_in_def)
  note idle = this
  have f: "flag_inv q'" using assms(1)
  proof cases
    case (enq_lock i t)
    then show ?thesis by (intro flag_other [OF inv(3), of i "EnqCall t"]) simp_all
  next
    case (enq_start i t)
    then show ?thesis using inv(3) by (simp add: flag_inv_def hdfQueueStartThread_def)
  next
    case (enq_running i t)
    then show ?thesis by (intro flag_other [OF inv(3), of i "EnqLocked t"]) simp_all
  next
    case (enq_insert i t)
    moreover have "threadRunFlag q" using inv(3) enq_insert(2) unfolding flag_inv_def by blast
    ultimately show ?thesis
      using inv(3) idle [of i t] by (intro flag_other [OF inv(3), of i "EnqStarted t"]) simp_all
  next
    case (enq_unlock i)
    then show ?thesis by (intro flag_other [OF inv(3), of i EnqInserted]) simp_all
  next
    case (enq_post i)
    then show ?thesis by (intro flag_other [OF inv(3), of i EnqUnlocked]) simp_all
  qed
  have t: "tasks_inv ts q'" using assms(1)
  proof cases
    case (enq_lock i t)
    then show ?thesis using inv(4) tasks_inv_caller [OF inv(4), of i _ "EnqLocked t"] by (auto simp: tasks_inv_def)
  next
    case (enq_start i t)
    then show ?thesis using inv(4) tasks_inv_caller [OF inv(4), of i _ "EnqStarted t"]
      by (auto simp: tasks_inv_def hdfQueueStartThread_def)
  next
    case (enq_running i t)
    then show ?thesis using inv(4) tasks_inv_caller [OF inv(4), of i _ "EnqStarted t"] by (auto simp: tasks_inv_def)
  next
    case (enq_insert i t)
    then show ?thesis using inv(4) sum_list_brought [of i "tq_callers q" EnqInserted] by (auto simp: tasks_inv_def)
  next
    case (enq_unlock i)
    then show ?thesis using inv(4) tasks_inv_caller [OF inv(4), of i _ EnqUnlocked] by (auto simp: tasks_inv_def)
  next
    case (enq_post i)
    then show ?thesis using inv(4) tasks_inv_caller [OF inv(4), of i _ EnqDone] by (auto simp: tasks_inv_def)
  qed
  show ?thesis using m w f t by (simp add: tq_inv_def)
qed

lemma worker_inv:
  assumes "HdfThreadTasker_step q q'" "tq_inv ts q"
  shows "tq_inv ts q'"
proof -
  have inv: "mutex_inv q" "wakeup_inv q" "flag_inv q" "tasks_inv ts q" using assms(2) by (simp_all add: tq_inv_def)
  have "mutex_inv q'" using assms(1)
  proof cases
    case (tk_lock j)
    then show ?thesis using inv(1) flag_worker [OF inv(3) tk_lock(2)] by (simp add: mutex_inv_def worker_in_def)
  next
    case (tk_unlock j)
    then show ?thesis using inv(1) worker_owner [OF inv(1)] flag_worker [OF inv(3) tk_unlock(2)]
      by (auto simp: mutex_inv_def worker_in_def)
  qed (use inv(1) flag_worker [OF inv(3)] in
      \<open>fastforce simp: mutex_inv_def worker_in_def HdfTaskDequeue_simps split: option.splits tq_owner.splits\<close>)+
  moreover have "wakeup_inv q'" using assms(1)
  proof cases
    case (tk_unlock j)
    then show ?thesis using flag_worker [OF inv(3) tk_unlock(2)] by (simp add: wakeup_inv_def)
  qed (use inv(2) flag_worker [OF inv(3)] in \<open>fastforce simp: wakeup_inv_def HdfTaskDequeue_simps\<close>)+
  moreover have "flag_inv q'" using assms(1)
    by cases (use inv(3) flag_worker [OF inv(3)] in \<open>fastforce simp: flag_inv_def HdfTaskDequeue_simps split: if_splits\<close>)+
  moreover have "tasks_inv ts q'" using assms(1) inv(4) by cases (auto simp: tasks_inv_def HdfTaskDequeue_simps)
  ultimately show ?thesis by (simp add: tq_inv_def)
qed

lemma tq_step_inv:
  assumes "tq_step q q'" "tq_inv ts q"
  shows "tq_inv ts q'"
  using assms(1)
proof (cases rule: tq_step_cases)
  case destroy
  from destroy(1) show ?thesis using assms(2) by cases (auto simp: tq_inv_def flag_inv_def)
next
  case misuse
  then show ?thesis using assms(2) by (simp add: tq_inv_def flag_inv_def)
qed (use assms(2) enqueue_inv worker_inv in blast)+

lemma tq_create_inv:
  assumes "HdfTaskQueueCreate a m s t ts DesNone = Some q"
  shows "tq_inv ts q"
proof -
  have "sum_list (map (brought \<circ> EnqCall) ts) = mset ts" by (induction ts) auto
  then show ?thesis
    using assms by (auto simp: HdfTaskQueueCreate_def tq_inv_def mutex_inv_def worker_in_def wakeup_inv_def flag_inv_def tasks_inv_def split: if_splits)
qed

lemma tq_reach_inv: "tq_step\<^sup>*\<^sup>* q q' \<Longrightarrow> tq_inv ts q \<Longrightarrow> tq_inv ts q'"
  by (induction rule: rtranclp_induct) (auto intro: tq_step_inv)
section \<open>Properties\<close>

text \<open>
  C28. Every execution ends: with \<^verbatim>\<open>n\<close> callers, whatever the interleaving, and also if a
  destruction runs before, between or after the callers and callers start new workers after it, at
  most 14n + 9 steps are taken by the callers, the workers and the destruction. An execution in which
  a worker frees the queue while another thread has still to use it ends with that use.
\<close>

theorem task_queue_terminates:
  assumes "HdfTaskQueueCreate a m s t ts d = Some q" "(tq_step ^^ n) q q'"
  shows "n \<le> 14 * length ts + 9"
proof -
  have "n + tq_work q' \<le> tq_work q"
    using assms(2)
  proof (induction n arbitrary: q')
    case (Suc n)
    then obtain p where "(tq_step ^^ n) q p" "tq_step p q'" by auto
    then show ?case using Suc.IH [of p] tq_step_work [of p q'] by simp
  qed simp
  moreover have "sum_list (map (enq_work \<circ> EnqCall) ts) = 14 * length ts" by (induction ts) auto
  then have "tq_work q = 14 * length ts + 1 + destroy_work d"
    using assms(1) by (auto simp: HdfTaskQueueCreate_def tq_work_def split: if_splits)
  moreover have "destroy_work d \<le> 8" by (cases d) simp_all
  ultimately show ?thesis by simp
qed

text \<open>Running a schedule: the successive states are given, each a step from the one before.\<close>

abbreviation tq_state :: "tq_owner option \<Rightarrow> nat \<Rightarrow> nat list \<Rightarrow> bool \<Rightarrow> tasker_pc list \<Rightarrow> enq_pc list \<Rightarrow> destroy_pc \<Rightarrow> nat list \<Rightarrow> nat list \<Rightarrow> HdfTaskQueue" where
  "tq_state mtx sm hds flag tk cs des ins ex \<equiv> \<lparr>tq_memory = TqLive, tq_mutex = mtx, tq_sem = sm, tq_head = hds, threadRunFlag = flag,
     tq_taskers = tk, tq_callers = cs, tq_destroyer = des, tq_inserted = ins, tq_executed = ex\<rparr>"

lemma enqueue_steps:
  "HdfTaskEnqueue_step (tq_state None sm hds flag tk (cs0 @ EnqCall t # cs) des ins ex)
     (tq_state (Some (OwnProducer (length cs0))) sm hds flag tk (cs0 @ EnqLocked t # cs) des ins ex)"
  "HdfTaskEnqueue_step (tq_state mtx sm hds False tk (cs0 @ EnqLocked t # cs) des ins ex)
     (tq_state mtx sm hds True (tk @ [TkCheck]) (cs0 @ EnqStarted t # cs) des ins ex)"
  "HdfTaskEnqueue_step (tq_state mtx sm hds flag tk (cs0 @ EnqStarted t # cs) des ins ex)
     (tq_state mtx sm (hds @ [t]) flag tk (cs0 @ EnqInserted # cs) des (ins @ [t]) ex)"
  "HdfTaskEnqueue_step (tq_state mtx sm hds flag tk (cs0 @ EnqInserted # cs) des ins ex)
     (tq_state None sm hds flag tk (cs0 @ EnqUnlocked # cs) des ins ex)"
  "HdfTaskEnqueue_step (tq_state mtx sm hds flag tk (cs0 @ EnqUnlocked # cs) des ins ex)
     (tq_state mtx (Suc sm) hds flag tk (cs0 @ EnqDone # cs) des ins ex)"
  using enq_lock [of "length cs0" "tq_state None sm hds flag tk (cs0 @ EnqCall t # cs) des ins ex" t]
    enq_start [of "length cs0" "tq_state mtx sm hds False tk (cs0 @ EnqLocked t # cs) des ins ex" t]
    enq_insert [of "length cs0" "tq_state mtx sm hds flag tk (cs0 @ EnqStarted t # cs) des ins ex" t]
    enq_unlock [of "length cs0" "tq_state mtx sm hds flag tk (cs0 @ EnqInserted # cs) des ins ex"]
    enq_post [of "length cs0" "tq_state mtx sm hds flag tk (cs0 @ EnqUnlocked # cs) des ins ex"]
  by (simp_all add: hdfQueueStartThread_def)

lemma tasker_steps:
  "HdfThreadTasker_step (tq_state mtx sm hds True (TkCheck # tk) cs des ins ex) (tq_state mtx sm hds True (TkWait # tk) cs des ins ex)"
  "HdfThreadTasker_step (tq_state mtx sm hds False (TkCheck # tk) cs des ins ex) (tq_state mtx sm hds False (TkFree # tk) cs des ins ex)"
  "HdfThreadTasker_step (tq_state mtx (Suc sm) hds flag (TkWait # tk) cs des ins ex) (tq_state mtx sm hds flag (TkLock # tk) cs des ins ex)"
  "HdfThreadTasker_step (tq_state None sm hds flag (TkLock # tk) cs des ins ex) (tq_state (Some (OwnWorker 0)) sm hds flag (TkRun # tk) cs des ins ex)"
  "HdfThreadTasker_step (tq_state mtx sm (t # hds) flag (TkRun # tk) cs des ins ex) (tq_state mtx sm hds flag (TkRun # tk) cs des ins (ex @ [t]))"
  "HdfThreadTasker_step (tq_state mtx sm [] flag (TkRun # tk) cs des ins ex) (tq_state mtx sm [] flag (TkUnlock # tk) cs des ins ex)"
  "HdfThreadTasker_step (tq_state mtx sm hds flag (TkUnlock # tk) cs des ins ex) (tq_state None sm hds flag (TkCheck # tk) cs des ins ex)"
  "HdfThreadTasker_step (tq_state mtx sm hds flag (TkFree # tk) cs des ins ex)
     ((tq_state mtx sm hds flag (TkExit # tk) cs des ins ex)\<lparr>tq_memory := TqFreed\<rparr>)"
  using tk_continue [of 0 "tq_state mtx sm hds True (TkCheck # tk) cs des ins ex"] tk_leave [of 0 "tq_state mtx sm hds False (TkCheck # tk) cs des ins ex"]
    tk_wait [of 0 "tq_state mtx (Suc sm) hds flag (TkWait # tk) cs des ins ex" sm] tk_lock [of 0 "tq_state None sm hds flag (TkLock # tk) cs des ins ex"]
    tk_task [of 0 "tq_state mtx sm (t # hds) flag (TkRun # tk) cs des ins ex"] tk_drained [of 0 "tq_state mtx sm [] flag (TkRun # tk) cs des ins ex"]
    tk_unlock [of 0 "tq_state mtx sm hds flag (TkUnlock # tk) cs des ins ex"] tk_free [of 0 "tq_state mtx sm hds flag (TkFree # tk) cs des ins ex"]
  by (simp_all add: HdfTaskDequeue_def)

lemma destroy_steps:
  "HdfTaskQueueDestroy_step (tq_state mtx sm hds flag tk cs DesCall ins ex) (tq_state mtx sm hds False tk cs DesStopped ins ex)"
  "HdfTaskQueueDestroy_step (tq_state mtx sm hds flag tk cs DesStopped ins ex) (tq_state mtx (Suc sm) hds flag tk cs DesDone ins ex)"
  using des_stop [of "tq_state mtx sm hds flag tk cs DesCall ins ex"] des_post [of "tq_state mtx sm hds flag tk cs DesStopped ins ex"]
  by simp_all

lemmas tq_moves = enqueue_steps [THEN disjI1] tasker_steps [THEN disjI1, THEN disjI2] destroy_steps [THEN disjI2, THEN disjI2]

lemma tq_move:
  "HdfTaskEnqueue_step q q' \<or> HdfThreadTasker_step q q' \<or> HdfTaskQueueDestroy_step q q' \<Longrightarrow> tq_memory q = TqLive \<Longrightarrow>
    tq_step\<^sup>*\<^sup>* q' q'' \<Longrightarrow> tq_step\<^sup>*\<^sup>* q q''"
  by (rule converse_rtranclp_into_rtranclp) (simp add: tq_step_def)

lemma tq_moves_n:
  "HdfTaskEnqueue_step q q' \<or> HdfThreadTasker_step q q' \<or> HdfTaskQueueDestroy_step q q' \<Longrightarrow> tq_memory q = TqLive \<Longrightarrow>
    (tq_step ^^ n) q' q'' \<Longrightarrow> (tq_step ^^ Suc n) q q''"
  by (rule relpowp_Suc_I2) (simp_all add: tq_step_def)

text \<open>A caller enqueues its task.\<close>

lemma enqueue_run:
  assumes "flag = False \<and> tk' = tk @ [TkCheck] \<or> flag = True \<and> tk' = tk"
  shows "(tq_step ^^ 5) (tq_state None sm hds flag tk (cs0 @ EnqCall t # cs) des ins ex)
    (tq_state None (Suc sm) (hds @ [t]) True tk' (cs0 @ EnqDone # cs) des (ins @ [t]) ex)"
proof -
  have start: "HdfTaskEnqueue_step (tq_state mtx sm hds flag tk (cs0 @ EnqLocked t # cs) des ins ex)
      (tq_state mtx sm hds True tk' (cs0 @ EnqStarted t # cs) des ins ex)" for mtx
    using assms enqueue_steps(2) enq_running [of "length cs0" "tq_state mtx sm hds flag tk (cs0 @ EnqLocked t # cs) des ins ex" t] by auto
  have "(tq_step ^^ Suc (Suc (Suc (Suc (Suc 0))))) (tq_state None sm hds flag tk (cs0 @ EnqCall t # cs) des ins ex)
    (tq_state None (Suc sm) (hds @ [t]) True tk' (cs0 @ EnqDone # cs) des (ins @ [t]) ex)"
    by (rule tq_moves_n, rule tq_moves(1), simp, rule tq_moves_n, rule start [THEN disjI1], simp, rule tq_moves_n, rule tq_moves(3), simp,
        rule tq_moves_n, rule tq_moves(4), simp, rule tq_moves_n, rule tq_moves(5), simp, simp)
  then show ?thesis by (simp add: eval_nat_numeral)
qed

lemma created [simp]:
  "HdfTaskQueueCreate True True True True ts d = Some (tq_state None 0 [] False [] (map EnqCall ts) d [] [])"
  by (simp add: HdfTaskQueueCreate_def)

text \<open>A second caller after the destruction starts a second worker, beside the first one, which has not left its loop.\<close>

theorem task_queue_terminates_witness:
  "\<exists>q q'. HdfTaskQueueCreate True True True True [5, 6] DesCall = Some q \<and> (tq_step ^^ 11) q q' \<and>
     tq_taskers q' = [TkCheck, TkCheck] \<and> (11 :: nat) \<le> 37"
proof -
  let ?q = "tq_state None 0 [] False [] [EnqCall 5, EnqCall 6] DesCall [] []"
  have "(tq_step ^^ 5) ?q (tq_state None 1 [5] True [TkCheck] [EnqDone, EnqCall 6] DesCall [5] [])"
    using enqueue_run [of False "[TkCheck]" "[]" 0 "[]" "[]" 5 "[EnqCall 6]" DesCall "[]" "[]"] by simp
  moreover have "(tq_step ^^ Suc 5) (tq_state None 1 [5] True [TkCheck] [EnqDone, EnqCall 6] DesCall [5] [])
      (tq_state None 2 [5, 6] True [TkCheck, TkCheck] [EnqDone, EnqDone] DesStopped [5, 6] [])"
    by (rule tq_moves_n, rule tq_moves(14), simp)
      (use enqueue_run [of False "[TkCheck, TkCheck]" "[TkCheck]" 1 "[5]" "[EnqDone]" 6 "[]" DesStopped "[5]" "[]"] in \<open>simp add: eval_nat_numeral\<close>)
  ultimately have s: "(tq_step ^^ (5 + Suc 5)) ?q (tq_state None 2 [5, 6] True [TkCheck, TkCheck] [EnqDone, EnqDone] DesStopped [5, 6] [])"
    unfolding relpowp_add by (rule relcomppI)
  have c: "HdfTaskQueueCreate True True True True [5, 6] DesCall = Some ?q" by simp
  have "(11 :: nat) \<le> 37" using task_queue_terminates [OF c s] by simp
  moreover have "(tq_step ^^ 11) ?q (tq_state None 2 [5, 6] True [TkCheck, TkCheck] [EnqDone, EnqDone] DesStopped [5, 6] [])"
    using s by simp
  moreover have "tq_taskers (tq_state None 2 [5, 6] True [TkCheck, TkCheck] [EnqDone, EnqDone] DesStopped [5, 6] []) = [TkCheck, TkCheck]"
    by (rule HdfTaskQueue.select_convs)
  ultimately show ?thesis using c by blast
qed

text \<open>A state in which nothing can move is one in which everything is done.\<close>

lemma tq_stuck:
  assumes inv: "tq_inv ts q" and stuck: "\<And>q'. \<not> tq_step q q'"
  shows "tq_head q = []" "\<forall>pc \<in> set (tq_callers q). pc = EnqDone"
proof -
  have i: "mutex_inv q" "wakeup_inv q" "flag_inv q" using inv by (simp_all add: tq_inv_def)
  have nw: "\<not> HdfThreadTasker_step q q'" and ne: "\<not> HdfTaskEnqueue_step q q'" for q'
    using stuck i(3) by (auto simp: tq_step_def flag_inv_def)
  have tk: "tq_taskers q \<noteq> [TkCheck]" "tq_taskers q \<noteq> [TkUnlock]"
    using nw tk_continue [of 0 q] tk_leave [of 0 q] tk_unlock [of 0 q] by force+
  have run: "tq_taskers q \<noteq> [TkRun]"
  proof
    assume "tq_taskers q = [TkRun]"
    then have "worker_at q 0 TkRun" by simp
    then show False using nw tk_task [of 0 q] tk_drained [of 0 q] by (metis HdfTaskDequeue_def list.case list.exhaust)
  qed
  have no: "\<not> in_section pc" "pc \<noteq> EnqUnlocked" if pc: "caller_at q j pc" for j pc
  proof
    assume "in_section pc"
    then show False
    proof (cases pc)
      case (EnqLocked t)
      then show False using ne enq_start [of j q t] enq_running [of j q t] pc by blast
    next
      case (EnqStarted t)
      then show False using ne enq_insert [of j q t] pc by blast
    next
      case EnqInserted
      then show False using ne enq_unlock [of j q] pc by blast
    qed simp_all
  next
    show "pc \<noteq> EnqUnlocked" using ne enq_post [of j q] pc by blast
  qed
  have one: "tq_taskers q = [] \<and> tq_head q = [] \<or> (\<exists>pc. tq_taskers q = [pc] \<and> pc \<noteq> TkFree \<and> pc \<noteq> TkExit)"
    using i(3) by (auto simp: flag_inv_def split: if_splits)
  have free: "tq_mutex q = None"
    using i(1) no tk(2) run one by (auto simp: mutex_inv_def worker_in_def split: option.splits tq_owner.splits)
  then have "tq_taskers q \<noteq> [TkLock]" using nw tk_lock [of 0 q] by force
  moreover have "tq_taskers q = [TkWait] \<longrightarrow> tq_sem q = 0" using nw tk_wait [of 0 q] by (cases "tq_sem q") auto
  moreover have "\<not> (caller_at q j EnqInserted \<or> caller_at q j EnqUnlocked)" for j
    using no [of j EnqInserted] no [of j EnqUnlocked] by auto
  ultimately show "tq_head q = []"
    using i(2) tk run one unfolding wakeup_inv_def by (elim disjE exE conjE; simp) (metis empty_iff empty_set list.set(2) not_gr0 set_ConsD tasker_pc.exhaust)
  show "\<forall>pc \<in> set (tq_callers q). pc = EnqDone"
  proof
    fix pc assume "pc \<in> set (tq_callers q)"
    then obtain j where j: "caller_at q j pc" by (auto simp: in_set_conv_nth)
    show "pc = EnqDone"
    proof (cases pc)
      case (EnqCall t)
      then show ?thesis using ne enq_lock [of j q t] j free by blast
    qed (use no [OF j] in auto)
  qed
qed

text \<open>
  C27. No task is lost. While the queue is not destroyed, whatever the interleaving: tasks are
  executed in the order in which they were inserted, and an execution can only stop when every
  caller has returned and every task has been executed exactly once.
\<close>

theorem task_queue_completes:
  assumes "HdfTaskQueueCreate a m s t ts DesNone = Some q" "tq_step\<^sup>*\<^sup>* q q'"
  shows "(\<exists>rest. tq_inserted q' = tq_executed q' @ rest) \<and>
    ((\<nexists>q''. tq_step q' q'') \<longrightarrow> mset (tq_executed q') = mset ts \<and> tq_head q' = [] \<and>
       set (tq_callers q') \<subseteq> {EnqDone})"
proof -
  have inv: "tq_inv ts q'" using tq_reach_inv [OF assms(2) tq_create_inv [OF assms(1)]] .
  then have ti: "tq_inserted q' = tq_executed q' @ tq_head q'" "mset ts = mset (tq_inserted q') + sum_list (map brought (tq_callers q'))"
    by (simp_all add: tq_inv_def tasks_inv_def)
  have "mset (tq_executed q') = mset ts \<and> tq_head q' = [] \<and> set (tq_callers q') \<subseteq> {EnqDone}" if st: "\<nexists>q''. tq_step q' q''"
  proof -
    have h: "tq_head q' = []" "\<forall>pc \<in> set (tq_callers q'). pc = EnqDone" using tq_stuck [OF inv] st by blast+
    have "sum_list (map brought pcs) = {#}" if "\<forall>pc \<in> set pcs. pc = EnqDone" for pcs
      using that by (induction pcs) auto
    then show ?thesis using ti h by auto
  qed
  then show ?thesis using ti(1) by blast
qed

theorem task_queue_completes_witness:
  "\<exists>q q'. HdfTaskQueueCreate True True True True [5] DesNone = Some q \<and> tq_step\<^sup>*\<^sup>* q q' \<and> tq_executed q' = [5] \<and>
     (\<exists>rest. tq_inserted q' = tq_executed q' @ rest)"
proof -
  let ?q = "tq_state None 0 [] False [] [EnqCall 5] DesNone [] []"
  have c: "HdfTaskQueueCreate True True True True [5] DesNone = Some ?q" by simp
  have "tq_step\<^sup>*\<^sup>* ?q (tq_state None (Suc 0) [5] True [TkCheck] [EnqDone] DesNone [5] [])"
    using relpowp_imp_rtranclp [OF enqueue_run [of False "[TkCheck]" "[]" 0 "[]" "[]" 5 "[]" DesNone "[]" "[]"]] by simp
  also have "tq_step\<^sup>*\<^sup>* \<dots> (tq_state (Some (OwnWorker 0)) 0 [] True [TkRun] [EnqDone] DesNone [5] ([] @ [5]))"
    by (rule tq_move, rule tq_moves(6), simp, rule tq_move, rule tq_moves(8), simp, rule tq_move, rule tq_moves(9), simp,
        rule tq_move, rule tq_moves(10), simp, rule rtranclp.rtrancl_refl)
  finally have s: "tq_step\<^sup>*\<^sup>* ?q (tq_state (Some (OwnWorker 0)) 0 [] True [TkRun] [EnqDone] DesNone [5] ([] @ [5]))" .
  from task_queue_completes [OF c s] s c show ?thesis by auto
qed

text \<open>
  C29. Destroying the queue can lose a task that was enqueued completely before the call: the
  worker tests the flag before it waits, and leaves without looking at the list. Here a task is
  inserted and its semaphore posted while the worker is at the test.
\<close>

theorem task_queue_destroy_loses_task:
  assumes "HdfTaskQueueCreate True True True True [t] DesCall = Some q"
  shows "\<exists>q1 q2. tq_step\<^sup>*\<^sup>* q q1 \<and> set (tq_callers q1) = {EnqDone} \<and> tq_destroyer q1 = DesCall \<and>
    tq_step\<^sup>*\<^sup>* q1 q2 \<and> tq_taskers q2 = [TkExit] \<and> tq_head q2 = [t] \<and> tq_executed q2 = [] \<and> tq_memory q2 = TqFreed"
proof -
  have q: "q = tq_state None 0 [] False [] [EnqCall t] DesCall [] []" using assms by simp
  let ?q1 = "tq_state None (Suc 0) [t] True [TkCheck] [EnqDone] DesCall [t] []"
  have "tq_step\<^sup>*\<^sup>* q ?q1"
    using relpowp_imp_rtranclp [OF enqueue_run [of False "[TkCheck]" "[]" 0 "[]" "[]" t "[]" DesCall "[]" "[]"]] unfolding q by simp
  moreover have "tq_step\<^sup>*\<^sup>* ?q1 ((tq_state None (Suc (Suc 0)) [t] False [TkExit] [EnqDone] DesDone [t] [])\<lparr>tq_memory := TqFreed\<rparr>)"
    by (rule tq_move, rule tq_moves(14), simp, rule tq_move, rule tq_moves(15), simp, rule tq_move, rule tq_moves(7), simp,
        rule tq_move, rule tq_moves(13), simp, rule rtranclp.rtrancl_refl)
  ultimately show ?thesis
    by (intro exI [of _ ?q1] exI [of _ "(tq_state None (Suc (Suc 0)) [t] False [TkExit] [EnqDone] DesDone [t] [])\<lparr>tq_memory := TqFreed\<rparr>"]) simp
qed

theorem task_queue_destroy_loses_task_witness:
  "\<exists>q2 :: HdfTaskQueue. tq_taskers q2 = [TkExit] \<and> tq_head q2 = [7] \<and> tq_executed q2 = []"
proof -
  have "HdfTaskQueueCreate True True True True [7] DesCall = Some (tq_state None 0 [] False [] [EnqCall 7] DesCall [] [])" by simp
  from task_queue_destroy_loses_task [OF this] show ?thesis by blast
qed

text \<open>
  The destruction itself can use the freed queue: a worker that sees the cleared flag may free the
  queue before \<^verbatim>\<open>hdfQueueStopThread\<close> posts the semaphore in it.
\<close>

lemma task_queue_destroy_uses_freed:
  "\<exists>q q'. HdfTaskQueueCreate True True True True [t] DesCall = Some q \<and> tq_step\<^sup>*\<^sup>* q q' \<and> set (tq_callers q') = {EnqDone} \<and>
     tq_destroyer q' = DesStopped \<and> tq_memory q' = TqMisused"
proof -
  let ?q = "tq_state None 0 [] False [] [EnqCall t] DesCall [] []"
  let ?q2 = "(tq_state None (Suc 0) [t] False [TkExit] [EnqDone] DesStopped [t] [])\<lparr>tq_memory := TqFreed\<rparr>"
  have "tq_step\<^sup>*\<^sup>* ?q (tq_state None (Suc 0) [t] True [TkCheck] [EnqDone] DesCall [t] [])"
    using relpowp_imp_rtranclp [OF enqueue_run [of False "[TkCheck]" "[]" 0 "[]" "[]" t "[]" DesCall "[]" "[]"]] by simp
  also have "tq_step\<^sup>*\<^sup>* \<dots> ?q2"
    by (rule tq_move, rule tq_moves(14), simp, rule tq_move, rule tq_moves(7), simp, rule tq_move, rule tq_moves(13), simp,
        rule rtranclp.rtrancl_refl)
  also have "tq_step ?q2 (?q2\<lparr>tq_memory := TqMisused\<rparr>)" by (simp add: tq_step_def tq_pending_def)
  finally show ?thesis by (intro exI [of _ ?q] exI [of _ "?q2\<lparr>tq_memory := TqMisused\<rparr>"]) simp
qed

end
