(* ===== verification/Service_Observer.thy ===== *)
theory Service_Observer
  imports Hdf_Cstring
begin

text \<open>
  The service observer of a host (core/host/src/hdf_service_observer.c, hdf_observer_record.c,
  hdf_service_subscriber.c): subscribers wait under the key of a service name for its publication.
  The two linked lists are lists here, with \<^verbatim>\<open>HdfSListAdd\<close> at the front and
  \<^verbatim>\<open>HdfSListSearch\<close> from the front (theory Hdf_Slist has the pointer structure).
  The calls of \<^verbatim>\<open>OnServiceConnected\<close> are recorded with the object they are made on and
  the service they are given; the callbacks do not call back into the observer.
\<close>

section \<open>Data\<close>

abbreviation (input) SERVICE_POLICY_PRIVATE :: u16 where "SERVICE_POLICY_PRIVATE \<equiv> 4"
abbreviation (input) HDF_SUBSCRIBER_STATE_PENDING :: u32 where "HDF_SUBSCRIBER_STATE_PENDING \<equiv> 0"
abbreviation (input) HDF_SUBSCRIBER_STATE_READY :: u32 where "HDF_SUBSCRIBER_STATE_READY \<equiv> 1"

text \<open>\<^verbatim>\<open>connects\<close> tells whether \<^verbatim>\<open>OnServiceConnected\<close> is set.\<close>

record 'd SubscriberCallback =
  cb_deviceObject :: 'd
  cb_connects :: bool

record 'd HdfServiceSubscriber =
  sub_state :: u32
  sub_devId :: u32
  sub_callback :: "'d SubscriberCallback"

record ('d, 's) HdfServiceObserverRecord =
  serviceKey :: u32
  obs_policy :: u16
  obs_devId :: u32
  subscribers :: "'d HdfServiceSubscriber list"
  publisher :: "'s option"

record ('d, 's) HdfServiceObserver =
  obs_services :: "('d, 's) HdfServiceObserverRecord list"

type_synonym ('d, 's) connected = "('d \<times> 's option) list"

section \<open>Operations\<close>

definition HdfServiceSubscriberObtain :: "bool \<Rightarrow> 'd SubscriberCallback \<Rightarrow> u32 \<Rightarrow> 'd HdfServiceSubscriber option" where
  "HdfServiceSubscriberObtain allocOk callback devid =
     (if allocOk
      then Some \<lparr>sub_state = HDF_SUBSCRIBER_STATE_PENDING, sub_devId = devid, sub_callback = callback\<rparr>
      else None)"

definition HdfServiceObserverRecordObtain :: "bool \<Rightarrow> bool \<Rightarrow> u32 \<Rightarrow> ('d, 's) HdfServiceObserverRecord option" where
  "HdfServiceObserverRecordObtain allocOk mutexOk key =
     (if \<not> allocOk \<or> \<not> mutexOk then None
      else Some \<lparr>serviceKey = key, obs_policy = 0, obs_devId = 0, subscribers = [], publisher = None\<rparr>)"

definition HdfServiceObserverRecordCompare :: "('d, 's) HdfServiceObserverRecord option \<Rightarrow> u32 \<Rightarrow> bool" where
  "HdfServiceObserverRecordCompare listEntry key =
     (case listEntry of None \<Rightarrow> False | Some r \<Rightarrow> if serviceKey r = key then True else False)"

text \<open>One round of the loop that notifies the subscribers, and the loop from the front.\<close>

definition notify_subscriber ::
  "u32 \<Rightarrow> u16 \<Rightarrow> 's option \<Rightarrow> 'd HdfServiceSubscriber \<Rightarrow> 'd HdfServiceSubscriber \<times> ('d, 's) connected" where
  "notify_subscriber dev policy service s =
     (if dev = sub_devId s \<or> policy \<noteq> SERVICE_POLICY_PRIVATE
      then (s\<lparr>sub_state := HDF_SUBSCRIBER_STATE_READY\<rparr>,
            if cb_connects (sub_callback s) then [(cb_deviceObject (sub_callback s), service)] else [])
      else (s, []))"

definition HdfServiceObserverRecordNotifySubscribers ::
  "u32 \<Rightarrow> u16 \<Rightarrow> ('d, 's) HdfServiceObserverRecord \<Rightarrow> ('d, 's) HdfServiceObserverRecord \<times> ('d, 's) connected" where
  "HdfServiceObserverRecordNotifySubscribers dev policy r =
     (let outcomes = map (notify_subscriber dev policy (publisher r)) (subscribers r)
      in (r\<lparr>subscribers := map fst outcomes\<rparr>, concat (map snd outcomes)))"

fun update_observed ::
  "u32 \<Rightarrow> ('d, 's) HdfServiceObserverRecord \<Rightarrow> ('d, 's) HdfServiceObserverRecord list \<Rightarrow> ('d, 's) HdfServiceObserverRecord list" where
  "update_observed k r' [] = []"
| "update_observed k r' (r # rs) = (if serviceKey r = k then r' # rs else r # update_observed k r' rs)"

abbreviation observed :: "u32 \<Rightarrow> ('d, 's) HdfServiceObserver \<Rightarrow> ('d, 's) HdfServiceObserverRecord option" where
  "observed k ob \<equiv> find (\<lambda>r. HdfServiceObserverRecordCompare (Some r) k) (obs_services ob)"

definition HdfServiceObserverConstruct :: "bool \<Rightarrow> ('d, 's) HdfServiceObserver \<Rightarrow> ('d, 's) HdfServiceObserver \<times> bool" where
  "HdfServiceObserverConstruct mutexOk ob = (if \<not> mutexOk then (ob, False) else (ob\<lparr>obs_services := []\<rparr>, True))"

definition HdfServiceObserverDestruct :: "('d, 's) HdfServiceObserver \<Rightarrow> ('d, 's) HdfServiceObserver" where
  "HdfServiceObserverDestruct ob = ob\<lparr>obs_services := []\<rparr>"

record obs_alloc =
  rec_ok :: bool
  rec_mutex_ok :: bool
  sub_ok :: bool

text \<open>The end of a subscription: the subscriber is connected at once if the service is there.\<close>

definition subscribe_record ::
  "u32 \<Rightarrow> 'd HdfServiceSubscriber \<Rightarrow> ('d, 's) HdfServiceObserverRecord \<Rightarrow> ('d, 's) HdfServiceObserverRecord \<times> ('d, 's) connected" where
  "subscribe_record devid s r =
     (if publisher r \<noteq> None \<and> cb_connects (sub_callback s) \<and>
         (obs_policy r \<noteq> SERVICE_POLICY_PRIVATE \<or> obs_devId r = devid)
      then (r\<lparr>subscribers := s\<lparr>sub_state := HDF_SUBSCRIBER_STATE_READY\<rparr> # subscribers r\<rparr>,
            [(cb_deviceObject (sub_callback s), publisher r)])
      else (r\<lparr>subscribers := s # subscribers r\<rparr>, []))"

definition HdfServiceObserverSubscribeService ::
  "obs_alloc \<Rightarrow> ('d, 's) HdfServiceObserver option \<Rightarrow> cstr option \<Rightarrow> u32 \<Rightarrow> 'd SubscriberCallback \<Rightarrow>
   ('d, 's) HdfServiceObserver option \<times> int \<times> ('d, 's) connected" where
  "HdfServiceObserverSubscribeService al observer svcName devid callback =
     (let key = HdfStringMakeHashKey svcName 0 in
      (case (observer, svcName) of
         (Some ob, Some _) \<Rightarrow>
           (case observed key ob of
              None \<Rightarrow>
                (case HdfServiceObserverRecordObtain (rec_ok al) (rec_mutex_ok al) key of
                   None \<Rightarrow> (observer, HDF_FAILURE, [])
                 | Some r \<Rightarrow>
                     (case HdfServiceSubscriberObtain (sub_ok al) callback devid of
                        None \<Rightarrow> (observer, HDF_FAILURE, [])
                      | Some s \<Rightarrow>
                          (case subscribe_record devid s r of
                             (r', ev) \<Rightarrow> (Some (ob\<lparr>obs_services := r' # obs_services ob\<rparr>), HDF_SUCCESS, ev))))
            | Some r \<Rightarrow>
                (case HdfServiceSubscriberObtain (sub_ok al) callback devid of
                   None \<Rightarrow> (observer, HDF_FAILURE, [])
                 | Some s \<Rightarrow>
                     (case subscribe_record devid s r of
                        (r', ev) \<Rightarrow> (Some (ob\<lparr>obs_services := update_observed key r' (obs_services ob)\<rparr>), HDF_SUCCESS, ev))))
       | _ \<Rightarrow> (observer, HDF_FAILURE, [])))"

definition HdfServiceObserverPublishService ::
  "obs_alloc \<Rightarrow> ('d, 's) HdfServiceObserver option \<Rightarrow> cstr option \<Rightarrow> u32 \<Rightarrow> u16 \<Rightarrow> 's option \<Rightarrow>
   ('d, 's) HdfServiceObserver option \<times> int \<times> ('d, 's) connected" where
  "HdfServiceObserverPublishService al observer svcName devId policy service =
     (let key = HdfStringMakeHashKey svcName 0 in
      (case (observer, svcName) of
         (Some ob, Some _) \<Rightarrow>
           (case observed key ob of
              None \<Rightarrow>
                (case HdfServiceObserverRecordObtain (rec_ok al) (rec_mutex_ok al) key of
                   None \<Rightarrow> (observer, HDF_FAILURE, [])
                 | Some r \<Rightarrow>
                     (Some (ob\<lparr>obs_services := r\<lparr>publisher := service, obs_devId := devId, obs_policy := policy\<rparr> # obs_services ob\<rparr>),
                      HDF_SUCCESS, []))
            | Some r \<Rightarrow>
                (case HdfServiceObserverRecordNotifySubscribers devId policy (r\<lparr>publisher := service\<rparr>) of
                   (r', ev) \<Rightarrow> (Some (ob\<lparr>obs_services := update_observed key r' (obs_services ob)\<rparr>), HDF_SUCCESS, ev)))
       | _ \<Rightarrow> (observer, HDF_FAILURE, [])))"

fun remove_observed :: "u32 \<Rightarrow> ('d, 's) HdfServiceObserverRecord list \<Rightarrow> ('d, 's) HdfServiceObserverRecord list" where
  "remove_observed k [] = []"
| "remove_observed k (r # rs) = (if serviceKey r = k then rs else r # remove_observed k rs)"

definition HdfServiceObserverRemoveRecord ::
  "('d, 's) HdfServiceObserver option \<Rightarrow> cstr option \<Rightarrow> ('d, 's) HdfServiceObserver option" where
  "HdfServiceObserverRemoveRecord observer svcName =
     (let key = HdfStringMakeHashKey svcName 0 in
      (case (observer, svcName) of
         (Some ob, Some _) \<Rightarrow>
           (case observed key ob of
              Some r \<Rightarrow> Some (ob\<lparr>obs_services := remove_observed key (obs_services ob)\<rparr>)
            | None \<Rightarrow> observer)
       | _ \<Rightarrow> observer))"
section \<open>Lookup after update\<close>

lemma observed_compare: "HdfServiceObserverRecordCompare (Some r) k \<longleftrightarrow> serviceKey r = k"
  by (simp add: HdfServiceObserverRecordCompare_def)

abbreviation keys_of :: "('d, 's) HdfServiceObserverRecord list \<Rightarrow> u32 list" where
  "keys_of rs \<equiv> map serviceKey rs"

abbreviation at_key :: "u32 \<Rightarrow> ('d, 's) HdfServiceObserverRecord list \<Rightarrow> ('d, 's) HdfServiceObserverRecord option" where
  "at_key k rs \<equiv> find (\<lambda>r. serviceKey r = k) rs"

lemma at_key_update:
  "serviceKey r' = k \<Longrightarrow>
   at_key k' (update_observed k r' rs) = (if k' = k \<and> at_key k rs \<noteq> None then Some r' else at_key k' rs)"
  by (induction rs) auto

lemma keys_update: "serviceKey r' = k \<Longrightarrow> keys_of (update_observed k r' rs) = keys_of rs"
  by (induction rs) auto

lemma at_key_None: "at_key k rs = None \<longleftrightarrow> k \<notin> set (keys_of rs)"
  by (auto simp: find_None_iff)

lemma at_key_SomeD: "at_key k rs = Some r \<Longrightarrow> serviceKey r = k"
  by (auto simp: find_Some_iff)

lemma keys_remove: "set (keys_of (remove_observed k rs)) \<subseteq> set (keys_of rs)"
  by (induction rs) auto

lemma distinct_keys_remove: "distinct (keys_of rs) \<Longrightarrow> distinct (keys_of (remove_observed k rs))"
  using keys_remove by (induction rs) (fastforce simp: subset_iff)+

lemma at_key_remove:
  "distinct (keys_of rs) \<Longrightarrow> at_key k' (remove_observed k rs) = (if k' = k then None else at_key k' rs)"
  by (induction rs) (auto simp: at_key_None find_None_iff)

section \<open>Requests\<close>

datatype ('d, 's) obs_req =
    ObsSubscribe cstr u32 "'d SubscriberCallback"
  | ObsPublish cstr u32 u16 's
  | ObsRemove cstr

abbreviation all_ok :: obs_alloc where
  "all_ok \<equiv> \<lparr>rec_ok = True, rec_mutex_ok = True, sub_ok = True\<rparr>"

abbreviation name_key :: "cstr \<Rightarrow> u32" where
  "name_key n \<equiv> HdfStringMakeHashKey (Some n) 0"

fun obs_request :: "('d, 's) obs_req \<Rightarrow> ('d, 's) HdfServiceObserver option \<Rightarrow> ('d, 's) HdfServiceObserver option \<times> int \<times> ('d, 's) connected" where
  "obs_request (ObsSubscribe n dev cb) ob = HdfServiceObserverSubscribeService all_ok ob (Some n) dev cb"
| "obs_request (ObsPublish n dev policy s) ob = HdfServiceObserverPublishService all_ok ob (Some n) dev policy (Some s)"
| "obs_request (ObsRemove n) ob = (HdfServiceObserverRemoveRecord ob (Some n), HDF_SUCCESS, [])"

fun obs_run :: "('d, 's) obs_req list \<Rightarrow> ('d, 's) HdfServiceObserver option \<Rightarrow> int list \<times> ('d, 's) connected" where
  "obs_run [] ob = ([], [])"
| "obs_run (q # qs) ob =
     (case obs_request q ob of (ob', ret, ev) \<Rightarrow> (case obs_run qs ob' of (rets, evs) \<Rightarrow> (ret # rets, ev @ evs)))"

text \<open>
  What the object \<^verbatim>\<open>d\<close> is to be told: the service that is there when it subscribes, and
  every later publication once for each of its subscriptions.
\<close>

fun obs_spec :: "'d \<Rightarrow> ('d, 's) obs_req \<Rightarrow> (u32 \<Rightarrow> nat) \<times> (u32 \<rightharpoonup> 's) \<Rightarrow> ((u32 \<Rightarrow> nat) \<times> (u32 \<rightharpoonup> 's)) \<times> 's list" where
  "obs_spec d (ObsSubscribe n dev cb) (w, cur) =
     (if cb_connects cb \<and> cb_deviceObject cb = d
      then ((w(name_key n := Suc (w (name_key n))), cur), case cur (name_key n) of None \<Rightarrow> [] | Some s \<Rightarrow> [s])
      else ((w, cur), []))"
| "obs_spec d (ObsPublish n dev policy s) (w, cur) = ((w, cur(name_key n \<mapsto> s)), replicate (w (name_key n)) s)"
| "obs_spec d (ObsRemove n) (w, cur) = ((w(name_key n := 0), cur(name_key n := None)), [])"

fun connects :: "'d \<Rightarrow> ('d, 's) obs_req list \<Rightarrow> (u32 \<Rightarrow> nat) \<times> (u32 \<rightharpoonup> 's) \<Rightarrow> 's list" where
  "connects d [] st = []"
| "connects d (q # qs) st = (case obs_spec d q st of (st', out) \<Rightarrow> out @ connects d qs st')"

definition told :: "'d \<Rightarrow> ('d, 's) connected \<Rightarrow> 's option list" where
  "told d evs = map snd (filter (\<lambda>e. fst e = d) evs)"

definition waiting :: "'d \<Rightarrow> 'd HdfServiceSubscriber list \<Rightarrow> nat" where
  "waiting d ss = length (filter (\<lambda>s. cb_connects (sub_callback s) \<and> cb_deviceObject (sub_callback s) = d) ss)"

definition obs_inv :: "'d \<Rightarrow> (u32 \<Rightarrow> nat) \<Rightarrow> (u32 \<rightharpoonup> 's) \<Rightarrow> ('d, 's) HdfServiceObserverRecord list \<Rightarrow> bool" where
  "obs_inv d w cur rs \<longleftrightarrow> distinct (keys_of rs) \<and>
     (\<forall>k. case at_key k rs of
            None \<Rightarrow> w k = 0 \<and> cur k = None
          | Some r \<Rightarrow> w k = waiting d (subscribers r) \<and> cur k = publisher r \<and> obs_policy r \<noteq> SERVICE_POLICY_PRIVATE)"

definition obs_public :: "('d, 's) obs_req \<Rightarrow> bool" where
  "obs_public q \<longleftrightarrow> (case q of ObsPublish n dev policy s \<Rightarrow> policy \<noteq> SERVICE_POLICY_PRIVATE | _ \<Rightarrow> True)"

lemma told_append [simp]: "told d (xs @ ys) = told d xs @ told d ys"
  by (simp add: told_def)

lemma told_Nil [simp]: "told d [] = []"
  by (simp add: told_def)

lemma notify_all:
  assumes "policy \<noteq> SERVICE_POLICY_PRIVATE"
  shows "told d (concat (map (\<lambda>s. snd (notify_subscriber dev policy p s)) ss)) = replicate (waiting d ss) p"
    and "waiting d (map (\<lambda>s. fst (notify_subscriber dev policy p s)) ss) = waiting d ss"
  using assms by (induction ss) (auto simp: told_def waiting_def notify_subscriber_def)

lemma subscribe_record_facts:
  assumes "subscribe_record dev \<lparr>sub_state = st, sub_devId = dev, sub_callback = cb\<rparr> r = (r', ev)"
    and "obs_policy r \<noteq> SERVICE_POLICY_PRIVATE"
  shows "serviceKey r' = serviceKey r" "publisher r' = publisher r" "obs_policy r' = obs_policy r"
    and "waiting d (subscribers r') =
           (if cb_connects cb \<and> cb_deviceObject cb = d then Suc (waiting d (subscribers r)) else waiting d (subscribers r))"
    and "told d ev = (if cb_connects cb \<and> cb_deviceObject cb = d then (case publisher r of None \<Rightarrow> [] | Some s \<Rightarrow> [Some s]) else [])"
  using assms by (auto simp: subscribe_record_def waiting_def told_def split: if_splits option.splits)

lemma obs_invI:
  assumes "distinct (keys_of rs)"
    and "\<And>k. at_key k rs = None \<Longrightarrow> w k = 0 \<and> cur k = None"
    and "\<And>k r. at_key k rs = Some r \<Longrightarrow>
           w k = waiting d (subscribers r) \<and> cur k = publisher r \<and> obs_policy r \<noteq> SERVICE_POLICY_PRIVATE"
  shows "obs_inv d w cur rs"
  using assms by (auto simp: obs_inv_def split: option.splits)

lemma obs_invD:
  assumes "obs_inv d w cur rs"
  shows "distinct (keys_of rs)"
    and "at_key k rs = None \<Longrightarrow> w k = 0 \<and> cur k = None"
    and "at_key k rs = Some r \<Longrightarrow>
           w k = waiting d (subscribers r) \<and> cur k = publisher r \<and> obs_policy r \<noteq> SERVICE_POLICY_PRIVATE"
  using assms by (auto simp: obs_inv_def split: option.splits dest: spec [of _ k])

text \<open>The two ways in which a request changes the records keep the invariant.\<close>

lemma obs_inv_update:
  assumes "obs_inv d w cur rs" "at_key k rs \<noteq> None" "serviceKey r' = k" "obs_policy r' \<noteq> SERVICE_POLICY_PRIVATE"
  shows "obs_inv d (w(k := waiting d (subscribers r'))) (cur(k := publisher r')) (update_observed k r' rs)"
  using assms obs_invD [OF assms(1)]
  by (intro obs_invI) (auto simp: at_key_update keys_update split: if_splits)

lemma obs_inv_add:
  assumes "obs_inv d w cur rs" "at_key k rs = None" "serviceKey r' = k" "obs_policy r' \<noteq> SERVICE_POLICY_PRIVATE"
  shows "obs_inv d (w(k := waiting d (subscribers r'))) (cur(k := publisher r')) (r' # rs)"
  using assms obs_invD [OF assms(1)]
  by (intro obs_invI) (auto simp: at_key_None split: if_splits)

lemma obs_inv_remove:
  assumes "obs_inv d w cur rs"
  shows "obs_inv d (w(k := 0)) (cur(k := None)) (remove_observed k rs)"
  using obs_invD [OF assms]
  by (intro obs_invI) (auto simp: at_key_remove distinct_keys_remove split: if_splits)

lemma obs_subscribe_step:
  fixes ob :: "('d, 's) HdfServiceObserver"
  assumes inv: "obs_inv d w cur (obs_services ob)"
  shows "\<exists>ob' ev w' cur'. obs_request (ObsSubscribe n dev cb) (Some ob) = (Some ob', HDF_SUCCESS, ev) \<and>
    obs_spec d (ObsSubscribe n dev cb) (w, cur) = ((w', cur'), map the (told d ev)) \<and> None \<notin> set (told d ev) \<and>
    obs_inv d w' cur' (obs_services ob')"
proof -
  let ?k = "name_key n" and ?s = "\<lparr>sub_state = HDF_SUBSCRIBER_STATE_PENDING, sub_devId = dev, sub_callback = cb\<rparr>"
  show ?thesis
  proof (cases "at_key ?k (obs_services ob)")
    case None
    let ?r = "\<lparr>serviceKey = ?k, obs_policy = 0, obs_devId = 0, subscribers = [], publisher = None\<rparr> :: ('d, 's) HdfServiceObserverRecord"
    obtain r' ev where r': "subscribe_record dev ?s ?r = (r', ev)"
      by (cases "subscribe_record dev ?s ?r")
    note f = subscribe_record_facts(1-3) [OF r'] subscribe_record_facts(4,5) [OF r', of d]
    note n = obs_invD(2) [OF inv None]
    have w0: "waiting d [] = 0" by (simp add: waiting_def)
    have inv': "obs_inv d (w(?k := waiting d (subscribers r'))) (cur(?k := publisher r')) (r' # obs_services ob)"
      using f by (intro obs_inv_add [OF inv None]) simp_all
    have q: "obs_request (ObsSubscribe n dev cb) (Some ob) = (Some (ob\<lparr>obs_services := r' # obs_services ob\<rparr>), HDF_SUCCESS, ev)"
      using None r' by (simp add: HdfServiceObserverSubscribeService_def observed_compare HdfServiceObserverRecordObtain_def
          HdfServiceSubscriberObtain_def)
    show ?thesis
      using q inv' f n w0
      by (cases "cb_connects cb \<and> cb_deviceObject cb = d") (auto simp: fun_upd_idem simp del: obs_request.simps)
  next
    case (Some r)
    obtain r' ev where r': "subscribe_record dev ?s r = (r', ev)"
      by (cases "subscribe_record dev ?s r")
    note r = obs_invD(3) [OF inv Some] at_key_SomeD [OF Some]
    note f = subscribe_record_facts(1-3) [OF r'] subscribe_record_facts(4,5) [OF r', of d]
    have inv': "obs_inv d (w(?k := waiting d (subscribers r'))) (cur(?k := publisher r')) (update_observed ?k r' (obs_services ob))"
      using f r Some by (intro obs_inv_update [OF inv]) simp_all
    have q: "obs_request (ObsSubscribe n dev cb) (Some ob) =
        (Some (ob\<lparr>obs_services := update_observed ?k r' (obs_services ob)\<rparr>), HDF_SUCCESS, ev)"
      using Some r' by (simp add: HdfServiceObserverSubscribeService_def observed_compare HdfServiceSubscriberObtain_def)
    have c: "cur ?k = publisher r" "w ?k = waiting d (subscribers r)" "publisher r' = publisher r"
      and pol: "obs_policy r \<noteq> SERVICE_POLICY_PRIVATE"
      using r f by auto
    have ww: "waiting d (subscribers r') = (if cb_connects cb \<and> cb_deviceObject cb = d then Suc (w ?k) else w ?k)"
      and tt: "told d ev = (if cb_connects cb \<and> cb_deviceObject cb = d then (case cur ?k of None \<Rightarrow> [] | Some s \<Rightarrow> [Some s]) else [])"
      and pp: "publisher r' = cur ?k"
      using f(4,5) [OF pol] c by (simp_all only:)
    have "obs_spec d (ObsSubscribe n dev cb) (w, cur) =
        ((w(?k := waiting d (subscribers r')), cur(?k := publisher r')), map the (told d ev))"
      unfolding ww tt pp fun_upd_triv by (cases "cur ?k") simp_all
    moreover have "None \<notin> set (told d ev)"
      unfolding tt
      by (cases "cb_connects cb \<and> cb_deviceObject cb = d"; cases "cur ?k")
        (simp_all only: if_True if_False option.case list.set empty_iff insert_iff, simp_all)
    ultimately show ?thesis
      using q inv' by (intro exI conjI) (assumption | simp)+
  qed
qed

lemma obs_publish_step:
  assumes inv: "obs_inv d w cur (obs_services ob)" and pol: "policy \<noteq> SERVICE_POLICY_PRIVATE"
  shows "\<exists>ob' ev w' cur'. obs_request (ObsPublish n dev policy s) (Some ob) = (Some ob', HDF_SUCCESS, ev) \<and>
    obs_spec d (ObsPublish n dev policy s) (w, cur) = ((w', cur'), map the (told d ev)) \<and> None \<notin> set (told d ev) \<and>
    obs_inv d w' cur' (obs_services ob')"
proof (cases "at_key (name_key n) (obs_services ob)")
  case None
  from obs_inv_add [OF inv None, of "\<lparr>serviceKey = name_key n, obs_policy = policy, obs_devId = dev, subscribers = [], publisher = Some s\<rparr>"]
  show ?thesis
    using None pol obs_invD(2) [OF inv None]
    by (simp add: HdfServiceObserverPublishService_def Let_def observed_compare HdfServiceObserverRecordObtain_def
        waiting_def fun_upd_idem)
next
  case (Some r)
  note r = obs_invD(3) [OF inv Some] at_key_SomeD [OF Some]
  obtain r' ev where r': "HdfServiceObserverRecordNotifySubscribers dev policy (r\<lparr>publisher := Some s\<rparr>) = (r', ev)"
    by (cases "HdfServiceObserverRecordNotifySubscribers dev policy (r\<lparr>publisher := Some s\<rparr>)")
  then have "serviceKey r' = name_key n" "publisher r' = Some s" "obs_policy r' \<noteq> SERVICE_POLICY_PRIVATE"
    and "waiting d (subscribers r') = w (name_key n)" "told d ev = replicate (w (name_key n)) (Some s)"
    using r notify_all [OF pol, of d dev "Some s" "subscribers r"]
    by (auto simp: HdfServiceObserverRecordNotifySubscribers_def Let_def comp_def)
  with obs_inv_update [OF inv, of "name_key n" r'] show ?thesis
    using Some r' by (simp add: HdfServiceObserverPublishService_def Let_def observed_compare)
qed

lemma obs_remove_step:
  assumes "obs_inv d w cur (obs_services ob)"
  shows "\<exists>ob' ev w' cur'. obs_request (ObsRemove n) (Some ob) = (Some ob', HDF_SUCCESS, ev) \<and>
    obs_spec d (ObsRemove n) (w, cur) = ((w', cur'), map the (told d ev)) \<and> None \<notin> set (told d ev) \<and>
    obs_inv d w' cur' (obs_services ob')"
  using obs_inv_remove [OF assms, of "name_key n"] obs_invD(2) [OF assms, of "name_key n"] assms
  by (cases "at_key (name_key n) (obs_services ob)")
    (simp_all add: HdfServiceObserverRemoveRecord_def observed_compare fun_upd_idem)

lemma obs_request_step:
  assumes "obs_inv d w cur (obs_services ob)" and "obs_public q"
  shows "\<exists>ob' ev w' cur'. obs_request q (Some ob) = (Some ob', HDF_SUCCESS, ev) \<and>
    obs_spec d q (w, cur) = ((w', cur'), map the (told d ev)) \<and> None \<notin> set (told d ev) \<and>
    obs_inv d w' cur' (obs_services ob')"
  using assms obs_subscribe_step obs_publish_step obs_remove_step
  by (cases q) (auto simp: obs_public_def simp del: obs_request.simps obs_spec.simps)

lemma map_Some_the: "None \<notin> set xs \<Longrightarrow> map Some (map the xs) = xs"
  by (induction xs) auto

lemma obs_run_told:
  assumes "obs_inv d w cur (obs_services ob)" and "\<forall>q \<in> set qs. obs_public q"
  shows "fst (obs_run qs (Some ob)) = replicate (length qs) HDF_SUCCESS \<and>
    told d (snd (obs_run qs (Some ob))) = map Some (connects d qs (w, cur))"
  using assms
proof (induction qs arbitrary: ob w cur)
  case (Cons q qs)
  then obtain ob' ev w' cur' where s: "obs_request q (Some ob) = (Some ob', HDF_SUCCESS, ev)"
    "obs_spec d q (w, cur) = ((w', cur'), map the (told d ev))" "None \<notin> set (told d ev)"
    "obs_inv d w' cur' (obs_services ob')"
    using obs_request_step [of d w cur ob q] by auto
  have "map Some (map the (told d ev)) = told d ev"
    using s(3) by (rule map_Some_the)
  with Cons.IH [OF s(4)] Cons.prems s show ?case
    by (cases "obs_run qs (Some ob')") simp
qed simp

section \<open>Properties\<close>

text \<open>
  C31. Order of publication and subscription does not matter: for any requests on a fresh observer
  in which no service is published as private (the names may share keys), every request succeeds and each device
  object is told exactly the service that is published when it subscribes, if there is one, and
  each later publication once per subscription, in this order, until the record is removed.
\<close>

theorem observer_connects_exactly:
  assumes "\<forall>q \<in> set qs. obs_public q"
  shows "fst (obs_run qs (Some (fst (HdfServiceObserverConstruct True ob)))) = replicate (length qs) HDF_SUCCESS \<and>
    told d (snd (obs_run qs (Some (fst (HdfServiceObserverConstruct True ob))))) =
      map Some (connects d qs (\<lambda>_. 0, \<lambda>_. None))"
  by (rule obs_run_told) (use assms in \<open>auto simp: HdfServiceObserverConstruct_def obs_inv_def\<close>)

lemma observer_connects_exactly_witness:
  "told (1::nat) (snd (obs_run
     [ObsSubscribe ''svc'' 5 \<lparr>cb_deviceObject = 1, cb_connects = True\<rparr>, ObsPublish ''svc'' 7 2 ''s'',
      ObsSubscribe ''svc'' 6 \<lparr>cb_deviceObject = 1, cb_connects = True\<rparr>]
     (Some (fst (HdfServiceObserverConstruct True \<lparr>obs_services = []\<rparr>))))) = [Some ''s'', Some ''s'']"
  using observer_connects_exactly [of
     "[ObsSubscribe ''svc'' 5 \<lparr>cb_deviceObject = 1, cb_connects = True\<rparr>, ObsPublish ''svc'' 7 2 ''s'',
      ObsSubscribe ''svc'' 6 \<lparr>cb_deviceObject = 1, cb_connects = True\<rparr>]" "\<lparr>obs_services = []\<rparr>" "1::nat"]
  by (simp add: obs_public_def)

text \<open>
  C32. A private service is for subscribers of the publishing device only. When the service is
  published first, a subscriber is connected iff it has the device identifier of the publisher. When somebody
  subscribed before the publication, every later subscriber is connected, whatever its device: the
  publication into an existing record stores neither the policy nor the device identifier.
\<close>

theorem private_service_leaks:
  fixes s :: 's
  assumes "cb_connects cb"
  shows "snd (obs_run [ObsPublish n devA SERVICE_POLICY_PRIVATE s, ObsSubscribe n devB cb] (Some \<lparr>obs_services = []\<rparr>)) =
      (if devA = devB then [(cb_deviceObject cb, Some s)] else []) \<and>
    snd (obs_run [ObsSubscribe n dev0 cb0, ObsPublish n devA SERVICE_POLICY_PRIVATE s, ObsSubscribe n devB cb]
        (Some \<lparr>obs_services = []\<rparr>)) =
      (if cb_connects cb0 \<and> devA = dev0 then [(cb_deviceObject cb0, Some s)] else []) @ [(cb_deviceObject cb, Some s)]"
  using assms
  by (auto simp: HdfServiceObserverPublishService_def HdfServiceObserverSubscribeService_def observed_compare Let_def
      HdfServiceObserverRecordObtain_def HdfServiceSubscriberObtain_def subscribe_record_def
      HdfServiceObserverRecordNotifySubscribers_def notify_subscriber_def)

lemma private_service_leaks_witness:
  "snd (obs_run [ObsSubscribe ''s'' 1 \<lparr>cb_deviceObject = 1, cb_connects = False\<rparr>,
      ObsPublish ''s'' 1 SERVICE_POLICY_PRIVATE ''obj'', ObsSubscribe ''s'' 2 \<lparr>cb_deviceObject = 2::nat, cb_connects = True\<rparr>]
      (Some \<lparr>obs_services = []\<rparr>)) = [(2, Some ''obj'')]"
  using private_service_leaks [of "\<lparr>cb_deviceObject = 2::nat, cb_connects = True\<rparr>" "''s''" 1 "''obj''" 2 1
      "\<lparr>cb_deviceObject = 1, cb_connects = False\<rparr>"]
  by (simp del: obs_run.simps)

end
