(* ===== verification/Core_State.thy ===== *)
theory Core_State
  imports Dev_Svc_Clnt Service_Observer Power_State
begin

text \<open>
  The state that the device hosts and the device manager share in the kernel, where both live in
  one address space (core/host, core/manager): device nodes, devices, host services and tokens
  are objects in memory, reached by address; following the address of a freed object is undefined
  behaviour. Also here: the device identifiers of core/host/include/hdf_device.h, the driver
  manager (core/manager/src/driver_manager.c) and the driver loader
  (core/host/src/hdf_driver_loader.c).
\<close>

section \<open>Device identifiers\<close>

abbreviation (input) DEVNODEID_MASK :: u32 where "DEVNODEID_MASK \<equiv> 0xFF"
abbreviation (input) DEVICEID_MASK :: u32 where "DEVICEID_MASK \<equiv> 0xFFFF"

definition HOSTID :: "u32 \<Rightarrow> u32" where
  "HOSTID devid = drop_bit 24 devid"

definition DEVICEID :: "u32 \<Rightarrow> u32" where
  "DEVICEID devid = drop_bit 8 devid AND DEVICEID_MASK"

definition DEVNODEID :: "u32 \<Rightarrow> u32" where
  "DEVNODEID devid = devid AND DEVNODEID_MASK"

text \<open>The host identifier is shifted as an \<^verbatim>\<open>int\<close>; the bits that overflow are lost.\<close>

definition MK_DEVID :: "u32 \<Rightarrow> u32 \<Rightarrow> u32 \<Rightarrow> u32" where
  "MK_DEVID hostId deviceId devnodeId = push_bit 24 hostId OR push_bit 8 deviceId OR devnodeId"

lemma devid_mask16: "(0xFFFF :: u32) = mask 16" by (simp add: mask_eq_exp_minus_1)
lemma devid_mask8: "(0xFF :: u32) = mask 8" by (simp add: mask_eq_exp_minus_1)
lemma DEVICEID_alt: "DEVICEID x = take_bit 16 (drop_bit 8 x)"
  by (simp add: DEVICEID_def devid_mask16 take_bit_eq_mask)
lemma DEVNODEID_alt: "DEVNODEID x = take_bit 8 x"
  by (simp add: DEVNODEID_def devid_mask8 take_bit_eq_mask)
lemma DEVICEID_MK: "DEVICEID (MK_DEVID h (DEVICEID y) 0) = DEVICEID y"
  unfolding DEVICEID_alt MK_DEVID_def
  by (rule bit_word_eqI) (auto simp: bit_simps)
lemma below_bits:
  assumes "unat x < 2 ^ n" "bit x m" shows "m < n"
proof -
  have "bit (unat x) m" using assms(2) by (simp add: bit_unsigned_iff)
  then have "unat x div 2 ^ m \<noteq> 0" by (metis bit_iff_odd even_zero)
  then have "2 ^ m \<le> unat x" by (metis div_less not_less)
  then have "(2::nat) ^ m < 2 ^ n" using assms(1) by (rule le_less_trans)
  then show ?thesis by simp
qed

lemma devid_parts:
  assumes "h < 256" "d < 65536" "k < 256"
  shows "HOSTID (MK_DEVID h d k) = h \<and> DEVICEID (MK_DEVID h d k) = d \<and> DEVNODEID (MK_DEVID h d k) = k"
proof -
  have "unat h < 2 ^ 8" "unat d < 2 ^ 16" "unat k < 2 ^ 8"
    using assms by (simp_all add: word_less_nat_alt)
  from this [THEN below_bits] show ?thesis unfolding DEVICEID_alt DEVNODEID_alt HOSTID_def MK_DEVID_def
    by (intro conjI bit_word_eqI) (auto simp: bit_simps, fastforce+)
qed

text \<open>
  An identifier made of a host number below 256, a device number below 65536 and a node number
  below 256 gives the three numbers back; the three parts do not overlap.
\<close>

theorem devid_roundtrip:
  assumes "h < 256" "d < 65536" "k < 256"
  shows "HOSTID (MK_DEVID h d k) = h \<and> DEVICEID (MK_DEVID h d k) = d \<and> DEVNODEID (MK_DEVID h d k) = k"
  by (rule devid_parts [OF assms])

theorem devid_roundtrip_witness: "HOSTID (MK_DEVID 3 700 9) = 3 \<and> DEVICEID (MK_DEVID 3 700 9) = 700 \<and> DEVNODEID (MK_DEVID 3 700 9) = 9"
  by (rule devid_roundtrip) simp_all

section \<open>Objects\<close>

text \<open>Driver entries: whether the three functions are set. Addresses are natural numbers.\<close>

record HdfDriverEntry =
  ent_addr :: nat
  ent_moduleName :: "cstr option"
  ent_Bind :: bool
  ent_Init :: bool
  ent_Release :: bool

record HdfDeviceInfo =
  di_isDynamic :: bool
  di_status :: u16
  di_deviceType :: u16
  di_deviceId :: u32
  di_policy :: u16
  di_priority :: u16
  di_preload :: u16
  di_permission :: u16
  di_moduleName :: "cstr option"
  di_svcName :: "cstr option"
  di_deviceMatchAttr :: "cstr option"

datatype DevNodeStaus = DEVNODE_NONE | DEVNODE_INITED | DEVNODE_LAUNCHED

text \<open>
  A device node with its extension (\<^verbatim>\<open>nd_ioService\<close>: the node of the I/O service was
  published) and its device object. \<^verbatim>\<open>nd_linked\<close> says that it is on a list.
\<close>

record 's HdfDeviceNode =
  nd_linked :: bool
  nd_powerToken :: "PowerStateToken option"
  nd_hostService :: "nat option"
  nd_property :: "nat option"
  nd_service :: "'s option"
  nd_deviceClass :: u16
  nd_token :: "nat option"
  nd_driver :: "nat option"
  nd_device :: "nat option"
  nd_servName :: "cstr option"
  nd_servInfo :: "cstr option"
  nd_driverName :: "cstr option"
  nd_devId :: u32
  nd_policy :: u16
  nd_permission :: u16
  nd_devStatus :: DevNodeStaus
  nd_servStatus :: bool
  nd_ioService :: bool

record HdfDevice =
  dv_devNodes :: "nat list"
  dv_deviceId :: u32
  dv_devidIndex :: u16

record 's DevHostService =
  hs_hostId :: u16
  hs_hostName :: "cstr option"
  hs_devices :: "nat list"
  hs_observer :: "(nat, 's) HdfServiceObserver"

text \<open>The client, which carries its address, keeps the tokens of the attached devices, newest first.\<close>

record DevHostServiceClnt =
  hc_addr :: nat
  hc_devices :: "nat list"
  hc_unloadDevInfos :: "HdfDeviceInfo list"
  hc_dynamicDevInfos :: "HdfDeviceInfo list"
  hc_hostService :: "nat option"
  hc_hostId :: u16
  hc_hostPid :: int
  hc_hostName :: "cstr option"
  hc_stopFlag :: bool

text \<open>The functions of a driver, among them those of the power listener it registered for a device.\<close>

datatype drv_call = CallBind | CallInit | CallRelease | CallPower pm_call

record ('m, 's) hdf_core =
  c_nodes :: "nat \<rightharpoonup> 's HdfDeviceNode"
  c_devices :: "nat \<rightharpoonup> HdfDevice"
  c_hosts :: "nat \<rightharpoonup> 's DevHostService"
  c_tokens :: "nat \<rightharpoonup> u32"
  c_clients :: "DevHostServiceClnt list"
  c_svcmgr :: "('m, nat, 's) svcmgr_clnt"
  c_driverMem :: "nat \<rightharpoonup> HdfDriverEntry"
  c_driverList :: "nat list"
  c_next :: nat
  c_ticks :: nat
  c_calls :: "(drv_call \<times> nat) list"
  c_connected :: "(nat, 's) connected"

text \<open>
  What the environment does at each question it is asked, counted by \<^verbatim>\<open>c_ticks\<close>: whether
  allocations of the various objects succeed, whether an I/O node is published, what the functions
  of a driver return (\<^verbatim>\<open>Bind\<close> may change the service and the class of the device object),
  and the property that \<^verbatim>\<open>HcsGetNodeByMatchAttr\<close> finds. Driver functions do not call
  back into the framework. \<^verbatim>\<open>ce_loader\<close> says whether the driver loader could be
  created (it is not if there is no driver at all). \<^verbatim>\<open>ce_sysevent\<close> is the weak \<^verbatim>\<open>HdfSysEventSend\<close>: its
  status and the drivers that the installed module registers.
\<close>

record 's core_env =
  ce_node :: "nat \<Rightarrow> bool"
  ce_token :: "nat \<Rightarrow> bool"
  ce_tokenClnt :: "nat \<Rightarrow> bool"
  ce_device :: "nat \<Rightarrow> bool"
  ce_host :: "nat \<Rightarrow> bool"
  ce_hostClnt :: "nat \<Rightarrow> bool"
  ce_driver :: "nat \<Rightarrow> bool"
  ce_string :: "nat \<Rightarrow> bool"
  ce_obs :: "nat \<Rightarrow> obs_alloc"
  ce_power :: "nat \<Rightarrow> bool \<times> bool"
  ce_io :: "nat \<Rightarrow> bool"
  ce_bind :: "nat \<Rightarrow> HdfDriverEntry \<Rightarrow> 's option \<times> u16 \<Rightarrow> int \<times> 's option \<times> u16"
  ce_init :: "nat \<Rightarrow> HdfDriverEntry \<Rightarrow> int"
  ce_property :: "cstr option \<Rightarrow> nat option"
  ce_loader :: bool
  ce_sysevent :: "(nat \<Rightarrow> cstr \<Rightarrow> int \<times> HdfDriverEntry list) option"

definition tick :: "('m, 's) hdf_core \<Rightarrow> ('m, 's) hdf_core" where
  "tick w = w\<lparr>c_ticks := Suc (c_ticks w)\<rparr>"

abbreviation ask :: "(nat \<Rightarrow> 'a) \<Rightarrow> ('m, 's) hdf_core \<Rightarrow> ('m, 's) hdf_core \<times> 'a" where
  "ask q w \<equiv> (tick w, q (c_ticks w))"

text \<open>A fresh address.\<close>

definition fresh :: "('m, 's) hdf_core \<Rightarrow> ('m, 's) hdf_core \<times> nat" where
  "fresh w = (w\<lparr>c_next := Suc (c_next w)\<rparr>, c_next w)"

definition put_node :: "nat \<Rightarrow> 's HdfDeviceNode option \<Rightarrow> ('m, 's) hdf_core \<Rightarrow> ('m, 's) hdf_core" where
  "put_node a n w = w\<lparr>c_nodes := (c_nodes w)(a := n)\<rparr>"

definition set_device :: "nat \<Rightarrow> HdfDevice option \<Rightarrow> ('m, 's) hdf_core \<Rightarrow> ('m, 's) hdf_core" where
  "set_device d v w = w\<lparr>c_devices := (c_devices w)(d := v)\<rparr>"

definition set_token :: "nat \<Rightarrow> u32 option \<Rightarrow> ('m, 's) hdf_core \<Rightarrow> ('m, 's) hdf_core" where
  "set_token t v w = w\<lparr>c_tokens := (c_tokens w)(t := v)\<rparr>"

definition set_host :: "nat \<Rightarrow> 's DevHostService option \<Rightarrow> ('m, 's) hdf_core \<Rightarrow> ('m, 's) hdf_core" where
  "set_host h v w = w\<lparr>c_hosts := (c_hosts w)(h := v)\<rparr>"

text \<open>\<^verbatim>\<open>c_calls\<close> is the order in which the framework called the drivers of which nodes.\<close>

definition log_call :: "drv_call \<Rightarrow> nat \<Rightarrow> ('m, 's) hdf_core \<Rightarrow> ('m, 's) hdf_core" where
  "log_call c a w = w\<lparr>c_calls := c_calls w @ [(c, a)]\<rparr>"

lemma fold_log_call: "fold (\<lambda>c. log_call (f c) a) cs w = w\<lparr>c_calls := c_calls w @ map (\<lambda>c. (f c, a)) cs\<rparr>"
  by (induction cs arbitrary: w) (simp_all add: log_call_def)

section \<open>Drivers\<close>

definition HdfRegisterDriverEntry ::
  "'s core_env \<Rightarrow> HdfDriverEntry option \<Rightarrow> ('m, 's) hdf_core \<Rightarrow> ('m, 's) hdf_core \<times> int" where
  "HdfRegisterDriverEntry env entry w =
     (case entry of
        None \<Rightarrow> (w, HDF_ERR_INVALID_OBJECT)
      | Some e \<Rightarrow>
          if ent_moduleName e = None then (w, HDF_ERR_INVALID_OBJECT)
          else
            (case ask (ce_driver env) w of
               (w1, ok) \<Rightarrow>
                 if \<not> ok then (w1, HDF_DEV_ERR_NO_MEMORY)
                 else (case fresh w1 of
                         (w2, d) \<Rightarrow> (w2\<lparr>c_driverMem := (c_driverMem w2)(d \<mapsto> e), c_driverList := c_driverList w2 @ [d]\<rparr>,
                                    HDF_SUCCESS))))"

fun driver_of_entry :: "(nat \<rightharpoonup> HdfDriverEntry) \<Rightarrow> nat \<Rightarrow> nat list \<Rightarrow> nat option" where
  "driver_of_entry mem e [] = None"
| "driver_of_entry mem e (d # ds) =
     (if map_option ent_addr (mem d) = Some e then Some d else driver_of_entry mem e ds)"

definition HdfUnregisterDriverEntry ::
  "HdfDriverEntry option \<Rightarrow> ('m, 's) hdf_core \<Rightarrow> ('m, 's) hdf_core \<times> int" where
  "HdfUnregisterDriverEntry entry w =
     (case entry of
        None \<Rightarrow> (w, HDF_ERR_INVALID_OBJECT)
      | Some e \<Rightarrow>
          if ent_moduleName e = None then (w, HDF_ERR_INVALID_OBJECT)
          else
            (case driver_of_entry (c_driverMem w) (ent_addr e) (c_driverList w) of
               None \<Rightarrow> (w, HDF_SUCCESS)
             | Some d \<Rightarrow> (w\<lparr>c_driverList := remove1 d (c_driverList w), c_driverMem := (c_driverMem w)(d := None)\<rparr>,
                          HDF_SUCCESS)))"

text \<open>
  Drivers whose memory belongs to the caller. The registration of one that is already on the list
  would break the links of the list and is undefined; one that is taken off keeps its memory.
\<close>

definition HdfRegisterDriver ::
  "(nat \<times> HdfDriverEntry option) option \<Rightarrow> ('m, 's) hdf_core \<Rightarrow> (('m, 's) hdf_core \<times> int) option" where
  "HdfRegisterDriver driver w =
     (case driver of
        None \<Rightarrow> Some (w, HDF_ERR_INVALID_OBJECT)
      | Some (d, None) \<Rightarrow> Some (w, HDF_ERR_INVALID_OBJECT)
      | Some (d, Some e) \<Rightarrow>
          if ent_moduleName e = None then Some (w, HDF_ERR_INVALID_OBJECT)
          else if d \<in> set (c_driverList w) then UB
          else Some (w\<lparr>c_driverMem := (c_driverMem w)(d \<mapsto> e), c_driverList := c_driverList w @ [d]\<rparr>, HDF_SUCCESS))"

definition HdfUnregisterDriver :: "nat option \<Rightarrow> ('m, 's) hdf_core \<Rightarrow> ('m, 's) hdf_core \<times> int" where
  "HdfUnregisterDriver driver w =
     (case driver of
        None \<Rightarrow> (w, HDF_ERR_INVALID_PARAM)
      | Some d \<Rightarrow> (w\<lparr>c_driverList := remove1 d (c_driverList w)\<rparr>, HDF_SUCCESS))"

text \<open>The name comparison reads the entries of the drivers on the list.\<close>

fun found_loop :: "(nat \<rightharpoonup> HdfDriverEntry) \<Rightarrow> cstr \<Rightarrow> nat list \<Rightarrow> nat option option" where
  "found_loop mem nm [] = Some None"
| "found_loop mem nm (d # ds) =
     (case mem d of
        None \<Rightarrow> UB
      | Some e \<Rightarrow> if ent_moduleName e = Some nm then Some (Some d) else found_loop mem nm ds)"

definition HdfDriverManagerFoundDriver :: "cstr \<Rightarrow> ('m, 's) hdf_core \<Rightarrow> nat option option" where
  "HdfDriverManagerFoundDriver driverName w = found_loop (c_driverMem w) driverName (c_driverList w)"

definition HdfDriverManagerGetDriver ::
  "'s core_env \<Rightarrow> cstr option \<Rightarrow> ('m, 's) hdf_core \<Rightarrow> (('m, 's) hdf_core \<times> nat option) option" where
  "HdfDriverManagerGetDriver env driverName w =
     (case driverName of
        None \<Rightarrow> Some (w, None)
      | Some nm \<Rightarrow> do {
          found \<leftarrow> HdfDriverManagerFoundDriver nm w;
          (case found of
             Some d \<Rightarrow> Some (w, Some d)
           | None \<Rightarrow>
               (case ce_sysevent env of
                  None \<Rightarrow> Some (w, None)
                | Some send \<Rightarrow>
                    (case ask send w of
                       (w1, answer) \<Rightarrow>
                         (case answer nm of
                            (ret, entries) \<Rightarrow>
                              (let w2 = fold (\<lambda>e v. fst (HdfRegisterDriverEntry env (Some e) v)) entries w1 in
                               if ret \<noteq> HDF_SUCCESS then Some (w2, None)
                               else do { found2 \<leftarrow> HdfDriverManagerFoundDriver nm w2; Some (w2, found2) })))))
        })"

definition HdfDriverLoaderGetDriver ::
  "'s core_env \<Rightarrow> cstr option \<Rightarrow> ('m, 's) hdf_core \<Rightarrow> (('m, 's) hdf_core \<times> nat option) option" where
  "HdfDriverLoaderGetDriver env nm w = (if nm = None then Some (w, None) else HdfDriverManagerGetDriver env nm w)"

text \<open>Drivers of the kernel are not released.\<close>

definition HdfDriverLoaderReclaimDriver :: "nat option \<Rightarrow> ('m, 's) hdf_core \<Rightarrow> ('m, 's) hdf_core" where
  "HdfDriverLoaderReclaimDriver driver w = w"

text \<open>
  The start-up loop over the section of driver entries: the address advances only after a
  successful registration, while the counter always does.
\<close>

fun entry_loop ::
  "'s core_env \<Rightarrow> nat \<Rightarrow> HdfDriverEntry option list \<Rightarrow> ('m, 's) hdf_core \<Rightarrow> ('m, 's) hdf_core option" where
  "entry_loop env 0 addrBegin w = Some w"
| "entry_loop env (Suc n) [] w = UB"
| "entry_loop env (Suc n) (e # es) w =
     (case HdfRegisterDriverEntry env e w of
        (w', ret) \<Rightarrow> if ret \<noteq> HDF_SUCCESS then entry_loop env n (e # es) w' else entry_loop env n es w')"

definition HdfDriverEntryConstruct ::
  "'s core_env \<Rightarrow> HdfDriverEntry option list \<Rightarrow> ('m, 's) hdf_core \<Rightarrow> (('m, 's) hdf_core \<times> int) option" where
  "HdfDriverEntryConstruct env section w =
     (if length section = 0 then Some (w, HDF_FAILURE)
      else map_option (\<lambda>w'. (w', HDF_SUCCESS)) (entry_loop env (length section) section w))"

end
