(* ===== verification/Device_Node.thy ===== *)
theory Device_Node
  imports Core_State
begin

text \<open>
  The life of a device node: its attachment to the device manager
  (core/manager/src/devmgr_service.c and device_token_clnt.c, core/host/src/devmgr_service_clnt.c),
  the node itself (core/host/src/hdf_device_node.c and core/common/src/hdf_device_node_ext.c, the
  class that the kernel uses), the device that holds nodes (core/host/src/hdf_device.c) and the
  operations on device objects (core/host/src/hdf_device_object.c).
\<close>

section \<open>Attachment to the device manager\<close>

abbreviation client_of :: "u32 \<Rightarrow> DevHostServiceClnt list \<Rightarrow> DevHostServiceClnt option" where
  "client_of h cs \<equiv> find (\<lambda>c. hc_hostId c = ucast h) cs"

text \<open>Writing through the pointer to a client on the list.\<close>

definition update_client :: "nat \<Rightarrow> (DevHostServiceClnt \<Rightarrow> DevHostServiceClnt) \<Rightarrow> DevHostServiceClnt list \<Rightarrow> DevHostServiceClnt list" where
  "update_client p f cs = map (\<lambda>c. if hc_addr c = p then f c else c) cs"

definition DevmgrServiceFindDeviceHost :: "u32 \<Rightarrow> ('m, 's) hdf_core \<Rightarrow> DevHostServiceClnt option" where
  "DevmgrServiceFindDeviceHost hostId w = client_of hostId (c_clients w)"

definition DeviceTokenClntNewInstance ::
  "'s core_env \<Rightarrow> nat option \<Rightarrow> ('m, 's) hdf_core \<Rightarrow> ('m, 's) hdf_core \<times> nat option" where
  "DeviceTokenClntNewInstance env tokenIf w =
     (case tokenIf of
        None \<Rightarrow> (w, None)
      | Some t \<Rightarrow> (case ask (ce_tokenClnt env) w of (w', ok) \<Rightarrow> (w', if ok then Some t else None)))"

definition DevmgrServiceAttachDevice ::
  "'s core_env \<Rightarrow> nat option \<Rightarrow> ('m, 's) hdf_core \<Rightarrow> (('m, 's) hdf_core \<times> int) option" where
  "DevmgrServiceAttachDevice env token w = do {
     t \<leftarrow> token;
     devid \<leftarrow> c_tokens w t;
     (case DevmgrServiceFindDeviceHost (HOSTID devid) w of
        None \<Rightarrow> Some (w, HDF_FAILURE)
      | Some c \<Rightarrow>
          (case DeviceTokenClntNewInstance env token w of
             (w1, None) \<Rightarrow> Some (w1, HDF_FAILURE)
           | (w1, Some tokenClnt) \<Rightarrow>
               Some (w1\<lparr>c_clients := update_client (hc_addr c) (\<lambda>c. c\<lparr>hc_devices := tokenClnt # hc_devices c\<rparr>) (c_clients w1)\<rparr>,
                     HDF_SUCCESS)))
   }"

text \<open>The search of a token reads the identifier through the pointer in each client node.\<close>

fun token_search :: "(nat \<rightharpoonup> u32) \<Rightarrow> u32 \<Rightarrow> nat list \<Rightarrow> nat option option" where
  "token_search toks devid [] = Some None"
| "token_search toks devid (t # ts) =
     (case toks t of
        None \<Rightarrow> UB
      | Some d \<Rightarrow> if d = devid then Some (Some t) else token_search toks devid ts)"

definition DevmgrServiceDetachDevice ::
  "u32 \<Rightarrow> ('m, 's) hdf_core \<Rightarrow> (('m, 's) hdf_core \<times> int) option" where
  "DevmgrServiceDetachDevice devid w =
     (case DevmgrServiceFindDeviceHost (HOSTID devid) w of
        None \<Rightarrow> Some (w, HDF_FAILURE)
      | Some c \<Rightarrow> do {
          found \<leftarrow> token_search (c_tokens w) devid (hc_devices c);
          (case found of
             None \<Rightarrow> Some (w, HDF_DEV_ERR_NO_DEVICE)
           | Some t \<Rightarrow>
               Some (w\<lparr>c_clients := update_client (hc_addr c) (\<lambda>c. c\<lparr>hc_devices := remove1 t (hc_devices c)\<rparr>) (c_clients w)\<rparr>,
                     HDF_SUCCESS))
        })"

text \<open>The client checks its instance and the table of functions, which are there in the kernel.\<close>

definition DevmgrServiceClntAttachDevice ::
  "'s core_env \<Rightarrow> nat option \<Rightarrow> ('m, 's) hdf_core \<Rightarrow> (('m, 's) hdf_core \<times> int) option" where
  "DevmgrServiceClntAttachDevice env token w = DevmgrServiceAttachDevice env token w"

definition DevmgrServiceClntDetachDevice ::
  "u32 \<Rightarrow> ('m, 's) hdf_core \<Rightarrow> (('m, 's) hdf_core \<times> int) option" where
  "DevmgrServiceClntDetachDevice devid w = DevmgrServiceDetachDevice devid w"

section \<open>Services of a node\<close>

definition HdfDeviceNodePublishLocalService ::
  "'s core_env \<Rightarrow> nat \<Rightarrow> ('m, 's) hdf_core \<Rightarrow> (('m, 's) hdf_core \<times> int) option" where
  "HdfDeviceNodePublishLocalService env a w = do {
     n \<leftarrow> c_nodes w a;
     (case nd_hostService n of
        None \<Rightarrow> Some (w, HDF_FAILURE)
      | Some h \<Rightarrow> do {
          hs \<leftarrow> c_hosts w h;
          (case ask (ce_obs env) w of
             (w1, al) \<Rightarrow>
               (case HdfServiceObserverPublishService al (Some (hs_observer hs)) (nd_servName n) (nd_devId n) (nd_policy n) (nd_service n) of
                  (ob, ret, ev) \<Rightarrow>
                    Some (set_host h (Some (hs\<lparr>hs_observer := the ob\<rparr>)) w1\<lparr>c_connected := c_connected w1 @ ev\<rparr>, ret)))
        })
   }"

definition HdfDeviceNodePublishPublicService :: "nat \<Rightarrow> ('m, 's) hdf_core \<Rightarrow> (('m, 's) hdf_core \<times> int) option" where
  "HdfDeviceNodePublishPublicService a w = do {
     n \<leftarrow> c_nodes w a;
     (if nd_service n = None then Some (w, HDF_FAILURE)
      else do {
        (m, ret) \<leftarrow> DevSvcManagerClntAddService (c_svcmgr w) (nd_servName n) (nd_deviceClass n) (Some a) (nd_servInfo n);
        (let w1 = w\<lparr>c_svcmgr := m\<rparr> in
         Some (if ret = HDF_SUCCESS then put_node a (Some (n\<lparr>nd_servStatus := True\<rparr>)) w1 else w1, ret))
      })
   }"

definition DeviceNodeExtPublishService ::
  "'s core_env \<Rightarrow> nat \<Rightarrow> ('m, 's) hdf_core \<Rightarrow> (('m, 's) hdf_core \<times> int) option" where
  "DeviceNodeExtPublishService env a w = do {
     n \<leftarrow> c_nodes w a;
     (if nd_service n = None then Some (w, HDF_FAILURE)
      else
        (let capacity = (nd_policy n = 2);
             (w1, io) = (if capacity then ask (ce_io env) w else (w, nd_ioService n));
             w2 = put_node a (Some (n\<lparr>nd_ioService := io\<rparr>)) w1
         in if capacity \<and> \<not> io then Some (w2, HDF_DEV_ERR_NO_DEVICE_SERVICE)
            else do {
              (w3, ret) \<leftarrow> HdfDeviceNodePublishPublicService a w2;
              (if ret \<noteq> HDF_SUCCESS
               then do { n3 \<leftarrow> c_nodes w3 a; Some (put_node a (Some (n3\<lparr>nd_ioService := False\<rparr>)) w3, ret) }
               else Some (w3, HDF_SUCCESS))
            }))
   }"

definition HdfDeviceNodePublishService ::
  "'s core_env \<Rightarrow> nat \<Rightarrow> ('m, 's) hdf_core \<Rightarrow> (('m, 's) hdf_core \<times> int) option" where
  "HdfDeviceNodePublishService env a w = do {
     n \<leftarrow> c_nodes w a;
     (if nd_policy n = 0 \<or> nd_servName n = Some [] then Some (w, HDF_SUCCESS)
      else do {
        (w1, status) \<leftarrow> (if nd_policy n = 1 \<or> nd_policy n = 2 then DeviceNodeExtPublishService env a w else Some (w, HDF_SUCCESS));
        (if status = HDF_SUCCESS then HdfDeviceNodePublishLocalService env a w1 else Some (w1, status))
      })
   }"

definition HdfDeviceNodeRemoveService :: "nat \<Rightarrow> ('m, 's) hdf_core \<Rightarrow> (('m, 's) hdf_core \<times> int) option" where
  "HdfDeviceNodeRemoveService a w = do {
     n \<leftarrow> c_nodes w a;
     (if nd_servStatus n
      then do {
        m \<leftarrow> DevSvcManagerClntRemoveService (c_svcmgr w) (nd_servName n);
        Some (put_node a (Some (n\<lparr>nd_servStatus := False\<rparr>)) (w\<lparr>c_svcmgr := m\<rparr>), HDF_SUCCESS)
      }
      else Some (w, HDF_SUCCESS))
   }"

definition DeviceNodeExtRemoveService :: "nat \<Rightarrow> ('m, 's) hdf_core \<Rightarrow> (('m, 's) hdf_core \<times> int) option" where
  "DeviceNodeExtRemoveService a w = do {
     n \<leftarrow> c_nodes w a;
     HdfDeviceNodeRemoveService a (if nd_policy n = 2 then put_node a (Some (n\<lparr>nd_ioService := False\<rparr>)) w else w)
   }"

section \<open>Launching a node\<close>

definition DeviveDriverBind :: "'s core_env \<Rightarrow> nat \<Rightarrow> ('m, 's) hdf_core \<Rightarrow> (('m, 's) hdf_core \<times> int) option" where
  "DeviveDriverBind env a w = do {
     n \<leftarrow> c_nodes w a;
     d \<leftarrow> nd_driver n;
     e \<leftarrow> c_driverMem w d;
     (if nd_policy n = 1 \<or> nd_policy n = 2
      then
        (if \<not> ent_Bind e then Some (put_node a (Some (n\<lparr>nd_devStatus := DEVNODE_NONE\<rparr>)) w, HDF_ERR_INVALID_OBJECT)
         else
           (case ask (ce_bind env) w of
              (w1, f) \<Rightarrow>
                (case f e (nd_service n, nd_deviceClass n) of
                   (ret, service, cls) \<Rightarrow>
                     (let w2 = log_call CallBind a (put_node a (Some (n\<lparr>nd_service := service, nd_deviceClass := cls\<rparr>)) w1)
                      in Some (w2, if ret \<noteq> HDF_SUCCESS then HDF_DEV_ERR_DEV_INIT_FAIL else HDF_SUCCESS)))))
      else Some (w, HDF_SUCCESS))
   }"

definition HdfDeviceLaunchNode :: "'s core_env \<Rightarrow> nat \<Rightarrow> ('m, 's) hdf_core \<Rightarrow> (('m, 's) hdf_core \<times> int) option" where
  "HdfDeviceLaunchNode env a w = do {
     n \<leftarrow> c_nodes w a;
     d \<leftarrow> nd_driver n;
     e \<leftarrow> c_driverMem w d;
     (if \<not> ent_Init e then Some (w, HDF_ERR_INVALID_PARAM)
      else do {
        (w1, r1) \<leftarrow> DeviveDriverBind env a (put_node a (Some (n\<lparr>nd_devStatus := DEVNODE_LAUNCHED\<rparr>)) w);
        (if r1 \<noteq> HDF_SUCCESS then Some (w1, r1)
         else
           (case ask (ce_init env) (log_call CallInit a w1) of
              (w2, f) \<Rightarrow>
                if f e \<noteq> HDF_SUCCESS then Some (w2, HDF_DEV_ERR_DEV_INIT_FAIL)
                else do {
                  (w3, r3) \<leftarrow> HdfDeviceNodePublishService env a w2;
                  (if r3 \<noteq> HDF_SUCCESS then Some (w3, HDF_DEV_ERR_PUBLISH_FAIL)
                   else do {
                     n3 \<leftarrow> c_nodes w3 a;
                     (w4, r4) \<leftarrow> DevmgrServiceClntAttachDevice env (nd_token n3) w3;
                     Some (w4, if r4 \<noteq> HDF_SUCCESS then HDF_DEV_ERR_ATTACHDEV_FAIL else r4)
                   })
                }))
      })
   }"

text \<open>
  Only a node whose driver was found is launched, so the driver loader exists here. Reclaiming the
  driver does nothing in the kernel; messages to the log are not modelled.
\<close>

definition HdfDeviceUnlaunchNode :: "nat \<Rightarrow> ('m, 's) hdf_core \<Rightarrow> ('m, 's) hdf_core option" where
  "HdfDeviceUnlaunchNode a w = do {
     n \<leftarrow> c_nodes w a;
     (if nd_devStatus n \<noteq> DEVNODE_LAUNCHED then Some w
      else do {
        release \<leftarrow> (case nd_driver n of None \<Rightarrow> Some False | Some d \<Rightarrow> map_option ent_Release (c_driverMem w d));
        (w2, r) \<leftarrow> (let w1 = (if release then log_call CallRelease a w else w)
                     in if nd_servStatus n then DeviceNodeExtRemoveService a w1 else Some (w1, HDF_SUCCESS));
        (w3, r') \<leftarrow> DevmgrServiceClntDetachDevice (nd_devId n) w2;
        n3 \<leftarrow> c_nodes w3 a;
        Some (put_node a (Some (n3\<lparr>nd_driver := None, nd_devStatus := DEVNODE_INITED\<rparr>))
                (HdfDriverLoaderReclaimDriver (nd_driver n3) w3))
      })
   }"

section \<open>Creation and destruction\<close>

text \<open>A node is allocated cleared; \<^verbatim>\<open>DEVICE_CLASS_DEFAULT\<close> is 1. A token has no identifier yet.\<close>

definition HdfDeviceTokenNewInstance :: "'s core_env \<Rightarrow> ('m, 's) hdf_core \<Rightarrow> ('m, 's) hdf_core \<times> nat option" where
  "HdfDeviceTokenNewInstance env w =
     (case ask (ce_token env) w of
        (w1, ok) \<Rightarrow>
          if \<not> ok then (w1, None)
          else (case fresh w1 of (w2, t) \<Rightarrow> (set_token t (Some 0) w2, Some t)))"

definition DeviceNodeExtCreate :: "'s core_env \<Rightarrow> ('m, 's) hdf_core \<Rightarrow> ('m, 's) hdf_core \<times> nat option" where
  "DeviceNodeExtCreate env w =
     (case ask (ce_node env) w of
        (w1, ok) \<Rightarrow>
          if \<not> ok then (w1, None)
          else
            (case fresh w1 of
               (w2, a) \<Rightarrow>
                 (case HdfDeviceTokenNewInstance env w2 of
                    (w3, t) \<Rightarrow>
                      (put_node a (Some \<lparr>nd_linked = False, nd_powerToken = None, nd_hostService = None, nd_property = None,
                          nd_service = None, nd_deviceClass = 1, nd_token = t, nd_driver = None, nd_device = None,
                          nd_servName = None, nd_servInfo = None, nd_driverName = None, nd_devId = 0, nd_policy = 0,
                          nd_permission = 0, nd_devStatus = DEVNODE_NONE, nd_servStatus = False, nd_ioService = False\<rparr>) w3,
                       Some a))))"

text \<open>What \<^verbatim>\<open>HdfDeviceNodeDestruct\<close> frees after its \<^verbatim>\<open>switch\<close>: the token and the strings.\<close>

definition HdfDeviceNodeDestruct :: "nat \<Rightarrow> ('m, 's) hdf_core \<Rightarrow> ('m, 's) hdf_core option" where
  "HdfDeviceNodeDestruct a w = do {
     n \<leftarrow> c_nodes w a;
     w1 \<leftarrow> (if nd_devStatus n = DEVNODE_LAUNCHED then HdfDeviceUnlaunchNode a w else Some w);
     (if nd_devStatus n = DEVNODE_NONE then Some w1
      else do {
        n1 \<leftarrow> c_nodes w1 a;
        (let w2 = (case nd_token n1 of None \<Rightarrow> w1 | Some t \<Rightarrow> set_token t None w1)
         in Some (put_node a (Some (n1\<lparr>nd_token := None, nd_powerToken := None, nd_servName := None, nd_servInfo := None\<rparr>)) w2))
      })
   }"

definition DeviceNodeExtRelease :: "nat \<Rightarrow> ('m, 's) hdf_core \<Rightarrow> ('m, 's) hdf_core option" where
  "DeviceNodeExtRelease a w = do {
     (w1, r) \<leftarrow> DeviceNodeExtRemoveService a w;
     w2 \<leftarrow> HdfDeviceNodeDestruct a w1;
     Some (put_node a None w2)
   }"

definition HdfDeviceNodeFreeInstance :: "nat \<Rightarrow> ('m, 's) hdf_core \<Rightarrow> ('m, 's) hdf_core option" where
  "HdfDeviceNodeFreeInstance a w = DeviceNodeExtRelease a w"

text \<open>The token is written through without a check.\<close>

definition HdfDeviceNodeNewInstance ::
  "'s core_env \<Rightarrow> HdfDeviceInfo option \<Rightarrow> nat option \<Rightarrow> ('m, 's) hdf_core \<Rightarrow> (('m, 's) hdf_core \<times> nat option) option" where
  "HdfDeviceNodeNewInstance env deviceInfo driver w =
     (case deviceInfo of
        None \<Rightarrow> Some (w, None)
      | Some di \<Rightarrow>
          (case DeviceNodeExtCreate env w of
             (w1, None) \<Rightarrow> Some (w1, None)
           | (w1, Some a) \<Rightarrow> do {
               n \<leftarrow> c_nodes w1 a;
               t \<leftarrow> nd_token n;
               (case ask (ce_string env) w1 of
                  (w2, ok) \<Rightarrow>
                    (let n1 = n\<lparr>nd_driver := driver, nd_devId := di_deviceId di, nd_permission := di_permission di,
                                nd_policy := di_policy di, nd_servName := HdfStringCopy ok (di_svcName di)\<rparr>;
                         w3 = put_node a (Some n1) (set_token t (Some (di_deviceId di)) w2)
                     in if nd_servName n1 = None
                        then do { w4 \<leftarrow> HdfDeviceNodeFreeInstance a w3; Some (w4, None) }
                        else Some (put_node a (Some (n1\<lparr>nd_property := ce_property env (di_deviceMatchAttr di),
                                                      nd_devStatus := DEVNODE_INITED\<rparr>)) w3, Some a)))
             }))"

definition HdfDeviceNodeAddPowerStateListener ::
  "'s core_env \<Rightarrow> nat \<Rightarrow> IPowerEventListener option \<Rightarrow> ('m, 's) hdf_core \<Rightarrow> (('m, 's) hdf_core \<times> int) option" where
  "HdfDeviceNodeAddPowerStateListener env a listnr w = do {
     n \<leftarrow> c_nodes w a;
     (if nd_powerToken n \<noteq> None then Some (w, HDF_FAILURE)
      else
        (case ask (ce_power env) w of
           (w1, ok) \<Rightarrow>
             (let tok = PowerStateTokenNewInstance (fst ok) (snd ok) listnr
              in Some (put_node a (Some (n\<lparr>nd_powerToken := tok\<rparr>)) w1, if tok \<noteq> None then HDF_SUCCESS else HDF_FAILURE))))
   }"

definition HdfDeviceNodeRemovePowerStateListener :: "nat option \<Rightarrow> ('m, 's) hdf_core \<Rightarrow> ('m, 's) hdf_core option" where
  "HdfDeviceNodeRemovePowerStateListener devNode w =
     (case devNode of
        None \<Rightarrow> Some w
      | Some a \<Rightarrow> do {
          n \<leftarrow> c_nodes w a;
          Some (if nd_powerToken n = None then w else put_node a (Some (n\<lparr>nd_powerToken := None\<rparr>)) w)
        })"

section \<open>Devices\<close>

definition UpdateDeivceNodeIdIndex :: "u32 \<Rightarrow> HdfDevice \<Rightarrow> HdfDevice" where
  "UpdateDeivceNodeIdIndex nodeDevid v =
     (if ucast (dv_devidIndex v) < DEVICEID nodeDevid then v\<lparr>dv_devidIndex := ucast (DEVICEID nodeDevid)\<rparr> else v)"

definition AcquireNodeDeivceId :: "HdfDevice \<Rightarrow> HdfDevice \<times> u32 option" where
  "AcquireNodeDeivceId v =
     (if ucast (dv_devidIndex v) \<ge> DEVICEID_MASK then (v, None)
      else
        (let v' = v\<lparr>dv_devidIndex := dv_devidIndex v + 1\<rparr>
         in (v', Some (MK_DEVID (HOSTID (dv_deviceId v')) (DEVICEID (dv_deviceId v')) (ucast (dv_devidIndex v'))))))"

definition HdfDeviceAttach ::
  "'s core_env \<Rightarrow> nat option \<Rightarrow> nat option \<Rightarrow> ('m, 's) hdf_core \<Rightarrow> (('m, 's) hdf_core \<times> int) option" where
  "HdfDeviceAttach env devInst devNode w =
     (case (devInst, devNode) of
        (Some dv, Some a) \<Rightarrow> do {
          n \<leftarrow> c_nodes w a;
          v \<leftarrow> c_devices w dv;
          (let (v1, newId) = (if nd_devId n = 0 then AcquireNodeDeivceId v else (v, Some (nd_devId n)))
           in case newId of
                None \<Rightarrow> Some (w, HDF_ERR_INVALID_PARAM)
              | Some devid \<Rightarrow> do {
                  t \<leftarrow> nd_token n;
                  d \<leftarrow> c_tokens w t;
                  (w1, ret) \<leftarrow> HdfDeviceLaunchNode env a
                     (set_token t (Some devid) (put_node a (Some (n\<lparr>nd_devId := devid\<rparr>)) (set_device dv (Some v1) w)));
                  (if ret = HDF_SUCCESS
                   then do {
                     n1 \<leftarrow> c_nodes w1 a;
                     v2 \<leftarrow> c_devices w1 dv;
                     Some (put_node a (Some (n1\<lparr>nd_linked := True\<rparr>))
                             (set_device dv (Some (UpdateDeivceNodeIdIndex (nd_devId n1) (v2\<lparr>dv_devNodes := dv_devNodes v2 @ [a]\<rparr>))) w1), ret)
                   }
                   else Some (w1, ret))
                })
        }
      | _ \<Rightarrow> Some (w, HDF_ERR_INVALID_PARAM))"

text \<open>A linked node is removed from the list it is on, which is that of its device.\<close>

definition HdfDeviceDetach ::
  "nat option \<Rightarrow> nat option \<Rightarrow> ('m, 's) hdf_core \<Rightarrow> (('m, 's) hdf_core \<times> int) option" where
  "HdfDeviceDetach devInst devNode w =
     (case (devInst, devNode) of
        (Some dv, Some a) \<Rightarrow> do {
          v \<leftarrow> c_devices w dv;
          n \<leftarrow> c_nodes w a;
          (if DEVICEID (dv_deviceId v) \<noteq> DEVICEID (nd_devId n) then Some (w, HDF_DEV_ERR_NO_DEVICE)
           else do {
             w1 \<leftarrow> Some (if nd_linked n
                      then put_node a (Some (n\<lparr>nd_linked := False\<rparr>)) (set_device dv (Some (v\<lparr>dv_devNodes := remove1 a (dv_devNodes v)\<rparr>)) w)
                      else w);
             w2 \<leftarrow> HdfDeviceUnlaunchNode a w1;
             Some (w2, HDF_SUCCESS)
           })
        }
      | _ \<Rightarrow> Some (w, HDF_ERR_INVALID_PARAM))"

fun node_search :: "(nat \<rightharpoonup> 's HdfDeviceNode) \<Rightarrow> u32 \<Rightarrow> nat list \<Rightarrow> nat option option" where
  "node_search nodes devid [] = Some None"
| "node_search nodes devid (a # as) =
     (case nodes a of
        None \<Rightarrow> UB
      | Some n \<Rightarrow> if nd_devId n = devid then Some (Some a) else node_search nodes devid as)"

definition HdfDeviceGetDeviceNode :: "nat \<Rightarrow> u32 \<Rightarrow> ('m, 's) hdf_core \<Rightarrow> nat option option" where
  "HdfDeviceGetDeviceNode dv devid w = do { v \<leftarrow> c_devices w dv; node_search (c_nodes w) devid (dv_devNodes v) }"

definition HdfDeviceDetachWithDevid :: "nat \<Rightarrow> u32 \<Rightarrow> ('m, 's) hdf_core \<Rightarrow> (('m, 's) hdf_core \<times> int) option" where
  "HdfDeviceDetachWithDevid dv devid w = do {
     found \<leftarrow> HdfDeviceGetDeviceNode dv devid w;
     (case found of
        None \<Rightarrow> Some (w, HDF_DEV_ERR_NO_DEVICE)
      | Some a \<Rightarrow> HdfDeviceDetach (Some dv) (Some a) w)
   }"

definition HdfDeviceCreate :: "'s core_env \<Rightarrow> ('m, 's) hdf_core \<Rightarrow> ('m, 's) hdf_core \<times> nat option" where
  "HdfDeviceCreate env w =
     (case ask (ce_device env) w of
        (w1, ok) \<Rightarrow>
          if \<not> ok then (w1, None)
          else (case fresh w1 of
                  (w2, dv) \<Rightarrow> (set_device dv (Some \<lparr>dv_devNodes = [], dv_deviceId = 0, dv_devidIndex = 0\<rparr>) w2, Some dv)))"

text \<open>The loop that frees the nodes of a device does not unlink them; the list is reset afterwards.\<close>

fun free_nodes :: "nat list \<Rightarrow> ('m, 's) hdf_core \<Rightarrow> ('m, 's) hdf_core option" where
  "free_nodes [] w = Some w"
| "free_nodes (a # as) w = do { w1 \<leftarrow> HdfDeviceNodeFreeInstance a w; free_nodes as w1 }"

fun_cases free_nodesE: "free_nodes (a # as) w = Some w'"

definition HdfDeviceRelease :: "nat \<Rightarrow> ('m, 's) hdf_core \<Rightarrow> ('m, 's) hdf_core option" where
  "HdfDeviceRelease dv w = do {
     v \<leftarrow> c_devices w dv;
     w1 \<leftarrow> free_nodes (dv_devNodes v) w;
     Some (set_device dv None w1)
   }"

section \<open>Device objects\<close>

text \<open>A device object is part of its node, so its address stands for that of the node.\<close>

definition HdfDeviceSubscribeService ::
  "'s core_env \<Rightarrow> nat option \<Rightarrow> cstr option \<Rightarrow> nat SubscriberCallback \<Rightarrow> ('m, 's) hdf_core \<Rightarrow> (('m, 's) hdf_core \<times> int) option" where
  "HdfDeviceSubscribeService env deviceObject svcName callback w =
     (case (deviceObject, svcName) of
        (Some a, Some _) \<Rightarrow> do {
          n \<leftarrow> c_nodes w a;
          (case nd_hostService n of
             None \<Rightarrow> Some (w, HDF_FAILURE)
           | Some h \<Rightarrow> do {
               hs \<leftarrow> c_hosts w h;
               (case ask (ce_obs env) w of
                  (w1, al) \<Rightarrow>
                    (case HdfServiceObserverSubscribeService al (Some (hs_observer hs)) svcName (nd_devId n) callback of
                       (ob, ret, ev) \<Rightarrow>
                         Some (set_host h (Some (hs\<lparr>hs_observer := the ob\<rparr>)) w1\<lparr>c_connected := c_connected w1 @ ev\<rparr>, ret)))
             })
        }
      | _ \<Rightarrow> Some (w, HDF_FAILURE))"

definition HdfDeviceGetServiceName :: "nat option \<Rightarrow> ('m, 's) hdf_core \<Rightarrow> cstr option option" where
  "HdfDeviceGetServiceName deviceObject w =
     (case deviceObject of None \<Rightarrow> Some None | Some a \<Rightarrow> map_option nd_servName (c_nodes w a))"

definition HdfPmRegisterPowerListener ::
  "'s core_env \<Rightarrow> nat option \<Rightarrow> IPowerEventListener option \<Rightarrow> ('m, 's) hdf_core \<Rightarrow> (('m, 's) hdf_core \<times> int) option" where
  "HdfPmRegisterPowerListener env deviceObject listnr w =
     (case deviceObject of
        None \<Rightarrow> Some (w, HDF_ERR_INVALID_PARAM)
      | Some a \<Rightarrow> HdfDeviceNodeAddPowerStateListener env a listnr w)"

definition HdfPmUnregisterPowerListener :: "nat option \<Rightarrow> ('m, 's) hdf_core \<Rightarrow> ('m, 's) hdf_core option" where
  "HdfPmUnregisterPowerListener deviceObject w =
     (case deviceObject of None \<Rightarrow> Some w | Some a \<Rightarrow> HdfDeviceNodeRemovePowerStateListener (Some a) w)"

definition HdfDeviceSetClass :: "nat option \<Rightarrow> u32 \<Rightarrow> ('m, 's) hdf_core \<Rightarrow> (('m, 's) hdf_core \<times> bool) option" where
  "HdfDeviceSetClass deviceObject cls w =
     (case deviceObject of
        None \<Rightarrow> Some (w, False)
      | Some a \<Rightarrow>
          if cls \<ge> 0x100 then Some (w, False)
          else do { n \<leftarrow> c_nodes w a; Some (put_node a (Some (n\<lparr>nd_deviceClass := ucast cls\<rparr>)) w, True) })"

definition HdfDeviceObjectAlloc ::
  "'s core_env \<Rightarrow> nat option \<Rightarrow> cstr option \<Rightarrow> ('m, 's) hdf_core \<Rightarrow> (('m, 's) hdf_core \<times> nat option) option" where
  "HdfDeviceObjectAlloc env parent driverName w =
     (case parent of
        None \<Rightarrow> Some (w, None)
      | Some p \<Rightarrow> do {
          pn \<leftarrow> c_nodes w p;
          (if nd_devStatus pn \<noteq> DEVNODE_LAUNCHED then Some (w, None)
           else
             (case DeviceNodeExtCreate env w of
                (w1, None) \<Rightarrow> Some (w1, None)
              | (w1, Some a) \<Rightarrow> do {
                  n \<leftarrow> c_nodes w1 a;
                  (case ask (ce_string env) w1 of
                     (w2, ok) \<Rightarrow>
                       (case HdfStringCopy ok driverName of
                          None \<Rightarrow> do { w3 \<leftarrow> HdfDeviceNodeFreeInstance a w2; Some (w3, None) }
                        | Some nm \<Rightarrow>
                            Some (put_node a (Some (n\<lparr>nd_driverName := Some nm, nd_hostService := nd_hostService pn,
                                                     nd_device := nd_device pn\<rparr>)) w2, Some a)))
                }))
        })"

definition HdfDeviceObjectRelease :: "nat option \<Rightarrow> ('m, 's) hdf_core \<Rightarrow> ('m, 's) hdf_core option" where
  "HdfDeviceObjectRelease dev w =
     (case dev of
        None \<Rightarrow> Some w
      | Some a \<Rightarrow> do {
          n \<leftarrow> c_nodes w a;
          w1 \<leftarrow> (if nd_device n \<noteq> None then map_option fst (HdfDeviceDetach (nd_device n) (Some a) w) else Some w);
          HdfDeviceNodeFreeInstance a w1
        })"

definition HdfDeviceObjectRegister ::
  "'s core_env \<Rightarrow> nat option \<Rightarrow> ('m, 's) hdf_core \<Rightarrow> (('m, 's) hdf_core \<times> int) option" where
  "HdfDeviceObjectRegister env dev w =
     (case dev of
        None \<Rightarrow> Some (w, HDF_ERR_INVALID_PARAM)
      | Some a \<Rightarrow> do {
          n \<leftarrow> c_nodes w a;
          (if nd_driverName n = None \<or> nd_device n = None \<or> \<not> ce_loader env then Some (w, HDF_ERR_INVALID_PARAM)
           else do {
             (w1, driver) \<leftarrow> HdfDriverLoaderGetDriver env (nd_driverName n) w;
             (let w2 = put_node a (Some (n\<lparr>nd_driver := driver\<rparr>)) w1
              in if driver = None then Some (w2, HDF_DEV_ERR_NO_DEVICE)
                 else do {
                   (w3, ret) \<leftarrow> HdfDeviceAttach env (nd_device n) (Some a) w2;
                   Some (w3, if ret \<noteq> HDF_SUCCESS then HDF_DEV_ERR_ATTACHDEV_FAIL else ret)
                 })
           })
        })"

text \<open>A NULL object is not refused: the node computed from it is never NULL.\<close>

definition HdfDeviceObjectUnRegister :: "nat option \<Rightarrow> ('m, 's) hdf_core \<Rightarrow> (('m, 's) hdf_core \<times> int) option" where
  "HdfDeviceObjectUnRegister dev w = do {
     a \<leftarrow> dev;
     n \<leftarrow> c_nodes w a;
     (if nd_device n = None then Some (w, HDF_ERR_INVALID_OBJECT) else HdfDeviceDetach (nd_device n) (Some a) w)
   }"

definition HdfDeviceObjectPublishService ::
  "'s core_env \<Rightarrow> nat option \<Rightarrow> cstr option \<Rightarrow> u8 \<Rightarrow> u32 \<Rightarrow> ('m, 's) hdf_core \<Rightarrow> (('m, 's) hdf_core \<times> int) option" where
  "HdfDeviceObjectPublishService env dev svcName policy perm w =
     (case (dev, svcName) of
        (Some a, Some nm) \<Rightarrow>
          if policy \<le> 0 \<or> policy \<ge> 5 then Some (w, HDF_DEV_ERR_NO_DEVICE_SERVICE)
          else do {
            n \<leftarrow> c_nodes w a;
            (if nd_servStatus n then Some (w, HDF_FAILURE)
             else
               (case ask (ce_string env) w of
                  (w1, ok) \<Rightarrow>
                    (let n1 = n\<lparr>nd_servName := HdfStringCopy ok (Some nm)\<rparr> in
                     if nd_servName n1 = None then Some (put_node a (Some n1) w1, HDF_DEV_ERR_NO_MEMORY)
                     else do {
                       (w2, ret) \<leftarrow> DeviveDriverBind env a
                          (put_node a (Some (n1\<lparr>nd_policy := ucast policy, nd_permission := ucast perm\<rparr>)) w1);
                       (if ret \<noteq> HDF_SUCCESS then Some (w2, ret) else DeviceNodeExtPublishService env a w2)
                     })))
          }
      | _ \<Rightarrow> Some (w, HDF_ERR_INVALID_PARAM))"

definition HdfDeviceObjectRemoveService :: "nat option \<Rightarrow> ('m, 's) hdf_core \<Rightarrow> (('m, 's) hdf_core \<times> int) option" where
  "HdfDeviceObjectRemoveService dev w =
     (case dev of None \<Rightarrow> Some (w, HDF_ERR_INVALID_PARAM) | Some a \<Rightarrow> DeviceNodeExtRemoveService a w)"

definition HdfDeviceObjectSetServInfo ::
  "'s core_env \<Rightarrow> nat option \<Rightarrow> cstr option \<Rightarrow> ('m, 's) hdf_core \<Rightarrow> (('m, 's) hdf_core \<times> int) option" where
  "HdfDeviceObjectSetServInfo env dev sinfo w =
     (case (dev, sinfo) of
        (Some a, Some s) \<Rightarrow>
          if length s > 128 then Some (w, HDF_ERR_INVALID_PARAM)
          else do {
            n \<leftarrow> c_nodes w a;
            (case ask (ce_string env) w of
               (w1, ok) \<Rightarrow>
                 (let copy = HdfStringCopy ok (Some s)
                  in Some (put_node a (Some (n\<lparr>nd_servInfo := copy\<rparr>)) w1, if copy = None then HDF_ERR_MALLOC_FAIL else HDF_SUCCESS)))
          }
      | _ \<Rightarrow> Some (w, HDF_ERR_INVALID_PARAM))"

definition HdfDeviceObjectUpdate :: "nat option \<Rightarrow> ('m, 's) hdf_core \<Rightarrow> (('m, 's) hdf_core \<times> int) option" where
  "HdfDeviceObjectUpdate dev w =
     (case dev of
        None \<Rightarrow> Some (w, HDF_ERR_INVALID_PARAM)
      | Some a \<Rightarrow> do {
          n \<leftarrow> c_nodes w a;
          (m, ret) \<leftarrow> DevSvcManagerClntUpdateService (c_svcmgr w) (nd_servName n) (nd_deviceClass n) (Some a) (nd_servInfo n);
          Some (w\<lparr>c_svcmgr := m\<rparr>, ret)
        })"

end
