(* ===== verification/Service_Registry.thy ===== *)
theory Service_Registry
  imports Dev_Svc_Clnt
begin

text \<open>
  The interface through which device nodes use the service manager, with the laws they rely on:
  a service that was added is found under the key of its name, one that was removed is not, a
  refused request changes nothing, and no request runs into undefined behaviour. The table of the
  kernel's manager satisfies the laws on the states that its operations keep.
\<close>

abbreviation svc_key_of :: "cstr \<Rightarrow> u32" where
  "svc_key_of nm \<equiv> HdfStringMakeHashKey (Some nm) 0"

locale service_registry =
  fixes ops :: "('m, nat, 's) IDevSvcManager"
    and reg_ok :: "'m \<Rightarrow> bool"
    and view :: "'m \<Rightarrow> u32 \<Rightarrow> nat option"
  assumes add_law: "reg_ok m \<Longrightarrow>
      \<exists>f m' r. ops_AddService ops = Some f \<and> f m nm cls (Some a) i = Some (m', r) \<and> reg_ok m' \<and>
        (r = HDF_SUCCESS \<longrightarrow> (\<exists>n. nm = Some n \<and> view m' = (view m)(svc_key_of n := Some a))) \<and>
        (r \<noteq> HDF_SUCCESS \<longrightarrow> view m' = view m)"
    and update_law: "reg_ok m \<Longrightarrow>
      \<exists>f m' r. ops_UpdateService ops = Some f \<and> f m nm cls (Some a) i = Some (m', r) \<and> reg_ok m' \<and>
        (r = HDF_SUCCESS \<longrightarrow> (\<exists>n. nm = Some n \<and> view m (svc_key_of n) \<noteq> None \<and> view m' = (view m)(svc_key_of n := Some a))) \<and>
        (r \<noteq> HDF_SUCCESS \<longrightarrow> view m' = view m)"
    and remove_law: "reg_ok m \<Longrightarrow>
      \<exists>f m'. ops_RemoveService ops = Some f \<and> f m nm = Some m' \<and> reg_ok m' \<and>
        (nm = None \<longrightarrow> view m' = view m) \<and> (\<forall>n. nm = Some n \<longrightarrow> view m' = (view m)(svc_key_of n := None))"
begin

text \<open>The client calls of a host, on a client that has the table.\<close>

definition clnt_ok :: "('m, nat, 's) svcmgr_clnt \<Rightarrow> bool" where
  "clnt_ok c \<longleftrightarrow> (\<exists>m. c = Some (Some (ops, m)) \<and> reg_ok m)"

definition clnt_view :: "('m, nat, 's) svcmgr_clnt \<Rightarrow> u32 \<Rightarrow> nat option" where
  "clnt_view c = (case c of Some (Some (t, m)) \<Rightarrow> view m | _ \<Rightarrow> (\<lambda>_. None))"

lemma clnt_view_simps [simp]: "clnt_view (Some (Some (t, m))) = view m"
  by (simp add: clnt_view_def)

lemma clnt_add:
  assumes "clnt_ok c"
  obtains c' r where "DevSvcManagerClntAddService c nm cls (Some a) i = Some (c', r)" "clnt_ok c'"
    "r = HDF_SUCCESS \<Longrightarrow> \<exists>n. nm = Some n \<and> clnt_view c' = (clnt_view c)(svc_key_of n := Some a)"
    "r \<noteq> HDF_SUCCESS \<Longrightarrow> clnt_view c' = clnt_view c"
proof -
  from assms obtain m where c: "c = Some (Some (ops, m))" "reg_ok m"
    by (auto simp: clnt_ok_def)
  show thesis
  proof (cases "cls \<ge> 0x100")
    case True
    then show ?thesis
      using c by (intro that [of c HDF_FAILURE]) (simp_all add: DevSvcManagerClntAddService_def clnt_ok_def)
  next
    case False
    from add_law [OF c(2), of nm cls a i] obtain f m' r where f: "ops_AddService ops = Some f"
      "f m nm cls (Some a) i = Some (m', r)" "reg_ok m'"
      "r = HDF_SUCCESS \<longrightarrow> (\<exists>n. nm = Some n \<and> view m' = (view m)(svc_key_of n := Some a))"
      "r \<noteq> HDF_SUCCESS \<longrightarrow> view m' = view m"
      by blast
    then show ?thesis
      using False c by (intro that [of "Some (Some (ops, m'))" r])
        (auto simp: DevSvcManagerClntAddService_def clnt_ok_def clnt_state_def)
  qed
qed

lemma clnt_update:
  assumes "clnt_ok c"
  obtains c' r where "DevSvcManagerClntUpdateService c nm cls (Some a) i = Some (c', r)" "clnt_ok c'"
    "r = HDF_SUCCESS \<Longrightarrow> \<exists>n. nm = Some n \<and> clnt_view c (svc_key_of n) \<noteq> None \<and> clnt_view c' = (clnt_view c)(svc_key_of n := Some a)"
    "r \<noteq> HDF_SUCCESS \<Longrightarrow> clnt_view c' = clnt_view c"
proof -
  from assms obtain m where c: "c = Some (Some (ops, m))" "reg_ok m"
    by (auto simp: clnt_ok_def)
  show thesis
  proof (cases "cls \<ge> 0x100")
    case True
    then show ?thesis
      using c by (intro that [of c HDF_FAILURE]) (simp_all add: DevSvcManagerClntUpdateService_def clnt_ok_def)
  next
    case False
    from update_law [OF c(2), of nm cls a i] obtain f m' r where f: "ops_UpdateService ops = Some f"
      "f m nm cls (Some a) i = Some (m', r)" "reg_ok m'"
      "r = HDF_SUCCESS \<longrightarrow> (\<exists>n. nm = Some n \<and> view m (svc_key_of n) \<noteq> None \<and> view m' = (view m)(svc_key_of n := Some a))"
      "r \<noteq> HDF_SUCCESS \<longrightarrow> view m' = view m"
      by blast
    then show ?thesis
      using False c by (intro that [of "Some (Some (ops, m'))" r])
        (auto simp: DevSvcManagerClntUpdateService_def clnt_ok_def clnt_state_def)
  qed
qed

lemma clnt_remove:
  assumes "clnt_ok c"
  obtains c' where "DevSvcManagerClntRemoveService c nm = Some c'" "clnt_ok c'"
    "clnt_view c' = (case nm of None \<Rightarrow> clnt_view c | Some n \<Rightarrow> (clnt_view c)(svc_key_of n := None))"
proof -
  from assms obtain m where c: "c = Some (Some (ops, m))" "reg_ok m"
    by (auto simp: clnt_ok_def)
  from remove_law [OF c(2), of nm] obtain f m' where "ops_RemoveService ops = Some f" "f m nm = Some m'" "reg_ok m'"
    "nm = None \<longrightarrow> view m' = view m" "\<forall>n. nm = Some n \<longrightarrow> view m' = (view m)(svc_key_of n := None)"
    by blast
  then show thesis
    using c by (intro that [of "Some (Some (ops, m'))"])
      (auto simp: DevSvcManagerClntRemoveService_def clnt_ok_def clnt_state_def split: option.splits)
qed

end

text \<open>A registry that has memory for records and names accepts every service with a name.\<close>

locale willing_registry = service_registry ops reg_ok view
  for ops :: "('m, nat, 's) IDevSvcManager" and reg_ok :: "'m \<Rightarrow> bool" and view :: "'m \<Rightarrow> u32 \<Rightarrow> nat option" +
  assumes willing_law: "ops_AddService ops = Some f \<Longrightarrow> length n < SECUREC_STRING_MAX_LEN \<Longrightarrow>
      f m (Some n) cls (Some a) i = Some (m', r) \<Longrightarrow> r = HDF_SUCCESS"
begin

lemma clnt_add_willing:
  assumes "clnt_ok c" "length n < SECUREC_STRING_MAX_LEN" "cls < 0x100"
    and "DevSvcManagerClntAddService c (Some n) cls (Some a) i = Some (c', r)"
  shows "r = HDF_SUCCESS"
proof -
  from assms(1) obtain m where c: "c = Some (Some (ops, m))" "reg_ok m" by (auto simp: clnt_ok_def)
  obtain f where f: "ops_AddService ops = Some f" using add_law [OF c(2)] by blast
  have "\<not> cls \<ge> 0x100" using assms(3) by simp
  then obtain m' where "f m (Some n) cls (Some a) i = Some (m', r)"
    using assms(4) c(1) f by (auto simp: DevSvcManagerClntAddService_def)
  then show ?thesis using willing_law [OF f assms(2)] by blast
qed

end

section \<open>The kernel's manager provides it\<close>

definition svc_view :: "'o DevSvcManager \<Rightarrow> u32 \<Rightarrow> 'o option" where
  "svc_view m k = Option.bind (find_key k (services m)) svc_value"

lemma mgr_ok_notified:
  assumes "notify_effect cls st as m m'" "services_ok (services m)"
  shows "mgr_ok m'" "svc_view m' = svc_view m"
  using assms by (auto elim!: notify_effectE simp: mgr_ok_def svc_view_def)

lemma svc_view_update:
  assumes "find_key k (services m) = Some r" "\<And>r. svc_key (f r) = svc_key r" "\<And>r. svc_value (f r) = Some v"
  shows "svc_view (m\<lparr>services := update_record k f (services m)\<rparr>) = (svc_view m)(k := Some v)"
  using assms by (auto simp: svc_view_def fun_eq_iff find_key_update)

lemma svc_view_append:
  assumes "find_key (svc_key r) (services m) = None"
  shows "svc_view (m\<lparr>services := services m @ [r]\<rparr>) = (svc_view m)(svc_key r := svc_value r)"
  using assms by (auto simp: svc_view_def fun_eq_iff find_key_append split: option.splits)

lemma svc_view_remove1:
  assumes "mgr_ok m" "find_key k (services m) = Some r" "services m' = services m"
  shows "svc_view (m'\<lparr>services := remove1 r (services m)\<rparr>) = (svc_view m)(k := None)"
proof -
  have "distinct (map svc_key (services m))" "r \<in> set (services m)" "svc_key r = k"
    using assms(1) find_key_Some [OF assms(2)] by (auto simp: mgr_ok_def services_ok_def)
  from find_key_remove1 [OF this(1,2)] this(3) show ?thesis
    by (auto simp: svc_view_def fun_eq_iff)
qed

lemma services_ok_update_value:
  assumes "services_ok rs" "\<And>r. svc_key (f r) = svc_key r" "\<And>r. servName (f r) = servName r" "\<And>r. svc_value (f r) = Some v"
  shows "services_ok (update_record k f rs)"
  using assms by (intro services_ok_update) simp_all

lemma manager_add:
  assumes ok: "mgr_ok m"
  shows "\<exists>m' r. DevSvcManagerAddService env al (Some m) nm cls (Some a) i = Some (Some m', r) \<and> mgr_ok m' \<and>
    (r = HDF_SUCCESS \<longrightarrow> (\<exists>n. nm = Some n \<and> svc_view m' = (svc_view m)(svc_key_of n := Some a))) \<and>
    (r \<noteq> HDF_SUCCESS \<longrightarrow> svc_view m' = svc_view m)"
proof (cases nm)
  case None
  then show ?thesis using ok by (simp add: DevSvcManagerAddService_def)
next
  case (Some n)
  from ok show ?thesis
  proof (cases rule: AddService_effect [of m n env al cls a i])
    case (exists r)
    let ?m = "m\<lparr>services := update_record (svc_key_of n) (\<lambda>r. r\<lparr>svc_value := Some a\<rparr>) (services m)\<rparr>"
    have "mgr_ok ?m"
      using ok services_ok_update_value [of "services m" "\<lambda>r. r\<lparr>svc_value := Some a\<rparr>" a "svc_key_of n"] by (simp add: mgr_ok_def)
    moreover have "svc_view ?m = (svc_view m)(svc_key_of n := Some a)"
      by (rule svc_view_update [OF exists(1)]) simp_all
    ultimately show ?thesis
      using exists(2) Some by blast
  next
    case (added r m')
    have r: "svc_key r = svc_key_of n" "svc_value r = Some a" "servName r = Some n"
      using added(2) by simp_all
    have "services_ok (services m @ [r])"
      using ok added(1) r by (intro services_ok_append) (simp_all add: mgr_ok_def)
    then have "mgr_ok m'" "svc_view m' = svc_view (m\<lparr>services := services m @ [r]\<rparr>)"
      using mgr_ok_notified [OF added(6)] by simp_all
    moreover have "svc_view (m\<lparr>services := services m @ [r]\<rparr>) = (svc_view m)(svc_key_of n := Some a)"
      using svc_view_append [of r m] added(1) r by simp
    ultimately show ?thesis
      using added(5) Some by auto
  next
    case (refused ret)
    then show ?thesis using ok Some by blast
  qed
qed

lemma manager_update:
  assumes ok: "mgr_ok m"
  shows "\<exists>m' r. DevSvcManagerUpdateService env b (Some m) nm cls (Some a) i = Some (Some m', r) \<and> mgr_ok m' \<and>
    (r = HDF_SUCCESS \<longrightarrow> (\<exists>n. nm = Some n \<and> svc_view m (svc_key_of n) \<noteq> None \<and> svc_view m' = (svc_view m)(svc_key_of n := Some a))) \<and>
    (r \<noteq> HDF_SUCCESS \<longrightarrow> svc_view m' = svc_view m)"
proof (cases nm)
  case None
  then show ?thesis using ok by (simp add: DevSvcManagerUpdateService_def)
next
  case (Some n)
  from ok show ?thesis
  proof (cases rule: UpdateService_effect [of m n b i env cls a])
    case (updated r j m')
    let ?f = "\<lambda>r. r\<lparr>svc_value := Some a, devClass := cls, servInfo := Some j\<rparr>"
    have sok: "services_ok (services m)" using ok by (simp add: mgr_ok_def)
    have "services_ok (services (m\<lparr>services := update_record (svc_key_of n) ?f (services m)\<rparr>))"
      using services_ok_update_value [OF sok, of ?f a "svc_key_of n"] by simp
    from mgr_ok_notified [OF updated(4) this]
    have "mgr_ok m'" "svc_view m' = svc_view (m\<lparr>services := update_record (svc_key_of n) ?f (services m)\<rparr>)" .
    moreover have "svc_view (m\<lparr>services := update_record (svc_key_of n) ?f (services m)\<rparr>) = (svc_view m)(svc_key_of n := Some a)"
      by (rule svc_view_update [OF updated(1)]) simp_all
    moreover have "svc_view m (svc_key_of n) \<noteq> None"
      using sok find_key_Some [OF updated(1)] updated(1) by (auto simp: svc_view_def services_ok_def)
    ultimately show ?thesis
      using updated(3) Some by auto
  next
    case (refused ret)
    then show ?thesis using ok Some by blast
  qed
qed

lemma manager_remove:
  assumes ok: "mgr_ok m"
  shows "\<exists>m'. DevSvcManagerRemoveService env (Some m) nm = Some (Some m') \<and> mgr_ok m' \<and>
    (nm = None \<longrightarrow> svc_view m' = svc_view m) \<and> (\<forall>n. nm = Some n \<longrightarrow> svc_view m' = (svc_view m)(svc_key_of n := None))"
proof (cases nm)
  case None
  then show ?thesis using ok by (simp add: DevSvcManagerRemoveService_def Let_def)
next
  case (Some n)
  from ok show ?thesis
  proof (cases rule: RemoveService_effect [of m n env])
    case (removed r m')
    from removed(3) have m': "services m' = services m" "holders_ok (svcstatListeners m') (g_holderList m') (holder_mem m')"
      by (auto elim: notify_effectE)
    let ?m = "m'\<lparr>services := remove1 r (services m)\<rparr>"
    have "mgr_ok ?m"
      using ok m' services_ok_remove1 [of "services m" r] by (simp add: mgr_ok_def)
    then show ?thesis
      using removed(2) Some svc_view_remove1 [OF ok removed(1) m'(1)] by auto
  next
    case absent
    then have "(svc_view m)(svc_key_of n := None) = svc_view m"
      by (auto simp: svc_view_def fun_eq_iff)
    then show ?thesis using absent(2) ok Some by auto
  qed
qed

interpretation devsvc: service_registry "manager_ops env al hasDevmgr objService" mgr_ok svc_view
  for env :: notify_env and al :: svc_alloc and hasDevmgr :: bool and objService :: "nat \<Rightarrow> 's option"
proof unfold_locales
  fix m :: "nat DevSvcManager" and nm cls a i
  assume ok: "mgr_ok m"
  show "\<exists>f m' r. ops_AddService (manager_ops env al hasDevmgr objService) = Some f \<and> f m nm cls (Some a) i = Some (m', r) \<and>
      mgr_ok m' \<and> (r = HDF_SUCCESS \<longrightarrow> (\<exists>n. nm = Some n \<and> svc_view m' = (svc_view m)(svc_key_of n := Some a))) \<and>
      (r \<noteq> HDF_SUCCESS \<longrightarrow> svc_view m' = svc_view m)"
    using manager_add [OF ok, of env al nm cls a i] by (auto simp: manager_ops_def)
  show "\<exists>f m' r. ops_UpdateService (manager_ops env al hasDevmgr objService) = Some f \<and> f m nm cls (Some a) i = Some (m', r) \<and>
      mgr_ok m' \<and> (r = HDF_SUCCESS \<longrightarrow> (\<exists>n. nm = Some n \<and> svc_view m (svc_key_of n) \<noteq> None \<and> svc_view m' = (svc_view m)(svc_key_of n := Some a))) \<and>
      (r \<noteq> HDF_SUCCESS \<longrightarrow> svc_view m' = svc_view m)"
    using manager_update [OF ok, of env "sa_info al" nm cls a i] by (auto simp: manager_ops_def)
  show "\<exists>f m'. ops_RemoveService (manager_ops env al hasDevmgr objService) = Some f \<and> f m nm = Some m' \<and> mgr_ok m' \<and>
      (nm = None \<longrightarrow> svc_view m' = svc_view m) \<and> (\<forall>n. nm = Some n \<longrightarrow> svc_view m' = (svc_view m)(svc_key_of n := None))"
    using manager_remove [OF ok, of env nm] by (auto simp: manager_ops_def)
qed

interpretation devsvc_willing: willing_registry
  "manager_ops env \<lparr>sa_record = True, sa_name = True, sa_info = b\<rparr> hasDevmgr objService" mgr_ok svc_view
  for env :: notify_env and b :: bool and hasDevmgr :: bool and objService :: "nat \<Rightarrow> 's option"
proof unfold_locales
  fix f :: "nat DevSvcManager \<Rightarrow> cstr option \<Rightarrow> u16 \<Rightarrow> nat option \<Rightarrow> cstr option \<Rightarrow> (nat DevSvcManager \<times> int) option" and n m cls a i m' r
  assume "ops_AddService (manager_ops env \<lparr>sa_record = True, sa_name = True, sa_info = b\<rparr> hasDevmgr objService) = Some f"
    "length n < SECUREC_STRING_MAX_LEN" "f m (Some n) cls (Some a) i = Some (m', r)"
  then show "r = HDF_SUCCESS"
    by (auto simp: manager_ops_def DevSvcManagerAddService_def DevSvcRecordNewInstance_def HdfStringCopy_ok Let_def
        split: if_splits option.splits)
qed

end
