(* ===== verification/Node_Contracts.thy ===== *)
theory Node_Contracts
  imports Device_Node Service_Registry
begin

text \<open>
  What the operations of a device node do to the state they share: the registry never refers to a
  node that is not published, and an operation on one node leaves the others, their tokens and the
  devices alone.
\<close>

section \<open>Field updates\<close>

lemma put_node_simps [simp]:
  "c_nodes (put_node a n w) = (c_nodes w)(a := n)" "c_devices (put_node a n w) = c_devices w"
  "c_hosts (put_node a n w) = c_hosts w" "c_tokens (put_node a n w) = c_tokens w"
  "c_clients (put_node a n w) = c_clients w" "c_svcmgr (put_node a n w) = c_svcmgr w"
  "c_driverMem (put_node a n w) = c_driverMem w" "c_driverList (put_node a n w) = c_driverList w"
  "c_next (put_node a n w) = c_next w" "c_calls (put_node a n w) = c_calls w"
  by (simp_all add: put_node_def)

lemma set_device_simps [simp]:
  "c_nodes (set_device a n w) = c_nodes w" "c_devices (set_device a v w) = (c_devices w)(a := v)"
  "c_hosts (set_device a v w) = c_hosts w" "c_tokens (set_device a v w) = c_tokens w"
  "c_clients (set_device a v w) = c_clients w" "c_svcmgr (set_device a v w) = c_svcmgr w"
  "c_driverMem (set_device a v w) = c_driverMem w" "c_driverList (set_device a v w) = c_driverList w"
  "c_next (set_device a v w) = c_next w" "c_calls (set_device a v w) = c_calls w"
  by (simp_all add: set_device_def)

lemma set_token_simps [simp]:
  "c_nodes (set_token t v w) = c_nodes w" "c_devices (set_token t v w) = c_devices w"
  "c_hosts (set_token t v w) = c_hosts w" "c_tokens (set_token t v w) = (c_tokens w)(t := v)"
  "c_clients (set_token t v w) = c_clients w" "c_svcmgr (set_token t v w) = c_svcmgr w"
  "c_driverMem (set_token t v w) = c_driverMem w" "c_driverList (set_token t v w) = c_driverList w"
  "c_next (set_token t v w) = c_next w" "c_calls (set_token t v w) = c_calls w"
  by (simp_all add: set_token_def)

lemma set_host_simps [simp]:
  "c_nodes (set_host h v w) = c_nodes w" "c_devices (set_host h v w) = c_devices w"
  "c_hosts (set_host h v w) = (c_hosts w)(h := v)" "c_tokens (set_host h v w) = c_tokens w"
  "c_clients (set_host h v w) = c_clients w" "c_svcmgr (set_host h v w) = c_svcmgr w"
  "c_driverMem (set_host h v w) = c_driverMem w" "c_driverList (set_host h v w) = c_driverList w"
  "c_next (set_host h v w) = c_next w" "c_calls (set_host h v w) = c_calls w"
  by (simp_all add: set_host_def)

lemma tick_simps [simp]:
  "c_nodes (tick w) = c_nodes w" "c_devices (tick w) = c_devices w" "c_hosts (tick w) = c_hosts w"
  "c_tokens (tick w) = c_tokens w" "c_clients (tick w) = c_clients w" "c_svcmgr (tick w) = c_svcmgr w"
  "c_driverMem (tick w) = c_driverMem w" "c_driverList (tick w) = c_driverList w" "c_next (tick w) = c_next w"
  "c_calls (tick w) = c_calls w"
  by (simp_all add: tick_def)

lemma log_call_simps [simp]:
  "c_nodes (log_call c a w) = c_nodes w" "c_devices (log_call c a w) = c_devices w" "c_hosts (log_call c a w) = c_hosts w"
  "c_tokens (log_call c a w) = c_tokens w" "c_clients (log_call c a w) = c_clients w" "c_svcmgr (log_call c a w) = c_svcmgr w"
  "c_driverMem (log_call c a w) = c_driverMem w" "c_driverList (log_call c a w) = c_driverList w"
  "c_next (log_call c a w) = c_next w" "c_calls (log_call c a w) = c_calls w @ [(c, a)]"
  by (simp_all add: log_call_def)

lemma fresh_simps [simp]:
  "snd (fresh w) = c_next w"
  "c_nodes (fst (fresh w)) = c_nodes w" "c_devices (fst (fresh w)) = c_devices w" "c_hosts (fst (fresh w)) = c_hosts w"
  "c_tokens (fst (fresh w)) = c_tokens w" "c_clients (fst (fresh w)) = c_clients w" "c_svcmgr (fst (fresh w)) = c_svcmgr w"
  "c_driverMem (fst (fresh w)) = c_driverMem w" "c_driverList (fst (fresh w)) = c_driverList w"
  "c_next (fst (fresh w)) = Suc (c_next w)" "c_calls (fst (fresh w)) = c_calls w"
  by (simp_all add: fresh_def)

lemmas do_simps = Option.bind_eq_Some_conv

section \<open>Frames\<close>

text \<open>What a host is, apart from its observer.\<close>

definition host_ids :: "('m, 's) hdf_core \<Rightarrow> nat \<Rightarrow> (u16 \<times> nat list) option" where
  "host_ids w = (\<lambda>h. map_option (\<lambda>hs. (hs_hostId hs, hs_devices hs)) (c_hosts w h))"

definition node_frame :: "nat \<Rightarrow> ('m, 's) hdf_core \<Rightarrow> ('m, 's) hdf_core \<Rightarrow> bool" where
  "node_frame a w w' \<longleftrightarrow> (\<forall>b. b \<noteq> a \<longrightarrow> c_nodes w' b = c_nodes w b) \<and> c_devices w' = c_devices w \<and>
     c_tokens w' = c_tokens w \<and> c_driverMem w' = c_driverMem w \<and> c_driverList w' = c_driverList w \<and>
     c_next w' = c_next w \<and> host_ids w' = host_ids w"

text \<open>The part of a node that launching and publishing keep.\<close>

definition node_kept :: "'s HdfDeviceNode option \<Rightarrow> 's HdfDeviceNode option \<Rightarrow> bool" where
  "node_kept x y \<longleftrightarrow> (\<exists>n n'. x = Some n \<and> y = Some n' \<and> nd_token n' = nd_token n \<and> nd_device n' = nd_device n \<and>
     nd_hostService n' = nd_hostService n \<and> nd_devId n' = nd_devId n \<and> nd_linked n' = nd_linked n \<and>
     nd_servName n' = nd_servName n \<and> nd_policy n' = nd_policy n \<and> nd_driver n' = nd_driver n)"

lemma node_frame_refl [simp]: "node_frame a w w"
  by (simp add: node_frame_def)

lemma node_frame_trans: "node_frame a w w1 \<Longrightarrow> node_frame a w1 w2 \<Longrightarrow> node_frame a w w2"
  by (simp add: node_frame_def)

lemma node_frame_set [simp]: "node_frame a w (put_node a n w1) \<longleftrightarrow> node_frame a w w1"
  by (simp add: node_frame_def host_ids_def)

lemma node_frame_tick [simp]: "node_frame a w (tick w1) \<longleftrightarrow> node_frame a w w1"
  by (simp add: node_frame_def host_ids_def)

lemma node_frame_log [simp]: "node_frame a w (log_call c b w1) \<longleftrightarrow> node_frame a w w1"
  by (simp add: node_frame_def host_ids_def)

lemma node_frame_svcmgr [simp]: "node_frame a w (w1\<lparr>c_svcmgr := m\<rparr>) \<longleftrightarrow> node_frame a w w1"
  by (simp add: node_frame_def host_ids_def)

lemma node_frame_clients [simp]: "node_frame a w (w1\<lparr>c_clients := m\<rparr>) \<longleftrightarrow> node_frame a w w1"
  by (simp add: node_frame_def host_ids_def)

lemma node_frame_connected [simp]: "node_frame a w (w1\<lparr>c_connected := m\<rparr>) \<longleftrightarrow> node_frame a w w1"
  by (simp add: node_frame_def host_ids_def)

lemma node_frame_observer:
  "c_hosts w1 h = Some hs \<Longrightarrow> node_frame a w (set_host h (Some (hs\<lparr>hs_observer := ob\<rparr>)) w1) \<longleftrightarrow> node_frame a w w1"
proof -
  assume "c_hosts w1 h = Some hs"
  then have "host_ids (set_host h (Some (hs\<lparr>hs_observer := ob\<rparr>)) w1) = host_ids w1"
    by (auto simp: host_ids_def)
  then show ?thesis
    by (simp add: node_frame_def)
qed

lemma node_kept_trans: "node_kept x y \<Longrightarrow> node_kept y z \<Longrightarrow> node_kept x z"
  by (auto simp: node_kept_def)

lemma node_kept_refl: "node_kept (Some n) (Some n)"
  by (simp add: node_kept_def)

text \<open>A node that is not published.\<close>

definition unpublished :: "nat \<Rightarrow> ('m, 's) hdf_core \<Rightarrow> bool" where
  "unpublished a w \<longleftrightarrow> (\<exists>n. c_nodes w a = Some n \<and> \<not> nd_servStatus n)"

text \<open>The node after it was detached: as before, without its driver.\<close>

definition node_left :: "'s HdfDeviceNode \<Rightarrow> 's HdfDeviceNode option \<Rightarrow> bool" where
  "node_left n y \<longleftrightarrow> (\<exists>n'. y = Some n' \<and> node_kept (Some n) (Some (n'\<lparr>nd_driver := nd_driver n\<rparr>)))"

text \<open>Attaching puts the token in front of those of its client.\<close>

definition attach_clients :: "nat option \<Rightarrow> (nat \<rightharpoonup> u32) \<Rightarrow> DevHostServiceClnt list \<Rightarrow> DevHostServiceClnt list \<Rightarrow> bool" where
  "attach_clients tok toks cs cs' \<longleftrightarrow> (\<exists>t d c. tok = Some t \<and> toks t = Some d \<and> client_of (HOSTID d) cs = Some c \<and>
     cs' = update_client (hc_addr c) (\<lambda>c. c\<lparr>hc_devices := t # hc_devices c\<rparr>) cs)"

text \<open>Detaching looks at the identifiers behind the tokens of one client only.\<close>

definition detach_clients :: "u32 \<Rightarrow> (nat \<rightharpoonup> u32) \<Rightarrow> DevHostServiceClnt list \<Rightarrow> DevHostServiceClnt list option" where
  "detach_clients devid toks cs =
     (case client_of (HOSTID devid) cs of
        None \<Rightarrow> Some cs
      | Some c \<Rightarrow>
          map_option (\<lambda>found. case found of
                        None \<Rightarrow> cs
                      | Some t \<Rightarrow> update_client (hc_addr c) (\<lambda>c. c\<lparr>hc_devices := remove1 t (hc_devices c)\<rparr>) cs)
            (token_search toks devid (hc_devices c)))"

text \<open>Creating a node for a description, with a token.\<close>

definition world_grows :: "('m, 's) hdf_core \<Rightarrow> ('m, 's) hdf_core \<Rightarrow> bool" where
  "world_grows w w' \<longleftrightarrow> c_nodes w' = c_nodes w \<and> c_devices w' = c_devices w \<and> c_clients w' = c_clients w \<and>
     c_driverMem w' = c_driverMem w \<and> c_driverList w' = c_driverList w \<and> c_next w \<le> c_next w' \<and> host_ids w' = host_ids w \<and>
     (\<forall>t < c_next w. c_tokens w' t = c_tokens w t) \<and> (\<forall>t \<ge> c_next w'. c_tokens w t = None \<longrightarrow> c_tokens w' t = None)"

lemma DetachDevice_eq:
  "map_option fst (DevmgrServiceClntDetachDevice devid w) =
   map_option (\<lambda>cs. w\<lparr>c_clients := cs\<rparr>) (detach_clients devid (c_tokens w) (c_clients w))"
  by (auto simp: DevmgrServiceClntDetachDevice_def DevmgrServiceDetachDevice_def DevmgrServiceFindDeviceHost_def
      detach_clients_def split: option.splits bind_splits)

lemma DetachDevice_op:
  "DevmgrServiceClntDetachDevice devid w = Some (w', r) \<Longrightarrow>
   \<exists>cs. w' = w\<lparr>c_clients := cs\<rparr> \<and> detach_clients devid (c_tokens w) (c_clients w) = Some cs"
  using DetachDevice_eq [of devid w] by (cases "detach_clients devid (c_tokens w) (c_clients w)") auto

context service_registry
begin

definition reg_rel :: "('m, nat, 's) svcmgr_clnt \<Rightarrow> (nat \<rightharpoonup> 's HdfDeviceNode) \<Rightarrow> bool" where
  "reg_rel c nodes \<longleftrightarrow> clnt_ok c \<and>
     (\<forall>k b. clnt_view c k = Some b \<longrightarrow>
        (\<exists>n nm. nodes b = Some n \<and> nd_servStatus n \<and> nd_servName n = Some nm \<and> svc_key_of nm = k))"

abbreviation reg_inv :: "('m, 's) hdf_core \<Rightarrow> bool" where
  "reg_inv w \<equiv> reg_rel (c_svcmgr w) (c_nodes w)"

lemma reg_relD: "reg_rel c nodes \<Longrightarrow> clnt_view c k = Some b \<Longrightarrow>
    \<exists>n nm. nodes b = Some n \<and> nd_servStatus n \<and> nd_servName n = Some nm \<and> svc_key_of nm = k"
  by (simp add: reg_rel_def)

lemma reg_rel_ok: "reg_rel c nodes \<Longrightarrow> clnt_ok c"
  by (simp add: reg_rel_def)

text \<open>A node that is not published is not in the registry, so it may change freely.\<close>

lemma reg_rel_unpublished:
  assumes "reg_rel c nodes" "\<And>n. nodes a = Some n \<Longrightarrow> \<not> nd_servStatus n"
  shows "reg_rel c (nodes(a := x))"
  using assms by (fastforce simp: reg_rel_def)

lemma reg_rel_same:
  assumes "reg_rel c nodes" "nodes a = Some n" "nd_servStatus n' = nd_servStatus n" "nd_servName n' = nd_servName n"
  shows "reg_rel c (nodes(a \<mapsto> n'))"
  using assms by (fastforce simp: reg_rel_def)

lemma reg_rel_added:
  assumes "reg_rel c nodes" "nodes a = Some n" "clnt_ok c'" "nd_servName n = Some nm"
    and "clnt_view c' = (clnt_view c)(svc_key_of nm := Some a)"
    and "nd_servStatus n'" "nd_servName n' = Some nm"
  shows "reg_rel c' (nodes(a \<mapsto> n'))"
  unfolding reg_rel_def
proof (intro conjI allI impI)
  show "clnt_ok c'" by fact
next
  fix k b assume v: "clnt_view c' k = Some b"
  show "\<exists>m mn. (nodes(a \<mapsto> n')) b = Some m \<and> nd_servStatus m \<and> nd_servName m = Some mn \<and> svc_key_of mn = k"
  proof (cases "k = svc_key_of nm")
    case True
    then show ?thesis using v assms(5-7) by auto
  next
    case False
    then have "clnt_view c k = Some b" using v assms(5) by simp
    from reg_relD [OF assms(1) this] show ?thesis
      using assms(2,4,6,7) False by auto
  qed
qed

lemma reg_rel_removed:
  assumes "reg_rel c nodes" "nodes a = Some n" "clnt_ok c'"
    and "clnt_view c' = (case nd_servName n of None \<Rightarrow> clnt_view c | Some nm \<Rightarrow> (clnt_view c)(svc_key_of nm := None))"
  shows "reg_rel c' (nodes(a := x))"
  unfolding reg_rel_def
proof (intro conjI allI impI)
  show "clnt_ok c'" by fact
next
  fix k b assume v: "clnt_view c' k = Some b"
  then have k: "clnt_view c k = Some b" "\<And>nm. nd_servName n = Some nm \<Longrightarrow> k \<noteq> svc_key_of nm"
    using assms(4) by (auto split: option.splits if_splits)
  from reg_relD [OF assms(1) k(1)] k(2) assms(2) show "\<exists>m mn. (nodes(a := x)) b = Some m \<and> nd_servStatus m \<and> nd_servName m = Some mn \<and> svc_key_of mn = k"
    by (cases "b = a") auto
qed

lemma reg_rel_client: "reg_rel c nodes \<Longrightarrow> clnt_ok c' \<Longrightarrow> clnt_view c' = clnt_view c \<Longrightarrow> reg_rel c' nodes"
  by (simp add: reg_rel_def)

end

text \<open>
  A contract of an operation on the node \<^verbatim>\<open>a\<close>: the registry invariant is kept, nothing
  else changes, and the node keeps its place. The list of clients is mentioned where it matters.
\<close>

context service_registry
begin

definition node_op :: "nat \<Rightarrow> ('m, 's) hdf_core \<Rightarrow> ('m, 's) hdf_core \<Rightarrow> bool" where
  "node_op a w w' \<longleftrightarrow> reg_inv w' \<and> node_frame a w w' \<and> node_kept (c_nodes w a) (c_nodes w' a)"

lemma node_opI:
  "reg_inv w' \<Longrightarrow> node_frame a w w' \<Longrightarrow> node_kept (c_nodes w a) (c_nodes w' a) \<Longrightarrow> node_op a w w'"
  by (simp add: node_op_def)

lemma node_opD: "node_op a w w' \<Longrightarrow> reg_inv w'" "node_op a w w' \<Longrightarrow> node_frame a w w'"
  "node_op a w w' \<Longrightarrow> node_kept (c_nodes w a) (c_nodes w' a)"
  by (simp_all add: node_op_def)

lemma node_op_trans: "node_op a w w1 \<Longrightarrow> node_op a w1 w2 \<Longrightarrow> node_op a w w2"
  by (auto simp: node_op_def intro: node_frame_trans node_kept_trans)

lemma node_op_refl: "reg_inv w \<Longrightarrow> c_nodes w a \<noteq> None \<Longrightarrow> node_op a w w"
  by (auto simp: node_op_def node_kept_refl)

lemma node_op_live: "node_op a w w' \<Longrightarrow> c_nodes w' a \<noteq> None"
  by (auto simp: node_op_def node_kept_def)

text \<open>A change of the fields of the node that neither its place nor its service depend on.\<close>

lemma node_op_set:
  assumes "reg_inv w" "c_nodes w a = Some n" "node_kept (Some n) (Some n')" "nd_servStatus n' = nd_servStatus n"
  shows "node_op a w (put_node a (Some n') w)"
  using assms by (auto simp: node_op_def node_kept_def intro!: reg_rel_same)

lemma PublishLocal_op:
  assumes "reg_inv w" "HdfDeviceNodePublishLocalService env a w = Some (w', r)"
  shows "node_op a w w' \<and> c_clients w' = c_clients w \<and> c_calls w' = c_calls w \<and> c_nodes w' = c_nodes w"
proof -
  from assms(2) obtain n where n: "c_nodes w a = Some n"
    by (auto simp: HdfDeviceNodePublishLocalService_def do_simps)
  show ?thesis
  proof (cases "nd_hostService n")
    case None
    then show ?thesis
      using assms n by (auto simp: HdfDeviceNodePublishLocalService_def do_simps intro: node_op_refl)
  next
    case (Some h)
    then obtain hs where h: "c_hosts w h = Some hs"
      using assms(2) n by (auto simp: HdfDeviceNodePublishLocalService_def do_simps)
    obtain ob ret ev where "HdfServiceObserverPublishService (ce_obs env (c_ticks w)) (Some (hs_observer hs)) (nd_servName n)
        (nd_devId n) (nd_policy n) (nd_service n) = (ob, ret, ev)"
      by (rule prod_cases3)
    then have w': "w' = set_host h (Some (hs\<lparr>hs_observer := the ob\<rparr>)) (tick w)\<lparr>c_connected := c_connected w @ ev\<rparr>"
      using assms(2) n h Some by (auto simp: HdfDeviceNodePublishLocalService_def tick_def set_host_def)
    have "node_frame a w w'"
      by (subst w') (simp add: node_frame_observer h)
    moreover have "c_nodes w' = c_nodes w" "c_svcmgr w' = c_svcmgr w" "c_clients w' = c_clients w" "c_calls w' = c_calls w"
      by (subst w', simp)+
    ultimately show ?thesis
      using assms(1) n by (auto simp: node_op_def node_kept_refl)
  qed
qed

lemma PublishPublic_op:
  assumes "reg_inv w" "HdfDeviceNodePublishPublicService a w = Some (w', r)"
  shows "node_op a w w' \<and> c_clients w' = c_clients w \<and> c_calls w' = c_calls w \<and>
    map_option nd_devStatus (c_nodes w' a) = map_option nd_devStatus (c_nodes w a)"
proof -
  from assms(2) obtain n where n: "c_nodes w a = Some n"
    by (auto simp: HdfDeviceNodePublishPublicService_def do_simps)
  show ?thesis
  proof (cases "nd_service n")
    case None
    then show ?thesis
      using assms n by (auto simp: HdfDeviceNodePublishPublicService_def do_simps intro: node_op_refl)
  next
    case (Some s)
    obtain c ret where c: "DevSvcManagerClntAddService (c_svcmgr w) (nd_servName n) (nd_deviceClass n) (Some a) (nd_servInfo n) = Some (c, ret)"
      "clnt_ok c" "ret = HDF_SUCCESS \<Longrightarrow> \<exists>nm. nd_servName n = Some nm \<and> clnt_view c = (clnt_view (c_svcmgr w))(svc_key_of nm := Some a)"
      "ret \<noteq> HDF_SUCCESS \<Longrightarrow> clnt_view c = clnt_view (c_svcmgr w)"
      by (rule clnt_add [OF reg_rel_ok [OF assms(1)], of "nd_servName n" "nd_deviceClass n" a "nd_servInfo n"]) (rule that)
    show ?thesis
    proof (cases "ret = HDF_SUCCESS")
      case True
      then obtain nm where nm: "nd_servName n = Some nm" "clnt_view c = (clnt_view (c_svcmgr w))(svc_key_of nm := Some a)"
        using c(3) by blast
      have "w' = put_node a (Some (n\<lparr>nd_servStatus := True\<rparr>)) (w\<lparr>c_svcmgr := c\<rparr>)"
        using assms(2) n Some c(1) True by (simp add: HdfDeviceNodePublishPublicService_def)
      then show ?thesis
        using n nm c(2) reg_rel_added [OF assms(1) n c(2) nm]
        by (simp add: node_op_def node_kept_def)
    next
      case False
      have "w' = w\<lparr>c_svcmgr := c\<rparr>"
        using assms(2) n Some c(1) False by (simp add: HdfDeviceNodePublishPublicService_def)
      then show ?thesis
        using n c(2) c(4) [OF False] reg_rel_client [OF assms(1) c(2)] by (simp add: node_op_def node_kept_refl)
    qed
  qed
qed

lemma ExtPublish_op:
  assumes "reg_inv w" "DeviceNodeExtPublishService env a w = Some (w', r)"
  shows "node_op a w w' \<and> c_clients w' = c_clients w \<and> c_calls w' = c_calls w \<and>
    map_option nd_devStatus (c_nodes w' a) = map_option nd_devStatus (c_nodes w a)"
proof -
  from assms(2) obtain n where n: "c_nodes w a = Some n"
    by (auto simp: DeviceNodeExtPublishService_def do_simps)
  show ?thesis
  proof (cases "nd_service n")
    case None
    then show ?thesis
      using assms n by (auto simp: DeviceNodeExtPublishService_def intro: node_op_refl)
  next
    case (Some s)
    define cap where "cap \<longleftrightarrow> nd_policy n = 2"
    define io where "io = (if cap then ce_io env (c_ticks w) else nd_ioService n)"
    define w2 where "w2 = put_node a (Some (n\<lparr>nd_ioService := io\<rparr>)) (if cap then tick w else w)"
    have w2: "node_op a w w2" "c_clients w2 = c_clients w" "c_calls w2 = c_calls w"
      "map_option nd_devStatus (c_nodes w2 a) = map_option nd_devStatus (c_nodes w a)"
      using node_op_set [OF assms(1) n, of "n\<lparr>nd_ioService := io\<rparr>"] reg_rel_same [OF assms(1) n, of "n\<lparr>nd_ioService := io\<rparr>"] n
      by (auto simp: w2_def node_op_def node_kept_def)
    have eq: "DeviceNodeExtPublishService env a w =
        (if cap \<and> \<not> io then Some (w2, HDF_DEV_ERR_NO_DEVICE_SERVICE)
         else do {
           (w3, ret) \<leftarrow> HdfDeviceNodePublishPublicService a w2;
           (if ret \<noteq> HDF_SUCCESS
            then do { n3 \<leftarrow> c_nodes w3 a; Some (put_node a (Some (n3\<lparr>nd_ioService := False\<rparr>)) w3, ret) }
            else Some (w3, HDF_SUCCESS)) })"
      using n Some by (simp add: DeviceNodeExtPublishService_def Let_def cap_def io_def w2_def)
    show ?thesis
    proof (cases "cap \<and> \<not> io")
      case True
      then show ?thesis using eq assms(2) w2 by simp
    next
      case False
      obtain w3 ret where w3: "HdfDeviceNodePublishPublicService a w2 = Some (w3, ret)"
        and rest: "(if ret \<noteq> HDF_SUCCESS
            then do { n3 \<leftarrow> c_nodes w3 a; Some (put_node a (Some (n3\<lparr>nd_ioService := False\<rparr>)) w3, ret) }
            else Some (w3, HDF_SUCCESS)) = Some (w', r)"
        using assms(2) unfolding eq if_not_P [OF False] by (auto simp only: do_simps prod.case split_paired_Ex)
      from PublishPublic_op [OF node_opD(1) [OF w2(1)] w3] have o: "node_op a w2 w3" "c_clients w3 = c_clients w2" "c_calls w3 = c_calls w2"
        "map_option nd_devStatus (c_nodes w3 a) = map_option nd_devStatus (c_nodes w2 a)"
        by simp_all
      have "node_op a w3 w' \<and> c_clients w' = c_clients w3 \<and> c_calls w' = c_calls w3 \<and>
          map_option nd_devStatus (c_nodes w' a) = map_option nd_devStatus (c_nodes w3 a)"
        using rest node_op_refl [OF node_opD(1) [OF o(1)] node_op_live [OF o(1)]] node_opD(1) [OF o(1)]
        by (auto simp: do_simps node_kept_def intro!: node_op_set split: if_splits)
      then show ?thesis
        using w2 o by (auto intro: node_op_trans)
    qed
  qed
qed

lemma Publish_op:
  assumes "reg_inv w" "HdfDeviceNodePublishService env a w = Some (w', r)"
  shows "node_op a w w' \<and> c_clients w' = c_clients w \<and> c_calls w' = c_calls w \<and>
    map_option nd_devStatus (c_nodes w' a) = map_option nd_devStatus (c_nodes w a)"
proof -
  from assms(2) obtain n where n: "c_nodes w a = Some n"
    by (auto simp: HdfDeviceNodePublishService_def do_simps)
  show ?thesis
  proof (cases "nd_policy n = 0 \<or> nd_servName n = Some []")
    case True
    then show ?thesis
      using assms n by (auto simp: HdfDeviceNodePublishService_def intro: node_op_refl)
  next
    case False
    with assms(2) n obtain w1 st where w1: "(if nd_policy n = 1 \<or> nd_policy n = 2 then DeviceNodeExtPublishService env a w else Some (w, HDF_SUCCESS)) = Some (w1, st)"
      and rest: "(if st = HDF_SUCCESS then HdfDeviceNodePublishLocalService env a w1 else Some (w1, st)) = Some (w', r)"
      by (auto simp: HdfDeviceNodePublishService_def do_simps)
    have o: "node_op a w w1 \<and> c_clients w1 = c_clients w \<and> c_calls w1 = c_calls w \<and>
        map_option nd_devStatus (c_nodes w1 a) = map_option nd_devStatus (c_nodes w a)"
      using w1 ExtPublish_op [OF assms(1), of env a w1 st] node_op_refl [OF assms(1)] n by (auto split: if_splits)
    then have "node_op a w1 w' \<and> c_clients w' = c_clients w1 \<and> c_calls w' = c_calls w1 \<and>
        map_option nd_devStatus (c_nodes w' a) = map_option nd_devStatus (c_nodes w1 a)"
      using rest PublishLocal_op [OF node_opD(1), of a w w1 env a w' r] node_op_refl [OF node_opD(1) node_op_live, of a w w1]
      by (auto split: if_splits)
    with o show ?thesis by (auto intro: node_op_trans)
  qed
qed

lemma Remove_op:
  assumes "reg_inv w" "HdfDeviceNodeRemoveService a w = Some (w', r)"
  shows "node_op a w w' \<and> c_clients w' = c_clients w \<and> c_calls w' = c_calls w \<and> unpublished a w' \<and>
    map_option nd_devStatus (c_nodes w' a) = map_option nd_devStatus (c_nodes w a)"
proof -
  from assms(2) obtain n where n: "c_nodes w a = Some n"
    by (auto simp: HdfDeviceNodeRemoveService_def do_simps)
  show ?thesis
  proof (cases "nd_servStatus n")
    case False
    then show ?thesis
      using assms n by (auto simp: HdfDeviceNodeRemoveService_def unpublished_def intro: node_op_refl)
  next
    case True
    obtain c where c: "DevSvcManagerClntRemoveService (c_svcmgr w) (nd_servName n) = Some c" "clnt_ok c"
      "clnt_view c = (case nd_servName n of None \<Rightarrow> clnt_view (c_svcmgr w) | Some nm \<Rightarrow> (clnt_view (c_svcmgr w))(svc_key_of nm := None))"
      by (rule clnt_remove [OF reg_rel_ok [OF assms(1)], of "nd_servName n"]) (rule that)
    have "w' = put_node a (Some (n\<lparr>nd_servStatus := False\<rparr>)) (w\<lparr>c_svcmgr := c\<rparr>)"
      using assms(2) n True c(1) by (simp add: HdfDeviceNodeRemoveService_def)
    then show ?thesis
      using n reg_rel_removed [OF assms(1) n c(2,3)] by (simp add: node_op_def node_kept_def unpublished_def)
  qed
qed

lemma ExtRemove_op:
  assumes "reg_inv w" "DeviceNodeExtRemoveService a w = Some (w', r)"
  shows "node_op a w w' \<and> c_clients w' = c_clients w \<and> c_calls w' = c_calls w \<and> unpublished a w' \<and>
    map_option nd_devStatus (c_nodes w' a) = map_option nd_devStatus (c_nodes w a)"
proof -
  from assms(2) obtain n where n: "c_nodes w a = Some n"
    by (auto simp: DeviceNodeExtRemoveService_def do_simps)
  let ?w1 = "if nd_policy n = 2 then put_node a (Some (n\<lparr>nd_ioService := False\<rparr>)) w else w"
  have o: "node_op a w ?w1"
    using node_op_set [OF assms(1) n] node_op_refl [OF assms(1)] n by (auto simp: node_kept_def)
  from assms(2) n have "HdfDeviceNodeRemoveService a ?w1 = Some (w', r)"
    by (simp add: DeviceNodeExtRemoveService_def)
  from Remove_op [OF node_opD(1) [OF o] this] show ?thesis
    using o n by (auto intro: node_op_trans split: if_splits)
qed

lemma ExtRemove_total:
  assumes "reg_inv w" "c_nodes w a = Some n"
  shows "\<exists>w' r. DeviceNodeExtRemoveService a w = Some (w', r)"
proof -
  obtain c where "DevSvcManagerClntRemoveService (c_svcmgr w) (nd_servName n) = Some c"
    by (rule clnt_remove [OF reg_rel_ok [OF assms(1)], of "nd_servName n"])
  then show ?thesis
    using assms(2) by (simp add: DeviceNodeExtRemoveService_def HdfDeviceNodeRemoveService_def)
qed

text \<open>Launching.\<close>

lemma Bind_op:
  assumes "reg_inv w" "DeviveDriverBind env a w = Some (w', r)"
  shows "node_op a w w' \<and> c_clients w' = c_clients w \<and>
    (r = HDF_SUCCESS \<longrightarrow> map_option nd_devStatus (c_nodes w' a) = map_option nd_devStatus (c_nodes w a))"
proof -
  from assms(2) obtain n d e where n: "c_nodes w a = Some n" "nd_driver n = Some d" "c_driverMem w d = Some e"
    by (auto simp: DeviveDriverBind_def do_simps)
  obtain ret s cls where f: "ce_bind env (c_ticks w) e (nd_service n, nd_deviceClass n) = (ret, s, cls)"
    by (rule prod_cases3)
  have u: "node_op a w (put_node a (Some n') w)" if "n' = n\<lparr>nd_devStatus := DEVNODE_NONE\<rparr> \<or> n' = n\<lparr>nd_service := s, nd_deviceClass := cls\<rparr>" for n'
    using node_op_set [OF assms(1) n(1), of n'] that by (auto simp: node_kept_def)
  have v: "node_op a w (log_call CallBind a (put_node a (Some (n\<lparr>nd_service := s, nd_deviceClass := cls\<rparr>)) (tick w)))"
    using u [of "n\<lparr>nd_service := s, nd_deviceClass := cls\<rparr>"] by (simp add: node_op_def)
  show ?thesis
    using assms(2) n f u [of "n\<lparr>nd_devStatus := DEVNODE_NONE\<rparr>"] v node_op_refl [OF assms(1)]
    by (auto simp: DeviveDriverBind_def split: if_splits)
qed

lemma AttachDevice_op:
  assumes "reg_inv w" "c_nodes w a \<noteq> None" "DevmgrServiceClntAttachDevice env tok w = Some (w', r)"
  shows "node_op a w w' \<and> c_nodes w' = c_nodes w \<and> (r \<noteq> HDF_SUCCESS \<longrightarrow> c_clients w' = c_clients w) \<and>
    (r = HDF_SUCCESS \<longrightarrow> attach_clients tok (c_tokens w) (c_clients w) (c_clients w'))"
proof -
  from assms(3) obtain t d where t: "tok = Some t" "c_tokens w t = Some d"
    by (auto simp: DevmgrServiceClntAttachDevice_def DevmgrServiceAttachDevice_def do_simps)
  show ?thesis
    using assms t node_op_refl [OF assms(1,2)]
    by (auto simp: DevmgrServiceClntAttachDevice_def DevmgrServiceAttachDevice_def DevmgrServiceFindDeviceHost_def
        DeviceTokenClntNewInstance_def node_op_def attach_clients_def split: option.splits if_splits)
qed

lemma Launch_op:
  assumes "reg_inv w" "HdfDeviceLaunchNode env a w = Some (w', r)"
  shows "node_op a w w' \<and> (r \<noteq> HDF_SUCCESS \<longrightarrow> c_clients w' = c_clients w) \<and>
    (r = HDF_SUCCESS \<longrightarrow> map_option nd_devStatus (c_nodes w' a) = Some DEVNODE_LAUNCHED \<and>
       (\<exists>n. c_nodes w a = Some n \<and> attach_clients (nd_token n) (c_tokens w) (c_clients w) (c_clients w')))"
proof -
  from assms(2) obtain n d e where n: "c_nodes w a = Some n" "nd_driver n = Some d" "c_driverMem w d = Some e"
    by (auto simp: HdfDeviceLaunchNode_def do_simps)
  show ?thesis
  proof (cases "ent_Init e")
    case False
    then show ?thesis
      using assms n node_op_refl [OF assms(1)] by (auto simp: HdfDeviceLaunchNode_def)
  next
    case True
    let ?w0 = "put_node a (Some (n\<lparr>nd_devStatus := DEVNODE_LAUNCHED\<rparr>)) w"
    have o0: "node_op a w ?w0"
      by (rule node_op_set [OF assms(1) n(1)]) (simp_all add: node_kept_def)
    from assms(2) n True obtain w1 r1 where w1: "DeviveDriverBind env a ?w0 = Some (w1, r1)"
      and rest1: "(if r1 \<noteq> HDF_SUCCESS then Some (w1, r1)
         else
           (case ask (ce_init env) (log_call CallInit a w1) of
              (w2, f) \<Rightarrow>
                if f e \<noteq> HDF_SUCCESS then Some (w2, HDF_DEV_ERR_DEV_INIT_FAIL)
                else do {
                  (w3, r3) \<leftarrow> HdfDeviceNodePublishService env a w2;
                  (if r3 \<noteq> HDF_SUCCESS then Some (w3, HDF_DEV_ERR_PUBLISH_FAIL)
                   else do {
                     n3 \<leftarrow> c_nodes w3 a;
                     (w4, r4) \<leftarrow> DevmgrServiceClntAttachDevice env (nd_token n3) w3;
                     Some (w4, if r4 \<noteq> HDF_SUCCESS then HDF_DEV_ERR_ATTACHDEV_FAIL else r4)
                   })
                })) = Some (w', r)"
      by (auto simp: HdfDeviceLaunchNode_def do_simps)
    have o1: "node_op a w w1" "c_clients w1 = c_clients w"
      "r1 = HDF_SUCCESS \<Longrightarrow> map_option nd_devStatus (c_nodes w1 a) = Some DEVNODE_LAUNCHED"
      using Bind_op [OF node_opD(1) [OF o0] w1] node_op_trans [OF o0] n by auto
    show ?thesis
    proof (cases "r1 = HDF_SUCCESS")
      case False
      then show ?thesis using rest1 o1 n by simp
    next
      case s1: True
      let ?w2 = "tick (log_call CallInit a w1)"
      have o2: "node_op a w ?w2" "c_clients ?w2 = c_clients w" "map_option nd_devStatus (c_nodes ?w2 a) = Some DEVNODE_LAUNCHED"
        using o1 s1 by (simp_all add: node_op_def)
      show ?thesis
      proof (cases "ce_init env (c_ticks (log_call CallInit a w1)) e = HDF_SUCCESS")
        case False
        then show ?thesis using rest1 s1 o2 n by simp
      next
        case s2: True
        with rest1 s1 obtain w3 r3 where w3: "HdfDeviceNodePublishService env a ?w2 = Some (w3, r3)"
          and rest3: "(if r3 \<noteq> HDF_SUCCESS then Some (w3, HDF_DEV_ERR_PUBLISH_FAIL)
                   else do {
                     n3 \<leftarrow> c_nodes w3 a;
                     (w4, r4) \<leftarrow> DevmgrServiceClntAttachDevice env (nd_token n3) w3;
                     Some (w4, if r4 \<noteq> HDF_SUCCESS then HDF_DEV_ERR_ATTACHDEV_FAIL else r4)
                   }) = Some (w', r)"
          by (auto simp: do_simps)
        from Publish_op [OF node_opD(1) [OF o2(1)] w3] have o3: "node_op a w w3" "c_clients w3 = c_clients w"
          "map_option nd_devStatus (c_nodes w3 a) = Some DEVNODE_LAUNCHED"
          using node_op_trans [OF o2(1)] o2(2,3) by auto
        show ?thesis
        proof (cases "r3 = HDF_SUCCESS")
          case False
          then show ?thesis using rest3 o3 n by simp
        next
          case True
          with rest3 obtain n3 w4 r4 where n3: "c_nodes w3 a = Some n3"
            and w4: "DevmgrServiceClntAttachDevice env (nd_token n3) w3 = Some (w4, r4)"
            and r: "w' = w4" "r = (if r4 \<noteq> HDF_SUCCESS then HDF_DEV_ERR_ATTACHDEV_FAIL else r4)"
            by (auto simp: do_simps)
          have "node_op a w3 w4 \<and> c_nodes w4 = c_nodes w3 \<and> (r4 \<noteq> HDF_SUCCESS \<longrightarrow> c_clients w4 = c_clients w3) \<and>
              (r4 = HDF_SUCCESS \<longrightarrow> attach_clients (nd_token n3) (c_tokens w3) (c_clients w3) (c_clients w4))"
            by (rule AttachDevice_op [OF node_opD(1) [OF o3(1)] _ w4]) (simp add: n3)
          moreover have "nd_token n3 = nd_token n" "c_tokens w3 = c_tokens w"
            using node_opD(2,3) [OF o3(1)] n(1) n3 by (auto simp: node_kept_def node_frame_def)
          ultimately show ?thesis
            using r o3 n n3 by (auto intro: node_op_trans split: if_splits)
        qed
      qed
    qed
  qed
qed

lemma Unlaunch_op:
  assumes inv: "reg_inv w" and n: "c_nodes w a = Some n" and f: "HdfDeviceUnlaunchNode a w = Some w'"
  shows "reg_inv w' \<and> node_frame a w w' \<and> node_left n (c_nodes w' a) \<and>
    (nd_devStatus n \<noteq> DEVNODE_LAUNCHED \<longrightarrow> w' = w) \<and>
    (nd_devStatus n = DEVNODE_LAUNCHED \<longrightarrow> unpublished a w' \<and> map_option nd_devStatus (c_nodes w' a) = Some DEVNODE_INITED \<and>
       detach_clients (nd_devId n) (c_tokens w) (c_clients w) = Some (c_clients w'))"
proof (cases "nd_devStatus n = DEVNODE_LAUNCHED")
  case False
  then show ?thesis
    using assms by (simp add: HdfDeviceUnlaunchNode_def node_left_def node_kept_def)
next
  case True
  with f n obtain release w2 r w3 r' n3 where
    w2: "(let w1 = (if release then log_call CallRelease a w else w)
          in if nd_servStatus n then DeviceNodeExtRemoveService a w1 else Some (w1, HDF_SUCCESS)) = Some (w2, r)"
    and w3: "DevmgrServiceClntDetachDevice (nd_devId n) w2 = Some (w3, r')"
    and n3: "c_nodes w3 a = Some n3"
    and w': "w' = put_node a (Some (n3\<lparr>nd_driver := None, nd_devStatus := DEVNODE_INITED\<rparr>)) w3"
    by (auto simp: HdfDeviceUnlaunchNode_def HdfDriverLoaderReclaimDriver_def do_simps)
  let ?w1 = "if release then log_call CallRelease a w else w"
  have w1: "reg_inv ?w1" "c_nodes ?w1 = c_nodes w" "c_clients ?w1 = c_clients w" "c_tokens ?w1 = c_tokens w" "node_frame a w ?w1"
    using inv by simp_all
  have o2: "node_op a ?w1 w2 \<and> c_clients w2 = c_clients w \<and> unpublished a w2"
  proof (cases "nd_servStatus n")
    case True
    with w2 have "DeviceNodeExtRemoveService a ?w1 = Some (w2, r)" by (simp add: Let_def)
    from ExtRemove_op [OF w1(1) this] w1 show ?thesis by simp
  next
    case False
    with w2 have "w2 = ?w1" by (simp add: Let_def)
    then show ?thesis using False n w1 node_op_refl [OF w1(1)] by (auto simp: unpublished_def)
  qed
  obtain cs where cs: "w3 = w2\<lparr>c_clients := cs\<rparr>" "detach_clients (nd_devId n) (c_tokens w2) (c_clients w2) = Some cs"
    using DetachDevice_op [OF w3] by blast
  have fr: "node_frame a w w2" "c_tokens w2 = c_tokens w"
    using node_opD(2) [of a ?w1 w2] o2 w1 node_frame_trans [OF w1(5)] by (auto simp: node_frame_def)
  have n2: "c_nodes w2 a = Some n3" "\<not> nd_servStatus n3" "node_kept (Some n) (Some n3)"
    using n3 cs(1) o2 n w1 node_opD(3) [of a ?w1 w2] by (auto simp: unpublished_def)
  have "reg_inv w'"
    using o2 n2 node_opD(1) [of a ?w1 w2] reg_rel_unpublished [of "c_svcmgr w2" "c_nodes w2" a] w' cs(1) by simp
  moreover have "node_left n (c_nodes w' a)" "unpublished a w'"
    using w' n2 by (simp_all add: node_left_def node_kept_def unpublished_def)
  ultimately show ?thesis
    using True w' cs o2 fr by simp
qed

lemma Unlaunch_total:
  assumes inv: "reg_inv w" and n: "c_nodes w a = Some n"
    and d: "\<And>d. nd_driver n = Some d \<Longrightarrow> c_driverMem w d \<noteq> None"
    and cs: "nd_devStatus n = DEVNODE_LAUNCHED \<Longrightarrow> detach_clients (nd_devId n) (c_tokens w) (c_clients w) \<noteq> None"
  shows "HdfDeviceUnlaunchNode a w \<noteq> None"
proof (cases "nd_devStatus n = DEVNODE_LAUNCHED")
  case False
  then show ?thesis using n by (simp add: HdfDeviceUnlaunchNode_def)
next
  case True
  obtain rel where rel: "(case nd_driver n of None \<Rightarrow> Some False | Some d \<Rightarrow> map_option ent_Release (c_driverMem w d)) = Some rel"
    using d by (cases "nd_driver n") auto
  let ?w1 = "if rel then log_call CallRelease a w else w"
  have w1: "reg_inv ?w1" "c_nodes ?w1 = c_nodes w" "c_clients ?w1 = c_clients w" "c_tokens ?w1 = c_tokens w" "c_nodes ?w1 a = Some n"
    using inv n by simp_all
  obtain w2 r where w2: "(if nd_servStatus n then DeviceNodeExtRemoveService a ?w1 else Some (?w1, HDF_SUCCESS)) = Some (w2, r)"
    using ExtRemove_total [OF w1(1,5)] by (cases "nd_servStatus n") auto
  then have w2': "c_clients w2 = c_clients w" "c_tokens w2 = c_tokens w" "c_nodes w2 a \<noteq> None"
    using ExtRemove_op [OF w1(1), of a w2 r] w1 by (auto simp: node_op_def node_frame_def node_kept_def split: if_splits)
  have "map_option fst (DevmgrServiceClntDetachDevice (nd_devId n) w2) \<noteq> None"
    unfolding DetachDevice_eq using cs [OF True] w2' by simp
  then obtain w3 r3 where w3: "DevmgrServiceClntDetachDevice (nd_devId n) w2 = Some (w3, r3)"
    by auto
  then have "c_nodes w3 a \<noteq> None"
    using DetachDevice_op [OF w3] w2' by auto
  then show ?thesis
    using n True rel w2 w3 by (auto simp: HdfDeviceUnlaunchNode_def Let_def)
qed

text \<open>Destroying a node: it and, unless it was never initialised, its token are gone.\<close>

definition node_freed :: "nat \<Rightarrow> 's HdfDeviceNode \<Rightarrow> ('m, 's) hdf_core \<Rightarrow> ('m, 's) hdf_core \<Rightarrow> bool" where
  "node_freed a n w w' \<longleftrightarrow> reg_inv w' \<and> c_nodes w' = (c_nodes w)(a := None) \<and> c_devices w' = c_devices w \<and>
     c_tokens w' = (case nd_token n of
        None \<Rightarrow> c_tokens w
      | Some t \<Rightarrow> if nd_devStatus n = DEVNODE_NONE then c_tokens w else (c_tokens w)(t := None)) \<and>
     c_driverMem w' = c_driverMem w \<and> c_driverList w' = c_driverList w \<and> c_next w' = c_next w \<and> host_ids w' = host_ids w \<and>
     (if nd_devStatus n = DEVNODE_LAUNCHED
      then detach_clients (nd_devId n) (c_tokens w) (c_clients w) = Some (c_clients w')
      else c_clients w' = c_clients w)"

lemma Free_op:
  assumes inv: "reg_inv w" and n: "c_nodes w a = Some n" and f: "HdfDeviceNodeFreeInstance a w = Some w'"
  shows "node_freed a n w w'"
proof -
  from f obtain w1 r w2 where w1: "DeviceNodeExtRemoveService a w = Some (w1, r)"
    and w2: "HdfDeviceNodeDestruct a w1 = Some w2" and w': "w' = put_node a None w2"
    by (auto simp: HdfDeviceNodeFreeInstance_def DeviceNodeExtRelease_def do_simps)
  note o1 = ExtRemove_op [OF inv w1]
  then obtain n1 where n1: "c_nodes w1 a = Some n1" "\<not> nd_servStatus n1" "node_kept (Some n) (Some n1)"
    "nd_devStatus n1 = nd_devStatus n"
    using n by (auto simp: unpublished_def node_op_def)
  have kept: "nd_token n1 = nd_token n" "nd_devId n1 = nd_devId n"
    using n1(3) by (simp_all add: node_kept_def)
  have fr1: "node_frame a w w1" "reg_inv w1" "c_tokens w1 = c_tokens w" "c_clients w1 = c_clients w"
    using o1 by (auto simp: node_op_def node_frame_def)
  from w2 n1 obtain w3 where w3: "(if nd_devStatus n = DEVNODE_LAUNCHED then HdfDeviceUnlaunchNode a w1 else Some w1) = Some w3"
    and rest: "(if nd_devStatus n = DEVNODE_NONE then Some w3
      else do {
        n3 \<leftarrow> c_nodes w3 a;
        (let w4 = (case nd_token n3 of None \<Rightarrow> w3 | Some t \<Rightarrow> set_token t None w3)
         in Some (put_node a (Some (n3\<lparr>nd_token := None, nd_powerToken := None, nd_servName := None, nd_servInfo := None\<rparr>)) w4))
      }) = Some w2"
    by (auto simp: HdfDeviceNodeDestruct_def do_simps)
  have u: "reg_inv w3 \<and> node_frame a w1 w3 \<and> node_left n1 (c_nodes w3 a) \<and> unpublished a w3 \<and>
    (if nd_devStatus n = DEVNODE_LAUNCHED then detach_clients (nd_devId n) (c_tokens w) (c_clients w) = Some (c_clients w3)
     else c_clients w3 = c_clients w)"
    using w3 Unlaunch_op [OF fr1(2) n1(1), of w3] n1 fr1 kept
    by (auto simp: node_left_def node_kept_def unpublished_def split: if_splits)
  then obtain n3 where n3: "c_nodes w3 a = Some n3" "\<not> nd_servStatus n3" "nd_token n3 = nd_token n"
    using kept by (auto simp: unpublished_def node_left_def node_kept_def)
  have fr3: "node_frame a w w3"
    using fr1(1) u by (auto intro: node_frame_trans)
  have "reg_rel (c_svcmgr w3) ((c_nodes w3)(a := None))"
    using u n3 reg_rel_unpublished [of "c_svcmgr w3" "c_nodes w3" a None] by simp
  moreover have nodes: "(c_nodes w3)(a := None) = (c_nodes w)(a := None)"
    using fr3 by (auto simp: node_frame_def fun_eq_iff)
  ultimately show ?thesis
    using rest w' n3 fr3 u
    by (auto simp: node_freed_def node_frame_def host_ids_def split: option.splits if_splits)
qed

lemma Free_total:
  assumes inv: "reg_inv w" and n: "c_nodes w a = Some n"
    and d: "\<And>d. nd_driver n = Some d \<Longrightarrow> c_driverMem w d \<noteq> None"
    and cs: "nd_devStatus n = DEVNODE_LAUNCHED \<Longrightarrow> detach_clients (nd_devId n) (c_tokens w) (c_clients w) \<noteq> None"
  shows "HdfDeviceNodeFreeInstance a w \<noteq> None"
proof -
  obtain w1 r where w1: "DeviceNodeExtRemoveService a w = Some (w1, r)"
    using ExtRemove_total [OF inv n] by blast
  note o1 = ExtRemove_op [OF inv w1]
  then obtain n1 where n1: "c_nodes w1 a = Some n1" "node_kept (Some n) (Some n1)" "nd_devStatus n1 = nd_devStatus n"
    using n by (auto simp: unpublished_def node_op_def)
  have fr1: "reg_inv w1" "c_tokens w1 = c_tokens w" "c_clients w1 = c_clients w" "c_driverMem w1 = c_driverMem w"
    using o1 by (auto simp: node_op_def node_frame_def)
  have "HdfDeviceUnlaunchNode a w1 \<noteq> None"
    using d cs n1 fr1 by (intro Unlaunch_total [OF fr1(1) n1(1)]) (auto simp: node_kept_def)
  then obtain w3 where w3: "HdfDeviceUnlaunchNode a w1 = Some w3"
    by blast
  then have "c_nodes w3 a \<noteq> None"
    using Unlaunch_op [OF fr1(1) n1(1) w3] by (auto simp: node_left_def)
  then show ?thesis
    using w1 w3 n1 by (auto simp: HdfDeviceNodeFreeInstance_def DeviceNodeExtRelease_def HdfDeviceNodeDestruct_def Let_def)
qed

end

text \<open>The node before its name is looked at.\<close>

abbreviation (input) blank_node :: "'s core_env \<Rightarrow> HdfDeviceInfo \<Rightarrow> nat option \<Rightarrow> ('m, 's) hdf_core \<Rightarrow> 's HdfDeviceNode" where
  "blank_node env di driver w \<equiv>
     \<lparr>nd_linked = False, nd_powerToken = None, nd_hostService = None, nd_property = None,
      nd_service = None, nd_deviceClass = 1, nd_token = Some (Suc (c_next w)), nd_driver = driver, nd_device = None,
      nd_servName = HdfStringCopy (ce_string env (Suc (Suc (c_ticks w)))) (di_svcName di), nd_servInfo = None, nd_driverName = None,
      nd_devId = di_deviceId di, nd_policy = di_policy di, nd_permission = di_permission di,
      nd_devStatus = DEVNODE_NONE, nd_servStatus = False, nd_ioService = False\<rparr>"

lemma NewInstance_shape:
  assumes "ce_node env (c_ticks w)" "ce_token env (Suc (c_ticks w))"
  obtains w3 where "c_nodes w3 = (c_nodes w)(c_next w \<mapsto> blank_node env di driver w)"
    "c_tokens w3 = (c_tokens w)(Suc (c_next w) \<mapsto> di_deviceId di)"
    "c_devices w3 = c_devices w" "c_clients w3 = c_clients w" "c_driverMem w3 = c_driverMem w" "c_svcmgr w3 = c_svcmgr w"
    "c_driverList w3 = c_driverList w" "c_next w3 = Suc (Suc (c_next w))" "host_ids w3 = host_ids w"
    "HdfDeviceNodeNewInstance env (Some di) driver w =
       (if nd_servName (blank_node env di driver w) = None
        then do { w4 \<leftarrow> HdfDeviceNodeFreeInstance (c_next w) w3; Some (w4, None) }
        else Some (put_node (c_next w) (Some (blank_node env di driver w\<lparr>nd_property := ce_property env (di_deviceMatchAttr di),
                                          nd_devStatus := DEVNODE_INITED\<rparr>)) w3, Some (c_next w)))"
  using assms
  by (intro that [of "put_node (c_next w) (Some (blank_node env di driver w)) (set_token (Suc (c_next w)) (Some (di_deviceId di))
         (tick (put_node (c_next w) (Some (blank_node env di driver w\<lparr>nd_driver := None, nd_servName := None, nd_devId := 0, nd_policy := 0, nd_permission := 0\<rparr>))
           (set_token (Suc (c_next w)) (Some 0) (fst (fresh (tick (fst (fresh (tick w)))))))))) "])
    (simp_all add: HdfDeviceNodeNewInstance_def DeviceNodeExtCreate_def HdfDeviceTokenNewInstance_def fresh_def tick_def
      put_node_def set_token_def Let_def host_ids_def)

context service_registry
begin

lemma NewInstance_op:
  assumes inv: "reg_inv w" and fr: "\<forall>x \<ge> c_next w. c_nodes w x = None"
    and f: "HdfDeviceNodeNewInstance env (Some di) driver w = Some (w', r)"
  shows "reg_inv w' \<and>
    (case r of
       None \<Rightarrow> world_grows w w'
     | Some a \<Rightarrow> \<exists>n. a = c_next w \<and> c_nodes w' = (c_nodes w)(a \<mapsto> n) \<and> c_tokens w' = (c_tokens w)(Suc a \<mapsto> di_deviceId di) \<and>
         nd_token n = Some (Suc a) \<and> nd_devId n = di_deviceId di \<and> nd_devStatus n = DEVNODE_INITED \<and> \<not> nd_servStatus n \<and>
         \<not> nd_linked n \<and> nd_driver n = driver \<and> nd_policy n = di_policy di \<and> nd_servName n = di_svcName di \<and>
         c_devices w' = c_devices w \<and> c_clients w' = c_clients w \<and> c_driverMem w' = c_driverMem w \<and>
         c_driverList w' = c_driverList w \<and> c_next w' = Suc (Suc a) \<and> host_ids w' = host_ids w)"
proof (cases "ce_node env (c_ticks w)")
  case False
  then show ?thesis
    using assms by (auto simp: HdfDeviceNodeNewInstance_def DeviceNodeExtCreate_def world_grows_def host_ids_def)
next
  case True
  show ?thesis
  proof (cases "ce_token env (Suc (c_ticks w))")
    case False
    then show ?thesis
      using f True by (simp add: HdfDeviceNodeNewInstance_def DeviceNodeExtCreate_def HdfDeviceTokenNewInstance_def fresh_def tick_def)
  next
    case tok: True
    let ?a = "c_next w"
    let ?n0 = "blank_node env di driver w"
    obtain w3 where w3: "c_nodes w3 = (c_nodes w)(?a \<mapsto> ?n0)" "c_tokens w3 = (c_tokens w)(Suc ?a \<mapsto> di_deviceId di)"
      "c_devices w3 = c_devices w" "c_clients w3 = c_clients w" "c_driverMem w3 = c_driverMem w" "c_svcmgr w3 = c_svcmgr w"
      "c_driverList w3 = c_driverList w" "c_next w3 = Suc (Suc ?a)" "host_ids w3 = host_ids w"
      "HdfDeviceNodeNewInstance env (Some di) driver w =
         (if nd_servName ?n0 = None
          then do { w4 \<leftarrow> HdfDeviceNodeFreeInstance ?a w3; Some (w4, None) }
          else Some (put_node ?a (Some (?n0\<lparr>nd_property := ce_property env (di_deviceMatchAttr di),
                                            nd_devStatus := DEVNODE_INITED\<rparr>)) w3, Some ?a))"
      by (rule NewInstance_shape [OF True tok, of driver di]) (rule that)
    have inv3: "reg_inv w3"
      unfolding w3(1,6) using inv fr by (intro reg_rel_unpublished) auto
    show ?thesis
    proof (cases "nd_servName ?n0")
      case None
      with f w3(10) obtain w4 where w4: "HdfDeviceNodeFreeInstance ?a w3 = Some w4" "w' = w4" "r = None"
        by (auto simp: do_simps)
      have "c_nodes w3 ?a = Some ?n0" using w3(1) by simp
      from Free_op [OF inv3 this w4(1)] show ?thesis
        using w4 w3 fr by (auto simp: node_freed_def world_grows_def)
    next
      case (Some nm)
      then have di: "di_svcName di = Some nm" using HdfStringCopy_SomeD by simp
      let ?n = "?n0\<lparr>nd_property := ce_property env (di_deviceMatchAttr di), nd_devStatus := DEVNODE_INITED\<rparr>"
      have w': "w' = put_node ?a (Some ?n) w3" "r = Some ?a"
        using f w3(10) Some by simp_all
      have "c_nodes w' = (c_nodes w)(?a \<mapsto> ?n)"
        using w'(1) w3(1) by simp
      moreover have "reg_inv w'"
        using w' w3(1) inv3 reg_rel_unpublished [of "c_svcmgr w3" "c_nodes w3" ?a] by simp
      moreover have "nd_servName ?n = Some nm"
        using Some by simp
      ultimately show ?thesis
        unfolding w'(2) using w3 di by (auto intro!: exI [of _ ?n] simp: w'(1) host_ids_def)
    qed
  qed
qed

lemma NewInstance_total:
  assumes inv: "reg_inv w" and fr: "\<forall>x \<ge> c_next w. c_nodes w x = None" and tok: "\<And>k. ce_token env k"
    and drv: "\<And>d. driver = Some d \<Longrightarrow> c_driverMem w d \<noteq> None"
  shows "HdfDeviceNodeNewInstance env (Some di) driver w \<noteq> None"
proof (cases "ce_node env (c_ticks w)")
  case False
  then show ?thesis by (simp add: HdfDeviceNodeNewInstance_def DeviceNodeExtCreate_def)
next
  case True
  let ?a = "c_next w"
  let ?n0 = "blank_node env di driver w"
  obtain w3 where w3: "c_nodes w3 = (c_nodes w)(?a \<mapsto> ?n0)" "c_svcmgr w3 = c_svcmgr w" "c_driverMem w3 = c_driverMem w"
    "HdfDeviceNodeNewInstance env (Some di) driver w =
       (if nd_servName ?n0 = None then do { w4 \<leftarrow> HdfDeviceNodeFreeInstance ?a w3; Some (w4, None) }
        else Some (put_node ?a (Some (?n0\<lparr>nd_property := ce_property env (di_deviceMatchAttr di), nd_devStatus := DEVNODE_INITED\<rparr>)) w3, Some ?a))"
    by (rule NewInstance_shape [OF True tok, of driver di]) (rule that)
  have inv3: "reg_inv w3"
    unfolding w3(1,2) using inv fr by (intro reg_rel_unpublished) auto
  have "HdfDeviceNodeFreeInstance ?a w3 \<noteq> None"
    by (rule Free_total [OF inv3, of _ ?n0]) (use w3 drv in simp_all)
  then show ?thesis using w3(4) by auto
qed

end

end
