(* ===== verification/Devhost_Service.thy ===== *)
theory Devhost_Service
  imports Device_Node
begin

text \<open>
  The device host (core/host/src/devhost_service.c): it keeps the devices of one host and adds and
  deletes device nodes for the device manager. Its devices are reached by address.
\<close>

fun device_search :: "(nat \<rightharpoonup> HdfDevice) \<Rightarrow> u32 \<Rightarrow> nat list \<Rightarrow> nat option option" where
  "device_search devs deviceId [] = Some None"
| "device_search devs deviceId (d # ds) =
     (case devs d of
        None \<Rightarrow> UB
      | Some v \<Rightarrow> if DEVICEID (dv_deviceId v) = deviceId then Some (Some d) else device_search devs deviceId ds)"

text \<open>The identifier is passed as 16 bits, which a device number has.\<close>

definition DevHostServiceFindDevice :: "nat option \<Rightarrow> u32 \<Rightarrow> ('m, 's) hdf_core \<Rightarrow> nat option option" where
  "DevHostServiceFindDevice hostService deviceId w =
     (case hostService of
        None \<Rightarrow> Some None
      | Some h \<Rightarrow> do { hs \<leftarrow> c_hosts w h; device_search (c_devices w) deviceId (hs_devices hs) })"

definition DevHostServiceFreeDevice :: "nat \<Rightarrow> nat option \<Rightarrow> ('m, 's) hdf_core \<Rightarrow> ('m, 's) hdf_core option" where
  "DevHostServiceFreeDevice h device w =
     (case device of
        None \<Rightarrow> Some w
      | Some dv \<Rightarrow> do {
          hs \<leftarrow> c_hosts w h;
          HdfDeviceRelease dv (set_host h (Some (hs\<lparr>hs_devices := remove1 dv (hs_devices hs)\<rparr>)) w)
        })"

definition DevHostServiceQueryOrAddDevice ::
  "'s core_env \<Rightarrow> nat \<Rightarrow> u32 \<Rightarrow> ('m, 's) hdf_core \<Rightarrow> (('m, 's) hdf_core \<times> nat option) option" where
  "DevHostServiceQueryOrAddDevice env h deviceId w = do {
     found \<leftarrow> DevHostServiceFindDevice (Some h) deviceId w;
     (if found \<noteq> None then Some (w, found)
      else
        (case HdfDeviceCreate env w of
           (w1, None) \<Rightarrow> Some (w1, None)
         | (w1, Some dv) \<Rightarrow> do {
             hs \<leftarrow> c_hosts w1 h;
             v \<leftarrow> c_devices w1 dv;
             Some (set_host h (Some (hs\<lparr>hs_devices := dv # hs_devices hs\<rparr>))
                     (set_device dv (Some (v\<lparr>dv_deviceId := MK_DEVID (ucast (hs_hostId hs)) deviceId 0\<rparr>)) w1),
                   Some dv)
           }))
   }"

text \<open>The label \<^verbatim>\<open>error\<close>: a device without nodes is freed.\<close>

definition add_error :: "nat \<Rightarrow> nat \<Rightarrow> int \<Rightarrow> ('m, 's) hdf_core \<Rightarrow> (('m, 's) hdf_core \<times> int) option" where
  "add_error h dv ret w = do {
     v \<leftarrow> c_devices w dv;
     w1 \<leftarrow> (if dv_devNodes v = [] then DevHostServiceFreeDevice h (Some dv) w else Some w);
     Some (w1, ret)
   }"

definition DevHostServiceAddDevice ::
  "'s core_env \<Rightarrow> nat option \<Rightarrow> HdfDeviceInfo option \<Rightarrow> ('m, 's) hdf_core \<Rightarrow> (('m, 's) hdf_core \<times> int) option" where
  "DevHostServiceAddDevice env inst deviceInfo w =
     (case (inst, deviceInfo) of
        (Some h, Some di) \<Rightarrow>
          if \<not> ce_loader env then Some (w, HDF_FAILURE)
          else do {
            (w1, device) \<leftarrow> DevHostServiceQueryOrAddDevice env h (DEVICEID (di_deviceId di)) w;
            (case device of
               None \<Rightarrow> Some (w1, HDF_DEV_ERR_NO_DEVICE)
             | Some dv \<Rightarrow> do {
                 present \<leftarrow> HdfDeviceGetDeviceNode dv (di_deviceId di) w1;
                 (if present \<noteq> None then Some (w1, HDF_ERR_DEVICE_BUSY)
                  else do {
                    (w2, driver) \<leftarrow> HdfDriverLoaderGetDriver env (di_moduleName di) w1;
                    (if driver = None then add_error h dv HDF_DEV_ERR_NODATA w2
                     else do {
                       (w3, devNode) \<leftarrow> HdfDeviceNodeNewInstance env deviceInfo driver w2;
                       (case devNode of
                          None \<Rightarrow> Some (HdfDriverLoaderReclaimDriver driver w3, HDF_DEV_ERR_NO_MEMORY)
                        | Some a \<Rightarrow> do {
                            n \<leftarrow> c_nodes w3 a;
                            (w4, ret) \<leftarrow> HdfDeviceAttach env (Some dv) (Some a)
                               (put_node a (Some (n\<lparr>nd_hostService := Some h, nd_device := Some dv, nd_driver := driver\<rparr>)) w3);
                            (if ret \<noteq> HDF_SUCCESS
                             then do { w5 \<leftarrow> HdfDeviceNodeFreeInstance a w4; add_error h dv ret w5 }
                             else Some (w4, HDF_SUCCESS))
                          })
                     })
                  })
               })
          }
      | _ \<Rightarrow> Some (w, HDF_FAILURE))"

text \<open>The ways in which adding a device ends.\<close>

lemma AddDevice_cases:
  assumes "DevHostServiceAddDevice env (Some h) (Some di) w = Some (w', r)"
  obtains
    (no_loader) "\<not> ce_loader env" "w' = w" "r = HDF_FAILURE"
  | (no_device) "DevHostServiceQueryOrAddDevice env h (DEVICEID (di_deviceId di)) w = Some (w', None)" "r = HDF_DEV_ERR_NO_DEVICE"
  | (busy) dv a where "DevHostServiceQueryOrAddDevice env h (DEVICEID (di_deviceId di)) w = Some (w', Some dv)"
      "HdfDeviceGetDeviceNode dv (di_deviceId di) w' = Some (Some a)" "r = HDF_ERR_DEVICE_BUSY"
  | (no_driver) w1 dv w2 where "DevHostServiceQueryOrAddDevice env h (DEVICEID (di_deviceId di)) w = Some (w1, Some dv)"
      "HdfDeviceGetDeviceNode dv (di_deviceId di) w1 = Some None"
      "HdfDriverLoaderGetDriver env (di_moduleName di) w1 = Some (w2, None)" "add_error h dv HDF_DEV_ERR_NODATA w2 = Some (w', r)"
  | (no_node) w1 dv w2 drv where "DevHostServiceQueryOrAddDevice env h (DEVICEID (di_deviceId di)) w = Some (w1, Some dv)"
      "HdfDeviceGetDeviceNode dv (di_deviceId di) w1 = Some None"
      "HdfDriverLoaderGetDriver env (di_moduleName di) w1 = Some (w2, Some drv)"
      "HdfDeviceNodeNewInstance env (Some di) (Some drv) w2 = Some (w', None)" "r = HDF_DEV_ERR_NO_MEMORY"
  | (refused) w1 dv w2 drv w3 a n w4 ret w5 where
      "DevHostServiceQueryOrAddDevice env h (DEVICEID (di_deviceId di)) w = Some (w1, Some dv)"
      "HdfDeviceGetDeviceNode dv (di_deviceId di) w1 = Some None"
      "HdfDriverLoaderGetDriver env (di_moduleName di) w1 = Some (w2, Some drv)"
      "HdfDeviceNodeNewInstance env (Some di) (Some drv) w2 = Some (w3, Some a)" "c_nodes w3 a = Some n"
      "HdfDeviceAttach env (Some dv) (Some a)
         (put_node a (Some (n\<lparr>nd_hostService := Some h, nd_device := Some dv, nd_driver := Some drv\<rparr>)) w3) = Some (w4, ret)"
      "ret \<noteq> HDF_SUCCESS" "HdfDeviceNodeFreeInstance a w4 = Some w5" "add_error h dv ret w5 = Some (w', r)"
  | (added) w1 dv w2 drv w3 a n where
      "DevHostServiceQueryOrAddDevice env h (DEVICEID (di_deviceId di)) w = Some (w1, Some dv)"
      "HdfDeviceGetDeviceNode dv (di_deviceId di) w1 = Some None"
      "HdfDriverLoaderGetDriver env (di_moduleName di) w1 = Some (w2, Some drv)"
      "HdfDeviceNodeNewInstance env (Some di) (Some drv) w2 = Some (w3, Some a)" "c_nodes w3 a = Some n"
      "HdfDeviceAttach env (Some dv) (Some a)
         (put_node a (Some (n\<lparr>nd_hostService := Some h, nd_device := Some dv, nd_driver := Some drv\<rparr>)) w3) = Some (w', HDF_SUCCESS)"
      "r = HDF_SUCCESS"
proof (cases "ce_loader env")
  case False
  then show thesis using assms no_loader by (simp add: DevHostServiceAddDevice_def)
next
  case True
  then obtain w1 device where q: "DevHostServiceQueryOrAddDevice env h (DEVICEID (di_deviceId di)) w = Some (w1, device)"
    using assms by (auto simp: DevHostServiceAddDevice_def Option.bind_eq_Some_conv)
  show thesis
  proof (cases device)
    case None
    then show thesis using assms True q no_device by (simp add: DevHostServiceAddDevice_def)
  next
    case dv: (Some dv)
    then obtain pr where pr: "HdfDeviceGetDeviceNode dv (di_deviceId di) w1 = Some pr"
      using assms True q by (auto simp: DevHostServiceAddDevice_def Option.bind_eq_Some_conv)
    show thesis
    proof (cases pr)
      case (Some a)
      then show thesis using assms True q dv pr busy by (simp add: DevHostServiceAddDevice_def)
    next
      case None
      then obtain w2 driver where g: "HdfDriverLoaderGetDriver env (di_moduleName di) w1 = Some (w2, driver)"
        using assms True q dv pr by (auto simp: DevHostServiceAddDevice_def Option.bind_eq_Some_conv)
      show thesis
      proof (cases driver)
        case n: None
        then show thesis using assms True q dv pr None g no_driver by (simp add: DevHostServiceAddDevice_def)
      next
        case drv: (Some drv)
        then obtain w3 devNode where ni: "HdfDeviceNodeNewInstance env (Some di) driver w2 = Some (w3, devNode)"
          using assms True q dv pr None g by (auto simp: DevHostServiceAddDevice_def Option.bind_eq_Some_conv)
        show thesis
        proof (cases devNode)
          case n: None
          then show thesis
            using assms True q dv pr None g drv ni no_node
            by (simp add: DevHostServiceAddDevice_def HdfDriverLoaderReclaimDriver_def)
        next
          case a: (Some a)
          then obtain n w4 ret where at: "c_nodes w3 a = Some n"
            "HdfDeviceAttach env (Some dv) (Some a)
               (put_node a (Some (n\<lparr>nd_hostService := Some h, nd_device := Some dv, nd_driver := driver\<rparr>)) w3) = Some (w4, ret)"
            using assms True q dv pr None g drv ni by (auto simp: DevHostServiceAddDevice_def Option.bind_eq_Some_conv)
          show thesis
          proof (cases "ret = HDF_SUCCESS")
            case ok: True
            then show thesis
              using assms True q dv pr None g drv ni a at by (intro added) (simp_all add: DevHostServiceAddDevice_def)
          next
            case bad: False
            then obtain w5 where "HdfDeviceNodeFreeInstance a w4 = Some w5" "add_error h dv ret w5 = Some (w', r)"
              using assms True q dv pr None g drv ni a at
              by (auto simp: DevHostServiceAddDevice_def Option.bind_eq_Some_conv)
            then show thesis
              using bad q dv pr None g drv ni a at by (intro refused) simp_all
          qed
        qed
      qed
    qed
  qed
qed

definition DevHostServiceDelDevice :: "nat option \<Rightarrow> u32 \<Rightarrow> ('m, 's) hdf_core \<Rightarrow> (('m, 's) hdf_core \<times> int) option" where
  "DevHostServiceDelDevice inst devId w = do {
     device \<leftarrow> DevHostServiceFindDevice inst (DEVICEID devId) w;
     (case (inst, device) of
        (Some h, Some dv) \<Rightarrow> do {
          devNode \<leftarrow> HdfDeviceGetDeviceNode dv devId w;
          (case devNode of
             None \<Rightarrow> Some (w, HDF_DEV_ERR_NO_DEVICE)
           | Some a \<Rightarrow> do {
               (w1, ret) \<leftarrow> HdfDeviceDetach (Some dv) (Some a) w;
               (if ret \<noteq> HDF_SUCCESS then Some (w1, HDF_FAILURE)
                else do {
                  w2 \<leftarrow> HdfDeviceNodeFreeInstance a w1;
                  v \<leftarrow> c_devices w2 dv;
                  w3 \<leftarrow> (if dv_devNodes v = [] then DevHostServiceFreeDevice h (Some dv) w2 else Some w2);
                  Some (w3, HDF_SUCCESS)
                })
             })
        }
      | _ \<Rightarrow> Some (w, HDF_SUCCESS))
   }"

section \<open>Power\<close>

definition IsPowerWakeState :: "HdfPowerState \<Rightarrow> bool" where
  "IsPowerWakeState state \<longleftrightarrow> state = POWER_STATE_DOZE_RESUME \<or> state = POWER_STATE_RESUME"

definition IsValidPowerState :: "HdfPowerState \<Rightarrow> bool" where
  "IsValidPowerState state \<longleftrightarrow> state < POWER_STATE_MAX"

lemma IsValidPowerState_iff: "IsValidPowerState state \<longleftrightarrow> state \<noteq> POWER_STATE_MAX"
  by (cases state) (simp_all add: IsValidPowerState_def less_HdfPowerState_def)

text \<open>
  One node: without a token nothing happens, and the status of the driver is ignored. The calls that
  its token records are appended to the calls of all drivers.
\<close>

definition new_calls :: "PowerStateToken option \<Rightarrow> PowerStateToken option \<Rightarrow> pm_call list" where
  "new_calls tok tok' = (case (tok, tok') of (Some t, Some t') \<Rightarrow> drop (length (calls t)) (calls t') | _ \<Rightarrow> [])"

definition power_node :: "HdfPowerState \<Rightarrow> nat \<Rightarrow> ('m, 's) hdf_core \<Rightarrow> ('m, 's) hdf_core option" where
  "power_node state a w = do {
     n \<leftarrow> c_nodes w a;
     Some (if nd_powerToken n \<noteq> None
           then
             (let tok = fst (PowerStateChange (nd_powerToken n) state)
              in fold (\<lambda>c. log_call (CallPower c) a) (new_calls (nd_powerToken n) tok)
                   (put_node a (Some (n\<lparr>nd_powerToken := tok\<rparr>)) w))
           else w)
   }"

fun power_nodes :: "HdfPowerState \<Rightarrow> nat list \<Rightarrow> ('m, 's) hdf_core \<Rightarrow> ('m, 's) hdf_core option" where
  "power_nodes state [] w = Some w"
| "power_nodes state (a # as) w = do { w1 \<leftarrow> power_node state a w; power_nodes state as w1 }"

definition ApplyDevicesPowerState ::
  "nat \<Rightarrow> HdfPowerState \<Rightarrow> ('m, 's) hdf_core \<Rightarrow> (('m, 's) hdf_core \<times> int) option" where
  "ApplyDevicesPowerState dv state w = do {
     v \<leftarrow> c_devices w dv;
     w1 \<leftarrow> (if IsPowerWakeState state then power_nodes state (dv_devNodes v) w
            else power_nodes state (rev (dv_devNodes v)) w);
     Some (w1, HDF_SUCCESS)
   }"

fun power_devices :: "HdfPowerState \<Rightarrow> nat list \<Rightarrow> int \<Rightarrow> ('m, 's) hdf_core \<Rightarrow> (('m, 's) hdf_core \<times> int) option" where
  "power_devices state [] ret w = Some (w, ret)"
| "power_devices state (dv # dvs) ret w = do {
     (w1, r) \<leftarrow> ApplyDevicesPowerState dv state w;
     power_devices state dvs (if r \<noteq> HDF_SUCCESS then HDF_FAILURE else ret) w1
   }"

definition DevHostServicePmNotify ::
  "nat option \<Rightarrow> HdfPowerState \<Rightarrow> ('m, 's) hdf_core \<Rightarrow> (('m, 's) hdf_core \<times> int) option" where
  "DevHostServicePmNotify service state w =
     (case service of
        None \<Rightarrow> Some (w, HDF_FAILURE)
      | Some h \<Rightarrow> do {
          hs \<leftarrow> c_hosts w h;
          (if IsPowerWakeState state then power_devices state (rev (hs_devices hs)) HDF_SUCCESS w
           else power_devices state (hs_devices hs) HDF_SUCCESS w)
        })"

section \<open>Creation and destruction\<close>

definition DevHostServiceNewInstance ::
  "'s core_env \<Rightarrow> u16 \<Rightarrow> cstr option \<Rightarrow> ('m, 's) hdf_core \<Rightarrow> ('m, 's) hdf_core \<times> nat option" where
  "DevHostServiceNewInstance env hostId hostName w =
     (case ask (ce_host env) w of
        (w1, ok) \<Rightarrow>
          if \<not> ok then (w1, None)
          else (case fresh w1 of
                  (w2, h) \<Rightarrow>
                    (set_host h (Some \<lparr>hs_hostId = hostId, hs_hostName = hostName, hs_devices = [],
                                      hs_observer = \<lparr>obs_services = []\<rparr>\<rparr>) w2, Some h)))"

text \<open>Destroying a host frees its devices without taking them off the list that is freed with it.\<close>

fun free_devices :: "nat list \<Rightarrow> ('m, 's) hdf_core \<Rightarrow> ('m, 's) hdf_core option" where
  "free_devices [] w = Some w"
| "free_devices (dv # dvs) w = do { w1 \<leftarrow> HdfDeviceRelease dv w; free_devices dvs w1 }"

definition DevHostServiceFreeInstance :: "nat option \<Rightarrow> ('m, 's) hdf_core \<Rightarrow> ('m, 's) hdf_core option" where
  "DevHostServiceFreeInstance service w =
     (case service of
        None \<Rightarrow> Some w
      | Some h \<Rightarrow> do {
          hs \<leftarrow> c_hosts w h;
          w1 \<leftarrow> free_devices (hs_devices hs) w;
          Some (set_host h None w1)
        })"

end
