(* ===== verification/Hdf_Slist.thy ===== *)
theory Hdf_Slist
  imports Hdf_Base
begin

text \<open>
  The intrusive singly linked list of utils/src/hdf_slist.c on a memory of nodes: the memory
  gives the next pointer of every address (NULL is \<^verbatim>\<open>None\<close>), and a list is the address
  of its head, whose next pointer is the root, as the code casts \<^verbatim>\<open>struct HdfSList\<close> to
  \<^verbatim>\<open>struct HdfSListNode\<close>. The loops follow pointers and end only if the chain does,
  so they are partial functions: \<^verbatim>\<open>None\<close> is a loop that does not end or a dereference
  of NULL.
\<close>

type_synonym snext = "nat \<Rightarrow> nat option"

record HdfSListIterator =
  stepOnNext :: bool
  it_prev :: "nat option"
  it_curr :: "nat option"

section \<open>Operations\<close>

definition HdfSListInit :: "nat option \<Rightarrow> snext \<Rightarrow> snext" where
  "HdfSListInit l h = (case l of None \<Rightarrow> h | Some a \<Rightarrow> h(a := None))"

definition HdfSListIsEmpty :: "nat option \<Rightarrow> snext \<Rightarrow> bool" where
  "HdfSListIsEmpty l h = (case l of None \<Rightarrow> True | Some a \<Rightarrow> h a = None)"

definition HdfSListIteratorInit :: "nat option \<Rightarrow> snext \<Rightarrow> HdfSListIterator" where
  "HdfSListIteratorInit l h =
     (case l of
        None \<Rightarrow> \<lparr>stepOnNext = False, it_prev = None, it_curr = None\<rparr>
      | Some a \<Rightarrow> \<lparr>stepOnNext = False, it_prev = Some a, it_curr = h a\<rparr>)"

definition HdfSListIteratorHasNext :: "snext \<Rightarrow> HdfSListIterator \<Rightarrow> bool" where
  "HdfSListIteratorHasNext h it =
     (case (it_curr it, it_prev it) of
        (Some c, Some p) \<Rightarrow>
          if \<not> stepOnNext it then True
          else if h p \<noteq> Some c then h p \<noteq> None
          else h c \<noteq> None
      | _ \<Rightarrow> False)"

definition HdfSListIteratorNext :: "snext \<Rightarrow> HdfSListIterator \<Rightarrow> HdfSListIterator \<times> nat option" where
  "HdfSListIteratorNext h it =
     (case (it_curr it, it_prev it) of
        (Some c, Some p) \<Rightarrow>
          (let it' = (if stepOnNext it then
                        (if h p = Some c then it\<lparr>it_prev := Some c, it_curr := h c\<rparr> else it\<lparr>it_curr := h p\<rparr>)
                      else it\<lparr>stepOnNext := True\<rparr>)
           in (it', it_curr it'))
      | _ \<Rightarrow> (it, None))"

definition HdfSListIteratorRemove :: "snext \<Rightarrow> HdfSListIterator \<Rightarrow> snext \<times> HdfSListIterator" where
  "HdfSListIteratorRemove h it =
     (case (it_curr it, it_prev it) of
        (Some c, Some p) \<Rightarrow> (h(p := h c), it\<lparr>it_curr := h c, stepOnNext := False\<rparr>)
      | _ \<Rightarrow> (h, it))"

definition HdfSListIteratorInsert :: "snext \<Rightarrow> HdfSListIterator \<Rightarrow> nat option \<Rightarrow> (snext \<times> HdfSListIterator) option" where
  "HdfSListIteratorInsert h it link =
     (case link of
        None \<Rightarrow> Some (h, it)
      | Some k \<Rightarrow>
          (case it_prev it of
             None \<Rightarrow> UB
           | Some p \<Rightarrow> Some ((h(k := it_curr it))(p := Some k), it\<lparr>it_prev := Some k\<rparr>)))"

text \<open>The comparer is called with a node pointer and a key.\<close>

partial_function (option) search_loop ::
  "snext \<Rightarrow> (nat option \<Rightarrow> u32 \<Rightarrow> bool) \<Rightarrow> u32 \<Rightarrow> HdfSListIterator \<Rightarrow> nat option option" where
  "search_loop h comparer keyValue it =
     (if \<not> HdfSListIteratorHasNext h it then Some None
      else
        (let (it', listNode) = HdfSListIteratorNext h it in
         if comparer listNode keyValue then Some listNode else search_loop h comparer keyValue it'))"

definition HdfSListSearch ::
  "snext \<Rightarrow> nat option \<Rightarrow> u32 \<Rightarrow> (nat option \<Rightarrow> u32 \<Rightarrow> bool) option \<Rightarrow> nat option option" where
  "HdfSListSearch h l keyValue comparer =
     (case comparer of
        None \<Rightarrow> Some None
      | Some c \<Rightarrow> search_loop h c keyValue (HdfSListIteratorInit l h))"

partial_function (option) last_loop :: "snext \<Rightarrow> nat option \<Rightarrow> nat option \<Rightarrow> nat option option" where
  "last_loop h iterator lst =
     (case iterator of None \<Rightarrow> Some lst | Some a \<Rightarrow> last_loop h (h a) iterator)"

definition HdfSListGetLast :: "snext \<Rightarrow> nat option \<Rightarrow> nat option option" where
  "HdfSListGetLast h l = (case l of None \<Rightarrow> Some None | Some a \<Rightarrow> last_loop h (h a) None)"

definition HdfSListAdd :: "snext \<Rightarrow> nat option \<Rightarrow> nat option \<Rightarrow> snext" where
  "HdfSListAdd h l link =
     (case (l, link) of (Some a, Some k) \<Rightarrow> (h(k := h a))(a := Some k) | _ \<Rightarrow> h)"

partial_function (option) addtail_loop :: "snext \<Rightarrow> nat \<Rightarrow> nat \<Rightarrow> snext option" where
  "addtail_loop h iterator k =
     (case h iterator of
        None \<Rightarrow> Some ((h(k := None))(iterator := Some k))
      | Some n \<Rightarrow> if n = k then Some h else addtail_loop h n k)"

definition HdfSListAddTail :: "snext \<Rightarrow> nat option \<Rightarrow> nat option \<Rightarrow> snext option" where
  "HdfSListAddTail h l link =
     (case (l, link) of (Some a, Some k) \<Rightarrow> addtail_loop h a k | _ \<Rightarrow> Some h)"

text \<open>The three loops of \<^verbatim>\<open>HdfSListAddOrder\<close>; the order compares two node pointers.\<close>

partial_function (option) member_loop :: "snext \<Rightarrow> nat option \<Rightarrow> nat \<Rightarrow> bool option" where
  "member_loop h iterator k =
     (case iterator of
        None \<Rightarrow> Some False
      | Some a \<Rightarrow> if a = k then Some True else member_loop h (h a) k)"

partial_function (option) order_loop ::
  "snext \<Rightarrow> (nat option \<Rightarrow> nat option \<Rightarrow> bool) \<Rightarrow> nat option \<Rightarrow> nat \<Rightarrow> (snext option \<times> nat option) option" where
  "order_loop h comparer iterator k =
     (case iterator of
        None \<Rightarrow> Some (None, iterator)
      | Some a \<Rightarrow>
          (case h a of
             None \<Rightarrow> Some (None, iterator)
           | Some n \<Rightarrow>
               if comparer iterator (Some k) \<and> comparer (Some k) (h a)
               then Some (Some ((h(k := h a))(a := Some k)), iterator)
               else order_loop h comparer (h a) k))"

definition HdfSListAddOrder ::
  "snext \<Rightarrow> nat option \<Rightarrow> nat option \<Rightarrow> (nat option \<Rightarrow> nat option \<Rightarrow> bool) option \<Rightarrow> (snext \<times> bool) option" where
  "HdfSListAddOrder h l link comparer =
     (case (l, link, comparer) of
        (Some a, Some k, Some c) \<Rightarrow>
          Option.bind (member_loop h (h a) k) (\<lambda>present.
            if present then Some (h, False)
            else if c (Some k) (h a) then Some ((h(k := h a))(a := Some k), True)
            else
              Option.bind (order_loop h c (h a) k) (\<lambda>(inserted, iterator).
                case inserted of
                  Some h' \<Rightarrow> Some (h', True)
                | None \<Rightarrow>
                    (if h a = None \<or> iterator = None then Some ((h(k := None))(a := Some k), True)
                     else Some ((h(k := None))(the iterator := Some k), True))))
      | _ \<Rightarrow> Some (h, False))"

partial_function (option) remove_loop :: "snext \<Rightarrow> nat option \<Rightarrow> nat \<Rightarrow> snext option" where
  "remove_loop h iterator k =
     (case iterator of
        None \<Rightarrow> Some h
      | Some a \<Rightarrow> if h a = Some k then Some (h(a := h k)) else remove_loop h (h a) k)"

definition HdfSListRemove :: "snext \<Rightarrow> nat option \<Rightarrow> nat option \<Rightarrow> snext option" where
  "HdfSListRemove h l link =
     (case (l, link) of (Some a, Some k) \<Rightarrow> remove_loop h (Some a) k | _ \<Rightarrow> Some h)"

text \<open>The second component collects the nodes handed to the deleter.\<close>

partial_function (option) flush_loop :: "snext \<Rightarrow> HdfSListIterator \<Rightarrow> nat list \<Rightarrow> (snext \<times> nat list) option" where
  "flush_loop h it deleted =
     (if \<not> HdfSListIteratorHasNext h it then Some (h, deleted)
      else
        (let (it1, listNode) = HdfSListIteratorNext h it;
             (h1, it2) = HdfSListIteratorRemove h it1
         in flush_loop h1 it2 (case listNode of None \<Rightarrow> deleted | Some n \<Rightarrow> deleted @ [n])))"

definition HdfSListFlush :: "snext \<Rightarrow> nat option \<Rightarrow> (snext \<times> nat list) option" where
  "HdfSListFlush h l =
     (case l of None \<Rightarrow> Some (h, []) | Some a \<Rightarrow> flush_loop h (HdfSListIteratorInit l h) [])"

partial_function (option) count_loop :: "snext \<Rightarrow> nat \<Rightarrow> nat \<Rightarrow> nat option" where
  "count_loop h iterator counter =
     (case h iterator of None \<Rightarrow> Some counter | Some n \<Rightarrow> count_loop h n (Suc counter))"

definition HdfSListCount :: "snext \<Rightarrow> nat option \<Rightarrow> nat option" where
  "HdfSListCount h l = (case l of None \<Rightarrow> Some 0 | Some a \<Rightarrow> count_loop h a 0)"

definition HdfSListPeek :: "snext \<Rightarrow> nat option \<Rightarrow> nat option" where
  "HdfSListPeek h l = (case l of None \<Rightarrow> None | Some a \<Rightarrow> h a)"

definition HdfSListNext :: "snext \<Rightarrow> nat option \<Rightarrow> nat option" where
  "HdfSListNext h link = (case link of None \<Rightarrow> None | Some a \<Rightarrow> h a)"

definition HdfSListPop :: "snext \<Rightarrow> nat option \<Rightarrow> snext \<times> nat option" where
  "HdfSListPop h l =
     (case l of
        None \<Rightarrow> (h, None)
      | Some a \<Rightarrow> (case h a of None \<Rightarrow> (h, None) | Some first \<Rightarrow> (h(a := h first), Some first)))"

section \<open>Chains\<close>

fun chain :: "snext \<Rightarrow> nat option \<Rightarrow> nat list \<Rightarrow> bool" where
  "chain h p [] \<longleftrightarrow> p = None"
| "chain h p (x # xs) \<longleftrightarrow> p = Some x \<and> chain h (h x) xs"

text \<open>The list at address \<^verbatim>\<open>a\<close> holds the nodes \<^verbatim>\<open>xs\<close>.\<close>

definition slist :: "snext \<Rightarrow> nat \<Rightarrow> nat list \<Rightarrow> bool" where
  "slist h a xs \<longleftrightarrow> chain h (h a) xs \<and> distinct (a # xs)"

lemma chain_upd: "x \<notin> set xs \<Longrightarrow> chain (h(x := v)) p xs \<longleftrightarrow> chain h p xs"
  by (induction xs arbitrary: p) auto

lemma chain_same: "(\<And>x. x \<in> set xs \<Longrightarrow> h' x = h x) \<Longrightarrow> chain h' p xs \<longleftrightarrow> chain h p xs"
  by (induction xs arbitrary: p) auto

lemma slist_Nil [simp]: "slist h a [] \<longleftrightarrow> h a = None"
  by (simp add: slist_def)

lemma slist_Cons: "slist h a (x # xs) \<longleftrightarrow> h a = Some x \<and> slist h x xs \<and> a \<noteq> x \<and> a \<notin> set xs"
  by (auto simp: slist_def)

lemma slist_next_None: "slist h a xs \<Longrightarrow> h a = None \<longleftrightarrow> xs = []"
  by (cases xs) (auto simp: slist_def)
lemma slist_upd: "x \<notin> set (a # xs) \<Longrightarrow> slist (h(x := v)) a xs \<longleftrightarrow> slist h a xs"
  by (auto simp: slist_def chain_upd)

lemma slist_push:
  assumes "slist h a xs" "k \<notin> set (a # xs)"
  shows "slist ((h(k := h a))(a := Some k)) a (k # xs)"
  using assms by (auto simp: slist_def chain_upd)

lemma slist_pop:
  assumes "slist h a (x # xs)"
  shows "slist (h(a := h x)) a xs"
  using assms by (auto simp: slist_def chain_upd)

text \<open>A change behind the first node is a change of the list that starts there.\<close>

lemma slist_step:
  assumes "slist h a (x # xs)" "slist h' x ys" "h' a = h a" "a \<notin> set ys"
  shows "slist h' a (x # ys)"
  using assms by (simp add: slist_Cons)

section \<open>The loops on chains\<close>

lemma search_loop_list:
  assumes "slist h a (x # xs)"
  shows "search_loop h c kv \<lparr>stepOnNext = True, it_prev = Some a, it_curr = Some x\<rparr> =
    Some (find (\<lambda>n. c (Some n) kv) xs)"
  using assms
proof (induction xs arbitrary: a x)
  case Nil
  then show ?case
    by (subst search_loop.simps) (simp add: HdfSListIteratorHasNext_def slist_Cons)
next
  case (Cons y ys)
  then have "h a = Some x" "h x = Some y" "slist h x (y # ys)"
    by (auto simp: slist_Cons)
  with Cons.IH show ?case
    by (subst search_loop.simps) (simp add: HdfSListIteratorHasNext_def HdfSListIteratorNext_def)
qed

lemma search_loop_start:
  "h a = Some x \<Longrightarrow>
   search_loop h c kv \<lparr>stepOnNext = False, it_prev = Some a, it_curr = Some x\<rparr> =
     (if c (Some x) kv then Some (Some x)
      else search_loop h c kv \<lparr>stepOnNext = True, it_prev = Some a, it_curr = Some x\<rparr>)"
  by (subst search_loop.simps) (simp add: HdfSListIteratorHasNext_def HdfSListIteratorNext_def)

lemma search_loop_empty:
  "search_loop h c kv \<lparr>stepOnNext = b, it_prev = p, it_curr = None\<rparr> = Some None"
  by (subst search_loop.simps) (simp add: HdfSListIteratorHasNext_def)

lemma HdfSListSearch_list:
  assumes "slist h a xs"
  shows "HdfSListSearch h (Some a) kv (Some c) = Some (find (\<lambda>n. c (Some n) kv) xs)"
proof (cases xs)
  case Nil
  then show ?thesis
    using assms by (simp add: HdfSListSearch_def HdfSListIteratorInit_def search_loop_empty)
next
  case (Cons x ys)
  then have "h a = Some x"
    using assms by (simp add: slist_Cons)
  then show ?thesis
    using Cons search_loop_list [OF assms [unfolded Cons]]
    by (simp add: HdfSListSearch_def HdfSListIteratorInit_def search_loop_start)
qed

lemma last_loop_chain:
  "chain h p xs \<Longrightarrow> last_loop h p l = Some (if xs = [] then l else Some (last xs))"
proof (induction xs arbitrary: p l)
  case Nil
  then show ?case by (subst last_loop.simps) simp
next
  case (Cons x xs)
  then show ?case by (subst last_loop.simps) simp
qed

lemma count_loop_list: "slist h a xs \<Longrightarrow> count_loop h a n = Some (n + length xs)"
proof (induction xs arbitrary: a n)
  case Nil
  then show ?case by (subst count_loop.simps) simp
next
  case (Cons x xs)
  then show ?case by (subst count_loop.simps) (simp add: slist_Cons)
qed

lemma member_loop_chain: "chain h p xs \<Longrightarrow> member_loop h p k = Some (k \<in> set xs)"
proof (induction xs arbitrary: p)
  case Nil
  then show ?case by (subst member_loop.simps) simp
next
  case (Cons x xs)
  then show ?case by (subst member_loop.simps) auto
qed

lemma addtail_loop_old: "slist h a xs \<Longrightarrow> k \<in> set xs \<Longrightarrow> addtail_loop h a k = Some h"
proof (induction xs arbitrary: a)
  case Nil
  then show ?case by simp
next
  case (Cons x xs)
  then show ?case by (subst addtail_loop.simps) (auto simp: slist_Cons)
qed

lemma addtail_loop_new:
  assumes "slist h a xs" "k \<notin> set (a # xs)"
  shows "\<exists>h'. addtail_loop h a k = Some h' \<and> slist h' a (xs @ [k]) \<and>
    (\<forall>z. z \<notin> set (k # a # xs) \<longrightarrow> h' z = h z)"
  using assms
proof (induction xs arbitrary: a)
  case Nil
  then show ?case by (subst addtail_loop.simps) (simp add: slist_Cons)
next
  case (Cons x xs)
  then have h: "h a = Some x" "slist h x xs" "a \<noteq> x" "a \<notin> set xs" "k \<notin> set (x # xs)" "k \<noteq> x" "a \<noteq> k"
    by (auto simp: slist_Cons)
  obtain h' where h': "addtail_loop h x k = Some h'" "slist h' x (xs @ [k])"
    and same: "\<forall>z. z \<notin> set (k # x # xs) \<longrightarrow> h' z = h z"
    using Cons.IH [OF h(2,5)] by blast
  have "slist h' a (x # xs @ [k])"
    by (rule slist_step [OF Cons.prems(1) h'(2)]) (use h same in auto)
  then show ?case
    using h h' same by (subst addtail_loop.simps) auto
qed

lemma remove_loop_list:
  assumes "slist h a xs"
  shows "\<exists>h'. remove_loop h (Some a) k = Some h' \<and> slist h' a (remove1 k xs) \<and>
    (\<forall>z. z \<notin> set (a # xs) \<longrightarrow> h' z = h z)"
  using assms
proof (induction xs arbitrary: a)
  case Nil
  then show ?case
    by (subst remove_loop.simps, simp) (subst remove_loop.simps, simp)
next
  case (Cons x xs)
  show ?case
  proof (cases "x = k")
    case True
    then show ?thesis
      using Cons.prems slist_pop [OF Cons.prems] by (subst remove_loop.simps) (simp add: slist_Cons)
  next
    case False
    from Cons.prems have h: "h a = Some x" "slist h x xs" "a \<noteq> x" "a \<notin> set xs"
      by (auto simp: slist_Cons)
    obtain h' where h': "remove_loop h (Some x) k = Some h'" "slist h' x (remove1 k xs)"
      and same: "\<forall>z. z \<notin> set (x # xs) \<longrightarrow> h' z = h z"
      using Cons.IH [OF h(2)] by blast
    have "slist h' a (x # remove1 k xs)"
      by (rule slist_step [OF Cons.prems h'(2)]) (use h same set_remove1_subset [of k xs] in auto)
    then show ?thesis
      using False h h' same by (subst remove_loop.simps) auto
  qed
qed

lemma flush_loop_list:
  assumes "slist h a xs"
  shows "\<exists>h'. flush_loop h \<lparr>stepOnNext = False, it_prev = Some a, it_curr = h a\<rparr> ds = Some (h', ds @ xs) \<and>
    slist h' a []"
  using assms
proof (induction xs arbitrary: h ds)
  case Nil
  then show ?case by (subst flush_loop.simps) (simp add: HdfSListIteratorHasNext_def)
next
  case (Cons x xs)
  then have "h a = Some x" "a \<noteq> x"
    by (auto simp: slist_Cons)
  then show ?case
    using Cons.IH [OF slist_pop [OF Cons.prems], of "ds @ [x]", unfolded fun_upd_same]
    by (subst flush_loop.simps)
      (simp add: HdfSListIteratorHasNext_def HdfSListIteratorNext_def HdfSListIteratorRemove_def
        del: fun_upd_apply)
qed
section \<open>Ordered insertion\<close>

text \<open>What the third loop of \<^verbatim>\<open>HdfSListAddOrder\<close> does, on lists.\<close>

fun order_after :: "('a option \<Rightarrow> 'a option \<Rightarrow> bool) \<Rightarrow> 'a \<Rightarrow> 'a list \<Rightarrow> 'a list" where
  "order_after c k [] = [k]"
| "order_after c k [x] = [x, k]"
| "order_after c k (x # y # xs) =
     (if c (Some x) (Some k) \<and> c (Some k) (Some y) then x # k # y # xs else x # order_after c k (y # xs))"

text \<open>The insertion of a new element.\<close>

definition order_add :: "('a option \<Rightarrow> 'a option \<Rightarrow> bool) \<Rightarrow> 'a \<Rightarrow> 'a list \<Rightarrow> 'a list" where
  "order_add c k xs = (if xs \<noteq> [] \<and> c (Some k) (Some (hd xs)) then k # xs else order_after c k xs)"

definition order_insert :: "('a option \<Rightarrow> 'a option \<Rightarrow> bool) \<Rightarrow> 'a \<Rightarrow> 'a list \<Rightarrow> 'a list" where
  "order_insert c k xs = (if k \<in> set xs then xs else order_add c k xs)"

text \<open>The code inserts at once or leaves the iterator on the last node.\<close>

lemma order_loop_list:
  assumes "slist h x xs" "k \<notin> set (x # xs)"
  shows "\<exists>ins it h'. order_loop h c (Some x) k = Some (ins, Some it) \<and> it \<in> set (x # xs) \<and>
    h' = (case ins of Some h1 \<Rightarrow> h1 | None \<Rightarrow> (h(k := None))(it := Some k)) \<and>
    chain h' (Some x) (order_after c k (x # xs)) \<and> (\<forall>z. z \<notin> set (k # x # xs) \<longrightarrow> h' z = h z)"
  using assms
proof (induction xs arbitrary: x)
  case Nil
  then show ?case
    by (intro exI [of _ None] exI [of _ x]) (subst order_loop.simps, auto)
next
  case (Cons y ys)
  then have h: "h x = Some y" "slist h y ys" "x \<noteq> y" "x \<notin> set ys" "k \<notin> set (y # ys)" "k \<noteq> x" "k \<noteq> y"
    and ch: "chain h (Some y) (y # ys)"
    by (auto simp: slist_Cons slist_def)
  show ?case
  proof (cases "c (Some x) (Some k) \<and> c (Some k) (Some y)")
    case True
    then show ?thesis
      using h ch by (intro exI [of _ "Some ((h(k := h x))(x := Some k))"] exI [of _ x])
        (subst order_loop.simps, auto simp: chain_upd)
  next
    case False
    obtain ins it h' where IH: "order_loop h c (Some y) k = Some (ins, Some it)" "it \<in> set (y # ys)"
      "h' = (case ins of Some h1 \<Rightarrow> h1 | None \<Rightarrow> (h(k := None))(it := Some k))"
      "chain h' (Some y) (order_after c k (y # ys))" and same: "\<forall>z. z \<notin> set (k # y # ys) \<longrightarrow> h' z = h z"
      using Cons.IH [OF h(2,5)] by blast
    have "h' x = Some y"
      using same h by auto
    then have "chain h' (Some x) (order_after c k (x # y # ys))"
      using False IH(4) by auto
    moreover have "order_loop h c (Some x) k = Some (ins, Some it)"
      using False h(1) IH(1) by (subst order_loop.simps) auto
    ultimately show ?thesis
      using IH(2,3) same by auto
  qed
qed

lemma set_order_after: "set (order_after c k xs) = insert k (set xs)"
  by (induction c k xs rule: order_after.induct) auto

lemma distinct_order_after: "distinct xs \<Longrightarrow> k \<notin> set xs \<Longrightarrow> distinct (order_after c k xs)"
  by (induction c k xs rule: order_after.induct) (auto simp: set_order_after)

lemma HdfSListAddOrder_list:
  assumes l: "slist h a xs" and "k \<noteq> a"
  shows "\<exists>h'. HdfSListAddOrder h (Some a) (Some k) (Some c) = Some (h', k \<notin> set xs) \<and>
    slist h' a (order_insert c k xs)"
proof (cases "k \<in> set xs")
  case True
  then show ?thesis
    using l by (simp add: HdfSListAddOrder_def member_loop_chain [of h "h a" xs] slist_def order_insert_def order_add_def)
next
  case False
  note member = member_loop_chain [of h "h a" xs k]
  show ?thesis
  proof (cases xs)
    case Nil
    then show ?thesis
      using l \<open>k \<noteq> a\<close> member slist_push [OF l, of k]
      by (simp add: HdfSListAddOrder_def order_insert_def order_add_def slist_Cons)
        (subst order_loop.simps, auto)
  next
    case (Cons x ys)
    with l have h: "h a = Some x" "slist h x ys" "a \<noteq> x" "a \<notin> set ys" "chain h (h a) xs" "distinct (x # ys)"
      by (auto simp: slist_def)
    show ?thesis
    proof (cases "c (Some k) (Some x)")
      case True
      then show ?thesis
        using False Cons h member slist_push [OF l, of k] \<open>k \<noteq> a\<close>
        by (auto simp: HdfSListAddOrder_def order_insert_def order_add_def)
    next
      case no: False
      obtain ins it h' where o: "order_loop h c (Some x) k = Some (ins, Some it)" "it \<in> set (x # ys)"
        "h' = (case ins of Some h1 \<Rightarrow> h1 | None \<Rightarrow> (h(k := None))(it := Some k))"
        "chain h' (Some x) (order_after c k (x # ys))" and same: "\<forall>z. z \<notin> set (k # x # ys) \<longrightarrow> h' z = h z"
        using order_loop_list [OF h(2), of k c] False Cons by auto
      have "slist h' a (order_insert c k xs)"
        using o(4) same h False no Cons \<open>k \<noteq> a\<close> distinct_order_after [of "x # ys" k c]
        by (auto simp: slist_def order_insert_def order_add_def set_order_after)
      then show ?thesis
        using o(1,3) False no Cons h member
        by (cases ins) (auto simp: HdfSListAddOrder_def)
    qed
  qed
qed

text \<open>On a sorted list with a comparer that compares keys this is sorted insertion.\<close>

lemma order_after_sorted:
  assumes "sorted (map f (x # xs))" "\<not> f k \<le> f x"
  shows "order_after (\<lambda>m n. case (m, n) of (Some i, Some j) \<Rightarrow> f i \<le> f j | _ \<Rightarrow> b) k (x # xs) =
    insort_key f k (x # xs)"
  using assms
proof (induction xs arbitrary: x)
  case (Cons y ys)
  then show ?case by (cases "f k \<le> f y") auto
qed simp

lemma order_add_sorted:
  assumes "sorted (map f xs)"
  shows "order_add (\<lambda>m n. case (m, n) of (Some i, Some j) \<Rightarrow> f i \<le> f j | _ \<Rightarrow> b) k xs = insort_key f k xs"
  using assms order_after_sorted [of f]
  by (cases xs) (auto simp: order_add_def simp del: insort_key.simps, auto)

lemma order_insert_sorted:
  assumes "sorted (map f xs)" "k \<notin> set xs"
  shows "order_insert (\<lambda>m n. case (m, n) of (Some i, Some j) \<Rightarrow> f i \<le> f j | _ \<Rightarrow> b) k xs = insort_key f k xs"
  using assms order_add_sorted by (simp add: order_insert_def)
section \<open>Sequences of operations\<close>

datatype slist_op =
    OpAdd nat | OpAddTail nat | OpAddOrder "nat option \<Rightarrow> nat option \<Rightarrow> bool" nat
  | OpRemove nat | OpPop | OpFlush

text \<open>One call on the list at \<^verbatim>\<open>a\<close>, with the nodes it hands out.\<close>

fun slist_call :: "nat \<Rightarrow> slist_op \<Rightarrow> snext \<Rightarrow> (snext \<times> nat list) option" where
  "slist_call a (OpAdd k) h = Some (HdfSListAdd h (Some a) (Some k), [])"
| "slist_call a (OpAddTail k) h = map_option (\<lambda>h'. (h', [])) (HdfSListAddTail h (Some a) (Some k))"
| "slist_call a (OpAddOrder c k) h =
     map_option (\<lambda>(h', added). (h', [])) (HdfSListAddOrder h (Some a) (Some k) (Some c))"
| "slist_call a (OpRemove k) h = map_option (\<lambda>h'. (h', [])) (HdfSListRemove h (Some a) (Some k))"
| "slist_call a OpPop h = (case HdfSListPop h (Some a) of (h', first) \<Rightarrow> Some (h', case first of None \<Rightarrow> [] | Some n \<Rightarrow> [n]))"
| "slist_call a OpFlush h = HdfSListFlush h (Some a)"

fun slist_calls :: "nat \<Rightarrow> slist_op list \<Rightarrow> snext \<Rightarrow> (snext \<times> nat list) option" where
  "slist_calls a [] h = Some (h, [])"
| "slist_calls a (p # ps) h =
     Option.bind (slist_call a p h) (\<lambda>(h1, out). map_option (\<lambda>(h', outs). (h', out @ outs)) (slist_calls a ps h1))"

text \<open>The same call on a list of nodes.\<close>

fun list_call :: "slist_op \<Rightarrow> nat list \<Rightarrow> nat list \<times> nat list" where
  "list_call (OpAdd k) xs = (k # xs, [])"
| "list_call (OpAddTail k) xs = (if k \<in> set xs then xs else xs @ [k], [])"
| "list_call (OpAddOrder c k) xs = (order_insert c k xs, [])"
| "list_call (OpRemove k) xs = (remove1 k xs, [])"
| "list_call OpPop xs = (tl xs, take 1 xs)"
| "list_call OpFlush xs = ([], xs)"

fun list_calls :: "slist_op list \<Rightarrow> nat list \<Rightarrow> nat list \<times> nat list" where
  "list_calls [] xs = (xs, [])"
| "list_calls (p # ps) xs = (case list_call p xs of (xs1, out) \<Rightarrow> (case list_calls ps xs1 of (ys, outs) \<Rightarrow> (ys, out @ outs)))"

text \<open>
  The list head is not linked into its own list, and \<^verbatim>\<open>HdfSListAdd\<close>, which does not
  look, is given a node that is not in the list.
\<close>

fun calls_ok :: "nat \<Rightarrow> slist_op list \<Rightarrow> nat list \<Rightarrow> bool" where
  "calls_ok a [] xs \<longleftrightarrow> True"
| "calls_ok a (p # ps) xs \<longleftrightarrow>
     (case p of OpAdd k \<Rightarrow> k \<noteq> a \<and> k \<notin> set xs | OpAddTail k \<Rightarrow> k \<noteq> a | OpAddOrder c k \<Rightarrow> k \<noteq> a | _ \<Rightarrow> True) \<and>
     calls_ok a ps (fst (list_call p xs))"

lemma slist_call_list:
  assumes l: "slist h a xs" and "calls_ok a [p] xs"
  shows "\<exists>h'. slist_call a p h = Some (h', snd (list_call p xs)) \<and> slist h' a (fst (list_call p xs))"
proof (cases p)
  case (OpAdd k)
  then show ?thesis using assms slist_push [OF l, of k] by (simp add: HdfSListAdd_def)
next
  case (OpAddTail k)
  then show ?thesis
    using assms addtail_loop_old [OF l, of k] addtail_loop_new [OF l, of k]
    by (cases "k \<in> set xs") (auto simp: HdfSListAddTail_def)
next
  case (OpAddOrder c k)
  then show ?thesis
    using assms HdfSListAddOrder_list [OF l, of k c] by auto
next
  case (OpRemove k)
  then show ?thesis
    using remove_loop_list [OF l, of k] by (auto simp: HdfSListRemove_def)
next
  case OpPop
  then show ?thesis
    using l slist_pop [of h a "hd xs" "tl xs"]
    by (cases xs) (auto simp: HdfSListPop_def slist_Cons simp del: fun_upd_apply)
next
  case OpFlush
  then show ?thesis
    using flush_loop_list [OF l, of "[]"] by (auto simp: HdfSListFlush_def HdfSListIteratorInit_def)
qed

lemma slist_calls_list:
  assumes "slist h a xs" "calls_ok a ps xs"
  shows "\<exists>h'. slist_calls a ps h = Some (h', snd (list_calls ps xs)) \<and> slist h' a (fst (list_calls ps xs))"
  using assms
proof (induction ps arbitrary: h xs)
  case (Cons p ps)
  then obtain h1 where "slist_call a p h = Some (h1, snd (list_call p xs))" "slist h1 a (fst (list_call p xs))"
    using slist_call_list [of h a xs p] by auto
  moreover from this Cons obtain h' where
    "slist_calls a ps h1 = Some (h', snd (list_calls ps (fst (list_call p xs))))"
    "slist h' a (fst (list_calls ps (fst (list_call p xs))))"
    by fastforce
  ultimately show ?case
    by (cases "list_call p xs"; cases "list_calls ps (fst (list_call p xs))") auto
qed simp

lemma slist_queries:
  assumes "slist h a xs"
  shows "HdfSListCount h (Some a) = Some (length xs)"
    and "HdfSListGetLast h (Some a) = Some (if xs = [] then None else Some (last xs))"
    and "HdfSListPeek h (Some a) = (if xs = [] then None else Some (hd xs))"
    and "HdfSListIsEmpty (Some a) h \<longleftrightarrow> xs = []"
  using assms count_loop_list [OF assms, of 0] last_loop_chain [of h "h a" xs None]
  by (cases xs; simp add: HdfSListCount_def HdfSListGetLast_def HdfSListPeek_def HdfSListIsEmpty_def slist_def)+

text \<open>
  C30. Any sequence of add, add-at-tail, ordered add, remove, pop and flush calls on an initialised
  list returns (no loop runs on, no NULL is followed) and does what the same calls do on a list
  of nodes: the nodes handed out by pop and flush are the same, and afterwards search, count, last,
  peek and the emptiness test answer as on that list.
\<close>

theorem slist_calls_refine:
  assumes "calls_ok a ps []"
  shows "\<exists>h'. slist_calls a ps (HdfSListInit (Some a) h) = Some (h', snd (list_calls ps [])) \<and>
    (let xs = fst (list_calls ps []) in
       slist h' a xs \<and>
       HdfSListSearch h' (Some a) key (Some c) = Some (find (\<lambda>n. c (Some n) key) xs) \<and>
       HdfSListCount h' (Some a) = Some (length xs) \<and>
       HdfSListGetLast h' (Some a) = Some (if xs = [] then None else Some (last xs)) \<and>
       HdfSListPeek h' (Some a) = (if xs = [] then None else Some (hd xs)) \<and>
       HdfSListIsEmpty (Some a) h' = (xs = []))"
proof -
  have "slist (HdfSListInit (Some a) h) a []"
    by (simp add: HdfSListInit_def)
  from slist_calls_list [OF this assms] show ?thesis
    unfolding Let_def using HdfSListSearch_list slist_queries by blast
qed

lemma slist_calls_refine_witness:
  "\<exists>h'. slist_calls 1 [OpAdd 4, OpAddTail 2, OpAddTail 4, OpAdd 7, OpRemove 4, OpPop] (HdfSListInit (Some 1) (\<lambda>_. None)) =
     Some (h', [7]) \<and> slist h' 1 [2] \<and> HdfSListCount h' (Some 1) = Some 1"
  using slist_calls_refine [of 1 "[OpAdd 4, OpAddTail 2, OpAddTail 4, OpAdd 7, OpRemove 4, OpPop]" "\<lambda>_. None" 0 "\<lambda>_ _. True"]
  by (auto simp: Let_def)

text \<open>
  On a list whose nodes are sorted by a key, \<^verbatim>\<open>HdfSListAddOrder\<close> with the comparer
  that compares these keys inserts a new node before the first one whose key is not smaller; the
  list stays sorted and has exactly one node more.
\<close>

theorem HdfSListAddOrder_sorts:
  fixes prio :: "nat \<Rightarrow> nat"
  assumes "slist h a xs" and "sorted (map prio xs)" and "k \<notin> set (a # xs)"
  shows "\<exists>h'. HdfSListAddOrder h (Some a) (Some k)
        (Some (\<lambda>m n. case (m, n) of (Some i, Some j) \<Rightarrow> prio i \<le> prio j | _ \<Rightarrow> False)) = Some (h', True) \<and>
    slist h' a (insort_key prio k xs) \<and> sorted (map prio (insort_key prio k xs)) \<and>
    HdfSListCount h' (Some a) = Some (Suc (length xs))"
proof -
  let ?c = "\<lambda>m n. case (m, n) of (Some i, Some j) \<Rightarrow> prio i \<le> prio j | _ \<Rightarrow> False"
  obtain h' where "HdfSListAddOrder h (Some a) (Some k) (Some ?c) = Some (h', True)"
    "slist h' a (insort_key prio k xs)"
    using HdfSListAddOrder_list [OF assms(1), of k ?c] order_insert_sorted [OF assms(2), of k False] assms(3) by auto
  with slist_queries(1) assms(2) show ?thesis
    by (auto simp: sorted_insort_key)
qed

lemma HdfSListAddOrder_sorts_witness:
  "\<exists>h'. HdfSListAddOrder (\<lambda>n. if n = 9 then Some 3 else if n = 3 then Some 5 else None) (Some 9) (Some 4)
        (Some (\<lambda>m n. case (m, n) of (Some i, Some j) \<Rightarrow> id i \<le> id j | _ \<Rightarrow> False)) = Some (h', True) \<and>
     slist h' 9 [3, 4, 5]"
  using HdfSListAddOrder_sorts [of "\<lambda>n. if n = 9 then Some 3 else if n = 3 then Some 5 else None" 9 "[3, 5]" id 4]
  by (auto simp: slist_def)

end
