(* ===== verification/Hcs_Blob.thy ===== *)
theory Hcs_Blob
  imports Hdf_Base
begin

text \<open>
  The byte code of the configuration tree: utils/include/hcs_blob_if.h and
  utils/src/hcs_parser/hcs_blob_if.c. A blob is its list of bytes and a pointer into it an
  offset; a read that leaves the blob is undefined behaviour. The static flag
  \<^verbatim>\<open>g_byteAlign\<close> is the argument \<^verbatim>\<open>al\<close>. The second half gives the
  encoding of attributes and nodes as the configuration compiler emits it, and shows that the
  length and value functions recognise it.
\<close>

section \<open>Reading the blob\<close>

abbreviation CONFIG_NODE :: u32 where "CONFIG_NODE \<equiv> 0x1"
abbreviation CONFIG_ATTR :: u32 where "CONFIG_ATTR \<equiv> 0x2"
abbreviation CONFIG_REFERENCE :: u32 where "CONFIG_REFERENCE \<equiv> 0x3"
abbreviation CONFIG_ARRAY :: u32 where "CONFIG_ARRAY \<equiv> 0x4"
abbreviation CONFIG_BYTE :: u32 where "CONFIG_BYTE \<equiv> 0x10"
abbreviation CONFIG_WORD :: u32 where "CONFIG_WORD \<equiv> 0x11"
abbreviation CONFIG_DWORD :: u32 where "CONFIG_DWORD \<equiv> 0x12"
abbreviation CONFIG_QWORD :: u32 where "CONFIG_QWORD \<equiv> 0x13"
abbreviation CONFIG_STRING :: u32 where "CONFIG_STRING \<equiv> 0x14"
abbreviation HBC_MAGIC_NUMBER :: u32 where "HBC_MAGIC_NUMBER \<equiv> 0xA00AA00A"
abbreviation HBC_HEADER_LENGTH :: nat where "HBC_HEADER_LENGTH \<equiv> 20"
abbreviation HBC_BLOB_MAX_LENGTH :: nat where "HBC_BLOB_MAX_LENGTH \<equiv> 10485760"

text \<open>An integer of \<^verbatim>\<open>k\<close> bytes at a position, and the length of the C string there.\<close>

definition rd :: "nat \<Rightarrow> u8 list \<Rightarrow> nat \<Rightarrow> ('a::len word) option" where
  "rd k b p = (if p + k \<le> length b then Some (le_word (take k (drop p b))) else UB)"

definition strlen_at :: "u8 list \<Rightarrow> nat \<Rightarrow> nat option" where
  "strlen_at b p =
     (let n = length (takeWhile (\<lambda>c. c \<noteq> 0) (drop p b)) in
      if p + n < length b then Some n else UB)"

definition HcsAlignSize :: "nat \<Rightarrow> nat" where
  "HcsAlignSize n = al4 n"

definition HcsByteCodeToUint8 :: "u8 list \<Rightarrow> nat \<Rightarrow> u8 option" where
  "HcsByteCodeToUint8 b p = rd 1 b p"

definition HcsByteCodeToUint16 :: "u8 list \<Rightarrow> nat \<Rightarrow> u16 option" where
  "HcsByteCodeToUint16 b p = rd 2 b p"

definition HcsByteCodeToUint32 :: "u8 list \<Rightarrow> nat \<Rightarrow> u32 option" where
  "HcsByteCodeToUint32 b p = rd 4 b p"

definition HcsByteCodeToUint64 :: "u8 list \<Rightarrow> nat \<Rightarrow> u64 option" where
  "HcsByteCodeToUint64 b p = rd 8 b p"

definition HcsGetPrefix :: "bool \<Rightarrow> u8 list \<Rightarrow> nat \<Rightarrow> u32 option" where
  "HcsGetPrefix al b p =
     (if al then HcsByteCodeToUint32 b p else map_option ucast (HcsByteCodeToUint8 b p))"

abbreviation HCS_DWORD_LENGTH :: nat where "HCS_DWORD_LENGTH \<equiv> 4"
abbreviation HCS_QWORD_LENGTH :: nat where "HCS_QWORD_LENGTH \<equiv> 8"

definition HCS_PREFIX_LENGTH :: "bool \<Rightarrow> nat" where
  "HCS_PREFIX_LENGTH al = (if al then HCS_DWORD_LENGTH else 1)"

definition HCS_BYTE_LENGTH :: "bool \<Rightarrow> nat" where
  "HCS_BYTE_LENGTH al = (if al then HCS_DWORD_LENGTH else 1)"

definition HCS_WORD_LENGTH :: "bool \<Rightarrow> nat" where
  "HCS_WORD_LENGTH al = (if al then HCS_DWORD_LENGTH else 2)"

definition hcs_string_size :: "bool \<Rightarrow> nat \<Rightarrow> nat" where
  "hcs_string_size al n = (if al then HcsAlignSize (n + 1) else n + 1)"

definition HCS_STRING_LENGTH :: "bool \<Rightarrow> u8 list \<Rightarrow> nat \<Rightarrow> nat option" where
  "HCS_STRING_LENGTH al b p = map_option (hcs_string_size al) (strlen_at b p)"

section \<open>Lengths\<close>

text \<open>
  The results are of type \<^verbatim>\<open>int32_t\<close>: a length, or \<^verbatim>\<open>HDF_FAILURE\<close>. A length
  stays within the blob, so it does not overflow for blobs below 2 GiB; the two places where
  an unchecked integer enters are modelled at their width below.
\<close>

definition HcsGetDataTypeOffset :: "bool \<Rightarrow> u8 list \<Rightarrow> nat \<Rightarrow> int option" where
  "HcsGetDataTypeOffset al b p =
     do { t \<leftarrow> HcsGetPrefix al b p;
          if t = CONFIG_BYTE then Some (int (HCS_BYTE_LENGTH al + HCS_PREFIX_LENGTH al))
          else if t = CONFIG_WORD then Some (int (HCS_WORD_LENGTH al + HCS_PREFIX_LENGTH al))
          else if t = CONFIG_DWORD \<or> t = CONFIG_REFERENCE then Some (int (HCS_DWORD_LENGTH + HCS_PREFIX_LENGTH al))
          else if t = CONFIG_QWORD then Some (int (HCS_QWORD_LENGTH + HCS_PREFIX_LENGTH al))
          else if t = CONFIG_STRING then
            do { n \<leftarrow> HCS_STRING_LENGTH al b (p + HCS_PREFIX_LENGTH al);
                 Some (int (n + HCS_PREFIX_LENGTH al)) }
          else Some HDF_FAILURE }"

definition HcsSwapToUint8 :: "bool \<Rightarrow> u8 list \<Rightarrow> nat \<Rightarrow> u32 \<Rightarrow> u8 option option" where
  "HcsSwapToUint8 al b p ty =
     (if ty = CONFIG_BYTE then
        (if al then map_option (\<lambda>v. Some (ucast v)) (HcsByteCodeToUint32 b p)
         else map_option Some (HcsByteCodeToUint8 b p))
      else Some None)"

definition HcsSwapToUint16 :: "bool \<Rightarrow> u8 list \<Rightarrow> nat \<Rightarrow> u32 \<Rightarrow> u16 option option" where
  "HcsSwapToUint16 al b p ty =
     (if ty = CONFIG_WORD then
        (if al then map_option (\<lambda>v. Some (ucast v)) (HcsByteCodeToUint32 b p)
         else map_option Some (HcsByteCodeToUint16 b p))
      else map_option (map_option ucast) (HcsSwapToUint8 al b p ty))"

definition HcsSwapToUint32 :: "bool \<Rightarrow> u8 list \<Rightarrow> nat \<Rightarrow> u32 \<Rightarrow> u32 option option" where
  "HcsSwapToUint32 al b p ty =
     (if ty = CONFIG_DWORD then map_option Some (HcsByteCodeToUint32 b p)
      else map_option (map_option ucast) (HcsSwapToUint16 al b p ty))"

definition HcsSwapToUint64 :: "bool \<Rightarrow> u8 list \<Rightarrow> nat \<Rightarrow> u32 \<Rightarrow> u64 option option" where
  "HcsSwapToUint64 al b p ty =
     (if ty = CONFIG_QWORD then map_option Some (HcsByteCodeToUint64 b p)
      else map_option (map_option ucast) (HcsSwapToUint32 al b p ty))"

text \<open>The loop of \<^verbatim>\<open>HcsGetArrayLength\<close> over the remaining elements.\<close>

fun array_length_loop :: "bool \<Rightarrow> u8 list \<Rightarrow> nat \<Rightarrow> nat \<Rightarrow> nat \<Rightarrow> int option" where
  "array_length_loop al b p arrayLen 0 = Some (int arrayLen)"
| "array_length_loop al b p arrayLen (Suc n) =
     do { lenData \<leftarrow> HcsGetDataTypeOffset al b (p + arrayLen);
          if lenData < 0 then Some HDF_FAILURE
          else array_length_loop al b p (arrayLen + nat lenData) n }"

definition HcsGetArrayLength :: "bool \<Rightarrow> u8 list \<Rightarrow> nat \<Rightarrow> int option" where
  "HcsGetArrayLength al b p =
     do { r \<leftarrow> HcsSwapToUint16 al b (p + HCS_PREFIX_LENGTH al) CONFIG_WORD;
          case r of
            None \<Rightarrow> Some HDF_FAILURE
          | Some count \<Rightarrow>
              array_length_loop al b p (HCS_PREFIX_LENGTH al + HCS_WORD_LENGTH al) (unat count) }"

definition HcsGetAttrLength :: "bool \<Rightarrow> u8 list \<Rightarrow> nat \<Rightarrow> int option" where
  "HcsGetAttrLength al b p =
     do { n \<leftarrow> HCS_STRING_LENGTH al b (p + HCS_PREFIX_LENGTH al);
          let len = HCS_PREFIX_LENGTH al + n;
          t \<leftarrow> HcsGetPrefix al b (p + len);
          dataLen \<leftarrow>
            (if t \<in> {CONFIG_BYTE, CONFIG_WORD, CONFIG_DWORD, CONFIG_QWORD, CONFIG_STRING, CONFIG_REFERENCE}
             then HcsGetDataTypeOffset al b (p + len)
             else if t = CONFIG_ARRAY then HcsGetArrayLength al b (p + len)
             else Some HDF_FAILURE);
          Some (if dataLen < 0 then HDF_FAILURE else dataLen + int len) }"

definition HcsGetNodeOrAttrLength :: "bool \<Rightarrow> u8 list \<Rightarrow> nat \<Rightarrow> int option" where
  "HcsGetNodeOrAttrLength al b p =
     do { t \<leftarrow> HcsGetPrefix al b p;
          if t = CONFIG_NODE then
            do { n \<leftarrow> HCS_STRING_LENGTH al b (p + HCS_PREFIX_LENGTH al);
                 Some (int (n + HCS_PREFIX_LENGTH al + HCS_DWORD_LENGTH)) }
          else if t = CONFIG_ATTR then HcsGetAttrLength al b p
          else Some HDF_FAILURE }"

text \<open>The stored length is converted to \<^verbatim>\<open>int32_t\<close>; the signed addition must not overflow.\<close>

definition HcsGetNodeLength :: "bool \<Rightarrow> u8 list \<Rightarrow> nat \<Rightarrow> int option" where
  "HcsGetNodeLength al b p =
     do { rootLen \<leftarrow> HcsGetNodeOrAttrLength al b p;
          if rootLen < 0 then Some HDF_FAILURE
          else do { n \<leftarrow> HCS_STRING_LENGTH al b (p + HCS_PREFIX_LENGTH al);
                    v \<leftarrow> HcsByteCodeToUint32 b (p + HCS_PREFIX_LENGTH al + n);
                    if rootLen + sint v < 2 ^ 31 then Some (rootLen + sint v) else UB } }"

section \<open>Header\<close>

text \<open>
  The two sums are computed as \<^verbatim>\<open>size_t\<close> and cut to 32 bits. The minimal length is
  computed with the flag \<^verbatim>\<open>al0\<close> of the previous blob; the result is the new flag and
  the verdict.
\<close>

definition CheckHcsBlobLength :: "bool \<Rightarrow> u32 \<Rightarrow> u32 \<Rightarrow> bool \<times> bool" where
  "CheckHcsBlobLength al0 len totalSize =
     (let minLength = word_of_nat (hcs_string_size al0 4 + HCS_PREFIX_LENGTH al0 + HCS_DWORD_LENGTH
                                   + HBC_HEADER_LENGTH) :: u32;
          al = (sint totalSize < 0);
          blobLength = (if al then ucast (20 - scast totalSize :: u64)
                        else ucast (20 + scast totalSize :: u64)) :: u32
      in (al, \<not> (len \<noteq> blobLength \<or> blobLength < minLength)))"

definition HcsCheckBlobFormat :: "bool \<Rightarrow> u8 list option \<Rightarrow> u32 \<Rightarrow> (bool \<times> bool) option" where
  "HcsCheckBlobFormat al0 start len =
     (case start of
        None \<Rightarrow> Some (al0, False)
      | Some b \<Rightarrow>
          if unat len < HBC_HEADER_LENGTH \<or> unat len > HBC_BLOB_MAX_LENGTH then Some (al0, False)
          else do { magic \<leftarrow> HcsByteCodeToUint32 b 0;
                    if magic \<noteq> HBC_MAGIC_NUMBER then Some (al0, False)
                    else do { totalSize \<leftarrow> HcsByteCodeToUint32 b 16;
                              Some (CheckHcsBlobLength al0 len totalSize) } })"

section \<open>The encoding\<close>

text \<open>What the blob holds: attributes and nodes, in the order they are written.\<close>

datatype hcs_scalar = HByte u8 | HWord u16 | HDword u32 | HQword u64 | HString cstr | HRef u32

datatype hcs_value = HScalar hcs_scalar | HArray "hcs_scalar list"

datatype hcs_item = HAttr cstr hcs_value | HNode cstr "hcs_item list"

definition enc_prefix :: "bool \<Rightarrow> u32 \<Rightarrow> u8 list" where
  "enc_prefix al t = (if al then le_bytes 4 t else le_bytes 1 t)"

definition enc_byte :: "bool \<Rightarrow> u8 \<Rightarrow> u8 list" where
  "enc_byte al v = (if al then le_bytes 4 (ucast v :: u32) else le_bytes 1 v)"

definition enc_word :: "bool \<Rightarrow> u16 \<Rightarrow> u8 list" where
  "enc_word al v = (if al then le_bytes 4 (ucast v :: u32) else le_bytes 2 v)"

definition enc_string :: "bool \<Rightarrow> cstr \<Rightarrow> u8 list" where
  "enc_string al s = bytes_of s @ replicate (hcs_string_size al (length s) - length s) 0"

fun enc_scalar :: "bool \<Rightarrow> hcs_scalar \<Rightarrow> u8 list" where
  "enc_scalar al (HByte v) = enc_prefix al CONFIG_BYTE @ enc_byte al v"
| "enc_scalar al (HWord v) = enc_prefix al CONFIG_WORD @ enc_word al v"
| "enc_scalar al (HDword v) = enc_prefix al CONFIG_DWORD @ le_bytes 4 v"
| "enc_scalar al (HQword v) = enc_prefix al CONFIG_QWORD @ le_bytes 8 v"
| "enc_scalar al (HString s) = enc_prefix al CONFIG_STRING @ enc_string al s"
| "enc_scalar al (HRef v) = enc_prefix al CONFIG_REFERENCE @ le_bytes 4 v"

fun enc_value :: "bool \<Rightarrow> hcs_value \<Rightarrow> u8 list" where
  "enc_value al (HScalar x) = enc_scalar al x"
| "enc_value al (HArray xs) =
     enc_prefix al CONFIG_ARRAY @ enc_word al (word_of_nat (length xs)) @ concat (map (enc_scalar al) xs)"

fun enc_item :: "bool \<Rightarrow> hcs_item \<Rightarrow> u8 list" where
  "enc_item al (HAttr nm v) = enc_prefix al CONFIG_ATTR @ enc_string al nm @ enc_value al v"
| "enc_item al (HNode nm its) =
     enc_prefix al CONFIG_NODE @ enc_string al nm @
     le_bytes 4 (word_of_nat (length (concat (map (enc_item al) its))) :: u32) @
     concat (map (enc_item al) its)"

fun scalar_wf :: "hcs_scalar \<Rightarrow> bool" where
  "scalar_wf (HString s) \<longleftrightarrow> wf_cstr s"
| "scalar_wf _ \<longleftrightarrow> True"

fun value_wf :: "hcs_value \<Rightarrow> bool" where
  "value_wf (HScalar x) \<longleftrightarrow> scalar_wf x"
| "value_wf (HArray xs) \<longleftrightarrow> length xs < 2 ^ 16 \<and> (\<forall>x \<in> set xs. scalar_wf x)"

fun item_ok :: "hcs_item \<Rightarrow> bool" where
  "item_ok (HAttr nm v) \<longleftrightarrow> wf_cstr nm \<and> value_wf v"
| "item_ok (HNode nm its) \<longleftrightarrow> wf_cstr nm \<and> (\<forall>x \<in> set its. item_ok x)"

section \<open>Reading an encoding\<close>

text \<open>The bytes \<^verbatim>\<open>xs\<close> stand at position \<^verbatim>\<open>p\<close>.\<close>

definition stands :: "u8 list \<Rightarrow> nat \<Rightarrow> u8 list \<Rightarrow> bool" where
  "stands b p xs \<longleftrightarrow> p + length xs \<le> length b \<and> take (length xs) (drop p b) = xs"

lemma stands_Nil [simp]: "stands b p [] \<longleftrightarrow> p \<le> length b"
  by (simp add: stands_def)

lemma stands_append:
  "stands b p (xs @ ys) \<longleftrightarrow> stands b p xs \<and> stands b (p + length xs) ys"
  by (auto simp: stands_def take_add add.commute add.left_commute append_eq_append_conv)

lemma stands_rd:
  fixes v :: "'a::len word"
  shows "stands b p (le_bytes k v) \<Longrightarrow> LENGTH('a) \<le> 8 * k \<Longrightarrow> rd k b p = Some v"
  by (simp add: stands_def rd_def le_word_le_bytes_id)

lemma stands_strlen:
  assumes "stands b p (bytes_of s @ 0 # xs)" "wf_cstr s"
  shows "strlen_at b p = Some (length s)"
proof -
  let ?n = "length (bytes_of s @ 0 # xs)"
  have "drop p b = take ?n (drop p b) @ drop ?n (drop p b)" by (rule append_take_drop_id [symmetric])
  also have "\<dots> = (bytes_of s @ 0 # xs) @ drop ?n (drop p b)" using assms(1) by (simp only: stands_def)
  finally have "\<exists>r. drop p b = bytes_of s @ 0 # r" by simp
  then obtain r where d: "drop p b = bytes_of s @ 0 # r" by blast
  have "length (takeWhile (\<lambda>c. c \<noteq> 0) (drop p b)) = length s"
    by (simp only: d takeWhile_bytes_of [OF assms(2)] length_bytes_of)
  then show ?thesis
    using assms(1) by (simp add: strlen_at_def stands_def)
qed

lemma string_size_gt: "n < hcs_string_size al n"
  using al4_bounds(1) [of "n + 1"] by (simp add: hcs_string_size_def HcsAlignSize_def)

lemma stands_string:
  assumes "stands b p (enc_string al s)" "wf_cstr s"
  shows "HCS_STRING_LENGTH al b p = Some (hcs_string_size al (length s))"
proof -
  obtain k where "hcs_string_size al (length s) - length s = Suc k"
    using string_size_gt [of "length s" al] by (metis Suc_diff_Suc)
  then have "strlen_at b p = Some (length s)"
    using assms by (intro stands_strlen [where xs = "replicate k 0"]) (simp_all add: enc_string_def)
  then show ?thesis by (simp add: HCS_STRING_LENGTH_def)
qed

lemma length_enc_string [simp]: "length (enc_string al s) = hcs_string_size al (length s)"
  using string_size_gt [of "length s" al] by (simp add: enc_string_def)

lemma length_enc_prefix [simp]: "length (enc_prefix al t) = HCS_PREFIX_LENGTH al"
  by (simp add: enc_prefix_def HCS_PREFIX_LENGTH_def)

lemma length_enc_word [simp]: "length (enc_word al t) = HCS_WORD_LENGTH al"
  by (simp add: enc_word_def HCS_WORD_LENGTH_def)

lemma length_enc_byte [simp]: "length (enc_byte al t) = HCS_BYTE_LENGTH al"
  by (simp add: enc_byte_def HCS_BYTE_LENGTH_def)

section \<open>The length functions recognise the encoding\<close>

lemma stands_prefix:
  assumes "stands b p (enc_prefix al t)" "ucast (ucast t :: u8) = t"
  shows "HcsGetPrefix al b p = Some t"
proof (cases al)
  case True
  then show ?thesis
    using assms(1) stands_rd [of b p 4 t]
    by (simp add: enc_prefix_def HcsGetPrefix_def HcsByteCodeToUint32_def)
next
  case False
  have "le_bytes 1 t = le_bytes 1 (ucast t :: u8)" by simp
  then have "rd 1 b p = Some (ucast t :: u8)"
    using assms(1) False stands_rd [of b p 1 "ucast t :: u8"]
    by (simp only: enc_prefix_def if_False) simp
  then show ?thesis
    using False assms(2) by (simp add: HcsGetPrefix_def HcsByteCodeToUint8_def)
qed

lemmas stands_config =
  stands_prefix [where t = CONFIG_NODE, simplified] stands_prefix [where t = CONFIG_ATTR, simplified]
  stands_prefix [where t = CONFIG_REFERENCE, simplified] stands_prefix [where t = CONFIG_ARRAY, simplified]
  stands_prefix [where t = CONFIG_BYTE, simplified] stands_prefix [where t = CONFIG_WORD, simplified]
  stands_prefix [where t = CONFIG_DWORD, simplified] stands_prefix [where t = CONFIG_QWORD, simplified]
  stands_prefix [where t = CONFIG_STRING, simplified]

fun scalar_type :: "hcs_scalar \<Rightarrow> u32" where
  "scalar_type (HByte v) = CONFIG_BYTE"
| "scalar_type (HWord v) = CONFIG_WORD"
| "scalar_type (HDword v) = CONFIG_DWORD"
| "scalar_type (HQword v) = CONFIG_QWORD"
| "scalar_type (HString s) = CONFIG_STRING"
| "scalar_type (HRef v) = CONFIG_REFERENCE"

lemma scalar_prefix: "stands b p (enc_scalar al x) \<Longrightarrow> HcsGetPrefix al b p = Some (scalar_type x)"
  by (cases x) (auto simp only: stands_append enc_scalar.simps scalar_type.simps dest: stands_config)

lemma scalar_length:
  assumes "stands b p (enc_scalar al x)" "scalar_wf x"
  shows "HcsGetDataTypeOffset al b p = Some (int (length (enc_scalar al x)))"
proof (cases "\<exists>s. x = HString s")
  case True
  then obtain s where s: "x = HString s" by blast
  with assms have "HCS_STRING_LENGTH al b (p + HCS_PREFIX_LENGTH al) = Some (hcs_string_size al (length s))"
    by (intro stands_string) (simp_all add: stands_append)
  then show ?thesis using scalar_prefix [OF assms(1)] s by (simp add: HcsGetDataTypeOffset_def)
next
  case False
  then show ?thesis using scalar_prefix [OF assms(1)]
    by (cases x) (simp_all add: HcsGetDataTypeOffset_def)
qed

lemma array_length_loop_enc:
  assumes "stands b (p + n) (concat (map (enc_scalar al) xs))" "\<forall>x \<in> set xs. scalar_wf x"
  shows "array_length_loop al b p n (length xs) = Some (int (n + length (concat (map (enc_scalar al) xs))))"
  using assms
proof (induction xs arbitrary: n)
  case (Cons x xs)
  from Cons.prems have "HcsGetDataTypeOffset al b (p + n) = Some (int (length (enc_scalar al x)))"
    and "stands b (p + (n + length (enc_scalar al x))) (concat (map (enc_scalar al) xs))"
    by (simp_all add: stands_append scalar_length add.assoc)
  then show ?case using Cons.IH [of "n + length (enc_scalar al x)"] Cons.prems(2) by (simp add: add.assoc)
qed simp

lemma stands_word:
  assumes "stands b p (enc_word al v)"
  shows "HcsSwapToUint16 al b p CONFIG_WORD = Some (Some v)"
proof -
  have "ucast (ucast v :: u32) = v" by (rule bit_word_eqI) (simp add: bit_simps)
  then show ?thesis
    using assms stands_rd [of b p 4 "ucast v :: u32"] stands_rd [of b p 2 v]
    by (auto simp: enc_word_def HcsSwapToUint16_def HcsByteCodeToUint32_def HcsByteCodeToUint16_def
        split: if_splits)
qed

lemma value_length:
  assumes "stands b p (enc_value al v)" "value_wf v"
  shows "\<exists>t. HcsGetPrefix al b p = Some t \<and>
    (if t \<in> {CONFIG_BYTE, CONFIG_WORD, CONFIG_DWORD, CONFIG_QWORD, CONFIG_STRING, CONFIG_REFERENCE}
     then HcsGetDataTypeOffset al b p
     else if t = CONFIG_ARRAY then HcsGetArrayLength al b p
     else Some HDF_FAILURE) = Some (int (length (enc_value al v)))"
proof (cases v)
  case (HScalar x)
  have t: "HcsGetPrefix al b p = Some (scalar_type x)"
    using HScalar assms(1) scalar_prefix by simp
  have u: "scalar_type x \<in> {CONFIG_BYTE, CONFIG_WORD, CONFIG_DWORD, CONFIG_QWORD, CONFIG_STRING, CONFIG_REFERENCE}"
    by (cases x) simp_all
  have "HcsGetDataTypeOffset al b p = Some (int (length (enc_value al v)))"
    using assms HScalar by (simp add: scalar_length)
  then show ?thesis
    by (intro exI [of _ "scalar_type x"] conjI t) (simp only: if_P [OF u])
next
  case (HArray xs)
  let ?n = "HCS_PREFIX_LENGTH al + HCS_WORD_LENGTH al"
  from assms(1) HArray have st: "stands b p (enc_prefix al CONFIG_ARRAY)"
    "stands b (p + HCS_PREFIX_LENGTH al) (enc_word al (word_of_nat (length xs)))"
    "stands b (p + ?n) (concat (map (enc_scalar al) xs))"
    by (simp_all add: stands_append add.assoc)
  have "unat (word_of_nat (length xs) :: u16) = length xs"
    using HArray assms(2) by (simp add: unat_of_nat)
  then have "HcsGetArrayLength al b p = Some (int (?n + length (concat (map (enc_scalar al) xs))))"
    using array_length_loop_enc [OF st(3)] HArray assms(2)
    by (simp add: HcsGetArrayLength_def stands_word [OF st(2)])
  then show ?thesis
    using HArray stands_config(4) [OF st(1)] by (simp add: add.assoc)
qed

lemma attr_length:
  assumes "stands b p (enc_item al (HAttr nm v))" "item_ok (HAttr nm v)"
  shows "HcsGetNodeOrAttrLength al b p = Some (int (length (enc_item al (HAttr nm v))))"
proof -
  let ?s = "hcs_string_size al (length nm)"
  from assms have st: "stands b p (enc_prefix al CONFIG_ATTR)"
    "stands b (p + HCS_PREFIX_LENGTH al) (enc_string al nm)"
    "stands b (p + (HCS_PREFIX_LENGTH al + ?s)) (enc_value al v)"
    by (simp_all add: stands_append add.assoc)
  have wf: "wf_cstr nm" "value_wf v" using assms(2) by simp_all
  from value_length [OF st(3) wf(2)] obtain t where
    t: "HcsGetPrefix al b (p + (HCS_PREFIX_LENGTH al + ?s)) = Some t"
    "(if t \<in> {CONFIG_BYTE, CONFIG_WORD, CONFIG_DWORD, CONFIG_QWORD, CONFIG_STRING, CONFIG_REFERENCE}
      then HcsGetDataTypeOffset al b (p + (HCS_PREFIX_LENGTH al + ?s))
      else if t = CONFIG_ARRAY then HcsGetArrayLength al b (p + (HCS_PREFIX_LENGTH al + ?s))
      else Some HDF_FAILURE) = Some (int (length (enc_value al v)))"
    by blast
  have "HcsGetAttrLength al b p = Some (int (length (enc_value al v)) + int (HCS_PREFIX_LENGTH al + ?s))"
    unfolding HcsGetAttrLength_def stands_string [OF st(2) wf(1)] bind.bind_lunit Let_def t by simp
  then show ?thesis
    using stands_config(2) [OF st(1)] by (simp add: HcsGetNodeOrAttrLength_def)
qed

definition node_header :: "bool \<Rightarrow> cstr \<Rightarrow> nat" where
  "node_header al nm = hcs_string_size al (length nm) + HCS_PREFIX_LENGTH al + HCS_DWORD_LENGTH"

abbreviation enc_items :: "bool \<Rightarrow> hcs_item list \<Rightarrow> u8 list" where
  "enc_items al its \<equiv> concat (map (enc_item al) its)"

lemma node_stands:
  assumes "stands b p (enc_item al (HNode nm its))"
  shows "stands b p (enc_prefix al CONFIG_NODE)" "stands b (p + HCS_PREFIX_LENGTH al) (enc_string al nm)"
    "stands b (p + (hcs_string_size al (length nm) + HCS_PREFIX_LENGTH al))
       (le_bytes 4 (word_of_nat (length (enc_items al its)) :: u32))"
    "stands b (p + node_header al nm) (enc_items al its)"
  using assms by (simp_all add: stands_append node_header_def add.assoc add.commute add.left_commute)

lemma node_length:
  assumes "stands b p (enc_item al (HNode nm its))" "wf_cstr nm"
  shows "HcsGetNodeOrAttrLength al b p = Some (int (node_header al nm))"
  using assms stands_config(1) [OF node_stands(1) [OF assms(1)]]
  by (simp add: HcsGetNodeOrAttrLength_def stands_string [OF node_stands(2)] node_header_def)

lemma length_enc_node:
  "length (enc_item al (HNode nm its)) = node_header al nm + length (enc_items al its)"
  by (simp add: node_header_def)

section \<open>The value functions read the encoding\<close>

text \<open>A scalar as an integer of each width: a smaller one is widened, any other type refused.\<close>

definition scalar_u8 :: "hcs_scalar \<Rightarrow> u8 option" where
  "scalar_u8 x = (case x of HByte v \<Rightarrow> Some v | _ \<Rightarrow> None)"

definition scalar_u16 :: "hcs_scalar \<Rightarrow> u16 option" where
  "scalar_u16 x = (case x of HWord v \<Rightarrow> Some v | _ \<Rightarrow> map_option ucast (scalar_u8 x))"

definition scalar_u32 :: "hcs_scalar \<Rightarrow> u32 option" where
  "scalar_u32 x = (case x of HDword v \<Rightarrow> Some v | _ \<Rightarrow> map_option ucast (scalar_u16 x))"

definition scalar_u64 :: "hcs_scalar \<Rightarrow> u64 option" where
  "scalar_u64 x = (case x of HQword v \<Rightarrow> Some v | _ \<Rightarrow> map_option ucast (scalar_u32 x))"

lemma scalar_payload:
  "stands b p (enc_scalar al (HByte w)) \<Longrightarrow> HcsSwapToUint8 al b (p + HCS_PREFIX_LENGTH al) CONFIG_BYTE = Some (Some w)"
  "stands b p (enc_scalar al (HWord v)) \<Longrightarrow> HcsSwapToUint16 al b (p + HCS_PREFIX_LENGTH al) CONFIG_WORD = Some (Some v)"
  "stands b p (enc_scalar al (HDword d)) \<Longrightarrow> HcsByteCodeToUint32 b (p + HCS_PREFIX_LENGTH al) = Some d"
  "stands b p (enc_scalar al (HQword q)) \<Longrightarrow> HcsByteCodeToUint64 b (p + HCS_PREFIX_LENGTH al) = Some q"
  "stands b p (enc_scalar al (HRef d)) \<Longrightarrow> HcsByteCodeToUint32 b (p + HCS_PREFIX_LENGTH al) = Some d"
proof -
  have "ucast (ucast w :: u32) = w" by (rule bit_word_eqI) (simp add: bit_simps)
  moreover assume "stands b p (enc_scalar al (HByte w))"
  ultimately show "HcsSwapToUint8 al b (p + HCS_PREFIX_LENGTH al) CONFIG_BYTE = Some (Some w)"
    using stands_rd [of b "p + HCS_PREFIX_LENGTH al" 4 "ucast w :: u32"]
      stands_rd [of b "p + HCS_PREFIX_LENGTH al" 1 w]
    by (auto simp: stands_append enc_byte_def HcsSwapToUint8_def HcsByteCodeToUint32_def HcsByteCodeToUint8_def
        simp del: le_bytes.simps split: if_splits)
next
  assume "stands b p (enc_scalar al (HWord v))"
  then show "HcsSwapToUint16 al b (p + HCS_PREFIX_LENGTH al) CONFIG_WORD = Some (Some v)"
    by (simp add: stands_append stands_word)
next
  assume "stands b p (enc_scalar al (HDword d))"
  then show "HcsByteCodeToUint32 b (p + HCS_PREFIX_LENGTH al) = Some d"
    by (simp add: stands_append HcsByteCodeToUint32_def stands_rd)
next
  assume "stands b p (enc_scalar al (HQword q))"
  then show "HcsByteCodeToUint64 b (p + HCS_PREFIX_LENGTH al) = Some q"
    by (simp add: stands_append HcsByteCodeToUint64_def stands_rd)
next
  assume "stands b p (enc_scalar al (HRef d))"
  then show "HcsByteCodeToUint32 b (p + HCS_PREFIX_LENGTH al) = Some d"
    by (simp add: stands_append HcsByteCodeToUint32_def stands_rd)
qed

lemma swap_u8:
  assumes "stands b p (enc_scalar al x)"
  shows "HcsSwapToUint8 al b (p + HCS_PREFIX_LENGTH al) (scalar_type x) = Some (scalar_u8 x)"
proof (cases x)
  case (HByte w)
  then show ?thesis using scalar_payload(1) assms by (simp add: scalar_u8_def)
qed (simp_all add: HcsSwapToUint8_def scalar_u8_def)

lemma swap_u16:
  assumes "stands b p (enc_scalar al x)"
  shows "HcsSwapToUint16 al b (p + HCS_PREFIX_LENGTH al) (scalar_type x) = Some (scalar_u16 x)"
proof (cases x)
  case (HWord w)
  then show ?thesis using scalar_payload(2) assms by (simp add: scalar_u16_def)
qed (use swap_u8 [OF assms] in \<open>simp_all add: HcsSwapToUint16_def scalar_u16_def\<close>)

lemma swap_u32:
  assumes "stands b p (enc_scalar al x)"
  shows "HcsSwapToUint32 al b (p + HCS_PREFIX_LENGTH al) (scalar_type x) = Some (scalar_u32 x)"
proof (cases x)
  case (HDword w)
  then show ?thesis using scalar_payload(3) assms by (simp add: HcsSwapToUint32_def scalar_u32_def)
qed (use swap_u16 [OF assms] in \<open>simp_all add: HcsSwapToUint32_def scalar_u32_def\<close>)

lemma swap_u64:
  assumes "stands b p (enc_scalar al x)"
  shows "HcsSwapToUint64 al b (p + HCS_PREFIX_LENGTH al) (scalar_type x) = Some (scalar_u64 x)"
proof (cases x)
  case (HQword w)
  then show ?thesis using scalar_payload(4) assms by (simp add: HcsSwapToUint64_def scalar_u64_def)
qed (use swap_u32 [OF assms] in \<open>simp_all add: HcsSwapToUint64_def scalar_u64_def\<close>)

end
