(* ===== verification/Hcs_Tree_Gen.thy ===== *)
theory Hcs_Tree_Gen
  imports Hcs_Blob
begin

text \<open>
  Building the configuration tree: utils/src/hcs_parser/hcs_generate_tree.c, hcs_parser.c and
  hcs_buildin_parser.c. The tree lives in one block of memory (\<^verbatim>\<open>treeMem\<close>) whose
  cells are nodes (48 bytes) and attributes (24 bytes); a pointer is the offset of a cell, a
  name or a value the offset of its bytes in the blob. A first pass over the blob measures the
  block, a second one fills it; leaving the block is undefined behaviour.
\<close>

section \<open>Tree memory\<close>

record res_attr =
  ra_name :: nat
  ra_value :: nat
  ra_next :: "nat option"

record res_node =
  rn_name :: nat
  rn_hash :: u32
  rn_attrData :: "nat option"
  rn_parent :: "nat option"
  rn_child :: "nat option"
  rn_sibling :: "nat option"

record tree_mem =
  tm_size :: nat
  tm_next :: nat
  tm_nodes :: "nat \<Rightarrow> res_node option"
  tm_attrs :: "nat \<Rightarrow> res_attr option"

abbreviation SIZEOF_NODE :: nat where "SIZEOF_NODE \<equiv> 48"
abbreviation SIZEOF_ATTR :: nat where "SIZEOF_ATTR \<equiv> 24"
abbreviation TREE_STACK_MAX :: nat where "TREE_STACK_MAX \<equiv> 64"

text \<open>
  The local state of the generator. \<^verbatim>\<open>treeLayerOrMemLen\<close> is the size measured so far
  when \<^verbatim>\<open>treeMem\<close> is NULL, and the top of the stack otherwise.
\<close>

record gen_state =
  gs_mem :: "tree_mem option"
  gs_stack :: "(nat option \<times> u32) list"
  gs_layer :: int

section \<open>Operations\<close>

fun parent_layer :: "(nat option \<times> u32) list \<Rightarrow> u32 \<Rightarrow> nat \<Rightarrow> nat option" where
  "parent_layer stack lim 0 = None"
| "parent_layer stack lim (Suc k) =
     (if snd (stack ! Suc k) \<ge> lim then Some (Suc k) else parent_layer stack lim k)"

definition GetParentNode :: "int \<Rightarrow> (nat option \<times> u32) list \<Rightarrow> int \<Rightarrow> int \<Rightarrow> nat option \<times> int" where
  "GetParentNode offset stack treeLayer configOffset =
     (if configOffset + offset > 0 then
        (case parent_layer stack (word_of_int (configOffset + offset)) (nat treeLayer) of
           Some l \<Rightarrow> (fst (stack ! l), int l)
         | None \<Rightarrow> (None, treeLayer))
      else (None, treeLayer))"

text \<open>The walk to the last sibling; it returns if the chain of siblings ends.\<close>

partial_function (option) last_sibling :: "tree_mem \<Rightarrow> nat \<Rightarrow> nat option" where
  "last_sibling m p =
     (case tm_nodes m p of
        None \<Rightarrow> UB
      | Some n \<Rightarrow> (case rn_sibling n of None \<Rightarrow> Some p | Some q \<Rightarrow> last_sibling m q))"

definition set_node :: "tree_mem \<Rightarrow> nat \<Rightarrow> (res_node \<Rightarrow> res_node) \<Rightarrow> tree_mem option" where
  "set_node m p f =
     (case tm_nodes m p of
        None \<Rightarrow> UB
      | Some n \<Rightarrow> Some (m\<lparr>tm_nodes := (tm_nodes m)(p \<mapsto> f n)\<rparr>))"

definition CreateTreeNode :: "bool \<Rightarrow> int \<Rightarrow> nat option \<Rightarrow> tree_mem \<Rightarrow> (nat \<times> tree_mem) option" where
  "CreateTreeNode al offset parentNode m =
     (let newNode = tm_next m in
      if newNode + SIZEOF_NODE > tm_size m then UB
      else
        (let m1 = m\<lparr>tm_next := newNode + SIZEOF_NODE,
                    tm_nodes := (tm_nodes m)(newNode \<mapsto>
                      \<lparr>rn_name = nat offset + HCS_PREFIX_LENGTH al, rn_hash = word_of_int offset + 20,
                       rn_attrData = None, rn_parent = parentNode, rn_child = None, rn_sibling = None\<rparr>)\<rparr> in
         case parentNode of
           None \<Rightarrow> Some (newNode, m1)
         | Some q \<Rightarrow>
             (case tm_nodes m1 q of
                None \<Rightarrow> UB
              | Some n \<Rightarrow>
                  (case rn_child n of
                     None \<Rightarrow> do { m2 \<leftarrow> set_node m1 q (\<lambda>n. n\<lparr>rn_child := Some newNode\<rparr>); Some (newNode, m2) }
                   | Some c \<Rightarrow>
                       do { cur \<leftarrow> last_sibling m1 c;
                            m2 \<leftarrow> set_node m1 cur (\<lambda>n. n\<lparr>rn_sibling := Some newNode\<rparr>);
                            Some (newNode, m2) }))))"

definition UpdateTreeStack ::
  "(nat option \<times> u32) list \<Rightarrow> int \<Rightarrow> nat \<Rightarrow> u32 \<Rightarrow> (nat option \<times> u32) list \<times> int \<times> bool" where
  "UpdateTreeStack stack treeLayer newNode offset =
     (if treeLayer \<ge> int TREE_STACK_MAX - 1 then (stack, treeLayer, False)
      else (stack[nat (treeLayer + 1) := (Some newNode, offset)], treeLayer + 1, True))"

definition AddAttrInNode ::
  "bool \<Rightarrow> u8 list \<Rightarrow> nat \<Rightarrow> nat option \<Rightarrow> tree_mem \<Rightarrow> (bool \<times> tree_mem) option" where
  "AddAttrInNode al b start parentNode m =
     (case parentNode of
        None \<Rightarrow> Some (False, m)
      | Some q \<Rightarrow>
          (let newAttr = tm_next m; nm = start + HCS_PREFIX_LENGTH al in
           if newAttr + SIZEOF_ATTR > tm_size m then UB
           else do { n \<leftarrow> tm_nodes m q;
                     len \<leftarrow> HCS_STRING_LENGTH al b nm;
                     m1 \<leftarrow> set_node m q (\<lambda>n. n\<lparr>rn_attrData := Some newAttr\<rparr>);
                     Some (True, m1\<lparr>tm_next := newAttr + SIZEOF_ATTR,
                       tm_attrs := (tm_attrs m)(newAttr \<mapsto>
                         \<lparr>ra_name = nm, ra_value = nm + len, ra_next = rn_attrData n\<rparr>)\<rparr>) }))"

definition parse_node :: "bool \<Rightarrow> u8 list \<Rightarrow> int \<Rightarrow> int \<Rightarrow> gen_state \<Rightarrow> (int \<times> gen_state) option" where
  "parse_node al b offset termOffset st =
     (case gs_mem st of
        None \<Rightarrow> Some (termOffset, st\<lparr>gs_layer := gs_layer st + int SIZEOF_NODE\<rparr>)
      | Some m \<Rightarrow>
          (let (par, layer) = GetParentNode offset (gs_stack st) (gs_layer st) termOffset in
           do { (newNode, m1) \<leftarrow> CreateTreeNode al offset par m;
                len \<leftarrow> HCS_STRING_LENGTH al b (nat offset + HCS_PREFIX_LENGTH al);
                v \<leftarrow> HcsByteCodeToUint32 b (nat offset + len + HCS_PREFIX_LENGTH al);
                let (stack, layer', ok) = UpdateTreeStack (gs_stack st) layer newNode
                                            (v + word_of_int (offset + termOffset));
                Some (if ok then termOffset else HDF_FAILURE,
                      st\<lparr>gs_mem := Some m1, gs_stack := stack, gs_layer := layer'\<rparr>) }))"

definition parse_attr :: "bool \<Rightarrow> u8 list \<Rightarrow> int \<Rightarrow> int \<Rightarrow> gen_state \<Rightarrow> (int \<times> gen_state) option" where
  "parse_attr al b offset termOffset st =
     (case gs_mem st of
        None \<Rightarrow> Some (termOffset, st\<lparr>gs_layer := gs_layer st + int SIZEOF_ATTR\<rparr>)
      | Some m \<Rightarrow>
          (let (par, layer) = GetParentNode offset (gs_stack st) (gs_layer st) termOffset in
           do { (ok, m1) \<leftarrow> AddAttrInNode al b (nat offset) par m;
                Some (if ok then termOffset else HDF_FAILURE, st\<lparr>gs_mem := Some m1, gs_layer := layer\<rparr>) }))"

definition ParseByteCode :: "bool \<Rightarrow> u8 list \<Rightarrow> int \<Rightarrow> gen_state \<Rightarrow> (int \<times> gen_state) option" where
  "ParseByteCode al b offset st =
     do { termOffset \<leftarrow> HcsGetNodeOrAttrLength al b (nat offset);
          if termOffset \<le> 0 then Some (HDF_FAILURE, st)
          else do { t \<leftarrow> HcsGetPrefix al b (nat offset);
                    if t = CONFIG_NODE then parse_node al b offset termOffset st
                    else if t = CONFIG_ATTR then parse_attr al b offset termOffset st
                    else Some (HDF_FAILURE, st) } }"

text \<open>The loop of \<^verbatim>\<open>GenerateCfgTree\<close>: every round advances, so it ends.\<close>

function gen_loop :: "bool \<Rightarrow> u8 list \<Rightarrow> int \<Rightarrow> int \<Rightarrow> gen_state \<Rightarrow> gen_state option" where
  "gen_loop al b len offset st =
     (if offset < len \<and> 0 \<le> offset then
        (case ParseByteCode al b offset st of
           None \<Rightarrow> UB
         | Some (eachOffset, st') \<Rightarrow>
             if eachOffset \<le> 0 then Some (st'\<lparr>gs_layer := eachOffset\<rparr>)
             else gen_loop al b len (offset + eachOffset) st')
      else Some st)"
  by pat_completeness auto
termination by (relation "measure (\<lambda>(al, b, len, offset, st). nat (len - offset))") auto

declare gen_loop.simps [simp del] enc_item.simps [simp del]

text \<open>The result, the tree memory afterwards and, if it was stored, the root.\<close>

definition GenerateCfgTree ::
  "bool \<Rightarrow> bool \<Rightarrow> u8 list \<Rightarrow> int \<Rightarrow> tree_mem option \<Rightarrow> (int \<times> tree_mem option \<times> nat option option) option" where
  "GenerateCfgTree allocOk al b len treeMem =
     (if \<not> allocOk then Some (HDF_FAILURE, treeMem, None)
      else do { st \<leftarrow> gen_loop al b len 0
                  \<lparr>gs_mem = treeMem, gs_stack = replicate TREE_STACK_MAX (None, 0), gs_layer = 0\<rparr>;
                Some (gs_layer st, gs_mem st,
                      if gs_mem st \<noteq> None \<and> gs_layer st > 0 then Some (fst (gs_stack st ! 1)) else None) })"

definition GetHcsTreeSize :: "bool \<Rightarrow> bool \<Rightarrow> u8 list \<Rightarrow> int \<Rightarrow> int option" where
  "GetHcsTreeSize allocOk al b nodeLength = map_option fst (GenerateCfgTree allocOk al b nodeLength None)"

text \<open>
  \<^verbatim>\<open>HcsDecompile\<close>: the verdict, the tree memory and the root it stores
  (\<^verbatim>\<open>root0\<close> is the previous value). The three booleans say whether the allocations of
  the first stack, the block and the second stack succeed.
\<close>

definition HcsDecompile ::
  "bool \<times> bool \<times> bool \<Rightarrow> bool \<Rightarrow> u8 list \<Rightarrow> nat \<Rightarrow> nat option \<Rightarrow>
   (bool \<times> tree_mem option \<times> nat option) option" where
  "HcsDecompile allocs al hcsBlob offset root0 =
     (case allocs of (a1, a2, a3) \<Rightarrow>
      do { nodeLength \<leftarrow> HcsGetNodeLength al hcsBlob offset;
           if nodeLength < 0 then Some (False, None, root0)
           else do { n \<leftarrow> GetHcsTreeSize a1 al (drop offset hcsBlob) nodeLength;
                     if n \<le> 0 then Some (False, None, root0)
                     else if \<not> a2 then Some (False, None, root0)
                     else do { (layer, m, r) \<leftarrow> GenerateCfgTree a3 al (drop offset hcsBlob) nodeLength
                                 (Some \<lparr>tm_size = nat n, tm_next = 0, tm_nodes = Map.empty, tm_attrs = Map.empty\<rparr>);
                               if layer \<le> 0 then Some (False, None, None)
                               else Some (True, m, case r of None \<Rightarrow> root0 | Some x \<Rightarrow> x) } } })"

section \<open>The built-in configuration\<close>

text \<open>
  The statics \<^verbatim>\<open>g_byteAlign\<close> and \<^verbatim>\<open>g_hcsTreeRoot\<close> (with the tree it points
  into). The weak symbol \<^verbatim>\<open>HdfGetBuildInConfigData\<close> is a parameter: absent, or the
  blob and the length it gives.
\<close>

record hcs_config =
  g_byteAlign :: bool
  g_hcsTree :: "tree_mem option"
  g_hcsTreeRoot :: "nat option"

definition BuildHcsTree ::
  "(u8 list option \<times> u32) option \<Rightarrow> bool \<times> bool \<times> bool \<Rightarrow> hcs_config \<Rightarrow> (bool \<times> hcs_config) option" where
  "BuildHcsTree buildIn allocs g =
     (case buildIn of
        None \<Rightarrow> Some (False, g)
      | Some (hcsBlob, len) \<Rightarrow>
          do { (al, ok) \<leftarrow> HcsCheckBlobFormat (g_byteAlign g) hcsBlob len;
               let g1 = g\<lparr>g_byteAlign := al\<rparr>;
               if \<not> ok then Some (False, g1)
               else do { (ok2, m, r) \<leftarrow> HcsDecompile allocs al (the hcsBlob) HBC_HEADER_LENGTH (g_hcsTreeRoot g1);
                         Some (ok2, g1\<lparr>g_hcsTree := (if ok2 then m else g_hcsTree g1), g_hcsTreeRoot := r\<rparr>) } })"

definition HcsGetRootNode ::
  "(u8 list option \<times> u32) option \<Rightarrow> bool \<times> bool \<times> bool \<Rightarrow> hcs_config \<Rightarrow> (nat option \<times> hcs_config) option" where
  "HcsGetRootNode buildIn allocs g =
     (if g_hcsTreeRoot g = None then
        do { (ok, g1) \<leftarrow> BuildHcsTree buildIn allocs g;
             Some (if ok then g_hcsTreeRoot g1 else None, g1) }
      else Some (g_hcsTreeRoot g, g))"

section \<open>The measuring pass\<close>

text \<open>The memory a list of items takes, and the depth of the nodes.\<close>

fun item_mem :: "hcs_item \<Rightarrow> nat" where
  "item_mem (HAttr nm v) = SIZEOF_ATTR"
| "item_mem (HNode nm its) = SIZEOF_NODE + sum_list (map item_mem its)"

fun item_depth :: "hcs_item \<Rightarrow> nat" where
  "item_depth (HAttr nm v) = 0"
| "item_depth (HNode nm its) = Suc (Max (insert 0 (item_depth ` set its)))"

lemma enc_item_pos: "0 < length (enc_item al it)"
  by (cases it) (simp_all add: HCS_PREFIX_LENGTH_def enc_item.simps)

lemma node_header_pos: "0 < node_header al nm"
  by (simp add: node_header_def)

text \<open>One round of the loop on an attribute or on the header of a node.\<close>

lemma gen_loop_attr:
  assumes "stands b off (enc_item al (HAttr nm v))" "item_ok (HAttr nm v)" "int off < len"
    and "parse_attr al b (int off) (int (length (enc_item al (HAttr nm v)))) st = Some (e, st')" "0 < e"
  shows "gen_loop al b len (int off) st = gen_loop al b len (int off + e) st'"
proof -
  have "HcsGetPrefix al b off = Some CONFIG_ATTR"
    using assms(1) stands_config(2) by (simp add: stands_append enc_item.simps)
  moreover have "\<not> int (length (enc_item al (HAttr nm v))) \<le> 0"
    using enc_item_pos [of al "HAttr nm v"] by simp
  ultimately have "ParseByteCode al b (int off) st = Some (e, st')"
    using attr_length [OF assms(1,2)] assms(4)
    by (simp add: ParseByteCode_def)
  then show ?thesis using assms(3,5) by (subst gen_loop.simps) simp
qed

lemma gen_loop_node:
  assumes "stands b off (enc_item al (HNode nm its))" "wf_cstr nm" "int off < len"
    and "parse_node al b (int off) (int (node_header al nm)) st = Some (e, st')" "0 < e"
  shows "gen_loop al b len (int off) st = gen_loop al b len (int off + e) st'"
proof -
  have "HcsGetPrefix al b off = Some CONFIG_NODE"
    using stands_config(1) [OF node_stands(1) [OF assms(1)]] .
  then have "ParseByteCode al b (int off) st = Some (e, st')"
    using node_length [OF assms(1,2)] node_header_pos [of al nm] assms(4)
    by (simp add: ParseByteCode_def)
  then show ?thesis using assms(3,5) by (subst gen_loop.simps) simp
qed

text \<open>Items are handled one after the other.\<close>

lemma measure_items:
  assumes "\<And>it off st. it \<in> set its \<Longrightarrow> stands b off (enc_item al it) \<Longrightarrow> item_ok it \<Longrightarrow>
      int (off + length (enc_item al it)) \<le> len \<Longrightarrow> gs_mem st = None \<Longrightarrow>
      gen_loop al b len (int off) st =
        gen_loop al b len (int (off + length (enc_item al it))) (st\<lparr>gs_layer := gs_layer st + int (item_mem it)\<rparr>)"
    and "stands b off (enc_items al its)" "\<forall>it \<in> set its. item_ok it"
    and "int (off + length (enc_items al its)) \<le> len" "gs_mem st = None"
  shows "gen_loop al b len (int off) st =
    gen_loop al b len (int (off + length (enc_items al its)))
      (st\<lparr>gs_layer := gs_layer st + int (sum_list (map item_mem its))\<rparr>)"
  using assms
proof (induction its arbitrary: off st)
  case Nil
  then show ?case by simp
next
  case (Cons it its)
  from Cons.prems(2) have st: "stands b off (enc_item al it)"
    "stands b (off + length (enc_item al it)) (enc_items al its)"
    by (simp_all add: stands_append)
  let ?st = "st\<lparr>gs_layer := gs_layer st + int (item_mem it)\<rparr>"
  have "gen_loop al b len (int off) st = gen_loop al b len (int (off + length (enc_item al it))) ?st"
    using Cons.prems(1) [of it off st] Cons.prems(3-5) st(1) by simp
  also have "\<dots> = gen_loop al b len (int (off + length (enc_item al it) + length (enc_items al its)))
      (?st\<lparr>gs_layer := gs_layer ?st + int (sum_list (map item_mem its))\<rparr>)"
    by (rule Cons.IH [OF _ st(2)]) (use Cons.prems in \<open>auto simp: add.assoc\<close>)
  finally show ?case by (simp add: add.assoc)
qed

lemma measure_item:
  assumes "stands b off (enc_item al it)" "item_ok it" "int (off + length (enc_item al it)) \<le> len" "gs_mem st = None"
  shows "gen_loop al b len (int off) st =
    gen_loop al b len (int (off + length (enc_item al it))) (st\<lparr>gs_layer := gs_layer st + int (item_mem it)\<rparr>)"
  using assms
proof (induction it arbitrary: off st)
  case (HAttr nm v)
  have "parse_attr al b (int off) (int (length (enc_item al (HAttr nm v)))) st =
      Some (int (length (enc_item al (HAttr nm v))), st\<lparr>gs_layer := gs_layer st + int (item_mem (HAttr nm v))\<rparr>)"
    using HAttr.prems(4) by (simp add: parse_attr_def)
  moreover have "int off < len" using HAttr.prems(3) enc_item_pos [of al "HAttr nm v"] by linarith
  ultimately show ?case
    using gen_loop_attr [OF HAttr.prems(1,2)] enc_item_pos [of al "HAttr nm v"] by simp
next
  case (HNode nm its)
  let ?h = "node_header al nm" and ?st = "st\<lparr>gs_layer := gs_layer st + int SIZEOF_NODE\<rparr>"
  have len: "int (off + ?h + length (enc_items al its)) \<le> len"
    using HNode.prems(3) length_enc_node [of al nm its] by simp
  have "gen_loop al b len (int off) st = gen_loop al b len (int off + int ?h) ?st"
    by (rule gen_loop_node [OF HNode.prems(1)])
      (use HNode.prems len node_header_pos [of al nm] in \<open>simp_all add: parse_node_def\<close>)
  also have "\<dots> = gen_loop al b len (int (off + ?h + length (enc_items al its)))
      (?st\<lparr>gs_layer := gs_layer ?st + int (sum_list (map item_mem its))\<rparr>)"
    unfolding of_nat_add [symmetric]
    by (rule measure_items [OF HNode.IH node_stands(4) [OF HNode.prems(1)]])
      (use HNode.prems len in simp_all)
  finally show ?case by (simp add: length_enc_node add.assoc)
qed

section \<open>What the tree memory represents\<close>

definition is_node :: "hcs_item \<Rightarrow> bool" where
  "is_node it = (case it of HNode nm its \<Rightarrow> True | HAttr nm v \<Rightarrow> False)"

fun attrs_of :: "hcs_item list \<Rightarrow> (cstr \<times> hcs_value) list" where
  "attrs_of [] = []"
| "attrs_of (HAttr nm v # its) = (nm, v) # attrs_of its"
| "attrs_of (HNode nm its' # its) = attrs_of its"

lemma attrs_of_append [simp]: "attrs_of (xs @ ys) = attrs_of xs @ attrs_of ys"
  by (induction xs rule: attrs_of.induct) simp_all

text \<open>A chain of attributes, and a chain of siblings.\<close>

fun attrs_repr :: "bool \<Rightarrow> u8 list \<Rightarrow> tree_mem \<Rightarrow> nat option \<Rightarrow> (cstr \<times> hcs_value) list \<Rightarrow> bool" where
  "attrs_repr al b m p [] \<longleftrightarrow> p = None"
| "attrs_repr al b m p ((nm, v) # avs) \<longleftrightarrow>
     (\<exists>q a. p = Some q \<and> tm_attrs m q = Some a \<and> stands b (ra_name a) (enc_string al nm) \<and>
        stands b (ra_value a) (enc_value al v) \<and> attrs_repr al b m (ra_next a) avs)"

fun sib_chain :: "tree_mem \<Rightarrow> nat option \<Rightarrow> nat list \<Rightarrow> bool" where
  "sib_chain m p [] \<longleftrightarrow> p = None"
| "sib_chain m p (c # cs) \<longleftrightarrow> p = Some c \<and> (\<exists>n. tm_nodes m c = Some n \<and> sib_chain m (rn_sibling n) cs)"

text \<open>
  The node at \<^verbatim>\<open>p\<close> represents an item: its name, identifier, parent, attributes (last
  one first) and children (first one first).
\<close>

inductive node_repr :: "bool \<Rightarrow> u8 list \<Rightarrow> tree_mem \<Rightarrow> nat option \<Rightarrow> nat \<Rightarrow> hcs_item \<Rightarrow> bool"
  for al b m where
  node_reprI: "tm_nodes m p = Some n \<Longrightarrow> stands b (rn_name n) (enc_string al nm) \<Longrightarrow>
     rn_hash n = word_of_nat (rn_name n) - word_of_nat (HCS_PREFIX_LENGTH al) + 20 \<Longrightarrow>
     rn_parent n = par \<Longrightarrow> attrs_repr al b m (rn_attrData n) (rev (attrs_of its)) \<Longrightarrow>
     sib_chain m (rn_child n) cs \<Longrightarrow> list_all2 (node_repr al b m (Some p)) cs (filter is_node its) \<Longrightarrow>
     node_repr al b m par p (HNode nm its)"

text \<open>A whole tree: the root has no parent and no sibling.\<close>

definition tree_repr :: "bool \<Rightarrow> u8 list \<Rightarrow> tree_mem \<Rightarrow> nat \<Rightarrow> hcs_item \<Rightarrow> bool" where
  "tree_repr al b m p t \<longleftrightarrow> node_repr al b m None p t \<and> (\<exists>n. tm_nodes m p = Some n \<and> rn_sibling n = None)"

inductive_cases node_reprE: "node_repr al b m par p (HNode nm its)"

text \<open>Every cell lies below the next free one, and a parent below its children.\<close>

definition mem_wf :: "tree_mem \<Rightarrow> bool" where
  "mem_wf m \<longleftrightarrow>
     (\<forall>q n. tm_nodes m q = Some n \<longrightarrow> q < tm_next m \<and> (\<forall>p. rn_parent n = Some p \<longrightarrow> p < q)) \<and>
     (\<forall>q a. tm_attrs m q = Some a \<longrightarrow> q < tm_next m)"

definition node_core :: "res_node \<Rightarrow> nat \<times> u32 \<times> nat option \<times> nat option \<times> nat option" where
  "node_core n = (rn_name n, rn_hash n, rn_attrData n, rn_parent n, rn_child n)"

text \<open>
  What adding items below the node \<^verbatim>\<open>P\<close> leaves alone: all attributes; of the nodes,
  everything but the links of \<^verbatim>\<open>P\<close> to its attributes and children and the sibling
  links of the children of \<^verbatim>\<open>P\<close>.
\<close>

definition frame_at :: "tree_mem \<Rightarrow> tree_mem \<Rightarrow> nat \<Rightarrow> bool" where
  "frame_at m m' P \<longleftrightarrow> tm_next m \<le> tm_next m' \<and> tm_size m' = tm_size m \<and> tm_attrs m \<subseteq>\<^sub>m tm_attrs m' \<and>
     (\<forall>q n. tm_nodes m q = Some n \<longrightarrow> (\<exists>n'. tm_nodes m' q = Some n' \<and>
        (if q = P then rn_name n' = rn_name n \<and> rn_hash n' = rn_hash n \<and> rn_parent n' = rn_parent n \<and>
                       rn_sibling n' = rn_sibling n
         else n' = n \<or> rn_parent n = Some P \<and> node_core n' = node_core n)))"

lemma frame_at_self:
  "frame_at m m' P \<Longrightarrow> tm_nodes m P = Some n \<Longrightarrow>
   \<exists>n'. tm_nodes m' P = Some n' \<and> rn_name n' = rn_name n \<and> rn_hash n' = rn_hash n \<and>
     rn_parent n' = rn_parent n \<and> rn_sibling n' = rn_sibling n"
  unfolding frame_at_def by fastforce

lemma frame_refl: "frame_at m m P"
  by (auto simp: frame_at_def)

lemma frame_trans:
  assumes "frame_at m m1 P" "frame_at m1 m2 P"
  shows "frame_at m m2 P"
  unfolding frame_at_def
proof (intro conjI allI impI)
  show "tm_next m \<le> tm_next m2" "tm_size m2 = tm_size m"
    using assms by (simp_all add: frame_at_def)
  show "tm_attrs m \<subseteq>\<^sub>m tm_attrs m2"
    using assms map_le_trans by (fastforce simp: frame_at_def)
next
  fix q n assume "tm_nodes m q = Some n"
  with assms(1) obtain n1 where n1: "tm_nodes m1 q = Some n1"
    "if q = P then rn_name n1 = rn_name n \<and> rn_hash n1 = rn_hash n \<and> rn_parent n1 = rn_parent n \<and>
        rn_sibling n1 = rn_sibling n else n1 = n \<or> rn_parent n = Some P \<and> node_core n1 = node_core n"
    unfolding frame_at_def by blast
  with assms(2) obtain n2 where "tm_nodes m2 q = Some n2"
    "if q = P then rn_name n2 = rn_name n1 \<and> rn_hash n2 = rn_hash n1 \<and> rn_parent n2 = rn_parent n1 \<and>
        rn_sibling n2 = rn_sibling n1 else n2 = n1 \<or> rn_parent n1 = Some P \<and> node_core n2 = node_core n1"
    unfolding frame_at_def by blast
  with n1 show "\<exists>n'. tm_nodes m2 q = Some n' \<and>
      (if q = P then rn_name n' = rn_name n \<and> rn_hash n' = rn_hash n \<and> rn_parent n' = rn_parent n \<and>
          rn_sibling n' = rn_sibling n else n' = n \<or> rn_parent n = Some P \<and> node_core n' = node_core n)"
    by (cases "q = P") (auto simp: node_core_def)
qed

lemma attrs_repr_mono:
  "attrs_repr al b m p avs \<Longrightarrow> tm_attrs m \<subseteq>\<^sub>m tm_attrs m' \<Longrightarrow> attrs_repr al b m' p avs"
proof (induction avs arbitrary: p)
  case (Cons av avs)
  then show ?case by (cases av) (fastforce simp: map_le_def dom_def)
qed simp

lemma sib_chain_eq:
  "sib_chain m p cs \<Longrightarrow> (\<And>c n. c \<in> set cs \<Longrightarrow> tm_nodes m c = Some n \<Longrightarrow>
     \<exists>n'. tm_nodes m' c = Some n' \<and> rn_sibling n' = rn_sibling n) \<Longrightarrow> sib_chain m' p cs"
  by (induction cs arbitrary: p) fastforce+

lemma node_repr_parent:
  "node_repr al b m par p t \<Longrightarrow> \<exists>n. tm_nodes m p = Some n \<and> rn_parent n = par"
  by (induction rule: node_repr.cases) auto

text \<open>Complete subtrees above \<^verbatim>\<open>P\<close> survive additions below \<^verbatim>\<open>P\<close>.\<close>

lemma node_repr_frame:
  assumes "node_repr al b m par p t" "P < p" "mem_wf m" "frame_at m m' P"
  shows "node_repr al b m' par p t"
  using assms(1,2)
proof (induction rule: node_repr.induct)
  case (node_reprI p n nm par its cs)
  from assms(4) node_reprI.hyps(1) obtain n' where n': "tm_nodes m' p = Some n'"
    "if p = P then rn_name n' = rn_name n \<and> rn_hash n' = rn_hash n \<and> rn_parent n' = rn_parent n \<and>
        rn_sibling n' = rn_sibling n else n' = n \<or> rn_parent n = Some P \<and> node_core n' = node_core n"
    unfolding frame_at_def by blast
  with node_reprI.prems have core: "node_core n' = node_core n" by auto
  have child: "\<exists>n. tm_nodes m c = Some n \<and> rn_parent n = Some p \<and> P < c"
    if c_in: "c \<in> set cs" for c
  proof -
    obtain t where "node_repr al b m (Some p) c t"
      using c_in node_reprI.IH by (auto simp: list_all2_conv_all_nth in_set_conv_nth)
    then obtain n where "tm_nodes m c = Some n" "rn_parent n = Some p" using node_repr_parent by blast
    moreover from this have "p < c" using assms(3) by (simp add: mem_wf_def)
    ultimately show ?thesis using node_reprI.prems by auto
  qed
  have "sib_chain m' (rn_child n) cs"
  proof (rule sib_chain_eq [OF node_reprI.hyps(6)])
    fix c nc assume "c \<in> set cs" "tm_nodes m c = Some nc"
    with child [OF this(1)] assms(4) node_reprI.prems show
      "\<exists>n'. tm_nodes m' c = Some n' \<and> rn_sibling n' = rn_sibling nc"
      unfolding frame_at_def by (metis less_irrefl option.inject)
  qed
  moreover have "list_all2 (node_repr al b m' (Some p)) cs (filter is_node its)"
    by (rule list.rel_mono_strong [OF node_reprI.IH]) (use child in blast)
  moreover have "attrs_repr al b m' (rn_attrData n) (rev (attrs_of its))"
    using attrs_repr_mono [OF node_reprI.hyps(5)] assms(4) by (simp add: frame_at_def)
  ultimately show ?case
    using node_reprI.hyps(2-4) core
    by (intro node_repr.intros [OF n'(1)]) (simp_all add: node_core_def)
qed

section \<open>The filling pass\<close>

text \<open>The node \<^verbatim>\<open>P\<close> represents the items handled so far.\<close>

definition open_repr :: "bool \<Rightarrow> u8 list \<Rightarrow> tree_mem \<Rightarrow> nat \<Rightarrow> hcs_item list \<Rightarrow> bool" where
  "open_repr al b m P its \<longleftrightarrow>
     (\<exists>n cs. tm_nodes m P = Some n \<and> attrs_repr al b m (rn_attrData n) (rev (attrs_of its)) \<and>
        sib_chain m (rn_child n) cs \<and> sorted_wrt (<) cs \<and>
        list_all2 (node_repr al b m (Some P)) cs (filter is_node its))"

lemma children_facts:
  assumes "list_all2 (node_repr al b m (Some P)) cs ts" "mem_wf m" "c \<in> set cs"
  shows "\<exists>n. tm_nodes m c = Some n \<and> rn_parent n = Some P" "P < c" "c < tm_next m"
proof -
  obtain t where "node_repr al b m (Some P) c t"
    using assms(1,3) by (auto simp: list_all2_conv_all_nth in_set_conv_nth)
  then obtain n where n: "tm_nodes m c = Some n" "rn_parent n = Some P" using node_repr_parent by blast
  then show "\<exists>n. tm_nodes m c = Some n \<and> rn_parent n = Some P" by blast
  from n assms(2) show "P < c" "c < tm_next m" by (auto simp: mem_wf_def)
qed

lemma children_frame:
  assumes "list_all2 (node_repr al b m (Some P)) cs ts" "mem_wf m" "frame_at m m' P"
  shows "list_all2 (node_repr al b m' (Some P)) cs ts"
proof (rule list.rel_mono_strong [OF assms(1)])
  fix c t assume "c \<in> set cs" "node_repr al b m (Some P) c t"
  then show "node_repr al b m' (Some P) c t"
    using node_repr_frame [OF _ children_facts(2) [OF assms(1,2)] assms(2,3)] by blast
qed

lemma AddAttr_step:
  assumes "open_repr al b m P its" "mem_wf m" "tm_next m + SIZEOF_ATTR \<le> tm_size m"
    and "stands b off (enc_item al (HAttr nm v))" "wf_cstr nm"
  shows "\<exists>m'. AddAttrInNode al b off (Some P) m = Some (True, m') \<and> mem_wf m' \<and> frame_at m m' P \<and>
    tm_next m' = tm_next m + SIZEOF_ATTR \<and> open_repr al b m' P (its @ [HAttr nm v])"
proof -
  obtain n cs where n: "tm_nodes m P = Some n" "attrs_repr al b m (rn_attrData n) (rev (attrs_of its))"
    "sib_chain m (rn_child n) cs" "sorted_wrt (<) cs" "list_all2 (node_repr al b m (Some P)) cs (filter is_node its)"
    using assms(1) unfolding open_repr_def by blast
  let ?a = "tm_next m" and ?s = "hcs_string_size al (length nm)"
  let ?attr = "\<lparr>ra_name = off + HCS_PREFIX_LENGTH al, ra_value = off + HCS_PREFIX_LENGTH al + ?s,
    ra_next = rn_attrData n\<rparr>"
  let ?m = "m\<lparr>tm_next := ?a + SIZEOF_ATTR, tm_nodes := (tm_nodes m)(P \<mapsto> n\<lparr>rn_attrData := Some ?a\<rparr>),
    tm_attrs := (tm_attrs m)(?a \<mapsto> ?attr)\<rparr>"
  from assms(4) have st: "stands b (off + HCS_PREFIX_LENGTH al) (enc_string al nm)"
    "stands b (off + HCS_PREFIX_LENGTH al + ?s) (enc_value al v)"
    by (simp_all add: stands_append enc_item.simps)
  have run: "AddAttrInNode al b off (Some P) m = Some (True, ?m)"
    using n(1) assms(3) stands_string [OF st(1) assms(5)]
    by (simp add: AddAttrInNode_def set_node_def Let_def)
  have fresh: "tm_attrs m ?a = None"
    using assms(2) by (auto simp: mem_wf_def intro: ccontr)
  then have sub: "tm_attrs m \<subseteq>\<^sub>m (tm_attrs m)(?a \<mapsto> ?attr)"
    by (simp add: map_le_def dom_def)
  then have fr: "frame_at m ?m P"
    using n(1) by (simp add: frame_at_def)
  have wf: "mem_wf ?m"
    using assms(2) n(1) unfolding mem_wf_def by (auto split: if_splits) (metis less_SucI add.commute trans_less_add1)+
  have "attrs_repr al b ?m (Some ?a) (rev (attrs_of (its @ [HAttr nm v])))"
    using st attrs_repr_mono [OF n(2), of ?m] sub by simp
  moreover have "sib_chain ?m (rn_child n) cs"
    by (rule sib_chain_eq [OF n(3)]) (use n(1) in auto)
  moreover have "list_all2 (node_repr al b ?m (Some P)) cs (filter is_node (its @ [HAttr nm v]))"
    using children_frame [OF n(5) assms(2) fr] by (simp add: is_node_def)
  ultimately have "open_repr al b ?m P (its @ [HAttr nm v])"
    unfolding open_repr_def using n(4)
    by (intro exI [of _ "n\<lparr>rn_attrData := Some ?a\<rparr>"] exI [of _ cs]) simp
  then show ?thesis using run wf fr by (intro exI [of _ ?m]) simp
qed

lemma last_sibling_chain:
  "sib_chain m (Some c) (c # cs) \<Longrightarrow> last_sibling m c = Some (last (c # cs))"
proof (induction cs arbitrary: c)
  case Nil
  then show ?case by (subst last_sibling.simps) auto
next
  case (Cons d cs)
  then obtain n where n: "tm_nodes m c = Some n" "rn_sibling n = Some d" "sib_chain m (Some d) (d # cs)"
    by auto
  from Cons.IH [OF n(3)] n(1,2) show ?case by (subst last_sibling.simps) simp
qed

text \<open>A new cell at the end of a chain.\<close>

lemma sib_chain_snoc:
  assumes "sib_chain m p cs" "cs \<noteq> []" "sorted_wrt (<) cs" "\<forall>x \<in> set cs. x < c"
    and "tm_nodes m (last cs) = Some nl"
    and "\<And>x. x \<in> set cs \<Longrightarrow> x \<noteq> last cs \<Longrightarrow> tm_nodes m' x = tm_nodes m x"
    and "tm_nodes m' (last cs) = Some (nl\<lparr>rn_sibling := Some c\<rparr>)"
    and "tm_nodes m' c = Some nc" "rn_sibling nc = None"
  shows "sib_chain m' p (cs @ [c])"
  using assms
proof (induction cs arbitrary: p)
  case (Cons x cs)
  show ?case
  proof (cases "cs = []")
    case True
    then show ?thesis using Cons.prems by simp
  next
    case False
    then have "last cs \<in> set cs" by simp
    with Cons.prems(3) have ne: "x \<noteq> last cs" by auto
    from Cons.prems(1) obtain n where n: "p = Some x" "tm_nodes m x = Some n" "sib_chain m (rn_sibling n) cs"
      by auto
    have "sib_chain m' (rn_sibling n) (cs @ [c])"
      by (rule Cons.IH [OF n(3)]) (use Cons.prems False in auto)
    moreover have "tm_nodes m' x = Some n" using Cons.prems(6) [of x] ne False n(2) by simp
    ultimately show ?thesis using n(1) by simp
  qed
qed simp

text \<open>
  Linking a new node below \<^verbatim>\<open>P\<close>: it becomes the last child, and is itself the only
  thing that is not complete yet.
\<close>

definition new_node :: "bool \<Rightarrow> nat \<Rightarrow> nat option \<Rightarrow> res_node" where
  "new_node al off par =
     \<lparr>rn_name = off + HCS_PREFIX_LENGTH al, rn_hash = word_of_nat off + 20, rn_attrData = None,
      rn_parent = par, rn_child = None, rn_sibling = None\<rparr>"

lemma CreateTreeNode_step:
  assumes "open_repr al b m P its" "mem_wf m" "tm_next m + SIZEOF_NODE \<le> tm_size m"
  shows "\<exists>m' n cs. CreateTreeNode al (int off) (Some P) m = Some (tm_next m, m') \<and> mem_wf m' \<and>
    frame_at m m' P \<and> tm_next m' = tm_next m + SIZEOF_NODE \<and>
    tm_nodes m' (tm_next m) = Some (new_node al off (Some P)) \<and>
    tm_nodes m' P = Some n \<and> attrs_repr al b m' (rn_attrData n) (rev (attrs_of its)) \<and>
    sib_chain m' (rn_child n) (cs @ [tm_next m]) \<and> sorted_wrt (<) (cs @ [tm_next m]) \<and>
    list_all2 (node_repr al b m (Some P)) cs (filter is_node its)"
proof -
  obtain n cs where n: "tm_nodes m P = Some n" "attrs_repr al b m (rn_attrData n) (rev (attrs_of its))"
    "sib_chain m (rn_child n) cs" "sorted_wrt (<) cs" "list_all2 (node_repr al b m (Some P)) cs (filter is_node its)"
    using assms(1) unfolding open_repr_def by blast
  let ?c = "tm_next m" and ?new = "new_node al off (Some P)"
  let ?m1 = "m\<lparr>tm_next := ?c + SIZEOF_NODE, tm_nodes := (tm_nodes m)(?c \<mapsto> ?new)\<rparr>"
  have Pc: "P < ?c" using assms(2) n(1) by (simp add: mem_wf_def)
  have cs: "\<forall>x \<in> set cs. x < ?c \<and> x \<noteq> P \<and> (\<exists>nx. tm_nodes m x = Some nx \<and> rn_parent nx = Some P)"
    using children_facts [OF n(5) assms(2)] by blast
  have fresh: "tm_nodes m ?c = None" using assms(2) by (auto simp: mem_wf_def intro: ccontr)
  have unfold_create: "CreateTreeNode al (int off) (Some P) m =
      (case rn_child n of
         None \<Rightarrow> do { m2 \<leftarrow> set_node ?m1 P (\<lambda>n. n\<lparr>rn_child := Some ?c\<rparr>); Some (?c, m2) }
       | Some c \<Rightarrow> do { cur \<leftarrow> last_sibling ?m1 c;
                         m2 \<leftarrow> set_node ?m1 cur (\<lambda>n. n\<lparr>rn_sibling := Some ?c\<rparr>); Some (?c, m2) })"
    unfolding new_node_def using assms(3) n(1) Pc by (simp add: CreateTreeNode_def Let_def)
  have sorted: "sorted_wrt (<) (cs @ [?c])"
    using n(4) cs by (simp add: sorted_wrt_append)
  show ?thesis
  proof (cases "cs = []")
    case True
    let ?m2 = "m\<lparr>tm_next := ?c + SIZEOF_NODE, tm_nodes := (tm_nodes m)(?c \<mapsto> ?new, P \<mapsto> n\<lparr>rn_child := Some ?c\<rparr>)\<rparr>"
    have "rn_child n = None" using n(3) True by simp
    then have run: "CreateTreeNode al (int off) (Some P) m = Some (?c, ?m2)"
      unfolding unfold_create using n(1) Pc by (simp add: set_node_def)
    have fr: "frame_at m ?m2 P" using n(1) fresh by (auto simp: frame_at_def)
    have wf: "mem_wf ?m2"
      using assms(2) n(1) Pc unfolding mem_wf_def new_node_def by (auto split: if_splits) (metis trans_less_add1)+
    have at: "attrs_repr al b ?m2 (rn_attrData n) (rev (attrs_of its))"
      using attrs_repr_mono [OF n(2), of ?m2] by simp
    have ch: "sib_chain ?m2 (Some ?c) (cs @ [?c])"
      using True Pc by (simp add: new_node_def)
    show ?thesis
      by (intro exI [of _ ?m2] exI [of _ "n\<lparr>rn_child := Some ?c\<rparr>"] exI [of _ cs])
        (use run fr wf at ch sorted n(5) Pc in simp)
  next
    case False
    let ?l = "last cs"
    obtain nl where nl: "tm_nodes m ?l = Some nl" "rn_parent nl = Some P" "?l < ?c" "?l \<noteq> P"
      using cs False last_in_set by blast
    let ?m2 = "m\<lparr>tm_next := ?c + SIZEOF_NODE, tm_nodes := (tm_nodes m)(?c \<mapsto> ?new, ?l \<mapsto> nl\<lparr>rn_sibling := Some ?c\<rparr>)\<rparr>"
    obtain c1 cs1 where c1: "cs = c1 # cs1" using False by (cases cs) auto
    then have ch1: "rn_child n = Some c1" using n(3) by simp
    have "sib_chain ?m1 (Some c1) (c1 # cs1)"
      by (rule sib_chain_eq [of m]) (use n(3) c1 ch1 cs in auto)
    then have "last_sibling ?m1 c1 = Some ?l" using last_sibling_chain c1 by blast
    then have run: "CreateTreeNode al (int off) (Some P) m = Some (?c, ?m2)"
      unfolding unfold_create ch1 using nl by (simp add: set_node_def)
    have fr: "frame_at m ?m2 P"
      using n(1) fresh nl by (auto simp: frame_at_def node_core_def)
    have wf: "mem_wf ?m2"
      using assms(2) nl Pc unfolding mem_wf_def new_node_def by (auto split: if_splits) (metis trans_less_add1)+
    have at: "attrs_repr al b ?m2 (rn_attrData n) (rev (attrs_of its))"
      using attrs_repr_mono [OF n(2), of ?m2] by simp
    have ch: "sib_chain ?m2 (rn_child n) (cs @ [?c])"
      by (rule sib_chain_snoc [OF n(3) False n(4) _ nl(1), where nc = ?new])
        (use cs nl in \<open>auto simp: new_node_def\<close>)
    show ?thesis
      by (intro exI [of _ ?m2] exI [of _ n] exI [of _ cs])
        (use run fr wf at ch sorted n(1,5) Pc nl in simp)
  qed
qed

text \<open>
  The stack while the node \<^verbatim>\<open>P\<close> at layer \<^verbatim>\<open>L\<close> is open up to the offset
  \<^verbatim>\<open>e\<close>: the entries above belong to nodes that have ended.
\<close>

definition open_ctx :: "(nat option \<times> u32) list \<Rightarrow> int \<Rightarrow> nat \<Rightarrow> nat \<Rightarrow> nat \<Rightarrow> nat \<Rightarrow> bool" where
  "open_ctx stack layer L P e off \<longleftrightarrow> length stack = TREE_STACK_MAX \<and> 1 \<le> L \<and> int L \<le> layer \<and>
     layer \<le> 63 \<and> stack ! L = (Some P, word_of_nat e) \<and> e < 2 ^ 31 \<and>
     (\<forall>k. L < k \<and> int k \<le> layer \<longrightarrow> unat (snd (stack ! k)) \<le> off)"

lemma parent_layer_found:
  assumes "L \<le> n" "1 \<le> L" "snd (stack ! L) \<ge> lim" "\<forall>k. L < k \<and> k \<le> n \<longrightarrow> \<not> snd (stack ! k) \<ge> lim"
  shows "parent_layer stack lim n = Some L"
  using assms
proof (induction n)
  case (Suc n)
  then show ?case by (cases "L = Suc n") auto
qed simp

lemma GetParentNode_open:
  assumes "open_ctx stack layer L P e off" "0 < k" "off + k \<le> e"
  shows "GetParentNode (int off) stack layer (int k) = (Some P, int L)"
proof -
  let ?lim = "word_of_int (int k + int off) :: u32"
  have "?lim = word_of_nat (off + k)" by (simp add: add.commute)
  moreover have "off + k < 2 ^ 32" "e < 2 ^ 32" using assms by (simp_all add: open_ctx_def)
  ultimately have u: "unat ?lim = off + k" and ue: "unat (word_of_nat e :: u32) = e"
    by (simp_all only: unat_of_nat) (simp_all add: take_bit_eq_mod)
  have "parent_layer stack ?lim (nat layer) = Some L"
    using assms u ue by (intro parent_layer_found)
      (auto simp: open_ctx_def word_le_nat_alt nat_le_iff le_nat_iff)
  then show ?thesis using assms by (simp add: GetParentNode_def open_ctx_def)
qed

text \<open>Moving on within the same node, and opening a child.\<close>

lemma open_ctx_mono:
  "open_ctx stack layer L P e off \<Longrightarrow> off \<le> off' \<Longrightarrow> open_ctx stack (int L) L P e off'"
  by (auto simp: open_ctx_def)

lemma open_ctx_child:
  assumes "open_ctx stack layer L P e off" "L < 63" "e' < 2 ^ 31"
  shows "open_ctx (stack[Suc L := (Some c, word_of_nat e')]) (int (Suc L)) (Suc L) c e' off'"
  using assms by (auto simp: open_ctx_def)

text \<open>What handling items below an open node achieves.\<close>

definition filled ::
  "bool \<Rightarrow> u8 list \<Rightarrow> gen_state \<Rightarrow> nat \<Rightarrow> nat \<Rightarrow> nat \<Rightarrow> nat \<Rightarrow> hcs_item list \<Rightarrow> nat \<Rightarrow> gen_state \<Rightarrow> bool" where
  "filled al b st L P e off' its mm st' \<longleftrightarrow>
     (\<exists>m m'. gs_mem st = Some m \<and> gs_mem st' = Some m' \<and>
        open_ctx (gs_stack st') (gs_layer st') L P e off' \<and>
        (\<forall>k \<le> L. gs_stack st' ! k = gs_stack st ! k) \<and> mem_wf m' \<and> frame_at m m' P \<and>
        tm_next m' = tm_next m + mm \<and> open_repr al b m' P its)"

definition fillable ::
  "bool \<Rightarrow> u8 list \<Rightarrow> gen_state \<Rightarrow> nat \<Rightarrow> nat \<Rightarrow> nat \<Rightarrow> nat \<Rightarrow> hcs_item list \<Rightarrow> nat \<Rightarrow> bool" where
  "fillable al b st L P e off its mm \<longleftrightarrow>
     (\<exists>m. gs_mem st = Some m \<and> open_ctx (gs_stack st) (gs_layer st) L P e off \<and> mem_wf m \<and>
        open_repr al b m P its \<and> tm_next m + mm \<le> tm_size m)"

lemma fill_attr:
  assumes "stands b off (enc_item al (HAttr nm v))" "item_ok (HAttr nm v)"
    and "int (off + length (enc_item al (HAttr nm v))) \<le> len"
    and "fillable al b st L P e off its SIZEOF_ATTR" "off + length (enc_item al (HAttr nm v)) \<le> e"
  shows "\<exists>st'. gen_loop al b len (int off) st =
      gen_loop al b len (int (off + length (enc_item al (HAttr nm v)))) st' \<and>
    filled al b st L P e (off + length (enc_item al (HAttr nm v))) (its @ [HAttr nm v]) SIZEOF_ATTR st'"
proof -
  let ?k = "length (enc_item al (HAttr nm v))"
  obtain m where m: "gs_mem st = Some m" "open_ctx (gs_stack st) (gs_layer st) L P e off" "mem_wf m"
    "open_repr al b m P its" "tm_next m + SIZEOF_ATTR \<le> tm_size m"
    using assms(4) unfolding fillable_def by blast
  have k: "0 < ?k" by (rule enc_item_pos)
  have wf: "wf_cstr nm" using assms(2) by simp
  from AddAttr_step [OF m(4,3,5) assms(1) wf] obtain m' where m':
    "AddAttrInNode al b off (Some P) m = Some (True, m')" "mem_wf m'" "frame_at m m' P"
    "tm_next m' = tm_next m + SIZEOF_ATTR" "open_repr al b m' P (its @ [HAttr nm v])" by blast
  let ?st = "st\<lparr>gs_mem := Some m', gs_layer := int L\<rparr>"
  have "parse_attr al b (int off) (int ?k) st = Some (int ?k, ?st)"
    using m(1) m'(1) GetParentNode_open [OF m(2) k assms(5)] by (simp add: parse_attr_def)
  moreover have "int off < len" "0 < int ?k" using assms(3) k by linarith+
  ultimately have "gen_loop al b len (int off) st = gen_loop al b len (int (off + ?k)) ?st"
    using gen_loop_attr [OF assms(1,2)] by simp
  moreover have "filled al b st L P e (off + ?k) (its @ [HAttr nm v]) SIZEOF_ATTR ?st"
    using m(1) m' open_ctx_mono [OF m(2)] by (simp add: filled_def)
  ultimately show ?thesis by blast
qed

text \<open>Closing a child: the frame of the child and what it adds to its parent.\<close>

lemma frame_under_child:
  assumes "mem_wf m" "mem_wf m1" "frame_at m m1 P" "frame_at m1 m2 c" "c = tm_next m" "P < c"
  shows "frame_at m m2 P" "q < c \<Longrightarrow> tm_nodes m1 q = Some n \<Longrightarrow> tm_nodes m2 q = Some n"
proof -
  have same: "tm_nodes m2 q = Some n" if "q < c" "tm_nodes m1 q = Some n" for q n
  proof -
    have "rn_parent n \<noteq> Some c" using assms(2) that unfolding mem_wf_def by (meson less_asym)
    then show ?thesis using assms(4) that unfolding frame_at_def by fastforce
  qed
  then show "q < c \<Longrightarrow> tm_nodes m1 q = Some n \<Longrightarrow> tm_nodes m2 q = Some n" .
  have "tm_attrs m \<subseteq>\<^sub>m tm_attrs m2"
    using assms(3,4) map_le_trans unfolding frame_at_def by blast
  moreover have "\<exists>n'. tm_nodes m2 q = Some n' \<and>
        (if q = P then rn_name n' = rn_name n \<and> rn_hash n' = rn_hash n \<and> rn_parent n' = rn_parent n \<and>
                       rn_sibling n' = rn_sibling n
         else n' = n \<or> rn_parent n = Some P \<and> node_core n' = node_core n)"
    if q: "tm_nodes m q = Some n" for q n
  proof -
    have "q < c" using assms(1,5) q by (simp add: mem_wf_def)
    then show ?thesis using assms(3) q same unfolding frame_at_def by meson
  qed
  ultimately show "frame_at m m2 P"
    using assms(3,4) by (simp add: frame_at_def)
qed

lemma close_child:
  assumes "mem_wf m" "mem_wf m1" "frame_at m m1 P" "frame_at m1 m2 c" "c = tm_next m"
    and "tm_nodes m1 c = Some (new_node al off (Some P))" "tm_nodes m1 P = Some n"
    and "attrs_repr al b m1 (rn_attrData n) (rev (attrs_of its))"
    and "sib_chain m1 (rn_child n) (cs @ [c])" "sorted_wrt (<) (cs @ [c])"
    and "list_all2 (node_repr al b m (Some P)) cs (filter is_node its)"
    and "open_repr al b m2 c sub" "stands b (off + HCS_PREFIX_LENGTH al) (enc_string al nm)"
  shows "frame_at m m2 P" "open_repr al b m2 P (its @ [HNode nm sub])"
proof -
  have Pc: "P < c"
    using assms(2,6) by (simp add: mem_wf_def new_node_def)
  show fr: "frame_at m m2 P" by (rule frame_under_child(1) [OF assms(1-5) Pc])
  note same = frame_under_child(2) [OF assms(1-5) Pc]
  from assms(4,6) obtain nc where nc: "tm_nodes m2 c = Some nc" "rn_name nc = off + HCS_PREFIX_LENGTH al"
    "rn_hash nc = word_of_nat off + 20" "rn_parent nc = Some P" "rn_sibling nc = None"
    unfolding frame_at_def new_node_def by fastforce
  obtain ccs where sub: "attrs_repr al b m2 (rn_attrData nc) (rev (attrs_of sub))"
    "sib_chain m2 (rn_child nc) ccs" "list_all2 (node_repr al b m2 (Some c)) ccs (filter is_node sub)"
    using assms(12) nc(1) unfolding open_repr_def by auto
  have closed: "node_repr al b m2 (Some P) c (HNode nm sub)"
    by (rule node_repr.intros [OF nc(1) _ _ nc(4) sub]) (use nc assms(13) in \<open>simp_all add: algebra_simps\<close>)
  have "sib_chain m2 (rn_child n) (cs @ [c])"
  proof (rule sib_chain_eq [OF assms(9)])
    fix x nx assume "x \<in> set (cs @ [c])" "tm_nodes m1 x = Some nx"
    moreover from this(1) assms(10) have "x = c \<or> x < c" by (auto simp: sorted_wrt_append)
    ultimately show "\<exists>n'. tm_nodes m2 x = Some n' \<and> rn_sibling n' = rn_sibling nx"
      using same nc assms(6) by (auto simp: new_node_def)
  qed
  moreover have "attrs_repr al b m2 (rn_attrData n) (rev (attrs_of (its @ [HNode nm sub])))"
    using attrs_repr_mono [OF assms(8), of m2] assms(4) by (simp add: frame_at_def)
  moreover have "list_all2 (node_repr al b m2 (Some P)) (cs @ [c]) (filter is_node (its @ [HNode nm sub]))"
    using children_frame [OF assms(11,1) fr] closed by (simp add: is_node_def list_all2_appendI)
  ultimately show "open_repr al b m2 P (its @ [HNode nm sub])"
    unfolding open_repr_def using same [OF Pc assms(7)] assms(10) by blast
qed

text \<open>A list of items, from the single items.\<close>

lemma fill_items:
  assumes "\<And>it off st its0. it \<in> set its \<Longrightarrow> stands b off (enc_item al it) \<Longrightarrow> item_ok it \<Longrightarrow>
      int (off + length (enc_item al it)) \<le> len \<Longrightarrow> fillable al b st L P e off its0 (item_mem it) \<Longrightarrow>
      off + length (enc_item al it) \<le> e \<Longrightarrow> L + item_depth it \<le> 63 \<Longrightarrow>
      \<exists>st'. gen_loop al b len (int off) st = gen_loop al b len (int (off + length (enc_item al it))) st' \<and>
        filled al b st L P e (off + length (enc_item al it)) (its0 @ [it]) (item_mem it) st'"
    and "stands b off (enc_items al its)" "\<forall>it \<in> set its. item_ok it \<and> L + item_depth it \<le> 63"
    and "int (off + length (enc_items al its)) \<le> len"
    and "fillable al b st L P e off its0 (sum_list (map item_mem its))" "off + length (enc_items al its) \<le> e"
  shows "\<exists>st'. gen_loop al b len (int off) st = gen_loop al b len (int (off + length (enc_items al its))) st' \<and>
    filled al b st L P e (off + length (enc_items al its)) (its0 @ its) (sum_list (map item_mem its)) st'"
  using assms
proof (induction its arbitrary: off st its0)
  case Nil
  then obtain m where m: "gs_mem st = Some m" "open_ctx (gs_stack st) (gs_layer st) L P e off" "mem_wf m"
     "open_repr al b m P its0" unfolding fillable_def by blast
  then have "filled al b st L P e off its0 0 st"
    unfolding filled_def using frame_refl by auto
  then show ?case by auto
next
  case (Cons it its)
  let ?o = "off + length (enc_item al it)"
  from Cons.prems(2) have st: "stands b off (enc_item al it)" "stands b ?o (enc_items al its)"
    by (simp_all add: stands_append)
  have "fillable al b st L P e off its0 (item_mem it)"
    using Cons.prems(5) unfolding fillable_def by auto
  then obtain st1 where st1: "gen_loop al b len (int off) st = gen_loop al b len (int ?o) st1"
    "filled al b st L P e ?o (its0 @ [it]) (item_mem it) st1"
    using Cons.prems(1) [of it off st its0] Cons.prems(3,4,6) st(1) by auto
  obtain m m1 where m: "gs_mem st = Some m" "gs_mem st1 = Some m1"
    "open_ctx (gs_stack st1) (gs_layer st1) L P e ?o" "\<forall>k \<le> L. gs_stack st1 ! k = gs_stack st ! k"
    "mem_wf m1" "frame_at m m1 P" "tm_next m1 = tm_next m + item_mem it" "open_repr al b m1 P (its0 @ [it])"
    using st1(2) unfolding filled_def by blast
  have "tm_next m + sum_list (map item_mem (it # its)) \<le> tm_size m"
    using Cons.prems(5) m(1) unfolding fillable_def by auto
  moreover have "tm_size m1 = tm_size m" using m(6) by (simp add: frame_at_def)
  ultimately have "fillable al b st1 L P e ?o (its0 @ [it]) (sum_list (map item_mem its))"
    unfolding fillable_def using m by simp
  from Cons.IH [OF _ st(2) _ _ this] Cons.prems obtain st2 where
    st2: "gen_loop al b len (int ?o) st1 = gen_loop al b len (int (?o + length (enc_items al its))) st2"
    "filled al b st1 L P e (?o + length (enc_items al its)) ((its0 @ [it]) @ its) (sum_list (map item_mem its)) st2"
    by (auto simp: add.assoc)
  then have "filled al b st L P e (off + length (enc_items al (it # its))) (its0 @ it # its)
      (sum_list (map item_mem (it # its))) st2"
    using m unfolding filled_def by (auto simp: add.assoc intro: frame_trans)
  then show ?case using st1(1) st2(1) by (auto simp: add.assoc)
qed

lemma item_depth_child:
  "x \<in> set its \<Longrightarrow> Suc (item_depth x) \<le> item_depth (HNode nm its)"
  by (auto intro: Max_ge)

lemma children_depth:
  assumes "L + item_depth (HNode nm its) \<le> 63" "x \<in> set its"
  shows "Suc L + item_depth x \<le> 63"
  using assms(1) item_depth_child [OF assms(2), of nm] by linarith

lemma fill_item:
  assumes "stands b off (enc_item al it)" "item_ok it" "int (off + length (enc_item al it)) \<le> len"
    and "fillable al b st L P e off its0 (item_mem it)" "off + length (enc_item al it) \<le> e" "L + item_depth it \<le> 63"
  shows "\<exists>st'. gen_loop al b len (int off) st = gen_loop al b len (int (off + length (enc_item al it))) st' \<and>
    filled al b st L P e (off + length (enc_item al it)) (its0 @ [it]) (item_mem it) st'"
  using assms
proof (induction it arbitrary: off st L P e its0)
  case (HAttr nm v)
  then show ?case using fill_attr [OF HAttr.prems(1-3)] by simp
next
  case (HNode nm its)
  let ?h = "node_header al nm" and ?n = "length (enc_items al its)"
  let ?e = "off + ?h + ?n"
  obtain m where m: "gs_mem st = Some m" "open_ctx (gs_stack st) (gs_layer st) L P e off" "mem_wf m"
    "open_repr al b m P its0" "tm_next m + (SIZEOF_NODE + sum_list (map item_mem its)) \<le> tm_size m"
    using HNode.prems(4) unfolding fillable_def by auto
  have bounds: "?e \<le> e" "int ?e \<le> len" "e < 2 ^ 31" "0 < ?h" "L < 63"
    using HNode.prems(3,5,6) m(2) node_header_pos by (simp_all add: length_enc_node open_ctx_def add.assoc)
  let ?c = "tm_next m"
  from CreateTreeNode_step [OF m(4,3)] m(5) obtain m1 n cs where m1:
    "CreateTreeNode al (int off) (Some P) m = Some (?c, m1)" "mem_wf m1" "frame_at m m1 P"
    "tm_next m1 = ?c + SIZEOF_NODE" "tm_nodes m1 ?c = Some (new_node al off (Some P))"
    "tm_nodes m1 P = Some n" "attrs_repr al b m1 (rn_attrData n) (rev (attrs_of its0))"
    "sib_chain m1 (rn_child n) (cs @ [?c])" "sorted_wrt (<) (cs @ [?c])"
    "list_all2 (node_repr al b m (Some P)) cs (filter is_node its0)" by fastforce
  let ?stack = "(gs_stack st)[Suc L := (Some ?c, word_of_nat ?e)]"
  let ?st = "st\<lparr>gs_mem := Some m1, gs_stack := ?stack, gs_layer := int (Suc L)\<rparr>"
  note ns = node_stands [OF HNode.prems(1)]
  have v: "HcsByteCodeToUint32 b (off + (hcs_string_size al (length nm) + HCS_PREFIX_LENGTH al)) = Some (word_of_nat ?n)"
    using stands_rd [OF ns(3)] by (simp add: HcsByteCodeToUint32_def)
  have new_off: "word_of_nat ?n + word_of_int (int off + int ?h) = (word_of_nat ?e :: u32)"
    by (simp add: algebra_simps)
  have "wf_cstr nm" using HNode.prems(2) by simp
  then have "parse_node al b (int off) (int ?h) st = Some (int ?h, ?st)"
    using m(1) m1(1) GetParentNode_open [OF m(2) bounds(4)] bounds stands_string [OF ns(2)] v new_off
    by (simp add: parse_node_def UpdateTreeStack_def nat_add_distrib ac_simps)
  moreover have "int off < len" using bounds by linarith
  ultimately have step: "gen_loop al b len (int off) st = gen_loop al b len (int (off + ?h)) ?st"
    using gen_loop_node [OF HNode.prems(1) \<open>wf_cstr nm\<close>] bounds(4) by simp
  have open0: "open_repr al b m1 ?c []"
    using m1(5) by (simp add: open_repr_def new_node_def)
  have ctx: "open_ctx ?stack (int (Suc L)) (Suc L) ?c ?e (off + ?h)"
    by (rule open_ctx_child [OF m(2) bounds(5)]) (use bounds in linarith)
  have "tm_size m1 = tm_size m" using m1(3) by (simp add: frame_at_def)
  then have fillable: "fillable al b ?st (Suc L) ?c ?e (off + ?h) [] (sum_list (map item_mem its))"
    unfolding fillable_def using m1(2,4) m(5) open0 ctx by simp
  have depth: "\<forall>x \<in> set its. item_ok x \<and> Suc L + item_depth x \<le> 63"
  proof
    fix x assume "x \<in> set its"
    then show "item_ok x \<and> Suc L + item_depth x \<le> 63"
      using HNode.prems(2) children_depth [OF HNode.prems(6)] by simp
  qed
  from fill_items [OF HNode.IH ns(4) depth _ fillable] bounds obtain st2 where
    st2: "gen_loop al b len (int (off + ?h)) ?st = gen_loop al b len (int ?e) st2"
    "filled al b ?st (Suc L) ?c ?e ?e its (sum_list (map item_mem its)) st2"
    by auto
  obtain m2 where m2: "gs_mem st2 = Some m2" "open_ctx (gs_stack st2) (gs_layer st2) (Suc L) ?c ?e ?e"
    "\<forall>k \<le> Suc L. gs_stack st2 ! k = ?stack ! k" "mem_wf m2" "frame_at m1 m2 ?c"
    "tm_next m2 = tm_next m1 + sum_list (map item_mem its)" "open_repr al b m2 ?c its"
    using st2(2) unfolding filled_def by auto
  note closed = close_child [OF m(3) m1(2,3) m2(5) refl m1(5-10) m2(7) ns(2)]
  have top: "unat (snd (gs_stack st2 ! Suc L)) \<le> ?e"
  proof -
    have "gs_stack st2 ! Suc L = (Some ?c, word_of_nat ?e)"
      using m2(2) unfolding open_ctx_def by blast
    moreover have "unat (word_of_nat ?e :: u32) = ?e"
      by (rule unat_of_nat_u32) (use bounds in simp)
    ultimately show ?thesis by (simp only: snd_conv order_refl)
  qed
  have old: "\<forall>k \<le> L. gs_stack st2 ! k = gs_stack st ! k" using m2(3) by simp
  have "open_ctx (gs_stack st2) (gs_layer st2) L P e ?e"
    unfolding open_ctx_def
  proof (intro conjI allI impI)
    fix k assume "L < k \<and> int k \<le> gs_layer st2"
    then show "unat (snd (gs_stack st2 ! k)) \<le> ?e"
      using top m2(2) by (cases "k = Suc L") (auto simp: open_ctx_def)
  qed (use m(2) m2(2) old bounds in \<open>auto simp: open_ctx_def\<close>)
  then have "filled al b st L P e ?e (its0 @ [HNode nm its]) (item_mem (HNode nm its)) st2"
    unfolding filled_def using m(1) m2 m1(4) old closed by auto
  then show ?case using step st2(1) by (auto simp: length_enc_node add.assoc)
qed

section \<open>The whole tree\<close>

lemma gen_loop_done: "\<not> off < len \<Longrightarrow> gen_loop al b len off st = Some st"
  by (subst gen_loop.simps) simp

lemma fill_root:
  fixes nm its
  defines "t \<equiv> HNode nm its"
  assumes "stands b 0 (enc_item al t)" "item_ok t" "item_depth t \<le> 63" "length (enc_item al t) < 2 ^ 31"
    and "tm_next m = 0" "tm_size m = item_mem t" "tm_nodes m = Map.empty" "tm_attrs m = Map.empty"
  shows "\<exists>st' m'. gen_loop al b (int (length (enc_item al t))) 0
      \<lparr>gs_mem = Some m, gs_stack = replicate TREE_STACK_MAX (None, 0), gs_layer = 0\<rparr> = Some st' \<and>
    gs_mem st' = Some m' \<and> 0 < gs_layer st' \<and> fst (gs_stack st' ! 1) = Some 0 \<and>
    tree_repr al b m' 0 t \<and> mem_wf m' \<and> tm_next m' = item_mem t \<and> tm_size m' = item_mem t"
proof -
  let ?st0 = "\<lparr>gs_mem = Some m, gs_stack = replicate TREE_STACK_MAX (None, 0 :: u32), gs_layer = 0\<rparr>"
  let ?h = "node_header al nm" and ?e = "length (enc_item al t)" and ?n = "length (enc_items al its)"
  have e: "?e = ?h + ?n" by (simp only: t_def length_enc_node)
  note st = assms(2) [unfolded t_def]
  note ns = node_stands [OF st]
  have wf: "wf_cstr nm" "\<forall>x \<in> set its. item_ok x" using assms(3) by (simp_all add: t_def)
  let ?m1 = "m\<lparr>tm_next := SIZEOF_NODE, tm_nodes := [0 \<mapsto> new_node al 0 None]\<rparr>"
  let ?stack = "(replicate TREE_STACK_MAX (None, 0))[Suc 0 := (Some 0, word_of_nat ?e :: u32)]"
  let ?st1 = "\<lparr>gs_mem = Some ?m1, gs_stack = ?stack, gs_layer = 1\<rparr>"
  have v: "HcsByteCodeToUint32 b (hcs_string_size al (length nm) + HCS_PREFIX_LENGTH al) = Some (word_of_nat ?n)"
    using stands_rd [OF ns(3)] by (simp add: HcsByteCodeToUint32_def)
  have par: "GetParentNode 0 (replicate TREE_STACK_MAX (None, 0)) 0 (int ?h) = (None, 0)"
    by (simp add: GetParentNode_def)
  have create: "CreateTreeNode al 0 None m = Some (0, ?m1)"
    using assms(6-8) by (simp add: CreateTreeNode_def new_node_def t_def)
  have "word_of_nat ?n + word_of_int (int ?h) = (word_of_nat ?e :: u32)"
    by (simp add: e)
  then have "parse_node al b 0 (int ?h) ?st0 = Some (int ?h, ?st1)"
    using par create v stands_string [OF ns(2) wf(1)]
    by (simp add: parse_node_def UpdateTreeStack_def)
  moreover have "0 < int ?e" using node_header_pos [of al nm] by (simp add: e)
  ultimately have step: "gen_loop al b (int ?e) 0 ?st0 = gen_loop al b (int ?e) (int ?h) ?st1"
    using gen_loop_node [OF st wf(1), where len = "int ?e" and st = ?st0] node_header_pos [of al nm] by simp
  have "fillable al b ?st1 1 0 ?e ?h [] (sum_list (map item_mem its))"
    unfolding fillable_def using assms(5-9)
    by (simp add: open_ctx_def mem_wf_def open_repr_def new_node_def t_def)
  moreover have "\<forall>x \<in> set its. item_ok x \<and> 1 + item_depth x \<le> 63"
    using wf(2) children_depth [of 0 nm its] assms(4) unfolding t_def by simp
  ultimately have "\<exists>st'. gen_loop al b (int ?e) (int ?h) ?st1 = gen_loop al b (int ?e) (int (?h + ?n)) st' \<and>
      filled al b ?st1 1 0 ?e (?h + ?n) ([] @ its) (sum_list (map item_mem its)) st'"
    by (intro fill_items fill_item) (use ns(4) e in simp_all)
  then obtain st' where st': "gen_loop al b (int ?e) (int ?h) ?st1 = gen_loop al b (int ?e) (int ?e) st'"
    "filled al b ?st1 1 0 ?e ?e its (sum_list (map item_mem its)) st'"
    by (auto simp: e)
  then obtain m' where m': "gs_mem st' = Some m'" "open_ctx (gs_stack st') (gs_layer st') 1 0 ?e ?e"
    "mem_wf m'" "frame_at ?m1 m' 0" "tm_next m' = item_mem t" "open_repr al b m' 0 its"
    unfolding filled_def by (auto simp: t_def)
  from m'(4) obtain n0 where n0: "tm_nodes m' 0 = Some n0" "rn_name n0 = HCS_PREFIX_LENGTH al"
    "rn_hash n0 = 20" "rn_parent n0 = None" "rn_sibling n0 = None"
    using frame_at_self [OF m'(4), of "new_node al 0 None"] by (auto simp: new_node_def)
  obtain cs where cs: "attrs_repr al b m' (rn_attrData n0) (rev (attrs_of its))"
    "sib_chain m' (rn_child n0) cs" "list_all2 (node_repr al b m' (Some 0)) cs (filter is_node its)"
    using m'(6) n0(1) unfolding open_repr_def by auto
  have "node_repr al b m' None 0 t"
    unfolding t_def by (rule node_repr.intros [OF n0(1) _ _ n0(4) cs]) (use n0 ns(2) in simp_all)
  then have "tree_repr al b m' 0 t" using n0 by (simp add: tree_repr_def)
  then show ?thesis
    using step st'(1) m' assms(7) by (auto simp: gen_loop_done open_ctx_def frame_at_def)
qed

lemma node_total_length:
  assumes "stands b p (enc_item al (HNode nm its))" "wf_cstr nm" "length (enc_item al (HNode nm its)) < 2 ^ 31"
  shows "HcsGetNodeLength al b p = Some (int (length (enc_item al (HNode nm its))))"
proof -
  let ?n = "length (enc_items al its)"
  have n: "?n < 2 ^ 31" using assms(3) by (simp add: length_enc_node)
  have "unat (word_of_nat ?n :: u32) = ?n" by (rule unat_of_nat_u32) (use n in simp)
  moreover have "HcsByteCodeToUint32 b (p + (HCS_PREFIX_LENGTH al + hcs_string_size al (length nm))) = Some (word_of_nat ?n)"
    using stands_rd [OF node_stands(3) [OF assms(1)]] by (simp add: HcsByteCodeToUint32_def add.commute)
  ultimately have "HcsByteCodeToUint32 b (p + HCS_PREFIX_LENGTH al + hcs_string_size al (length nm)) = Some (word_of_nat ?n)"
    and "sint (word_of_nat ?n :: u32) = int ?n"
    using scast_int32(2) [of "word_of_nat ?n"] n by (simp_all add: add.assoc)
  then show ?thesis
    using node_length [OF assms(1,2)] stands_string [OF node_stands(2) [OF assms(1)] assms(2)] assms(3)
    by (simp add: HcsGetNodeLength_def length_enc_node)
qed

lemma stands_drop: "stands b (p + q) xs \<Longrightarrow> stands (drop p b) q xs"
  by (auto simp: stands_def add.commute)

lemma HcsDecompile_ok:
  fixes nm its
  defines "t \<equiv> HNode nm its"
  assumes "stands blob off (enc_item al t)" "item_ok t" "item_depth t \<le> 63" "length (enc_item al t) < 2 ^ 31"
  shows "\<exists>m. HcsDecompile (True, True, True) al blob off root0 = Some (True, Some m, Some 0) \<and>
    tree_repr al (drop off blob) m 0 t \<and> mem_wf m \<and> tm_next m = tm_size m"
proof -
  let ?b = "drop off blob" and ?e = "int (length (enc_item al t))"
  have st: "stands ?b 0 (enc_item al t)" using stands_drop [of blob off 0] assms(2) by simp
  have nl: "HcsGetNodeLength al blob off = Some ?e"
    using node_total_length [OF assms(2) [unfolded t_def]] assms(3,5) by (simp add: t_def)
  have "gen_loop al ?b ?e 0 \<lparr>gs_mem = None, gs_stack = replicate TREE_STACK_MAX (None, 0), gs_layer = 0\<rparr> =
      Some \<lparr>gs_mem = None, gs_stack = replicate TREE_STACK_MAX (None, 0), gs_layer = int (item_mem t)\<rparr>"
    using measure_item [OF st assms(3), of ?e] by (simp add: gen_loop_done)
  then have size: "GetHcsTreeSize True al ?b ?e = Some (int (item_mem t))"
    by (simp add: GetHcsTreeSize_def GenerateCfgTree_def)
  have pos: "0 < item_mem t" by (simp add: t_def)
  let ?m0 = "\<lparr>tm_size = item_mem t, tm_next = 0, tm_nodes = Map.empty, tm_attrs = Map.empty\<rparr>"
  obtain st' m where g: "gen_loop al ?b ?e 0
      \<lparr>gs_mem = Some ?m0, gs_stack = replicate TREE_STACK_MAX (None, 0), gs_layer = 0\<rparr> = Some st'"
    "gs_mem st' = Some m" "0 < gs_layer st'" "fst (gs_stack st' ! 1) = Some 0"
    "tree_repr al ?b m 0 t" "mem_wf m" "tm_next m = item_mem t" "tm_size m = item_mem t"
    using fill_root [of ?b al nm its ?m0] st assms(3-5) unfolding t_def by auto
  then have "GenerateCfgTree True al ?b ?e (Some ?m0) = Some (gs_layer st', Some m, Some (Some 0))"
    by (simp add: GenerateCfgTree_def)
  then have "HcsDecompile (True, True, True) al blob off root0 = Some (True, Some m, Some 0)"
    using nl size pos g(3) by (simp add: HcsDecompile_def)
  then show ?thesis using g by auto
qed

section \<open>Properties\<close>

text \<open>A blob as it is built in: the header and the root node. The sign of the size tells the alignment.\<close>

definition hbc_header :: "bool \<Rightarrow> u32 \<Rightarrow> u32 \<Rightarrow> u32 \<Rightarrow> nat \<Rightarrow> u8 list" where
  "hbc_header al major minor checkSum n =
     le_bytes 4 HBC_MAGIC_NUMBER @ le_bytes 4 major @ le_bytes 4 minor @ le_bytes 4 checkSum @
     le_bytes 4 (word_of_int (if al then - int n else int n) :: u32)"

lemma sint_of_int_u32:
  assumes "- (2 ^ 31) \<le> k" "k < 2 ^ 31"
  shows "sint (word_of_int k :: u32) = k"
  using assms by (simp add: signed_of_int signed_take_bit_int_eq_self)

lemma CheckHcsBlobLength_ok:
  assumes "10 \<le> n" "n < 2 ^ 31" "w = word_of_int (if al then - int n else int n)"
  shows "CheckHcsBlobLength False (word_of_nat (20 + n)) w = (al, True)"
proof -
  have s: "sint w = (if al then - int n else int n)"
    unfolding assms(3) using assms(2) by (intro sint_of_int_u32) auto
  have neg: "(sint w < 0) = al" using s assms(1) by simp
  have "scast w = (word_of_int (if al then - int n else int n) :: u64)"
    by (simp only: scast_eq s)
  then have "(if al then 20 - scast w else 20 + scast w) = (word_of_nat (20 + n) :: u64)"
    by simp
  then have len: "(if al then ucast (20 - scast w :: u64) else ucast (20 + scast w :: u64)) =
      (word_of_nat (20 + n) :: u32)"
    using ucast_of_nat_u64 [of "20 + n"] by (cases al) (simp_all only: if_True if_False)
  have "unat (word_of_nat (20 + n) :: u32) = 20 + n" by (rule unat_of_nat_u32) (use assms in simp)
  then have "\<not> word_of_nat (20 + n) < (word_of_nat (hcs_string_size False 4 + HCS_PREFIX_LENGTH False +
      HCS_DWORD_LENGTH + HBC_HEADER_LENGTH) :: u32)"
    using assms(1) by (simp add: word_less_nat_alt hcs_string_size_def HCS_PREFIX_LENGTH_def)
  then show ?thesis
    unfolding CheckHcsBlobLength_def Let_def neg len by simp
qed

text \<open>
  C10. Building the configuration tree. For a built-in blob that consists of a header and the
  encoding of a root node (in either alignment, within 10 MB, nested at most 63 deep), and with
  memory available, the first call of \<^verbatim>\<open>HcsGetRootNode\<close> returns a root below which
  the tree memory represents exactly the encoded tree (names, identifiers, parents, attributes
  with their values, children in order), and the block measured by the first pass is filled
  exactly by the second.
\<close>

theorem HcsGetRootNode_builds_tree:
  assumes "blob = hbc_header al major minor checkSum (length (enc_item al (HNode nm its))) @ enc_item al (HNode nm its)"
    and "item_ok (HNode nm its)" "item_depth (HNode nm its) \<le> 63"
    and "10 \<le> length (enc_item al (HNode nm its))" "length blob \<le> HBC_BLOB_MAX_LENGTH"
  shows "\<exists>m. HcsGetRootNode (Some (Some blob, word_of_nat (length blob))) (True, True, True)
      \<lparr>g_byteAlign = False, g_hcsTree = None, g_hcsTreeRoot = None\<rparr> =
      Some (Some 0, \<lparr>g_byteAlign = al, g_hcsTree = Some m, g_hcsTreeRoot = Some 0\<rparr>) \<and>
    tree_repr al (drop 20 blob) m 0 (HNode nm its) \<and> tm_next m = tm_size m"
proof -
  let ?t = "HNode nm its" and ?n = "length (enc_item al (HNode nm its))"
  define w :: u32 where "w = word_of_int (if al then - int ?n else int ?n)"
  have len: "length blob = 20 + ?n" by (simp add: assms(1) hbc_header_def)
  have n: "?n < 2 ^ 31" using len assms(5) by simp
  have "stands blob 0 blob" by (simp add: stands_def)
  then have st: "stands blob 0 (le_bytes 4 HBC_MAGIC_NUMBER)" "stands blob 16 (le_bytes 4 w)"
    "stands blob 20 (enc_item al ?t)"
    unfolding assms(1) hbc_header_def w_def by (simp_all add: stands_append)
  have u: "unat (word_of_nat (length blob) :: u32) = length blob"
    by (rule unat_of_nat_u32) (use n len in simp)
  have "HcsCheckBlobFormat False (Some blob) (word_of_nat (length blob)) =
      Some (CheckHcsBlobLength False (word_of_nat (20 + ?n)) w)"
    using stands_rd [OF st(1)] stands_rd [OF st(2)] u len assms(5)
    by (simp add: HcsCheckBlobFormat_def HcsByteCodeToUint32_def)
  then have chk: "HcsCheckBlobFormat False (Some blob) (word_of_nat (length blob)) = Some (al, True)"
    using CheckHcsBlobLength_ok [OF assms(4) n w_def] by simp
  from HcsDecompile_ok [OF st(3) assms(2,3) n, of None] obtain m where
    m: "HcsDecompile (True, True, True) al blob 20 None = Some (True, Some m, Some 0)"
    "tree_repr al (drop 20 blob) m 0 ?t" "tm_next m = tm_size m" by blast
  show ?thesis
    by (intro exI [of _ m]) (use chk m in \<open>simp add: HcsGetRootNode_def BuildHcsTree_def\<close>)
qed

theorem HcsGetRootNode_builds_tree_witness:
  "\<exists>m. tree_repr True (enc_item True (HNode ''root'' [HAttr ''id'' (HScalar (HWord 7)), HNode ''uart'' []])) m 0
     (HNode ''root'' [HAttr ''id'' (HScalar (HWord 7)), HNode ''uart'' []])"
proof -
  let ?its = "[HAttr ''id'' (HScalar (HWord 7)), HNode ''uart'' []]"
  have ok: "item_ok (HNode ''root'' ?its)" "item_depth (HNode ''root'' ?its) \<le> 63"
    by (simp_all add: wf_cstr_def)
  have len: "length (enc_item True (HNode ''root'' ?its)) = 48" by code_simp
  have "length (hbc_header True 0 0 0 48) = 20" by (simp add: hbc_header_def)
  then show ?thesis
    using HcsGetRootNode_builds_tree [OF refl ok, of True 0 0 0] len by auto
qed

end
