(* ===== verification/Hcs_Tree_If.thy ===== *)
theory Hcs_Tree_If
  imports Hcs_Tree_Gen
begin

text \<open>
  Queries on the configuration tree: utils/src/hcs_parser/hcs_tree_if.c. A node is a pointer
  into the tree memory \<^verbatim>\<open>m\<close>, strings and values are positions in the blob
  \<^verbatim>\<open>b\<close>. An output pointer is a flag (is it NULL?) and the value stored is part of
  the result; reading outside the blob or following a dangling pointer is undefined behaviour.
\<close>

section \<open>Attributes of a node\<close>

text \<open>\<^verbatim>\<open>strcmp(b + p, s) == 0\<close>: it stops at the first difference.\<close>

fun strcmp_at :: "u8 list \<Rightarrow> nat \<Rightarrow> cstr \<Rightarrow> bool option" where
  "strcmp_at b p [] = (if p < length b then Some (b ! p = 0) else UB)"
| "strcmp_at b p (c # cs) =
     (if p < length b then (if b ! p = byte_of_char c then strcmp_at b (Suc p) cs else Some False) else UB)"

partial_function (option) attr_find :: "u8 list \<Rightarrow> tree_mem \<Rightarrow> nat option \<Rightarrow> cstr \<Rightarrow> res_attr option option" where
  "attr_find b m p attrName =
     (case p of
        None \<Rightarrow> Some None
      | Some q \<Rightarrow>
          (case tm_attrs m q of
             None \<Rightarrow> UB
           | Some a \<Rightarrow>
               do { eq \<leftarrow> strcmp_at b (ra_name a) attrName;
                    if eq then Some (Some a) else attr_find b m (ra_next a) attrName }))"

definition GetAttrInNode ::
  "u8 list \<Rightarrow> tree_mem \<Rightarrow> nat option \<Rightarrow> cstr option \<Rightarrow> res_attr option option" where
  "GetAttrInNode b m node attrName =
     (case (node, attrName) of
        (Some p, Some s) \<Rightarrow> do { n \<leftarrow> tm_nodes m p; attr_find b m (rn_attrData n) s }
      | _ \<Rightarrow> Some None)"

type_synonym 'a swap = "bool \<Rightarrow> u8 list \<Rightarrow> nat \<Rightarrow> u32 \<Rightarrow> 'a option option"

definition HcsGetBool :: "bool \<Rightarrow> u8 list \<Rightarrow> tree_mem \<Rightarrow> nat option \<Rightarrow> cstr option \<Rightarrow> bool option" where
  "HcsGetBool al b m node attrName =
     do { attr \<leftarrow> GetAttrInNode b m node attrName;
          case attr of
            None \<Rightarrow> Some False
          | Some a \<Rightarrow>
              do { t \<leftarrow> HcsGetPrefix al b (ra_value a);
                   r \<leftarrow> HcsSwapToUint8 al b (ra_value a + HCS_PREFIX_LENGTH al) t;
                   Some (case r of None \<Rightarrow> False | Some v \<Rightarrow> v \<noteq> 0) } }"

text \<open>
  The macro \<^verbatim>\<open>RETURN_DEFAULT_VALUE\<close> in front of the body \<^verbatim>\<open>k\<close>:
  \<^verbatim>\<open>out\<close> says that the output pointer is not NULL; the result is the status and the
  value stored.
\<close>

definition with_attr ::
  "u8 list \<Rightarrow> tree_mem \<Rightarrow> nat option \<Rightarrow> cstr option \<Rightarrow> bool \<Rightarrow> 'a \<Rightarrow> (res_attr \<Rightarrow> (int \<times> 'a option) option) \<Rightarrow>
   (int \<times> 'a option) option" where
  "with_attr b m node attrName out def k =
     do { attr \<leftarrow> GetAttrInNode b m node attrName;
          case attr of
            None \<Rightarrow> Some (HDF_FAILURE, if out then Some def else None)
          | Some a \<Rightarrow> if \<not> out then Some (HDF_FAILURE, None) else k a }"

text \<open>The body shared by the four scalar getters, and by the four element getters below.\<close>

definition get_swapped :: "'a swap \<Rightarrow> bool \<Rightarrow> u8 list \<Rightarrow> nat \<Rightarrow> 'a \<Rightarrow> int \<Rightarrow> (int \<times> 'a option) option" where
  "get_swapped swap al b p def err =
     do { t \<leftarrow> HcsGetPrefix al b p;
          r \<leftarrow> swap al b (p + HCS_PREFIX_LENGTH al) t;
          Some (case r of None \<Rightarrow> (err, Some def) | Some v \<Rightarrow> (HDF_SUCCESS, Some v)) }"

definition HcsGetUint8 ::
  "bool \<Rightarrow> u8 list \<Rightarrow> tree_mem \<Rightarrow> nat option \<Rightarrow> cstr option \<Rightarrow> bool \<Rightarrow> u8 \<Rightarrow> (int \<times> u8 option) option" where
  "HcsGetUint8 al b m node attrName out def =
     with_attr b m node attrName out def (\<lambda>a. get_swapped HcsSwapToUint8 al b (ra_value a) def HDF_FAILURE)"

definition HcsGetUint16 ::
  "bool \<Rightarrow> u8 list \<Rightarrow> tree_mem \<Rightarrow> nat option \<Rightarrow> cstr option \<Rightarrow> bool \<Rightarrow> u16 \<Rightarrow> (int \<times> u16 option) option" where
  "HcsGetUint16 al b m node attrName out def =
     with_attr b m node attrName out def (\<lambda>a. get_swapped HcsSwapToUint16 al b (ra_value a) def HDF_FAILURE)"

definition HcsGetUint32 ::
  "bool \<Rightarrow> u8 list \<Rightarrow> tree_mem \<Rightarrow> nat option \<Rightarrow> cstr option \<Rightarrow> bool \<Rightarrow> u32 \<Rightarrow> (int \<times> u32 option) option" where
  "HcsGetUint32 al b m node attrName out def =
     with_attr b m node attrName out def (\<lambda>a. get_swapped HcsSwapToUint32 al b (ra_value a) def HDF_FAILURE)"

definition HcsGetUint64 ::
  "bool \<Rightarrow> u8 list \<Rightarrow> tree_mem \<Rightarrow> nat option \<Rightarrow> cstr option \<Rightarrow> bool \<Rightarrow> u64 \<Rightarrow> (int \<times> u64 option) option" where
  "HcsGetUint64 al b m node attrName out def =
     with_attr b m node attrName out def (\<lambda>a. get_swapped HcsSwapToUint64 al b (ra_value a) def HDF_FAILURE)"

section \<open>Elements of an array\<close>

fun elem_offset :: "bool \<Rightarrow> u8 list \<Rightarrow> nat \<Rightarrow> nat \<Rightarrow> nat \<Rightarrow> nat option option" where
  "elem_offset al b v offset 0 = Some (Some offset)"
| "elem_offset al b v offset (Suc n) =
     do { r \<leftarrow> HcsGetDataTypeOffset al b (v + offset);
          if r < 0 then Some None else elem_offset al b v (offset + nat r) n }"

definition GetArrayElem :: "bool \<Rightarrow> u8 list \<Rightarrow> res_attr \<Rightarrow> u32 \<Rightarrow> nat option option" where
  "GetArrayElem al b attr index =
     do { t \<leftarrow> HcsGetPrefix al b (ra_value attr);
          if t \<noteq> CONFIG_ARRAY then Some None
          else do { r \<leftarrow> HcsSwapToUint16 al b (ra_value attr + HCS_PREFIX_LENGTH al) CONFIG_WORD;
                    case r of
                      None \<Rightarrow> Some None
                    | Some count \<Rightarrow>
                        if unat index \<ge> unat count then Some None
                        else do { off \<leftarrow> elem_offset al b (ra_value attr)
                                    (HCS_WORD_LENGTH al + HCS_PREFIX_LENGTH al) (unat index);
                                  Some (map_option (\<lambda>x. ra_value attr + x) off) } } }"

definition get_array_elem ::
  "'a swap \<Rightarrow> bool \<Rightarrow> u8 list \<Rightarrow> tree_mem \<Rightarrow> nat option \<Rightarrow> cstr option \<Rightarrow> u32 \<Rightarrow> bool \<Rightarrow> 'a \<Rightarrow> int \<Rightarrow>
   (int \<times> 'a option) option" where
  "get_array_elem swap al b m node attrName index out def err =
     with_attr b m node attrName out def (\<lambda>a.
       do { e \<leftarrow> GetArrayElem al b a index;
            case e of
              None \<Rightarrow> Some (HDF_FAILURE, Some def)
            | Some p \<Rightarrow> get_swapped swap al b p def err })"

definition HcsGetUint8ArrayElem ::
  "bool \<Rightarrow> u8 list \<Rightarrow> tree_mem \<Rightarrow> nat option \<Rightarrow> cstr option \<Rightarrow> u32 \<Rightarrow> bool \<Rightarrow> u8 \<Rightarrow> (int \<times> u8 option) option" where
  "HcsGetUint8ArrayElem al b m node attrName index out def =
     get_array_elem HcsSwapToUint8 al b m node attrName index out def HDF_ERR_INVALID_OBJECT"

definition HcsGetUint16ArrayElem ::
  "bool \<Rightarrow> u8 list \<Rightarrow> tree_mem \<Rightarrow> nat option \<Rightarrow> cstr option \<Rightarrow> u32 \<Rightarrow> bool \<Rightarrow> u16 \<Rightarrow> (int \<times> u16 option) option" where
  "HcsGetUint16ArrayElem al b m node attrName index out def =
     get_array_elem HcsSwapToUint16 al b m node attrName index out def HDF_ERR_INVALID_OBJECT"

definition HcsGetUint32ArrayElem ::
  "bool \<Rightarrow> u8 list \<Rightarrow> tree_mem \<Rightarrow> nat option \<Rightarrow> cstr option \<Rightarrow> u32 \<Rightarrow> bool \<Rightarrow> u32 \<Rightarrow> (int \<times> u32 option) option" where
  "HcsGetUint32ArrayElem al b m node attrName index out def =
     get_array_elem HcsSwapToUint32 al b m node attrName index out def HDF_ERR_INVALID_OBJECT"

definition HcsGetUint64ArrayElem ::
  "bool \<Rightarrow> u8 list \<Rightarrow> tree_mem \<Rightarrow> nat option \<Rightarrow> cstr option \<Rightarrow> u32 \<Rightarrow> bool \<Rightarrow> u64 \<Rightarrow> (int \<times> u64 option) option" where
  "HcsGetUint64ArrayElem al b m node attrName index out def =
     get_array_elem HcsSwapToUint64 al b m node attrName index out def HDF_FAILURE"

text \<open>
  The loops of the array getters. The narrow ones remember
  \<^verbatim>\<open>HDF_ERR_INVALID_OBJECT\<close> and go on, the 64-bit one stops at the first error; in
  both cases the array as far as it was written is the second component.
\<close>

text \<open>A store past the end of the caller's array is undefined.\<close>

definition store_elem :: "'a list \<Rightarrow> nat \<Rightarrow> 'a option \<Rightarrow> 'a list option" where
  "store_elem vals i v =
     (case v of None \<Rightarrow> Some vals | Some x \<Rightarrow> if i < length vals then Some (vals[i := x]) else UB)"

fun array_loop ::
  "(u32 \<Rightarrow> (int \<times> 'a option) option) \<Rightarrow> nat \<Rightarrow> nat \<Rightarrow> int \<Rightarrow> 'a list \<Rightarrow> (int \<times> 'a list) option" where
  "array_loop elem i 0 ret vals = Some (ret, vals)"
| "array_loop elem i (Suc n) ret vals =
     do { (result, v) \<leftarrow> elem (word_of_nat i);
          vals' \<leftarrow> store_elem vals i v;
          if result = HDF_ERR_INVALID_OBJECT then array_loop elem (Suc i) n HDF_ERR_INVALID_OBJECT vals'
          else if result \<noteq> HDF_SUCCESS then Some (result, vals')
          else array_loop elem (Suc i) n ret vals' }"

definition HcsGetUint8Array ::
  "bool \<Rightarrow> u8 list \<Rightarrow> tree_mem \<Rightarrow> nat option \<Rightarrow> cstr option \<Rightarrow> u8 list option \<Rightarrow> u32 \<Rightarrow> u8 \<Rightarrow>
   (int \<times> u8 list option) option" where
  "HcsGetUint8Array al b m node attrName value len def =
     (case value of
        None \<Rightarrow> Some (HDF_FAILURE, None)
      | Some vals \<Rightarrow>
          if len = 0 then Some (HDF_FAILURE, Some vals)
          else map_option (apsnd Some)
            (array_loop (\<lambda>i. HcsGetUint8ArrayElem al b m node attrName i True def) 0 (unat len) HDF_SUCCESS vals))"

definition HcsGetUint16Array ::
  "bool \<Rightarrow> u8 list \<Rightarrow> tree_mem \<Rightarrow> nat option \<Rightarrow> cstr option \<Rightarrow> u16 list option \<Rightarrow> u32 \<Rightarrow> u16 \<Rightarrow>
   (int \<times> u16 list option) option" where
  "HcsGetUint16Array al b m node attrName value len def =
     (case value of
        None \<Rightarrow> Some (HDF_FAILURE, None)
      | Some vals \<Rightarrow>
          if len = 0 then Some (HDF_FAILURE, Some vals)
          else map_option (apsnd Some)
            (array_loop (\<lambda>i. HcsGetUint16ArrayElem al b m node attrName i True def) 0 (unat len) HDF_SUCCESS vals))"

definition HcsGetUint32Array ::
  "bool \<Rightarrow> u8 list \<Rightarrow> tree_mem \<Rightarrow> nat option \<Rightarrow> cstr option \<Rightarrow> u32 list option \<Rightarrow> u32 \<Rightarrow> u32 \<Rightarrow>
   (int \<times> u32 list option) option" where
  "HcsGetUint32Array al b m node attrName value len def =
     (case value of
        None \<Rightarrow> Some (HDF_FAILURE, None)
      | Some vals \<Rightarrow>
          if len = 0 then Some (HDF_FAILURE, Some vals)
          else map_option (apsnd Some)
            (array_loop (\<lambda>i. HcsGetUint32ArrayElem al b m node attrName i True def) 0 (unat len) HDF_SUCCESS vals))"

fun array_loop64 ::
  "(u32 \<Rightarrow> (int \<times> 'a option) option) \<Rightarrow> nat \<Rightarrow> nat \<Rightarrow> 'a list \<Rightarrow> (int \<times> 'a list) option" where
  "array_loop64 elem i 0 vals = Some (HDF_SUCCESS, vals)"
| "array_loop64 elem i (Suc n) vals =
     do { (result, v) \<leftarrow> elem (word_of_nat i);
          vals' \<leftarrow> store_elem vals i v;
          if result \<noteq> HDF_SUCCESS then Some (result, vals')
          else array_loop64 elem (Suc i) n vals' }"

definition HcsGetUint64Array ::
  "bool \<Rightarrow> u8 list \<Rightarrow> tree_mem \<Rightarrow> nat option \<Rightarrow> cstr option \<Rightarrow> u64 list option \<Rightarrow> u32 \<Rightarrow> u64 \<Rightarrow>
   (int \<times> u64 list option) option" where
  "HcsGetUint64Array al b m node attrName value len def =
     (case value of
        None \<Rightarrow> Some (HDF_FAILURE, None)
      | Some vals \<Rightarrow>
          if len = 0 then Some (HDF_FAILURE, Some vals)
          else map_option (apsnd Some)
            (array_loop64 (\<lambda>i. HcsGetUint64ArrayElem al b m node attrName i True def) 0 (unat len) vals))"

section \<open>Strings\<close>

text \<open>A string result is a position in the blob, or the caller's default pointer.\<close>

datatype str_ptr = InBlob nat | DefaultStr

definition HcsGetStringArrayElem ::
  "bool \<Rightarrow> u8 list \<Rightarrow> tree_mem \<Rightarrow> nat option \<Rightarrow> cstr option \<Rightarrow> u32 \<Rightarrow> bool \<Rightarrow> (int \<times> str_ptr option) option" where
  "HcsGetStringArrayElem al b m node attrName index out =
     with_attr b m node attrName out DefaultStr (\<lambda>a.
       do { e \<leftarrow> GetArrayElem al b a index;
            case e of
              None \<Rightarrow> Some (HDF_FAILURE, Some DefaultStr)
            | Some p \<Rightarrow>
                do { t \<leftarrow> HcsGetPrefix al b p;
                     Some (if t \<noteq> CONFIG_STRING then (HDF_FAILURE, Some DefaultStr)
                           else (HDF_SUCCESS, Some (InBlob (p + HCS_PREFIX_LENGTH al)))) } })"

definition HcsGetString ::
  "bool \<Rightarrow> u8 list \<Rightarrow> tree_mem \<Rightarrow> nat option \<Rightarrow> cstr option \<Rightarrow> bool \<Rightarrow> (int \<times> str_ptr option) option" where
  "HcsGetString al b m node attrName out =
     with_attr b m node attrName out DefaultStr (\<lambda>a.
       do { t \<leftarrow> HcsGetPrefix al b (ra_value a);
            Some (if t \<noteq> CONFIG_STRING then (HDF_FAILURE, Some DefaultStr)
                  else (HDF_SUCCESS, Some (InBlob (ra_value a + HCS_PREFIX_LENGTH al)))) })"

definition HcsGetElemNum :: "bool \<Rightarrow> u8 list \<Rightarrow> tree_mem \<Rightarrow> nat option \<Rightarrow> cstr option \<Rightarrow> int option" where
  "HcsGetElemNum al b m node attrName =
     do { attr \<leftarrow> GetAttrInNode b m node attrName;
          case attr of
            None \<Rightarrow> Some HDF_FAILURE
          | Some a \<Rightarrow>
              do { t \<leftarrow> HcsGetPrefix al b (ra_value a);
                   if t \<noteq> CONFIG_ARRAY then Some HDF_FAILURE
                   else do { r \<leftarrow> HcsSwapToUint16 al b (ra_value a + HCS_PREFIX_LENGTH al) CONFIG_WORD;
                             case r of None \<Rightarrow> UB | Some num \<Rightarrow> Some (int (unat num)) } } }"

section \<open>Searching nodes\<close>

definition HCS_MATCH_ATTR :: cstr where
  "HCS_MATCH_ATTR = ''match_attr''"

text \<open>The value is compared as a string before the name is, whatever its type.\<close>

partial_function (option) match_find :: "bool \<Rightarrow> u8 list \<Rightarrow> tree_mem \<Rightarrow> nat option \<Rightarrow> cstr \<Rightarrow> res_attr option option" where
  "match_find al b m p attrValue =
     (case p of
        None \<Rightarrow> Some None
      | Some q \<Rightarrow>
          (case tm_attrs m q of
             None \<Rightarrow> UB
           | Some a \<Rightarrow>
               do { eqv \<leftarrow> strcmp_at b (ra_value a + HCS_PREFIX_LENGTH al) attrValue;
                    hit \<leftarrow> (if eqv then strcmp_at b (ra_name a) HCS_MATCH_ATTR else Some False);
                    if hit then Some (Some a) else match_find al b m (ra_next a) attrValue }))"

definition GetAttrValueInNode ::
  "bool \<Rightarrow> u8 list \<Rightarrow> tree_mem \<Rightarrow> nat option \<Rightarrow> cstr option \<Rightarrow> res_attr option option" where
  "GetAttrValueInNode al b m node attrValue =
     (case (node, attrValue) of
        (Some p, Some s) \<Rightarrow> do { n \<leftarrow> tm_nodes m p; match_find al b m (rn_attrData n) s }
      | _ \<Rightarrow> Some None)"

partial_function (option) TraverseTreeNode :: "tree_mem \<Rightarrow> nat \<Rightarrow> nat option option" where
  "TraverseTreeNode m cur =
     (case tm_nodes m cur of
        None \<Rightarrow> UB
      | Some n \<Rightarrow>
          (case rn_parent n of
             Some p \<Rightarrow> if rn_sibling n = None then TraverseTreeNode m p else Some (rn_sibling n)
           | None \<Rightarrow> Some (rn_sibling n)))"

text \<open>The search loop, which two functions run with different tests.\<close>

partial_function (option) tree_search ::
  "(nat \<Rightarrow> bool option) \<Rightarrow> tree_mem \<Rightarrow> nat option \<Rightarrow> nat option option" where
  "tree_search test m cur =
     (case cur of
        None \<Rightarrow> Some None
      | Some c \<Rightarrow>
          do { hit \<leftarrow> test c;
               if hit then Some (Some c)
               else do { n \<leftarrow> tm_nodes m c;
                         nxt \<leftarrow> (case rn_child n of None \<Rightarrow> TraverseTreeNode m c | Some d \<Rightarrow> Some (Some d));
                         tree_search test m nxt } })"

text \<open>\<^verbatim>\<open>root\<close> is what \<^verbatim>\<open>GetRootNode\<close> of the interface returns.\<close>

definition HcsGetNodeByMatchAttr ::
  "bool \<Rightarrow> u8 list \<Rightarrow> tree_mem \<Rightarrow> nat option \<Rightarrow> nat option \<Rightarrow> cstr option \<Rightarrow> nat option option" where
  "HcsGetNodeByMatchAttr al b m root node attrValue =
     (if attrValue = None then Some None
      else tree_search (\<lambda>c. map_option (\<lambda>a. a \<noteq> None) (GetAttrValueInNode al b m (Some c) attrValue)) m
             (if node \<noteq> None then node else root))"

partial_function (option) child_find :: "u8 list \<Rightarrow> tree_mem \<Rightarrow> nat option \<Rightarrow> cstr \<Rightarrow> nat option option" where
  "child_find b m p nodeName =
     (case p of
        None \<Rightarrow> Some None
      | Some c \<Rightarrow>
          (case tm_nodes m c of
             None \<Rightarrow> UB
           | Some n \<Rightarrow>
               do { eq \<leftarrow> strcmp_at b (rn_name n) nodeName;
                    if eq then Some (Some c) else child_find b m (rn_sibling n) nodeName }))"

definition HcsGetChildNode :: "u8 list \<Rightarrow> tree_mem \<Rightarrow> nat option \<Rightarrow> cstr option \<Rightarrow> nat option option" where
  "HcsGetChildNode b m node nodeName =
     (case (node, nodeName) of
        (Some p, Some s) \<Rightarrow> do { n \<leftarrow> tm_nodes m p; child_find b m (rn_child n) s }
      | _ \<Rightarrow> Some None)"

definition HcsGetNodeByRefAttr ::
  "bool \<Rightarrow> u8 list \<Rightarrow> tree_mem \<Rightarrow> nat option \<Rightarrow> nat option \<Rightarrow> cstr option \<Rightarrow> nat option option" where
  "HcsGetNodeByRefAttr al b m root node attrName =
     do { attr \<leftarrow> GetAttrInNode b m node attrName;
          case attr of
            None \<Rightarrow> Some None
          | Some a \<Rightarrow>
              do { t \<leftarrow> HcsGetPrefix al b (ra_value a);
                   if t \<noteq> CONFIG_REFERENCE then Some None
                   else do { v \<leftarrow> HcsByteCodeToUint32 b (ra_value a + HCS_PREFIX_LENGTH al);
                             tree_search (\<lambda>c. map_option (\<lambda>n. rn_hash n = v) (tm_nodes m c)) m root } } }"

section \<open>Attribute lookup\<close>

lemma stands_Cons:
  "stands b p (x # xs) \<longleftrightarrow> p < length b \<and> b ! p = x \<and> stands b (Suc p) xs"
proof -
  have "stands b p [x] \<longleftrightarrow> p < length b \<and> b ! p = x"
    by (auto simp: stands_def take_Suc_conv_app_nth hd_drop_conv_nth take_Suc)
  then show ?thesis using stands_append [of b p "[x]" xs] by simp
qed

lemma strcmp_stands:
  assumes "stands b p (bytes_of nm @ 0 # xs)" "wf_cstr nm" "wf_cstr s"
  shows "strcmp_at b p s = Some (s = nm)"
  using assms
proof (induction s arbitrary: nm p)
  case Nil
  then show ?case
    by (cases nm) (auto simp: bytes_of_def stands_Cons wf_cstr_def byte_of_char_0_iff)
next
  case (Cons c cs)
  show ?case
  proof (cases nm)
    case Nil
    with Cons.prems show ?thesis
      using byte_of_char_0_iff [of c] by (auto simp: bytes_of_def stands_Cons wf_cstr_def)
  next
    case (Cons d ds)
    have inj: "byte_of_char d = byte_of_char c \<longleftrightarrow> d = c"
      by (metis char_of_byte_of_char)
    have "strcmp_at b (Suc p) cs = Some (cs = ds)"
      by (rule Cons.IH) (use Cons.prems Cons in \<open>simp_all add: bytes_of_def stands_Cons wf_cstr_def\<close>)
    then show ?thesis
      using Cons.prems Cons inj by (auto simp: bytes_of_def stands_Cons)
  qed
qed

lemma strcmp_string:
  assumes "stands b p (enc_string al nm)" "wf_cstr nm" "wf_cstr s"
  shows "strcmp_at b p s = Some (s = nm)"
proof -
  obtain k where "hcs_string_size al (length nm) - length nm = Suc k"
    using string_size_gt [of "length nm" al] by (metis Suc_diff_Suc)
  then show ?thesis
    using assms by (intro strcmp_stands [where xs = "replicate k 0"]) (simp_all add: enc_string_def)
qed

lemma attrs_of_wf:
  assumes "\<forall>it \<in> set its. item_ok it" "(s, v) \<in> set (attrs_of its)"
  shows "wf_cstr s" "value_wf v"
  using assms by (induction its rule: attrs_of.induct) auto

lemma attr_find_repr:
  assumes "attrs_repr al b m p avs" "\<forall>(s, v) \<in> set avs. wf_cstr s" "wf_cstr nm"
  shows "case map_of avs nm of
      None \<Rightarrow> attr_find b m p nm = Some None
    | Some v \<Rightarrow> \<exists>a. attr_find b m p nm = Some (Some a) \<and> stands b (ra_value a) (enc_value al v)"
  using assms
proof (induction avs arbitrary: p)
  case Nil
  then show ?case by (subst attr_find.simps) simp
next
  case (Cons av avs)
  obtain s v where av: "av = (s, v)" by (cases av)
  with Cons.prems(1) obtain q a where a: "p = Some q" "tm_attrs m q = Some a"
    "stands b (ra_name a) (enc_string al s)" "stands b (ra_value a) (enc_value al v)"
    "attrs_repr al b m (ra_next a) avs" by auto
  have "strcmp_at b (ra_name a) nm = Some (nm = s)"
    using strcmp_string [OF a(3) _ Cons.prems(3)] Cons.prems(2) av by simp
  then have step: "attr_find b m p nm = (if nm = s then Some (Some a) else attr_find b m (ra_next a) nm)"
    using a(1,2) by (subst attr_find.simps) simp
  show ?case
  proof (cases "nm = s")
    case True
    then show ?thesis using step av a(4) by simp
  next
    case False
    then show ?thesis
      using step av Cons.IH [OF a(5) _ Cons.prems(3)] Cons.prems(2) by (simp split: option.splits)
  qed
qed

text \<open>The value of an attribute of a node: the last one given counts.\<close>

definition node_attr :: "hcs_item list \<Rightarrow> cstr \<Rightarrow> hcs_value option" where
  "node_attr its nm = map_of (rev (attrs_of its)) nm"

lemma node_attr_wf: "\<forall>it \<in> set its. item_ok it \<Longrightarrow> node_attr its nm = Some v \<Longrightarrow> value_wf v"
  unfolding node_attr_def by (drule map_of_SomeD) (auto dest: attrs_of_wf)

lemma GetAttrInNode_repr:
  assumes "node_repr al b m par p (HNode nm its)" "\<forall>it \<in> set its. item_ok it" "wf_cstr s"
  shows "case node_attr its s of
      None \<Rightarrow> GetAttrInNode b m (Some p) (Some s) = Some None
    | Some v \<Rightarrow> \<exists>a. GetAttrInNode b m (Some p) (Some s) = Some (Some a) \<and> stands b (ra_value a) (enc_value al v)"
proof -
  from assms(1) obtain n where n: "tm_nodes m p = Some n" "attrs_repr al b m (rn_attrData n) (rev (attrs_of its))"
    by (auto elim: node_reprE)
  have "\<forall>(s, v) \<in> set (rev (attrs_of its)). wf_cstr s"
    using attrs_of_wf(1) [OF assms(2)] by auto
  from attr_find_repr [OF n(2) this assms(3)] show ?thesis
    using n(1) by (simp add: GetAttrInNode_def node_attr_def split: option.splits)
qed

section \<open>Values\<close>

text \<open>What a value reads as through the conversion \<^verbatim>\<open>f\<close>.\<close>

definition scalar_result :: "(hcs_scalar \<Rightarrow> 'a option) \<Rightarrow> 'a \<Rightarrow> int \<Rightarrow> hcs_scalar \<Rightarrow> int \<times> 'a option" where
  "scalar_result f def err x =
     (case f x of Some w \<Rightarrow> (HDF_SUCCESS, Some w) | None \<Rightarrow> (err, Some def))"

definition value_result :: "(hcs_scalar \<Rightarrow> 'a option) \<Rightarrow> 'a \<Rightarrow> hcs_value option \<Rightarrow> int \<times> 'a option" where
  "value_result f def v =
     (case v of Some (HScalar x) \<Rightarrow> scalar_result f def HDF_FAILURE x | _ \<Rightarrow> (HDF_FAILURE, Some def))"

definition elem_result :: "(hcs_scalar \<Rightarrow> 'a option) \<Rightarrow> 'a \<Rightarrow> int \<Rightarrow> hcs_value option \<Rightarrow> nat \<Rightarrow> int \<times> 'a option" where
  "elem_result f def err v i =
     (case v of
        Some (HArray xs) \<Rightarrow> if i < length xs then scalar_result f def err (xs ! i) else (HDF_FAILURE, Some def)
      | _ \<Rightarrow> (HDF_FAILURE, Some def))"

definition swaps :: "'a swap \<Rightarrow> (hcs_scalar \<Rightarrow> 'a option) \<Rightarrow> bool" where
  "swaps swap f \<longleftrightarrow>
     (\<forall>al b p x. stands b p (enc_scalar al x) \<longrightarrow>
        swap al b (p + HCS_PREFIX_LENGTH al) (scalar_type x) = Some (f x)) \<and>
     (\<forall>al b p. swap al b p CONFIG_ARRAY = Some None)"

lemma swaps_all:
  "swaps HcsSwapToUint8 scalar_u8" "swaps HcsSwapToUint16 scalar_u16"
  "swaps HcsSwapToUint32 scalar_u32" "swaps HcsSwapToUint64 scalar_u64"
  using swap_u8 swap_u16 swap_u32 swap_u64
  by (auto simp: swaps_def HcsSwapToUint8_def HcsSwapToUint16_def HcsSwapToUint32_def HcsSwapToUint64_def)

lemma get_swapped_scalar:
  assumes "swaps swap f" "stands b p (enc_scalar al x)"
  shows "get_swapped swap al b p def err = Some (scalar_result f def err x)"
proof -
  have "swap al b (p + HCS_PREFIX_LENGTH al) (scalar_type x) = Some (f x)"
    using assms unfolding swaps_def by blast
  then show ?thesis
    using scalar_prefix [OF assms(2)] by (simp add: get_swapped_def scalar_result_def split: option.splits)
qed

lemma array_prefix: "stands b p (enc_value al (HArray xs)) \<Longrightarrow> HcsGetPrefix al b p = Some CONFIG_ARRAY"
  using stands_config(4) by (simp add: stands_append)

lemma get_swapped_array:
  assumes "swaps swap f" "stands b p (enc_value al (HArray xs))"
  shows "get_swapped swap al b p def err = Some (err, Some def)"
proof -
  have "swap al b (p + HCS_PREFIX_LENGTH al) CONFIG_ARRAY = Some None"
    using assms(1) unfolding swaps_def by blast
  then show ?thesis using array_prefix [OF assms(2)] by (simp add: get_swapped_def)
qed

lemma scalar_getter:
  assumes "swaps swap f" "node_repr al b m par p (HNode nm its)" "\<forall>it \<in> set its. item_ok it" "wf_cstr s"
  shows "with_attr b m (Some p) (Some s) True def (\<lambda>a. get_swapped swap al b (ra_value a) def HDF_FAILURE) =
    Some (value_result f def (node_attr its s))"
proof (cases "node_attr its s")
  case None
  then show ?thesis using GetAttrInNode_repr [OF assms(2-4)] by (simp add: with_attr_def value_result_def)
next
  case (Some v)
  then obtain a where a: "GetAttrInNode b m (Some p) (Some s) = Some (Some a)" "stands b (ra_value a) (enc_value al v)"
    using GetAttrInNode_repr [OF assms(2-4)] by auto
  show ?thesis
  proof (cases v)
    case (HScalar x)
    then show ?thesis using a Some get_swapped_scalar [OF assms(1)] by (simp add: with_attr_def value_result_def)
  next
    case (HArray xs)
    then show ?thesis
      using a Some get_swapped_array [OF assms(1)] by (simp add: with_attr_def value_result_def)
  qed
qed

lemma elem_offset_enc:
  assumes "stands b (v + n) (concat (map (enc_scalar al) xs))" "\<forall>x \<in> set xs. scalar_wf x" "i < length xs"
  shows "\<exists>off. elem_offset al b v n i = Some (Some off) \<and> stands b (v + off) (enc_scalar al (xs ! i))"
  using assms
proof (induction xs arbitrary: n i)
  case (Cons x xs)
  show ?case
  proof (cases i)
    case 0
    then show ?thesis using Cons.prems by (simp add: stands_append)
  next
    case (Suc j)
    from Cons.prems have "HcsGetDataTypeOffset al b (v + n) = Some (int (length (enc_scalar al x)))"
      and "stands b (v + (n + length (enc_scalar al x))) (concat (map (enc_scalar al) xs))"
      by (simp_all add: stands_append scalar_length add.assoc)
    then show ?thesis using Suc Cons.IH [of "n + length (enc_scalar al x)" j] Cons.prems(2,3) by simp
  qed
qed simp

lemma GetArrayElem_enc:
  assumes "stands b (ra_value a) (enc_value al v)" "value_wf v"
  shows "case v of
      HScalar x \<Rightarrow> GetArrayElem al b a i = Some None
    | HArray xs \<Rightarrow> if unat i < length xs
        then \<exists>q. GetArrayElem al b a i = Some (Some q) \<and> stands b q (enc_scalar al (xs ! unat i))
        else GetArrayElem al b a i = Some None"
proof (cases v)
  case (HScalar x)
  have "scalar_type x \<noteq> CONFIG_ARRAY" by (cases x) simp_all
  then show ?thesis using scalar_prefix [of b "ra_value a" al x] assms(1) HScalar by (simp add: GetArrayElem_def)
next
  case (HArray xs)
  from assms(1) HArray have st: "stands b (ra_value a + HCS_PREFIX_LENGTH al) (enc_word al (word_of_nat (length xs)))"
    "stands b (ra_value a + (HCS_WORD_LENGTH al + HCS_PREFIX_LENGTH al)) (concat (map (enc_scalar al) xs))"
    by (simp_all add: stands_append add.assoc add.commute add.left_commute)
  have u: "unat (word_of_nat (length xs) :: u16) = length xs"
    using HArray assms(2) by (simp add: unat_of_nat)
  have wf: "\<forall>x \<in> set xs. scalar_wf x" using HArray assms(2) by simp
  show ?thesis
    using array_prefix assms(1) HArray stands_word [OF st(1)] u elem_offset_enc [OF st(2) wf, of "unat i"]
    by (auto simp: GetArrayElem_def)
qed

lemma elem_getter:
  assumes "swaps swap f" "node_repr al b m par p (HNode nm its)" "\<forall>it \<in> set its. item_ok it" "wf_cstr s"
  shows "get_array_elem swap al b m (Some p) (Some s) i True def err =
    Some (elem_result f def err (node_attr its s) (unat i))"
proof (cases "node_attr its s")
  case None
  then show ?thesis
    using GetAttrInNode_repr [OF assms(2-4)] by (simp add: get_array_elem_def with_attr_def elem_result_def)
next
  case (Some v)
  then obtain a where a: "GetAttrInNode b m (Some p) (Some s) = Some (Some a)" "stands b (ra_value a) (enc_value al v)"
    using GetAttrInNode_repr [OF assms(2-4)] by auto
  have "value_wf v" using node_attr_wf [OF assms(3)] Some by blast
  from GetArrayElem_enc [OF a(2) this, of i] show ?thesis
    using Some a(1) get_swapped_scalar [OF assms(1)]
    by (auto simp: get_array_elem_def with_attr_def elem_result_def split: hcs_value.splits if_splits)
qed

section \<open>Searching\<close>

text \<open>The nodes of a tree in the order of a depth-first walk: as items and as pointers.\<close>

fun pre_items :: "hcs_item \<Rightarrow> hcs_item list" where
  "pre_items (HAttr nm v) = []"
| "pre_items (HNode nm its) = HNode nm its # concat (map pre_items its)"

inductive node_order :: "tree_mem \<Rightarrow> nat option \<Rightarrow> nat \<Rightarrow> nat list \<Rightarrow> bool" for m where
  "tm_nodes m p = Some n \<Longrightarrow> rn_parent n = par \<Longrightarrow> sib_chain m (rn_child n) cs \<Longrightarrow>
   list_all2 (node_order m (Some p)) cs pss \<Longrightarrow> node_order m par p (p # concat pss)"

lemma pre_items_nodes: "concat (map pre_items its) = concat (map pre_items (filter is_node its))"
proof (induction its)
  case (Cons it its)
  then show ?case by (cases it) (simp_all add: is_node_def)
qed simp

lemma orders_exist:
  assumes "list_all2 (\<lambda>c t. \<exists>ps. node_order m par c ps \<and> list_all2 Q ps (pre_items t)) cs ts"
  shows "\<exists>pss. list_all2 (node_order m par) cs pss \<and> list_all2 Q (concat pss) (concat (map pre_items ts))"
  using assms
proof (induction rule: list_all2_induct)
  case Nil
  then show ?case by auto
next
  case (Cons c cs t ts)
  then obtain ps pss where "node_order m par c ps" "list_all2 Q ps (pre_items t)"
    "list_all2 (node_order m par) cs pss" "list_all2 Q (concat pss) (concat (map pre_items ts))" by blast
  then show ?case by (intro exI [of _ "ps # pss"]) (simp add: list_all2_appendI)
qed

lemma node_repr_order:
  "node_repr al b m par p t \<Longrightarrow>
   \<exists>ps. node_order m par p ps \<and> list_all2 (\<lambda>q x. \<exists>par. node_repr al b m par q x) ps (pre_items t)"
proof (induction rule: node_repr.induct)
  case (node_reprI p n nm par its cs)
  let ?Q = "\<lambda>q x. \<exists>par. node_repr al b m par q x"
  have kids: "list_all2 (node_repr al b m (Some p)) cs (filter is_node its)"
    by (rule list.rel_mono_strong [OF node_reprI.IH]) blast
  have self: "?Q p (HNode nm its)"
    using node_repr.intros [OF node_reprI.hyps(1-6) kids] by blast
  have "list_all2 (\<lambda>c t. \<exists>ps. node_order m (Some p) c ps \<and> list_all2 ?Q ps (pre_items t)) cs (filter is_node its)"
    by (rule list.rel_mono_strong [OF node_reprI.IH]) blast
  from orders_exist [OF this] obtain pss where
    pss: "list_all2 (node_order m (Some p)) cs pss" "list_all2 ?Q (concat pss) (concat (map pre_items (filter is_node its)))"
    by blast
  have "node_order m par p (p # concat pss)"
    by (rule node_order.intros [OF node_reprI.hyps(1,4,6) pss(1)])
  moreover have "list_all2 ?Q (p # concat pss) (pre_items (HNode nm its))"
    using self pss(2) by (simp add: pre_items_nodes [symmetric])
  ultimately show ?case by blast
qed

lemma Traverse_last:
  "tm_nodes m c = Some n \<Longrightarrow> rn_parent n = Some p \<Longrightarrow> rn_sibling n = None \<Longrightarrow>
   TraverseTreeNode m c = TraverseTreeNode m p"
  by (subst TraverseTreeNode.simps) simp

lemma Traverse_sibling:
  "tm_nodes m c = Some n \<Longrightarrow> rn_sibling n = Some d \<Longrightarrow> TraverseTreeNode m c = Some (Some d)"
  by (subst TraverseTreeNode.simps) (simp split: option.splits)

lemma Traverse_root:
  "tm_nodes m c = Some n \<Longrightarrow> rn_parent n = None \<Longrightarrow> TraverseTreeNode m c = Some (rn_sibling n)"
  by (subst TraverseTreeNode.simps) simp

text \<open>The search of a subtree visits it in order, then leaves it.\<close>

definition search_from ::
  "(nat \<Rightarrow> bool option) \<Rightarrow> (nat \<Rightarrow> bool) \<Rightarrow> tree_mem \<Rightarrow> nat \<Rightarrow> nat list \<Rightarrow> nat \<Rightarrow> bool" where
  "search_from test h m c ps leave \<longleftrightarrow>
     tree_search test m (Some c) =
       (case find h ps of
          Some x \<Rightarrow> Some (Some x)
        | None \<Rightarrow> TraverseTreeNode m leave \<bind> tree_search test m)"

lemma find_append_cases:
  "find h (xs @ ys) = (case find h xs of None \<Rightarrow> find h ys | Some x \<Rightarrow> Some x)"
  by (induction xs) auto

lemma search_chain:
  assumes "sib_chain m (Some c) (c # cs)"
    and "list_all2 (\<lambda>c ps. (\<exists>n. tm_nodes m c = Some n \<and> rn_parent n = Some p) \<and> search_from test h m c ps c)
           (c # cs) pss"
  shows "search_from test h m c (concat pss) p"
  using assms
proof (induction cs arbitrary: c pss)
  case Nil
  then obtain ps n where n: "pss = [ps]" "tm_nodes m c = Some n" "rn_parent n = Some p" "rn_sibling n = None"
    "search_from test h m c ps c"
    by (auto simp: list_all2_Cons1)
  then show ?case using Traverse_last [OF n(2-4)] by (simp add: search_from_def split: option.splits)
next
  case (Cons d cs)
  then obtain ps pss' n where n: "pss = ps # pss'" "tm_nodes m c = Some n" "rn_sibling n = Some d"
    "search_from test h m c ps c" "sib_chain m (Some d) (d # cs)"
    "list_all2 (\<lambda>c ps. (\<exists>n. tm_nodes m c = Some n \<and> rn_parent n = Some p) \<and> search_from test h m c ps c)
       (d # cs) pss'"
    by (auto simp: list_all2_Cons1)
  from Cons.IH [OF n(5,6)] show ?case
    using n(4) Traverse_sibling [OF n(2,3)]
    by (simp add: n(1) search_from_def find_append_cases split: option.splits)
qed

lemma node_order_parent: "node_order m par c ps \<Longrightarrow> \<exists>n. tm_nodes m c = Some n \<and> rn_parent n = par"
  by (induction rule: node_order.cases) auto

lemma search_subtree:
  assumes "node_order m par c ps" "\<forall>q \<in> set ps. test q = Some (h q)"
  shows "search_from test h m c ps c"
  using assms
proof (induction rule: node_order.induct)
  case (1 p n par cs pss)
  have test: "test p = Some (h p)" using "1.prems" by simp
  show ?case
  proof (cases "h p")
    case True
    then show ?thesis using test unfolding search_from_def by (subst tree_search.simps) simp
  next
    case False
    show ?thesis
    proof (cases cs)
      case Nil
      then show ?thesis using "1.hyps"(1,3) "1.IH" test False
        unfolding search_from_def by (subst tree_search.simps) simp
    next
      case (Cons c cs')
      have sub: "set ps \<subseteq> set (p # concat pss)" if "ps \<in> set pss" for ps using that by auto
      have "list_all2 (\<lambda>c ps. (\<exists>n. tm_nodes m c = Some n \<and> rn_parent n = Some p) \<and> search_from test h m c ps c) cs pss"
        by (rule list.rel_mono_strong [OF "1.IH"]) (use sub "1.prems" node_order_parent in blast)
      then have "search_from test h m c (concat pss) p"
        using search_chain [of m c cs'] "1.hyps"(3) Cons by auto
      moreover have "rn_child n = Some c" using "1.hyps"(3) Cons by simp
      ultimately show ?thesis using "1.hyps"(1) test False
        unfolding search_from_def by (subst tree_search.simps) simp
    qed
  qed
qed

lemma search_tree:
  assumes "tree_repr al b m r t" "\<And>q x par. node_repr al b m par q x \<Longrightarrow> x \<in> set (pre_items t) \<Longrightarrow> test q = Some (hit x)"
  shows "case find hit (pre_items t) of
      None \<Rightarrow> tree_search test m (Some r) = Some None
    | Some x \<Rightarrow> \<exists>q par. tree_search test m (Some r) = Some (Some q) \<and> node_repr al b m par q x"
proof -
  let ?h = "\<lambda>q. the (test q)"
  obtain n where n: "tm_nodes m r = Some n" "rn_sibling n = None" "rn_parent n = None"
    using assms(1) node_repr_parent by (fastforce simp: tree_repr_def)
  obtain ps where ps: "node_order m None r ps" "list_all2 (\<lambda>q x. \<exists>par. node_repr al b m par q x) ps (pre_items t)"
    using node_repr_order assms(1) unfolding tree_repr_def by blast
  have eq: "list_all2 (\<lambda>q x. (\<exists>par. node_repr al b m par q x) \<and> test q = Some (hit x)) ps (pre_items t)"
    by (rule list.rel_mono_strong [OF ps(2)]) (use assms(2) in blast)
  have "\<forall>q \<in> set ps. test q = Some (?h q)"
    using eq by (auto simp: list_all2_conv_all_nth in_set_conv_nth)
  from search_subtree [OF ps(1) this] have
    run: "tree_search test m (Some r) = (case find ?h ps of Some x \<Rightarrow> Some (Some x) | None \<Rightarrow> Some None)"
    using Traverse_root [OF n(1,3)] n(2) by (simp add: search_from_def tree_search.simps [of test m None] split: option.splits)
  have "case find hit (pre_items t) of None \<Rightarrow> find ?h ps = None
      | Some x \<Rightarrow> \<exists>q par. find ?h ps = Some q \<and> node_repr al b m par q x"
    using eq by (induction rule: list_all2_induct) (auto split: option.splits)
  then show ?thesis using run by (auto split: option.splits)
qed

section \<open>Properties\<close>

text \<open>
  C11. Scalar getters. On a node that represents an item, a getter returns the value of the
  last attribute of that name, widened from any smaller integer type; the default and a failure
  when there is no such attribute, or it is an array, a string, a reference or too wide.
\<close>

theorem hcs_scalar_getters:
  assumes "node_repr al b m par p (HNode nm its)" "\<forall>it \<in> set its. item_ok it" "wf_cstr s"
  shows "HcsGetUint8 al b m (Some p) (Some s) True d8 = Some (value_result scalar_u8 d8 (node_attr its s)) \<and>
    HcsGetUint16 al b m (Some p) (Some s) True d16 = Some (value_result scalar_u16 d16 (node_attr its s)) \<and>
    HcsGetUint32 al b m (Some p) (Some s) True d32 = Some (value_result scalar_u32 d32 (node_attr its s)) \<and>
    HcsGetUint64 al b m (Some p) (Some s) True d64 = Some (value_result scalar_u64 d64 (node_attr its s))"
  unfolding HcsGetUint8_def HcsGetUint16_def HcsGetUint32_def HcsGetUint64_def
  by (intro conjI scalar_getter [OF _ assms] swaps_all)

text \<open>A concrete tree for the witnesses: a node with one attribute, found in its blob.\<close>

definition sample_item :: hcs_item where
  "sample_item = HNode ''n'' [HAttr ''match_attr'' (HScalar (HString ''x'')), HAttr ''v'' (HArray [HByte 5, HWord 6])]"

lemma sample_tree: "\<exists>m. tree_repr False (enc_item False sample_item) m 0 sample_item"
proof -
  have st: "stands (enc_item False sample_item) 0 (enc_item False sample_item)" by (simp add: stands_def)
  have ok: "item_ok sample_item" "item_depth sample_item \<le> 63"
    by (simp_all add: sample_item_def wf_cstr_def)
  have "length (enc_item False sample_item) < 100" by code_simp
  then have len: "length (enc_item False sample_item) < 2 ^ 31" by (rule less_trans) simp
  note HcsDecompile_ok [of "enc_item False sample_item" 0 False "''n''"
      "[HAttr ''match_attr'' (HScalar (HString ''x'')), HAttr ''v'' (HArray [HByte 5, HWord 6])]",
      folded sample_item_def, OF st ok len]
  then show ?thesis by (simp only: drop_0) blast
qed

theorem hcs_scalar_getters_witness:
  "\<exists>m. HcsGetUint32 False (enc_item False sample_item) m (Some 0) (Some ''v'') True 9 = Some (HDF_FAILURE, Some 9)"
proof -
  obtain m where m: "node_repr False (enc_item False sample_item) m None 0 sample_item"
    using sample_tree by (auto simp: tree_repr_def)
  have ok: "\<forall>it \<in> set [HAttr ''match_attr'' (HScalar (HString ''x'')), HAttr ''v'' (HArray [HByte 5, HWord 6])]. item_ok it"
    by (simp add: wf_cstr_def)
  have "wf_cstr ''v''" by (simp add: wf_cstr_def)
  from hcs_scalar_getters [OF m [unfolded sample_item_def] ok this] show ?thesis
    unfolding sample_item_def by (intro exI [of _ m]) (simp add: node_attr_def value_result_def)
qed

lemma array_loop_ok:
  assumes "\<And>j. i \<le> j \<Longrightarrow> j < i + n \<Longrightarrow> elem (word_of_nat j) = Some (HDF_SUCCESS, Some (f j))"
    and "i + n \<le> length vals"
  shows "array_loop elem i n HDF_SUCCESS vals =
    Some (HDF_SUCCESS, take i vals @ map f [i..<i + n] @ drop (i + n) vals)"
    "array_loop64 elem i n vals =
    Some (HDF_SUCCESS, take i vals @ map f [i..<i + n] @ drop (i + n) vals)"
proof -
  have upd: "take (Suc i) (vals[i := f i]) @ map f [Suc i..<Suc i + n] @ drop (Suc i + n) (vals[i := f i]) =
      take i vals @ map f [i..<i + Suc n] @ drop (i + Suc n) vals"
    if "i + Suc n \<le> length vals" for i n and vals :: "'a list"
    using that by (simp add: take_Suc_conv_app_nth upt_conv_Cons del: upt_Suc)
  show "array_loop elem i n HDF_SUCCESS vals =
    Some (HDF_SUCCESS, take i vals @ map f [i..<i + n] @ drop (i + n) vals)"
    using assms
  proof (induction n arbitrary: i vals)
    case (Suc n)
    then have "elem (word_of_nat i) = Some (HDF_SUCCESS, Some (f i))" by simp
    moreover have "array_loop elem (Suc i) n HDF_SUCCESS (vals[i := f i]) =
        Some (HDF_SUCCESS, take (Suc i) (vals[i := f i]) @ map f [Suc i..<Suc i + n] @ drop (Suc i + n) (vals[i := f i]))"
      by (rule Suc.IH) (use Suc.prems in simp_all)
    moreover have "store_elem vals i (Some (f i)) = Some (vals[i := f i])" using Suc.prems(2) by (simp add: store_elem_def)
    ultimately show ?case using upd [OF Suc.prems(2)] by (simp only: array_loop.simps) simp
  qed simp
  show "array_loop64 elem i n vals =
    Some (HDF_SUCCESS, take i vals @ map f [i..<i + n] @ drop (i + n) vals)"
    using assms
  proof (induction n arbitrary: i vals)
    case (Suc n)
    then have "elem (word_of_nat i) = Some (HDF_SUCCESS, Some (f i))" by simp
    moreover have "array_loop64 elem (Suc i) n (vals[i := f i]) =
        Some (HDF_SUCCESS, take (Suc i) (vals[i := f i]) @ map f [Suc i..<Suc i + n] @ drop (Suc i + n) (vals[i := f i]))"
      by (rule Suc.IH) (use Suc.prems in simp_all)
    moreover have "store_elem vals i (Some (f i)) = Some (vals[i := f i])" using Suc.prems(2) by (simp add: store_elem_def)
    ultimately show ?case using upd [OF Suc.prems(2)] by (simp only: array_loop64.simps) simp
  qed simp
qed

lemma array_elems_ok:
  assumes "swaps swap f" "node_repr al b m par p (HNode nm its)" "\<forall>it \<in> set its. item_ok it" "wf_cstr s"
    and "node_attr its s = Some (HArray xs)" "\<forall>x \<in> set xs. f x \<noteq> None" "j < length xs"
  shows "get_array_elem swap al b m (Some p) (Some s) (word_of_nat j) True def err = Some (HDF_SUCCESS, Some (the (f (xs ! j))))"
proof -
  have "length xs < 2 ^ 16" using node_attr_wf [OF assms(3,5)] by simp
  then have "unat (word_of_nat j :: u32) = j" by (intro unat_of_nat_u32) (use assms(7) in simp)
  then show ?thesis
    using elem_getter [OF assms(1-4), of "word_of_nat j"] assms(5-7) nth_mem [OF assms(7)]
    by (auto simp: elem_result_def scalar_result_def split: option.splits)
qed

text \<open>
  Array getters. Asking for as many elements as the output array has room for, at most
  the number stored, fills it with the stored values, provided they all fit the type.
\<close>

theorem hcs_array_getters:
  assumes "node_repr al b m par p (HNode nm its)" "\<forall>it \<in> set its. item_ok it" "wf_cstr s"
    and "node_attr its s = Some (HArray xs)" "0 < n" "n \<le> length xs" "length v16 = n" "length v32 = n" "length v64 = n"
    and "\<forall>x \<in> set xs. scalar_u16 x \<noteq> None"
  shows "HcsGetUint16Array al b m (Some p) (Some s) (Some v16) (word_of_nat n) d16 =
      Some (HDF_SUCCESS, Some (map (\<lambda>x. the (scalar_u16 x)) (take n xs))) \<and>
    HcsGetUint32Array al b m (Some p) (Some s) (Some v32) (word_of_nat n) d32 =
      Some (HDF_SUCCESS, Some (map (\<lambda>x. the (scalar_u32 x)) (take n xs))) \<and>
    HcsGetUint64Array al b m (Some p) (Some s) (Some v64) (word_of_nat n) d64 =
      Some (HDF_SUCCESS, Some (map (\<lambda>x. the (scalar_u64 x)) (take n xs)))"
proof -
  have "length xs < 2 ^ 16" using node_attr_wf [OF assms(2,4)] by simp
  then have n: "unat (word_of_nat n :: u32) = n" by (intro unat_of_nat_u32) (use assms(6) in simp)
  then have n0: "word_of_nat n \<noteq> (0 :: u32)" using assms(5) by (metis less_irrefl unat_0)
  have fits: "\<forall>x \<in> set xs. scalar_u32 x \<noteq> None" "\<forall>x \<in> set xs. scalar_u64 x \<noteq> None"
    using assms(10) by (auto simp: scalar_u64_def scalar_u32_def split: hcs_scalar.splits)
  have take_map: "map (\<lambda>j. the (g (xs ! j))) [0..<n] = map (\<lambda>x. the (g x)) (take n xs)" for g :: "hcs_scalar \<Rightarrow> 'z option"
    using assms(6) by (intro nth_equalityI) simp_all
  note elems = array_elems_ok [OF _ assms(1-4)]
  have "array_loop (\<lambda>i. HcsGetUint16ArrayElem al b m (Some p) (Some s) i True d16) 0 n HDF_SUCCESS v16 =
      Some (HDF_SUCCESS, map (\<lambda>x. the (scalar_u16 x)) (take n xs))"
    using array_loop_ok(1) [of 0 n _ "\<lambda>j. the (scalar_u16 (xs ! j))" v16] elems [OF swaps_all(2) assms(10)] assms(6,7)
    by (simp add: HcsGetUint16ArrayElem_def take_map)
  moreover have "array_loop (\<lambda>i. HcsGetUint32ArrayElem al b m (Some p) (Some s) i True d32) 0 n HDF_SUCCESS v32 =
      Some (HDF_SUCCESS, map (\<lambda>x. the (scalar_u32 x)) (take n xs))"
    using array_loop_ok(1) [of 0 n _ "\<lambda>j. the (scalar_u32 (xs ! j))" v32] elems [OF swaps_all(3) fits(1)] assms(6,8)
    by (simp add: HcsGetUint32ArrayElem_def take_map)
  moreover have "array_loop64 (\<lambda>i. HcsGetUint64ArrayElem al b m (Some p) (Some s) i True d64) 0 n v64 =
      Some (HDF_SUCCESS, map (\<lambda>x. the (scalar_u64 x)) (take n xs))"
    using array_loop_ok(2) [of 0 n _ "\<lambda>j. the (scalar_u64 (xs ! j))" v64] elems [OF swaps_all(4) fits(2)] assms(6,9)
    by (simp add: HcsGetUint64ArrayElem_def take_map)
  ultimately show ?thesis
    using n n0 by (simp add: HcsGetUint16Array_def HcsGetUint32Array_def HcsGetUint64Array_def)
qed

theorem hcs_array_getters_witness:
  "\<exists>m. HcsGetUint16Array False (enc_item False sample_item) m (Some 0) (Some ''v'') (Some [0, 0]) 2 0 =
     Some (HDF_SUCCESS, Some [5, 6])"
proof -
  obtain m where m: "node_repr False (enc_item False sample_item) m None 0 sample_item"
    using sample_tree by (auto simp: tree_repr_def)
  have ok: "\<forall>it \<in> set [HAttr ''match_attr'' (HScalar (HString ''x'')), HAttr ''v'' (HArray [HByte 5, HWord 6])]. item_ok it"
    by (simp add: wf_cstr_def)
  have s: "wf_cstr ''v''" by (simp add: wf_cstr_def)
  have v: "node_attr [HAttr ''match_attr'' (HScalar (HString ''x'')), HAttr ''v'' (HArray [HByte 5, HWord 6])] ''v'' =
      Some (HArray [HByte 5, HWord 6])" by (simp add: node_attr_def)
  from hcs_array_getters [OF m [unfolded sample_item_def] ok s v, of 2 "[0, 0]" "[0, 0]" "[0, 0]" 0 0 0] show ?thesis
    unfolding sample_item_def by (intro exI [of _ m]) (simp add: scalar_u16_def scalar_u8_def)
qed

text \<open>A node that carries the wanted match attribute.\<close>

fun item_matches :: "cstr \<Rightarrow> hcs_item \<Rightarrow> bool" where
  "item_matches v (HAttr nm u) \<longleftrightarrow> False"
| "item_matches v (HNode nm its) \<longleftrightarrow> (HCS_MATCH_ATTR, HScalar (HString v)) \<in> set (attrs_of its)"

text \<open>Every match attribute is a string.\<close>

fun match_attrs_ok :: "hcs_item \<Rightarrow> bool" where
  "match_attrs_ok (HAttr nm u) \<longleftrightarrow> True"
| "match_attrs_ok (HNode nm its) \<longleftrightarrow>
     (\<forall>(s, u) \<in> set (attrs_of its). s = HCS_MATCH_ATTR \<longrightarrow> (\<exists>str. u = HScalar (HString str)))"

lemma strcmp_defined:
  assumes "p < length b" "last b = 0" "wf_cstr s"
  shows "\<exists>e. strcmp_at b p s = Some e"
  using assms(1,3)
proof (induction s arbitrary: p)
  case (Cons c cs)
  show ?case
  proof (cases "b ! p = byte_of_char c")
    case True
    have "b ! p \<noteq> 0" using True Cons.prems(2) byte_of_char_0_iff [of c] by (auto simp: wf_cstr_def)
    moreover have "b \<noteq> []" using assms(1) by auto
    ultimately have "p \<noteq> length b - 1" using assms(2) by (auto simp: last_conv_nth)
    then have "Suc p < length b" using Cons.prems(1) by simp
    then show ?thesis using Cons.IH [of "Suc p"] Cons.prems True by (auto simp: wf_cstr_def)
  qed (use Cons.prems(1) in auto)
qed simp

lemma value_payload: "stands b p (enc_value al v) \<Longrightarrow> p + HCS_PREFIX_LENGTH al < length b"
proof -
  assume st: "stands b p (enc_value al v)"
  have "HCS_PREFIX_LENGTH al < length (enc_value al v)"
  proof (cases v)
    case (HScalar x)
    then show ?thesis
      by (cases x) (auto simp: HCS_BYTE_LENGTH_def HCS_WORD_LENGTH_def intro: le_less_trans [OF le0 string_size_gt])
  qed (simp add: HCS_WORD_LENGTH_def)
  then show ?thesis using st by (simp add: stands_def)
qed

lemma match_find_repr:
  assumes "attrs_repr al b m p avs" "\<forall>(s, u) \<in> set avs. wf_cstr s \<and> value_wf u" "wf_cstr v"
    and "\<forall>(s, u) \<in> set avs. s = HCS_MATCH_ATTR \<longrightarrow> (\<exists>str. u = HScalar (HString str))" "last b = 0"
  shows "\<exists>r. match_find al b m p v = Some r \<and> (r \<noteq> None \<longleftrightarrow> (HCS_MATCH_ATTR, HScalar (HString v)) \<in> set avs)"
  using assms
proof (induction avs arbitrary: p)
  case Nil
  then show ?case by (subst match_find.simps) simp
next
  case (Cons av avs)
  obtain s u where av: "av = (s, u)" by (cases av)
  with Cons.prems(1) obtain q a where a: "p = Some q" "tm_attrs m q = Some a"
    "stands b (ra_name a) (enc_string al s)" "stands b (ra_value a) (enc_value al u)"
    "attrs_repr al b m (ra_next a) avs" by auto
  obtain e where e: "strcmp_at b (ra_value a + HCS_PREFIX_LENGTH al) v = Some e"
    using strcmp_defined [OF value_payload [OF a(4)] assms(5,3)] by blast
  have nm: "strcmp_at b (ra_name a) HCS_MATCH_ATTR = Some (HCS_MATCH_ATTR = s)"
    by (rule strcmp_string [OF a(3)]) (use Cons.prems(2) av in \<open>simp_all add: wf_cstr_def HCS_MATCH_ATTR_def\<close>)
  have hit: "e \<and> HCS_MATCH_ATTR = s \<longleftrightarrow> av = (HCS_MATCH_ATTR, HScalar (HString v))"
  proof (cases "s = HCS_MATCH_ATTR")
    case True
    then obtain str where str: "u = HScalar (HString str)" using Cons.prems(4) av by auto
    then have "stands b (ra_value a + HCS_PREFIX_LENGTH al) (enc_string al str)" "wf_cstr str"
      using a(4) Cons.prems(2) av by (simp_all add: stands_append)
    from strcmp_string [OF this assms(3)] show ?thesis using e True av str by auto
  qed (auto simp: av)
  have step: "match_find al b m p v =
      (if e \<and> HCS_MATCH_ATTR = s then Some (Some a) else match_find al b m (ra_next a) v)"
    using a(1,2) e nm by (subst match_find.simps) simp
  show ?case
  proof (cases "e \<and> HCS_MATCH_ATTR = s")
    case True
    then show ?thesis using step hit by auto
  next
    case False
    then show ?thesis using step hit Cons.IH [OF a(5) _ assms(3) _ assms(5)] Cons.prems(2,4) by auto
  qed
qed

lemma pre_items_ok:
  "x \<in> set (pre_items t) \<Longrightarrow> item_ok t \<Longrightarrow> item_ok x \<and> (\<exists>nm its. x = HNode nm its)"
  by (induction t) auto

lemma match_attr_first:
  assumes "tree_repr al b m r t" "item_ok t" "\<forall>x \<in> set (pre_items t). match_attrs_ok x"
    and "last b = 0" "wf_cstr v"
  shows "case find (item_matches v) (pre_items t) of
      None \<Rightarrow> HcsGetNodeByMatchAttr al b m (Some r) None (Some v) = Some None
    | Some x \<Rightarrow> \<exists>q par. HcsGetNodeByMatchAttr al b m (Some r) None (Some v) = Some (Some q) \<and>
        node_repr al b m par q x"
proof -
  let ?test = "\<lambda>c. map_option (\<lambda>a. a \<noteq> None) (GetAttrValueInNode al b m (Some c) (Some v))"
  have "?test q = Some (item_matches v x)" if x: "node_repr al b m par q x" "x \<in> set (pre_items t)" for q x par
  proof -
    from pre_items_ok [OF x(2) assms(2)] obtain nm its where it: "x = HNode nm its" "item_ok (HNode nm its)" by auto
    with x(1) obtain n where n: "tm_nodes m q = Some n" "attrs_repr al b m (rn_attrData n) (rev (attrs_of its))"
      by (auto elim: node_reprE)
    have "\<exists>r. match_find al b m (rn_attrData n) v = Some r \<and>
        (r \<noteq> None \<longleftrightarrow> (HCS_MATCH_ATTR, HScalar (HString v)) \<in> set (rev (attrs_of its)))"
      by (rule match_find_repr [OF n(2) _ assms(5) _ assms(4)])
        (use attrs_of_wf [of its] it bspec [OF assms(3) x(2)] in auto)
    then show ?thesis using n(1) it(1) by (auto simp: GetAttrValueInNode_def)
  qed
  from search_tree [OF assms(1) this] show ?thesis
    unfolding HcsGetNodeByMatchAttr_def by (simp split: option.splits)
qed

text \<open>
  C12. Search by match attribute. From the root, \<^verbatim>\<open>HcsGetNodeByMatchAttr\<close> returns
  the first node in depth-first order that carries the attribute, and NULL when there is none,
  for any tree whose match attributes are strings and whose blob ends in a zero byte (the value
  of every attribute is compared as a string before its name or type is looked at).
\<close>

theorem HcsGetNodeByMatchAttr_first:
  assumes "tree_repr al b m r t" "item_ok t" "\<forall>x \<in> set (pre_items t). match_attrs_ok x"
    and "last b = 0" "wf_cstr v"
  shows "case find (item_matches v) (pre_items t) of
      None \<Rightarrow> HcsGetNodeByMatchAttr al b m (Some r) None (Some v) = Some None
    | Some x \<Rightarrow> \<exists>q par. HcsGetNodeByMatchAttr al b m (Some r) None (Some v) = Some (Some q) \<and>
        node_repr al b m par q x"
  by (rule match_attr_first [OF assms])

theorem HcsGetNodeByMatchAttr_first_witness:
  "\<exists>m. HcsGetNodeByMatchAttr False (enc_item False sample_item) m (Some 0) None (Some ''y'') = Some None"
proof -
  obtain m where m: "tree_repr False (enc_item False sample_item) m 0 sample_item"
    using sample_tree by blast
  have ok: "item_ok sample_item" "\<forall>x \<in> set (pre_items sample_item). match_attrs_ok x"
    by (simp_all add: sample_item_def wf_cstr_def HCS_MATCH_ATTR_def)
  have "last (enc_item False sample_item) = 0" by code_simp
  moreover have "wf_cstr ''y''" by (simp add: wf_cstr_def)
  ultimately show ?thesis
    using HcsGetNodeByMatchAttr_first [OF m ok, of "''y''"]
    by (intro exI [of _ m]) (simp add: sample_item_def)
qed

lemma child_find_chain:
  assumes "sib_chain m p cs" "list_all2 (node_repr al b m par) cs ts" "\<forall>t \<in> set ts. item_ok t" "wf_cstr s"
  shows "case find (\<lambda>t. \<exists>its. t = HNode s its) ts of
      None \<Rightarrow> child_find b m p s = Some None
    | Some t \<Rightarrow> \<exists>c. child_find b m p s = Some (Some c) \<and> node_repr al b m par c t"
  using assms(2,1,3)
proof (induction arbitrary: p rule: list_all2_induct)
  case Nil
  then show ?case by (subst child_find.simps) simp
next
  case (Cons c cs t ts)
  from Cons.prems(1) obtain n where n: "p = Some c" "tm_nodes m c = Some n" "sib_chain m (rn_sibling n) cs" by auto
  from Cons.hyps(1) obtain nm its where t: "t = HNode nm its" "stands b (rn_name n) (enc_string al nm)"
    using n(2) by cases auto
  have "strcmp_at b (rn_name n) s = Some (s = nm)"
    by (rule strcmp_string [OF t(2) _ assms(4)]) (use Cons.prems(2) t(1) in simp)
  then have step: "child_find b m p s = (if s = nm then Some (Some c) else child_find b m (rn_sibling n) s)"
    using n(1,2) by (subst child_find.simps) simp
  show ?case
  proof (cases "s = nm")
    case True
    then show ?thesis using step t(1) Cons.hyps(1) by auto
  next
    case False
    then show ?thesis using step t(1) Cons.IH [OF n(3)] Cons.prems(2) by (simp split: option.splits)
  qed
qed

text \<open>
  Search among the children: \<^verbatim>\<open>HcsGetChildNode\<close> returns the first child of that
  name, and NULL when the node has none.
\<close>

theorem HcsGetChildNode_first:
  assumes "node_repr al b m par p (HNode nm its)" "\<forall>it \<in> set its. item_ok it" "wf_cstr s"
  shows "case find (\<lambda>t. \<exists>its'. t = HNode s its') (filter is_node its) of
      None \<Rightarrow> HcsGetChildNode b m (Some p) (Some s) = Some None
    | Some t \<Rightarrow> \<exists>c. HcsGetChildNode b m (Some p) (Some s) = Some (Some c) \<and> node_repr al b m (Some p) c t"
proof -
  from assms(1) obtain n cs where n: "tm_nodes m p = Some n" "sib_chain m (rn_child n) cs"
    "list_all2 (node_repr al b m (Some p)) cs (filter is_node its)" by (auto elim: node_reprE)
  have "\<forall>t \<in> set (filter is_node its). item_ok t" using assms(2) by auto
  from child_find_chain [OF n(2,3) this assms(3)] show ?thesis
    using n(1) by (simp add: HcsGetChildNode_def split: option.splits)
qed

theorem HcsGetChildNode_first_witness:
  "\<exists>m. HcsGetChildNode (enc_item False sample_item) m (Some 0) (Some ''c'') = Some None"
proof -
  obtain m where m: "node_repr False (enc_item False sample_item) m None 0 sample_item"
    using sample_tree by (auto simp: tree_repr_def)
  have ok: "\<forall>it \<in> set [HAttr ''match_attr'' (HScalar (HString ''x'')), HAttr ''v'' (HArray [HByte 5, HWord 6])]. item_ok it"
    by (simp add: wf_cstr_def)
  have "wf_cstr ''c''" by (simp add: wf_cstr_def)
  from HcsGetChildNode_first [OF m [unfolded sample_item_def] ok this] show ?thesis
    unfolding sample_item_def by (intro exI [of _ m]) (simp add: is_node_def)
qed

end
