(* ===== verification/Hdf_Attribute.thy ===== *)
theory Hdf_Attribute
  imports Core_State Hdf_Slist Hcs_Tree_If
begin

text \<open>
  The configuration of hosts and devices (core/common/src/hdf_attribute.c): the host list and the
  device lists are read from the configuration tree, in the order of their priorities. The tree is
  given by the alignment flag, the blob, the tree memory and the root that
  \<^verbatim>\<open>HdfGetHcsRootNode\<close> returns. Names are read from the blob when they are stored.
\<close>

record hcs_tree =
  ht_al :: bool
  ht_blob :: "u8 list"
  ht_mem :: tree_mem
  ht_root :: "nat option"

abbreviation (input) MAX_PRIORITY_NUM :: u16 where "MAX_PRIORITY_NUM \<equiv> 200"
abbreviation (input) DEFATLT_DEV_PRIORITY :: u16 where "DEFATLT_DEV_PRIORITY \<equiv> 100"
abbreviation (input) DEVICE_PRELOAD_DISABLE :: u16 where "DEVICE_PRELOAD_DISABLE \<equiv> 2"

record HdfHostInfo =
  hi_hostId :: u16
  hi_priority :: u16
  hi_hostName :: "cstr option"

text \<open>The string at a pointer into the blob; the default string of these callers is NULL.\<close>

definition read_str :: "u8 list \<Rightarrow> nat \<Rightarrow> cstr option" where
  "read_str b p = (if 0 \<in> set (drop p b) then Some (cstr_at (drop p b)) else UB)"

definition get_string :: "hcs_tree \<Rightarrow> nat \<Rightarrow> cstr \<Rightarrow> (int \<times> cstr option) option" where
  "get_string t p nm = do {
     (ret, s) \<leftarrow> HcsGetString (ht_al t) (ht_blob t) (ht_mem t) (Some p) (Some nm) True;
     (case s of
        Some (InBlob q) \<Rightarrow> do { str \<leftarrow> read_str (ht_blob t) q; Some (ret, Some str) }
      | _ \<Rightarrow> Some (ret, None))
   }"

definition get_u16 :: "hcs_tree \<Rightarrow> nat \<Rightarrow> cstr \<Rightarrow> u16 \<Rightarrow> u16 \<Rightarrow> (int \<times> u16) option" where
  "get_u16 t p nm old def = do {
     (ret, v) \<leftarrow> HcsGetUint16 (ht_al t) (ht_blob t) (ht_mem t) (Some p) (Some nm) True def;
     Some (ret, case v of None \<Rightarrow> old | Some x \<Rightarrow> x)
   }"

section \<open>Hosts\<close>

definition HdfHostListCompare :: "HdfHostInfo option \<Rightarrow> HdfHostInfo option \<Rightarrow> bool" where
  "HdfHostListCompare x y =
     (case (x, y) of (Some a, Some b) \<Rightarrow> hi_priority a \<le> hi_priority b | _ \<Rightarrow> False)"

definition GetHdfManagerNode :: "hcs_tree \<Rightarrow> nat option \<Rightarrow> nat option option" where
  "GetHdfManagerNode t node =
     HcsGetNodeByMatchAttr (ht_al t) (ht_blob t) (ht_mem t) (ht_root t) node (Some ''hdf_manager'')"

definition GetHostInfo :: "hcs_tree \<Rightarrow> nat \<Rightarrow> HdfHostInfo \<Rightarrow> (HdfHostInfo \<times> bool) option" where
  "GetHostInfo t hostNode hi = do {
     (r1, nm) \<leftarrow> get_string t hostNode ''hostName'';
     (let hi1 = hi\<lparr>hi_hostName := nm\<rparr> in
      if r1 \<noteq> HDF_SUCCESS \<or> nm = Some [] then Some (hi1, False)
      else do {
        (r2, readNum) \<leftarrow> get_u16 t hostNode ''priority'' 0 0;
        (if r2 \<noteq> HDF_SUCCESS \<or> readNum > MAX_PRIORITY_NUM then Some (hi1, False)
         else Some (hi1\<lparr>hi_priority := readNum\<rparr>, True))
      })
   }"

text \<open>
  The loop over the children of the manager node; \<^verbatim>\<open>alloc\<close> says whether the \<^verbatim>\<open>n\<close>-th
  allocation of a host description succeeds. A description that is not valid is freed and uses no
  identifier.
\<close>

partial_function (option) host_list_loop ::
  "hcs_tree \<Rightarrow> (nat \<Rightarrow> bool) \<Rightarrow> nat \<Rightarrow> nat option \<Rightarrow> u16 \<Rightarrow> HdfHostInfo list \<Rightarrow> (HdfHostInfo list \<times> bool) option" where
  "host_list_loop t alloc k hostNode hostId hostList =
     (case hostNode of
        None \<Rightarrow> Some (hostList, True)
      | Some p \<Rightarrow>
          if \<not> alloc k then Some ([], False)
          else do {
            n \<leftarrow> tm_nodes (ht_mem t) p;
            (hi, ok) \<leftarrow> GetHostInfo t p \<lparr>hi_hostId = 0, hi_priority = 0, hi_hostName = None\<rparr>;
            (if \<not> ok then host_list_loop t alloc (Suc k) (rn_sibling n) hostId hostList
             else host_list_loop t alloc (Suc k) (rn_sibling n) (hostId + 1)
                    (order_add HdfHostListCompare (hi\<lparr>hi_hostId := hostId\<rparr>) hostList))
          })"

definition HdfAttributeManagerGetHostList ::
  "hcs_tree \<Rightarrow> (nat \<Rightarrow> bool) \<Rightarrow> HdfHostInfo list option \<Rightarrow> (HdfHostInfo list option \<times> bool) option" where
  "HdfAttributeManagerGetHostList t alloc hostList =
     (case hostList of
        None \<Rightarrow> Some (hostList, False)
      | Some hs \<Rightarrow> do {
          manager \<leftarrow> GetHdfManagerNode t (ht_root t);
          (case manager of
             None \<Rightarrow> Some (hostList, False)
           | Some p \<Rightarrow> do {
               n \<leftarrow> tm_nodes (ht_mem t) p;
               (hs', ok) \<leftarrow> host_list_loop t alloc 0 (rn_child n) 0 hs;
               Some (Some hs', ok)
             })
        })"

section \<open>Devices of a host\<close>

definition HdfDeviceListCompare :: "HdfDeviceInfo option \<Rightarrow> HdfDeviceInfo option \<Rightarrow> bool" where
  "HdfDeviceListCompare x y =
     (case (x, y) of (Some a, Some b) \<Rightarrow> di_priority a \<le> di_priority b | _ \<Rightarrow> False)"

partial_function (option) host_node_loop :: "hcs_tree \<Rightarrow> cstr \<Rightarrow> nat option \<Rightarrow> nat option option" where
  "host_node_loop t inHostName hostNode =
     (case hostNode of
        None \<Rightarrow> Some None
      | Some p \<Rightarrow> do {
          n \<leftarrow> tm_nodes (ht_mem t) p;
          (ret, nm) \<leftarrow> get_string t p ''hostName'';
          (if ret \<noteq> HDF_SUCCESS then host_node_loop t inHostName (rn_sibling n)
           else if nm = Some inHostName then Some hostNode
           else host_node_loop t inHostName (rn_sibling n))
        })"

definition GetHostNode :: "hcs_tree \<Rightarrow> cstr option \<Rightarrow> nat option option" where
  "GetHostNode t inHostName =
     (case inHostName of
        None \<Rightarrow> Some None
      | Some nm \<Rightarrow> do {
          manager \<leftarrow> GetHdfManagerNode t (ht_root t);
          (case manager of
             None \<Rightarrow> Some None
           | Some p \<Rightarrow> do { n \<leftarrow> tm_nodes (ht_mem t) p; host_node_loop t nm (rn_child n) })
        })"

text \<open>\<^verbatim>\<open>SERVICE_POLICY_INVALID\<close> is 5 and \<^verbatim>\<open>DEVICE_PRELOAD_INVALID\<close> is 3.\<close>

definition CheckDeviceInfo :: "HdfDeviceInfo \<Rightarrow> bool option" where
  "CheckDeviceInfo di =
     (if di_policy di \<ge> 5 then Some False
      else if di_priority di > MAX_PRIORITY_NUM then Some False
      else if di_preload di \<ge> 3 then Some False
      else map_option (\<lambda>m. m \<noteq> []) (di_moduleName di))"

definition HdfDeviceInfoConstruct :: HdfDeviceInfo where
  "HdfDeviceInfoConstruct =
     \<lparr>di_isDynamic = False, di_status = 0, di_deviceType = 0, di_deviceId = 0, di_policy = 5, di_priority = 0,
      di_preload = 0, di_permission = 0, di_moduleName = None, di_svcName = None, di_deviceMatchAttr = None\<rparr>"

definition GetDeviceNodeInfo :: "hcs_tree \<Rightarrow> nat \<Rightarrow> HdfDeviceInfo \<Rightarrow> (HdfDeviceInfo \<times> bool) option" where
  "GetDeviceNodeInfo t deviceNode di = do {
     (_, policy) \<leftarrow> get_u16 t deviceNode ''policy'' (di_policy di) 0;
     (_, priority) \<leftarrow> get_u16 t deviceNode ''priority'' (di_priority di) DEFATLT_DEV_PRIORITY;
     (_, preload) \<leftarrow> get_u16 t deviceNode ''preload'' (di_preload di) 0;
     (_, permission) \<leftarrow> get_u16 t deviceNode ''permission'' (di_permission di) 0;
     (_, match) \<leftarrow> get_string t deviceNode ''deviceMatchAttr'';
     (r1, moduleName) \<leftarrow> get_string t deviceNode ''moduleName'';
     (let d1 = di\<lparr>di_policy := policy, di_priority := priority, di_preload := preload, di_permission := permission,
                  di_deviceMatchAttr := match, di_moduleName := moduleName\<rparr> in
      if r1 \<noteq> HDF_SUCCESS then Some (d1, False)
      else do {
        (r2, svcName) \<leftarrow> get_string t deviceNode ''serviceName'';
        (let d2 = d1\<lparr>di_svcName := svcName\<rparr> in
         if r2 \<noteq> HDF_SUCCESS then Some (d2, False)
         else do { ok \<leftarrow> CheckDeviceInfo d2; Some (d2, ok) })
      })
   }"

text \<open>The two lists of the client, the index of the next node (an 8-bit counter) and the next allocation.\<close>

type_synonym dev_lists = "HdfDeviceInfo list \<times> HdfDeviceInfo list"

partial_function (option) node_list_loop ::
  "hcs_tree \<Rightarrow> (nat \<Rightarrow> bool) \<Rightarrow> u16 \<Rightarrow> u16 \<Rightarrow> nat \<Rightarrow> nat option \<Rightarrow> u8 \<Rightarrow> dev_lists \<Rightarrow> (dev_lists \<times> nat \<times> bool) option" where
  "node_list_loop t alloc hostId deviceIdx k devNodeResource deviceNodeIdx dls =
     (case devNodeResource of
        None \<Rightarrow> Some (dls, k, deviceNodeIdx > 1)
      | Some p \<Rightarrow>
          if \<not> alloc k then Some (dls, Suc k, False)
          else do {
            n \<leftarrow> tm_nodes (ht_mem t) p;
            (di, ok) \<leftarrow> GetDeviceNodeInfo t p HdfDeviceInfoConstruct;
            (if \<not> ok then node_list_loop t alloc hostId deviceIdx (Suc k) (rn_sibling n) deviceNodeIdx dls
             else
               (let di' = di\<lparr>di_deviceId := MK_DEVID (ucast hostId) (ucast deviceIdx) (ucast deviceNodeIdx)\<rparr>;
                    dls' = (if di_preload di' \<noteq> DEVICE_PRELOAD_DISABLE
                              then (order_add HdfDeviceListCompare di' (fst dls), snd dls)
                              else (fst dls, di' # snd dls))
                in node_list_loop t alloc hostId deviceIdx (Suc k) (rn_sibling n) (deviceNodeIdx + 1) dls'))
          })"

definition GetDevcieNodeList ::
  "hcs_tree \<Rightarrow> (nat \<Rightarrow> bool) \<Rightarrow> u16 \<Rightarrow> u16 \<Rightarrow> nat \<Rightarrow> nat \<Rightarrow> dev_lists \<Rightarrow> (dev_lists \<times> nat \<times> bool) option" where
  "GetDevcieNodeList t alloc hostId deviceIdx k device dls = do {
     n \<leftarrow> tm_nodes (ht_mem t) device;
     node_list_loop t alloc hostId deviceIdx k (rn_child n) 1 dls
   }"

partial_function (option) device_list_loop ::
  "hcs_tree \<Rightarrow> (nat \<Rightarrow> bool) \<Rightarrow> u16 \<Rightarrow> u16 \<Rightarrow> nat \<Rightarrow> nat option \<Rightarrow> dev_lists \<Rightarrow> (dev_lists \<times> int) option" where
  "device_list_loop t alloc hostId deviceIdx k device dls =
     (case device of
        None \<Rightarrow> Some (dls, HDF_SUCCESS)
      | Some p \<Rightarrow> do {
          n \<leftarrow> tm_nodes (ht_mem t) p;
          (dls', k', ok) \<leftarrow> GetDevcieNodeList t alloc hostId deviceIdx k p dls;
          (if \<not> ok then Some (dls', HDF_DEV_ERR_NO_DEVICE)
           else device_list_loop t alloc hostId (deviceIdx + 1) k' (rn_sibling n) dls')
        })"

definition HdfAttributeManagerGetDeviceList ::
  "hcs_tree \<Rightarrow> (nat \<Rightarrow> bool) \<Rightarrow> DevHostServiceClnt option \<Rightarrow> (DevHostServiceClnt option \<times> int) option" where
  "HdfAttributeManagerGetDeviceList t alloc hostClnt =
     (case hostClnt of
        None \<Rightarrow> Some (hostClnt, HDF_ERR_INVALID_PARAM)
      | Some c \<Rightarrow> do {
          hostNode \<leftarrow> GetHostNode t (hc_hostName c);
          (case hostNode of
             None \<Rightarrow> Some (hostClnt, HDF_DEV_ERR_NO_DEVICE)
           | Some p \<Rightarrow> do {
               n \<leftarrow> tm_nodes (ht_mem t) p;
               (dls, ret) \<leftarrow> device_list_loop t alloc (hc_hostId c) 1 0 (rn_child n) (hc_unloadDevInfos c, hc_dynamicDevInfos c);
               Some (Some (c\<lparr>hc_unloadDevInfos := fst dls, hc_dynamicDevInfos := snd dls\<rparr>), ret)
             })
        })"

end
