(* ===== verification/Devmgr_Service.thy ===== *)
theory Devmgr_Service
  imports Devhost_Service Hdf_Attribute
begin

text \<open>
  The device manager (core/manager/src/devmgr_service.c, devhost_service_clnt.c,
  hdf_driver_installer.c) and its start (core/common/src/devmgr_service_start.c): it starts the
  hosts of the configuration, installs their drivers in the order of the priorities, loads and
  unloads dynamic devices, and passes on changes of the power state.
\<close>

abbreviation (input) DEVICE_PRELOAD_ENABLE_STEP2 :: u16 where "DEVICE_PRELOAD_ENABLE_STEP2 \<equiv> 1"
abbreviation (input) DEV_MGR_SLOW_LOAD :: int where "DEV_MGR_SLOW_LOAD \<equiv> 0"
abbreviation (input) DEV_MGR_QUICK_LOAD :: int where "DEV_MGR_QUICK_LOAD \<equiv> 1"

definition client_at :: "nat \<Rightarrow> ('m, 's) hdf_core \<Rightarrow> DevHostServiceClnt option" where
  "client_at p w = find (\<lambda>c. hc_addr c = p) (c_clients w)"

definition set_client :: "nat \<Rightarrow> (DevHostServiceClnt \<Rightarrow> DevHostServiceClnt) \<Rightarrow> ('m, 's) hdf_core \<Rightarrow> ('m, 's) hdf_core" where
  "set_client p f w = w\<lparr>c_clients := update_client p f (c_clients w)\<rparr>"

section \<open>Installing drivers\<close>

text \<open>
  The loop of \<^verbatim>\<open>DevHostServiceClntInstallDriver\<close>; the second component is what stays
  on the list of devices to load. In the kernel an installed device is taken off the list.
\<close>

fun install_loop ::
  "'s core_env \<Rightarrow> int \<Rightarrow> nat option \<Rightarrow> HdfDeviceInfo list \<Rightarrow> ('m, 's) hdf_core \<Rightarrow> (('m, 's) hdf_core \<times> HdfDeviceInfo list) option" where
  "install_loop env quick h [] w = Some (w, [])"
| "install_loop env quick h (di # dis) w =
     (if di_preload di = DEVICE_PRELOAD_DISABLE \<or> (quick = DEV_MGR_QUICK_LOAD \<and> di_preload di = DEVICE_PRELOAD_ENABLE_STEP2)
      then do { (w1, left) \<leftarrow> install_loop env quick h dis w; Some (w1, di # left) }
      else do {
        (w1, ret) \<leftarrow> DevHostServiceAddDevice env h (Some di) w;
        (w2, left) \<leftarrow> install_loop env quick h dis w1;
        Some (w2, if ret \<noteq> HDF_SUCCESS then di # left else left)
      })"

definition DevHostServiceClntInstallDriver ::
  "'s core_env \<Rightarrow> int \<Rightarrow> nat \<Rightarrow> ('m, 's) hdf_core \<Rightarrow> (('m, 's) hdf_core \<times> int) option" where
  "DevHostServiceClntInstallDriver env quick hostClnt w = do {
     c \<leftarrow> client_at hostClnt w;
     (if hc_hostService c = None then Some (w, HDF_FAILURE)
      else do {
        (w1, left) \<leftarrow> install_loop env quick (hc_hostService c) (hc_unloadDevInfos c) w;
        Some (set_client hostClnt (\<lambda>c. c\<lparr>hc_unloadDevInfos := left\<rparr>) w1, HDF_SUCCESS)
      })
   }"

definition DevHostServiceClntNewInstance ::
  "'s core_env \<Rightarrow> u16 \<Rightarrow> cstr option \<Rightarrow> ('m, 's) hdf_core \<Rightarrow> ('m, 's) hdf_core \<times> DevHostServiceClnt option" where
  "DevHostServiceClntNewInstance env hostId hostName w =
     (case ask (ce_hostClnt env) w of
        (w1, ok) \<Rightarrow>
          if \<not> ok then (w1, None)
          else (case fresh w1 of
                  (w2, p) \<Rightarrow>
                    (w2, Some \<lparr>hc_addr = p, hc_devices = [], hc_unloadDevInfos = [], hc_dynamicDevInfos = [],
                               hc_hostService = None, hc_hostId = hostId, hc_hostPid = - 1, hc_hostName = hostName,
                               hc_stopFlag = False\<rparr>)))"

definition DevmgrServiceAttachDeviceHost ::
  "'s core_env \<Rightarrow> int \<Rightarrow> u16 \<Rightarrow> nat option \<Rightarrow> ('m, 's) hdf_core \<Rightarrow> (('m, 's) hdf_core \<times> int) option" where
  "DevmgrServiceAttachDeviceHost env quick hostId hostService w =
     (case DevmgrServiceFindDeviceHost (ucast hostId) w of
        None \<Rightarrow> Some (w, HDF_FAILURE)
      | Some c \<Rightarrow>
          if hostService = None then Some (w, HDF_FAILURE)
          else DevHostServiceClntInstallDriver env quick (hc_addr c)
                 (set_client (hc_addr c) (\<lambda>c. c\<lparr>hc_hostService := hostService\<rparr>) w))"

definition DevHostServiceStartService ::
  "'s core_env \<Rightarrow> int \<Rightarrow> nat option \<Rightarrow> ('m, 's) hdf_core \<Rightarrow> (('m, 's) hdf_core \<times> int) option" where
  "DevHostServiceStartService env quick service w =
     (case service of
        None \<Rightarrow> Some (w, HDF_FAILURE)
      | Some h \<Rightarrow> do { hs \<leftarrow> c_hosts w h; DevmgrServiceAttachDeviceHost env quick (hs_hostId hs) service w })"

section \<open>Starting hosts\<close>

definition DriverInstallerStartDeviceHost ::
  "'s core_env \<Rightarrow> int \<Rightarrow> u16 \<Rightarrow> cstr option \<Rightarrow> ('m, 's) hdf_core \<Rightarrow> (('m, 's) hdf_core \<times> int) option" where
  "DriverInstallerStartDeviceHost env quick devHostId devHostName w =
     (case DevHostServiceNewInstance env devHostId devHostName w of
        (w1, None) \<Rightarrow> Some (w1, HDF_FAILURE)
      | (w1, Some h) \<Rightarrow> do {
          (w2, ret) \<leftarrow> DevHostServiceStartService env quick (Some h) w1;
          w3 \<leftarrow> (if ret \<noteq> HDF_SUCCESS then DevHostServiceFreeInstance (Some h) w2 else Some w2);
          Some (w3, ret)
        })"

text \<open>
  The table of the installer: \<^verbatim>\<open>DriverInstallerConstruct\<close> sets one entry, so the other is
  NULL in the static object.
\<close>

record IDriverInstaller =
  StartDeviceHost_set :: bool
  StopDeviceHost_set :: bool

definition DriverInstallerConstruct :: IDriverInstaller where
  "DriverInstallerConstruct = \<lparr>StartDeviceHost_set = True, StopDeviceHost_set = False\<rparr>"

text \<open>Waiting for the host to attach, at most 300 rounds; in the kernel nothing attaches it meanwhile.\<close>

fun wait_host :: "nat \<Rightarrow> bool \<Rightarrow> nat" where
  "wait_host 0 attached = 0"
| "wait_host (Suc n) attached = (if attached then Suc n else wait_host n attached)"

definition DevmgrServiceStartHostProcess ::
  "'s core_env \<Rightarrow> int \<Rightarrow> nat \<Rightarrow> bool \<Rightarrow> ('m, 's) hdf_core \<Rightarrow> (('m, 's) hdf_core \<times> int) option" where
  "DevmgrServiceStartHostProcess env quick hostClnt sync w =
     (if \<not> StartDeviceHost_set DriverInstallerConstruct then Some (w, HDF_FAILURE)
      else do {
        c \<leftarrow> client_at hostClnt w;
        (w1, pid) \<leftarrow> DriverInstallerStartDeviceHost env quick (hc_hostId c) (hc_hostName c) w;
        (let w2 = set_client hostClnt (\<lambda>c. c\<lparr>hc_hostPid := pid\<rparr>) w1 in
         if pid = HDF_FAILURE then Some (w2, HDF_FAILURE)
         else
           (let w3 = set_client hostClnt (\<lambda>c. c\<lparr>hc_stopFlag := False\<rparr>) w2 in
            if \<not> sync then Some (w3, HDF_SUCCESS)
            else do {
              c3 \<leftarrow> client_at hostClnt w3;
              Some (w3, if wait_host 300 (hc_hostService c3 \<noteq> None) = 0 then HDF_ERR_TIMEOUT else HDF_SUCCESS)
            }))
      })"

text \<open>The client is on the list before its host is started, because the host attaches to it.\<close>

definition DevmgrServiceStartDeviceHost ::
  "'s core_env \<Rightarrow> hcs_tree \<Rightarrow> (nat \<Rightarrow> bool) \<Rightarrow> int \<Rightarrow> HdfHostInfo \<Rightarrow> ('m, 's) hdf_core \<Rightarrow> (('m, 's) hdf_core \<times> int) option" where
  "DevmgrServiceStartDeviceHost env t alloc quick hostAttr w =
     (case DevHostServiceClntNewInstance env (hi_hostId hostAttr) (hi_hostName hostAttr) w of
        (w1, None) \<Rightarrow> Some (w1, HDF_FAILURE)
      | (w1, Some c0) \<Rightarrow> do {
          (c1, ret) \<leftarrow> HdfAttributeManagerGetDeviceList t alloc (Some c0);
          c \<leftarrow> c1;
          (if ret \<noteq> HDF_SUCCESS then Some (w1, HDF_FAILURE)
           else
             (let w2 = w1\<lparr>c_clients := c_clients w1 @ [c]\<rparr> in
              if hc_unloadDevInfos c = [] then Some (w2, HDF_SUCCESS)
              else do {
                (w3, r) \<leftarrow> DevmgrServiceStartHostProcess env quick (hc_addr c) False w2;
                Some (if r \<noteq> HDF_SUCCESS
                      then (w3\<lparr>c_clients := filter (\<lambda>x. hc_addr x \<noteq> hc_addr c) (c_clients w3)\<rparr>, HDF_FAILURE)
                      else (w3, HDF_SUCCESS))
              }))
        })"

text \<open>The allocations of the host list are those of index 0, those of a host's devices follow.\<close>

fun start_hosts_loop ::
  "'s core_env \<Rightarrow> hcs_tree \<Rightarrow> (nat \<Rightarrow> nat \<Rightarrow> bool) \<Rightarrow> int \<Rightarrow> HdfHostInfo list \<Rightarrow> ('m, 's) hdf_core \<Rightarrow> ('m, 's) hdf_core option" where
  "start_hosts_loop env t alloc quick [] w = Some w"
| "start_hosts_loop env t alloc quick (h # hs) w = do {
     (w1, ret) \<leftarrow> DevmgrServiceStartDeviceHost env t (alloc (Suc (unat (hi_hostId h)))) quick h w;
     start_hosts_loop env t alloc quick hs w1
   }"

definition DevmgrServiceStartDeviceHosts ::
  "'s core_env \<Rightarrow> hcs_tree \<Rightarrow> (nat \<Rightarrow> nat \<Rightarrow> bool) \<Rightarrow> int \<Rightarrow> ('m, 's) hdf_core \<Rightarrow> (('m, 's) hdf_core \<times> int) option" where
  "DevmgrServiceStartDeviceHosts env t alloc quick w = do {
     (hostList, ok) \<leftarrow> HdfAttributeManagerGetHostList t (alloc 0) (Some []);
     hs \<leftarrow> hostList;
     (if \<not> ok then Some (w, HDF_SUCCESS)
      else do { w1 \<leftarrow> start_hosts_loop env t alloc quick hs w; Some (w1, HDF_SUCCESS) })
   }"

section \<open>Dynamic devices\<close>

text \<open>The comparison reads the service name of each description.\<close>

fun info_search :: "cstr \<Rightarrow> HdfDeviceInfo list \<Rightarrow> HdfDeviceInfo option option" where
  "info_search nm [] = Some None"
| "info_search nm (di # dis) =
     (case di_svcName di of
        None \<Rightarrow> UB
      | Some s \<Rightarrow> if s = nm then Some (Some di) else info_search nm dis)"

fun dynamic_search :: "cstr \<Rightarrow> DevHostServiceClnt list \<Rightarrow> (DevHostServiceClnt \<times> HdfDeviceInfo) option option" where
  "dynamic_search nm [] = Some None"
| "dynamic_search nm (c # cs) = do {
     found \<leftarrow> info_search nm (hc_dynamicDevInfos c);
     (case found of Some di \<Rightarrow> Some (Some (c, di)) | None \<Rightarrow> dynamic_search nm cs)
   }"

definition DevmgrServiceDynamicDevInfoFound ::
  "cstr \<Rightarrow> ('m, 's) hdf_core \<Rightarrow> (DevHostServiceClnt \<times> HdfDeviceInfo) option option" where
  "DevmgrServiceDynamicDevInfoFound svcName w = dynamic_search svcName (c_clients w)"

definition DevmgrServiceLoadDevice ::
  "'s core_env \<Rightarrow> int \<Rightarrow> cstr option \<Rightarrow> ('m, 's) hdf_core \<Rightarrow> (('m, 's) hdf_core \<times> int) option" where
  "DevmgrServiceLoadDevice env quick svcName w =
     (case svcName of
        None \<Rightarrow> Some (w, HDF_ERR_INVALID_PARAM)
      | Some nm \<Rightarrow> do {
          found \<leftarrow> DevmgrServiceDynamicDevInfoFound nm w;
          (case found of
             None \<Rightarrow> Some (w, HDF_DEV_ERR_NO_DEVICE)
           | Some (c, di) \<Rightarrow>
               if di_preload di \<noteq> DEVICE_PRELOAD_DISABLE then Some (w, HDF_DEV_ERR_NORANGE)
               else do {
                 (w1, r) \<leftarrow> (if hc_hostPid c < 0 then DevmgrServiceStartHostProcess env quick (hc_addr c) True w
                             else Some (w, HDF_SUCCESS));
                 (if r \<noteq> HDF_SUCCESS then Some (w1, HDF_FAILURE)
                  else do {
                    c1 \<leftarrow> client_at (hc_addr c) w1;
                    h \<leftarrow> hc_hostService c1;
                    DevHostServiceAddDevice env (Some h) (Some di) w1
                  })
               })
        })"

definition DevmgrServiceStopHost :: "nat \<Rightarrow> ('m, 's) hdf_core \<Rightarrow> ('m, 's) hdf_core \<times> int" where
  "DevmgrServiceStopHost hostClnt w =
     (if \<not> StopDeviceHost_set DriverInstallerConstruct then (w, HDF_FAILURE)
      else (set_client hostClnt (\<lambda>c. c\<lparr>hc_stopFlag := True\<rparr>) w, HDF_SUCCESS))"

definition DevmgrServiceUnloadDevice :: "cstr option \<Rightarrow> ('m, 's) hdf_core \<Rightarrow> (('m, 's) hdf_core \<times> int) option" where
  "DevmgrServiceUnloadDevice svcName w =
     (case svcName of
        None \<Rightarrow> Some (w, HDF_ERR_INVALID_PARAM)
      | Some nm \<Rightarrow> do {
          found \<leftarrow> DevmgrServiceDynamicDevInfoFound nm w;
          (case found of
             None \<Rightarrow> Some (w, HDF_DEV_ERR_NO_DEVICE)
           | Some (c, di) \<Rightarrow>
               if di_preload di \<noteq> DEVICE_PRELOAD_DISABLE then Some (w, HDF_DEV_ERR_NO_DEVICE)
               else if hc_hostService c = None then Some (w, HDF_FAILURE)
               else do {
                 (w1, ret) \<leftarrow> DevHostServiceDelDevice (hc_hostService c) (di_deviceId di) w;
                 (if ret \<noteq> HDF_SUCCESS then Some (w1, ret)
                  else do {
                    c1 \<leftarrow> client_at (hc_addr c) w1;
                    Some (if hc_devices c1 \<noteq> [] then (w1, HDF_SUCCESS) else DevmgrServiceStopHost (hc_addr c) w1)
                  })
               })
        })"

section \<open>The second step of a quick start\<close>

text \<open>The interface of the host is called without a check.\<close>

fun left_loop ::
  "'s core_env \<Rightarrow> nat option \<Rightarrow> HdfDeviceInfo list \<Rightarrow> ('m, 's) hdf_core \<Rightarrow> (('m, 's) hdf_core \<times> HdfDeviceInfo list) option" where
  "left_loop env h [] w = Some (w, [])"
| "left_loop env h (di # dis) w =
     (if di_preload di = DEVICE_PRELOAD_ENABLE_STEP2
      then do {
        a \<leftarrow> h;
        (w1, ret) \<leftarrow> DevHostServiceAddDevice env (Some a) (Some di) w;
        (w2, left) \<leftarrow> left_loop env h dis w1;
        Some (w2, if ret \<noteq> HDF_SUCCESS then di # left else left)
      }
      else do { (w1, left) \<leftarrow> left_loop env h dis w; Some (w1, di # left) })"

fun left_clients :: "'s core_env \<Rightarrow> DevHostServiceClnt list \<Rightarrow> ('m, 's) hdf_core \<Rightarrow> ('m, 's) hdf_core option" where
  "left_clients env [] w = Some w"
| "left_clients env (c # cs) w = do {
     (w1, left) \<leftarrow> left_loop env (hc_hostService c) (hc_unloadDevInfos c) w;
     left_clients env cs (set_client (hc_addr c) (\<lambda>c. c\<lparr>hc_unloadDevInfos := left\<rparr>) w1)
   }"

definition DevmgrServiceLoadLeftDriver :: "'s core_env \<Rightarrow> ('m, 's) hdf_core \<Rightarrow> (('m, 's) hdf_core \<times> int) option" where
  "DevmgrServiceLoadLeftDriver env w = do { w1 \<leftarrow> left_clients env (c_clients w) w; Some (w1, HDF_SUCCESS) }"

definition DeviceManagerStartStep2 :: "'s core_env \<Rightarrow> int \<Rightarrow> ('m, 's) hdf_core \<Rightarrow> (('m, 's) hdf_core \<times> int) option" where
  "DeviceManagerStartStep2 env quick w =
     (if quick = DEV_MGR_SLOW_LOAD then Some (w, HDF_SUCCESS) else DevmgrServiceLoadLeftDriver env w)"

section \<open>Power\<close>

fun power_clients ::
  "HdfPowerState \<Rightarrow> DevHostServiceClnt list \<Rightarrow> int \<Rightarrow> ('m, 's) hdf_core \<Rightarrow> (('m, 's) hdf_core \<times> int) option" where
  "power_clients state [] result w = Some (w, result)"
| "power_clients state (c # cs) result w = do {
     (w1, r) \<leftarrow> (if hc_hostService c \<noteq> None then DevHostServicePmNotify (hc_hostService c) state w else Some (w, HDF_SUCCESS));
     power_clients state cs (if r \<noteq> HDF_SUCCESS then HDF_FAILURE else result) w1
   }"

definition DevmgrServicePowerStateChange :: "HdfPowerState \<Rightarrow> ('m, 's) hdf_core \<Rightarrow> (('m, 's) hdf_core \<times> int) option" where
  "DevmgrServicePowerStateChange powerState w =
     (if \<not> IsValidPowerState powerState then Some (w, HDF_ERR_INVALID_PARAM)
      else if IsPowerWakeState powerState then power_clients powerState (c_clients w) HDF_SUCCESS w
      else power_clients powerState (rev (c_clients w)) HDF_SUCCESS w)"

end
