(* ===== verification/Registry_Safety.thy ===== *)
theory Registry_Safety
  imports Node_Contracts Devmgr_Service
begin

text \<open>
  Whatever the device manager and the drivers ask of the hosts and of device objects, in any order
  and with any outcome of the allocations and of the driver functions, as long as drivers update
  only what they have published: the registry of services only refers to device nodes that exist,
  are published and carry a name with the key they are registered under.
\<close>

section \<open>Every operation keeps the registry sound\<close>

context service_registry
begin

definition winv :: "('m, 's) hdf_core \<Rightarrow> bool" where
  "winv w \<longleftrightarrow> reg_inv w \<and> (\<forall>x \<ge> c_next w. c_nodes w x = None)"

lemma winv_same_nodes:
  "winv w \<Longrightarrow> c_svcmgr w' = c_svcmgr w \<Longrightarrow> c_nodes w' = c_nodes w \<Longrightarrow> c_next w \<le> c_next w' \<Longrightarrow> winv w'"
  by (simp add: winv_def)

lemma winv_put_node:
  assumes "winv w" "c_nodes w a = Some n"
    and "nd_servStatus n' = nd_servStatus n" "nd_servName n' = nd_servName n \<or> \<not> nd_servStatus n"
  shows "winv (put_node a (Some n') w)"
proof -
  have "reg_rel (c_svcmgr w) ((c_nodes w)(a \<mapsto> n'))"
    using assms reg_rel_same [of "c_svcmgr w" "c_nodes w" a n n'] reg_rel_unpublished [of "c_svcmgr w" "c_nodes w" a]
    by (auto simp: winv_def)
  then show ?thesis
    using assms(1,2) by (auto simp: winv_def)
qed

lemma winv_node_op: "winv w \<Longrightarrow> node_op a w w' \<Longrightarrow> winv w'"
  unfolding winv_def node_op_def node_frame_def node_kept_def by (metis option.distinct(1))

lemma winv_freed: "winv w \<Longrightarrow> node_freed a n w w' \<Longrightarrow> winv w'"
  unfolding winv_def node_freed_def by (elim conjE, intro conjI) (assumption, simp)

lemma winvD: "winv w \<Longrightarrow> reg_inv w"
  by (simp add: winv_def)

lemma winv_simps [simp]:
  "winv (set_token t v w) \<longleftrightarrow> winv w" "winv (set_device d dv w) \<longleftrightarrow> winv w" "winv (set_host h hv w) \<longleftrightarrow> winv w"
  "winv (tick w) \<longleftrightarrow> winv w" "winv (log_call c b w) \<longleftrightarrow> winv w" "winv (w\<lparr>c_connected := cn\<rparr>) \<longleftrightarrow> winv w"
  "winv (w\<lparr>c_clients := cl\<rparr>) \<longleftrightarrow> winv w" "winv (w\<lparr>c_calls := ca\<rparr>) \<longleftrightarrow> winv w"
  by (simp_all add: winv_def)

lemma winv_Free: "winv w \<Longrightarrow> HdfDeviceNodeFreeInstance a w = Some w' \<Longrightarrow> winv w'"
proof -
  assume w: "winv w" and f: "HdfDeviceNodeFreeInstance a w = Some w'"
  then obtain n where "c_nodes w a = Some n"
    by (auto simp: HdfDeviceNodeFreeInstance_def DeviceNodeExtRelease_def DeviceNodeExtRemoveService_def do_simps)
  then show ?thesis
    using Free_op [OF _ _ f] w winv_freed [OF w] by (auto simp: winv_def)
qed

lemma winv_Unlaunch: "winv w \<Longrightarrow> HdfDeviceUnlaunchNode a w = Some w' \<Longrightarrow> winv w'"
proof -
  assume w: "winv w" and f: "HdfDeviceUnlaunchNode a w = Some w'"
  then obtain n where n: "c_nodes w a = Some n"
    by (auto simp: HdfDeviceUnlaunchNode_def do_simps)
  from Unlaunch_op [OF _ n f] w show ?thesis
    unfolding winv_def node_frame_def by (metis n option.distinct(1))
qed

lemma winv_NewInstance:
  assumes w: "winv w" and f: "HdfDeviceNodeNewInstance env di driver w = Some (w', r)"
  shows "winv w' \<and> (\<forall>a. r = Some a \<longrightarrow> (\<exists>n. c_nodes w' a = Some n \<and> \<not> nd_servStatus n))"
proof (cases di)
  case None
  then show ?thesis using w f by (simp add: HdfDeviceNodeNewInstance_def)
next
  case (Some d)
  from NewInstance_op [OF _ _ f [unfolded Some]] w show ?thesis
    by (auto simp: winv_def world_grows_def split: option.splits)
qed

lemma winv_Attach: "winv w \<Longrightarrow> HdfDeviceAttach env dv a w = Some (w', r) \<Longrightarrow> winv w'"
proof -
  assume w: "winv w" and f: "HdfDeviceAttach env dv a w = Some (w', r)"
  show ?thesis
  proof (cases "dv = None \<or> a = None")
    case True
    then show ?thesis using w f by (auto simp: HdfDeviceAttach_def split: option.splits)
  next
    case False
    then obtain d b where d: "dv = Some d" "a = Some b" by auto
    with f obtain n v where n: "c_nodes w b = Some n" "c_devices w d = Some v"
      by (auto simp: HdfDeviceAttach_def do_simps)
    obtain v1 newId where v1: "(if nd_devId n = 0 then AcquireNodeDeivceId v else (v, Some (nd_devId n))) = (v1, newId)"
      by (rule prod.exhaust)
    show ?thesis
    proof (cases newId)
      case None
      then show ?thesis using w f d n v1 by (simp add: HdfDeviceAttach_def)
    next
      case (Some devid)
      with f d n v1 obtain t x w1 ret where l: "HdfDeviceLaunchNode env b
           (set_token t (Some devid) (put_node b (Some (n\<lparr>nd_devId := devid\<rparr>)) (set_device d (Some v1) w))) = Some (w1, ret)"
        and w': "(if ret = HDF_SUCCESS
                   then do {
                     n1 \<leftarrow> c_nodes w1 b;
                     v2 \<leftarrow> c_devices w1 d;
                     Some (put_node b (Some (n1\<lparr>nd_linked := True\<rparr>))
                             (set_device d (Some (UpdateDeivceNodeIdIndex (nd_devId n1) (v2\<lparr>dv_devNodes := dv_devNodes v2 @ [b]\<rparr>))) w1), ret)
                   }
                   else Some (w1, ret)) = Some (w', r)"
        by (auto simp: HdfDeviceAttach_def do_simps)
      let ?w0 = "set_token t (Some devid) (put_node b (Some (n\<lparr>nd_devId := devid\<rparr>)) (set_device d (Some v1) w))"
      have w0: "winv ?w0"
        using winv_put_node [of "set_device d (Some v1) w" b n] w n by simp
      with Launch_op [OF _ l] have "winv w1"
        by (meson winv_def winv_node_op)
      then show ?thesis
        using w' by (auto simp: do_simps intro!: winv_put_node split: if_splits)
    qed
  qed
qed

end

section \<open>Devices and hosts\<close>

lemma RegisterDriverEntry_frame:
  "HdfRegisterDriverEntry env e w = (w', r) \<Longrightarrow>
   c_nodes w' = c_nodes w \<and> c_devices w' = c_devices w \<and> c_tokens w' = c_tokens w \<and> c_clients w' = c_clients w \<and>
   c_svcmgr w' = c_svcmgr w \<and> c_hosts w' = c_hosts w \<and> c_next w \<le> c_next w'"
  by (auto simp: HdfRegisterDriverEntry_def fresh_def split: option.splits if_splits)

text \<open>What the driver manager leaves alone.\<close>

definition driver_frame :: "('m, 's) hdf_core \<Rightarrow> ('m, 's) hdf_core \<Rightarrow> bool" where
  "driver_frame w w' \<longleftrightarrow> c_nodes w' = c_nodes w \<and> c_devices w' = c_devices w \<and> c_tokens w' = c_tokens w \<and>
     c_clients w' = c_clients w \<and> c_svcmgr w' = c_svcmgr w \<and> c_hosts w' = c_hosts w \<and> c_next w \<le> c_next w'"

lemma driver_frame_fold:
  "driver_frame w v \<Longrightarrow> driver_frame w (fold (\<lambda>e v. fst (HdfRegisterDriverEntry env (Some e) v)) es v)"
proof (induction es arbitrary: v)
  case (Cons e es)
  obtain v' r where v': "HdfRegisterDriverEntry env (Some e) v = (v', r)"
    by (rule prod.exhaust)
  have "driver_frame w v'"
    using RegisterDriverEntry_frame [OF v'] Cons.prems by (auto simp: driver_frame_def)
  then show ?case using Cons.IH v' by simp
qed simp

lemma GetDriver_frame: "HdfDriverLoaderGetDriver env nm w = Some (w', r) \<Longrightarrow> driver_frame w w'"
proof -
  assume g: "HdfDriverLoaderGetDriver env nm w = Some (w', r)"
  have w: "driver_frame w w" "driver_frame w (tick w)" by (simp_all add: driver_frame_def)
  then show ?thesis
    using g driver_frame_fold [OF w(2)]
    by (auto simp: HdfDriverLoaderGetDriver_def HdfDriverManagerGetDriver_def do_simps Let_def
        split: option.splits if_splits prod.splits)
qed

context service_registry
begin

lemma winv_Detach: "winv w \<Longrightarrow> HdfDeviceDetach dv a w = Some (w', r) \<Longrightarrow> winv w'"
proof -
  assume w: "winv w" and f: "HdfDeviceDetach dv a w = Some (w', r)"
  have "winv w2" if "(if nd_linked n then put_node b (Some (n\<lparr>nd_linked := False\<rparr>)) (set_device d v w) else w) = w1"
    "c_nodes w b = Some n" "HdfDeviceUnlaunchNode b w1 = Some w2" for b n d v w1 w2
  proof -
    have "winv w1"
      using that(1,2) w by (auto intro!: winv_put_node)
    then show ?thesis using winv_Unlaunch that(3) by blast
  qed
  then show ?thesis
    using w f by (auto simp: HdfDeviceDetach_def do_simps split: option.splits if_splits)
qed

lemma winv_GetDriver: "winv w \<Longrightarrow> HdfDriverLoaderGetDriver env nm w = Some (w', r) \<Longrightarrow> winv w'"
  using GetDriver_frame [of env nm w w' r] winv_same_nodes [of w w'] by (auto simp: driver_frame_def)

lemma winv_free_nodes: "winv w \<Longrightarrow> free_nodes as w = Some w' \<Longrightarrow> winv w'"
  by (induction as arbitrary: w) (auto simp: do_simps intro: winv_Free)

lemma winv_Release: "winv w \<Longrightarrow> HdfDeviceRelease dv w = Some w' \<Longrightarrow> winv w'"
  by (auto simp: HdfDeviceRelease_def do_simps intro: winv_free_nodes)

lemma winv_FreeDevice: "winv w \<Longrightarrow> DevHostServiceFreeDevice h dv w = Some w' \<Longrightarrow> winv w'"
  using winv_Release [of "set_host h x w" for x]
  by (fastforce simp: DevHostServiceFreeDevice_def do_simps split: option.splits)

lemma winv_fresh: "winv w \<Longrightarrow> winv (fst (fresh w))"
  by (rule winv_same_nodes [of w]) simp_all

lemma winv_Query: "winv w \<Longrightarrow> DevHostServiceQueryOrAddDevice env h d w = Some (w', r) \<Longrightarrow> winv w'"
  using winv_fresh [of "tick w"]
  by (auto simp: DevHostServiceQueryOrAddDevice_def HdfDeviceCreate_def fresh_def do_simps split: if_splits)

lemma winv_add_error: "winv w \<Longrightarrow> add_error h dv ret w = Some (w', r) \<Longrightarrow> winv w'"
  by (auto simp: add_error_def do_simps split: if_splits intro: winv_FreeDevice)

lemma winv_AddDevice: "winv w \<Longrightarrow> DevHostServiceAddDevice env h di w = Some (w', r) \<Longrightarrow> winv w'"
proof -
  assume w: "winv w" and f: "DevHostServiceAddDevice env h di w = Some (w', r)"
  show ?thesis
  proof (cases "h = None \<or> di = None")
    case True
    then show ?thesis using w f by (auto simp: DevHostServiceAddDevice_def split: option.splits)
  next
    case False
    then obtain k d where "h = Some k" "di = Some d" by auto
    with f have "DevHostServiceAddDevice env (Some k) (Some d) w = Some (w', r)" by simp
    then show ?thesis
    proof (cases rule: AddDevice_cases)
      case no_device
      then show ?thesis using winv_Query [OF w] by simp
    next
      case busy
      then show ?thesis using winv_Query [OF w] by simp
    next
      case (no_driver w1 dv w2)
      show ?thesis
        by (rule winv_add_error [OF winv_GetDriver [OF winv_Query [OF w no_driver(1)] no_driver(3)] no_driver(4)])
    next
      case (no_node w1 dv w2 drv)
      show ?thesis
        using winv_NewInstance [OF winv_GetDriver [OF winv_Query [OF w no_node(1)] no_node(3)] no_node(4)] by simp
    next
      case (refused w1 dv w2 drv w3 a n w4 ret w5)
      have "winv w3"
        using winv_NewInstance [OF winv_GetDriver [OF winv_Query [OF w refused(1)] refused(3)] refused(4)] by simp
      then have "winv w4"
        by (rule winv_Attach [OF winv_put_node refused(6), OF _ refused(5)]) simp_all
      from winv_add_error [OF winv_Free [OF this refused(8)] refused(9)] show ?thesis .
    next
      case (added w1 dv w2 drv w3 a n)
      have "winv w3"
        using winv_NewInstance [OF winv_GetDriver [OF winv_Query [OF w added(1)] added(3)] added(4)] by simp
      then show ?thesis
        by (rule winv_Attach [OF winv_put_node added(6), OF _ added(5)]) simp_all
    qed (use w in simp)
  qed
qed

end

text \<open>Deleting devices and hosts, and changes of the power state.\<close>

context service_registry
begin

lemma winv_DelDevice: "winv w \<Longrightarrow> DevHostServiceDelDevice h d w = Some (w', r) \<Longrightarrow> winv w'"
proof -
  assume w: "winv w" and f: "DevHostServiceDelDevice h d w = Some (w', r)"
  show ?thesis
  proof (cases "h = None")
    case True
    then show ?thesis using w f by (simp add: DevHostServiceDelDevice_def DevHostServiceFindDevice_def)
  next
    case False
    then obtain k where k: "h = Some k" by blast
    with f obtain device where dev: "DevHostServiceFindDevice h (DEVICEID d) w = Some device"
      by (auto simp: DevHostServiceDelDevice_def do_simps)
    show ?thesis
    proof (cases device)
      case None
      then show ?thesis using w f k dev by (simp add: DevHostServiceDelDevice_def)
    next
      case (Some dv)
      with f k dev obtain devNode where node: "HdfDeviceGetDeviceNode dv d w = Some devNode"
        by (auto simp: DevHostServiceDelDevice_def do_simps)
      show ?thesis
      proof (cases devNode)
        case None
        then show ?thesis using w f k dev Some node by (simp add: DevHostServiceDelDevice_def)
      next
        case a: (Some a)
        with f k dev Some node obtain w1 ret where det: "HdfDeviceDetach (Some dv) (Some a) w = Some (w1, ret)"
          by (auto simp: DevHostServiceDelDevice_def do_simps)
        note w1 = winv_Detach [OF w det]
        show ?thesis
        proof (cases "ret = HDF_SUCCESS")
          case False
          then show ?thesis using w1 f k dev Some node a det by (simp add: DevHostServiceDelDevice_def)
        next
          case True
          with f k dev Some node a det obtain w2 b where "HdfDeviceNodeFreeInstance a w1 = Some w2"
            "(if b then DevHostServiceFreeDevice k (Some dv) w2 else Some w2) = Some w'"
            by (auto simp: DevHostServiceDelDevice_def do_simps)
          then show ?thesis
            using winv_Free [OF w1, of a w2] winv_FreeDevice [of w2 k "Some dv" w'] by (auto split: if_splits)
        qed
      qed
    qed
  qed
qed

lemma winv_free_devices: "winv w \<Longrightarrow> free_devices dvs w = Some w' \<Longrightarrow> winv w'"
  by (induction dvs arbitrary: w) (auto simp: do_simps intro: winv_Release)

lemma winv_FreeHost: "winv w \<Longrightarrow> DevHostServiceFreeInstance h w = Some w' \<Longrightarrow> winv w'"
  by (auto simp: DevHostServiceFreeInstance_def do_simps split: option.splits intro: winv_free_devices)

lemma winv_NewHost: "winv w \<Longrightarrow> DevHostServiceNewInstance env i nm w = (w', r) \<Longrightarrow> winv w'"
  using winv_fresh [of "tick w"] by (auto simp: DevHostServiceNewInstance_def fresh_def split: if_splits)

lemma winv_power_nodes: "winv w \<Longrightarrow> power_nodes st as w = Some w' \<Longrightarrow> winv w'"
proof (induction as arbitrary: w)
  case (Cons a as)
  from Cons.prems obtain w1 where w1: "power_node st a w = Some w1" "power_nodes st as w1 = Some w'"
    by (auto simp: do_simps)
  have "winv w1"
    using Cons.prems(1) w1(1)
    by (auto simp: power_node_def fold_log_call Let_def do_simps intro!: winv_put_node split: if_splits)
  then show ?case using Cons.IH w1(2) by blast
qed simp

lemma winv_power_devices: "winv w \<Longrightarrow> power_devices st dvs ret w = Some (w', r) \<Longrightarrow> winv w'"
proof (induction dvs arbitrary: w ret)
  case (Cons dv dvs)
  then show ?case
    by (auto simp: do_simps ApplyDevicesPowerState_def split: if_splits dest: winv_power_nodes)
qed simp

lemma winv_PmNotify: "winv w \<Longrightarrow> DevHostServicePmNotify h st w = Some (w', r) \<Longrightarrow> winv w'"
  by (auto simp: DevHostServicePmNotify_def do_simps split: option.splits if_splits dest: winv_power_devices)

end

section \<open>Device objects\<close>

context service_registry
begin

lemma winv_Subscribe: "winv w \<Longrightarrow> HdfDeviceSubscribeService env a nm cb w = Some (w', r) \<Longrightarrow> winv w'"
  by (auto simp: HdfDeviceSubscribeService_def do_simps case_prod_unfold split: option.splits)

lemma winv_RegisterPower: "winv w \<Longrightarrow> HdfPmRegisterPowerListener env a l w = Some (w', r) \<Longrightarrow> winv w'"
  by (auto simp: HdfPmRegisterPowerListener_def HdfDeviceNodeAddPowerStateListener_def do_simps Let_def
      split: option.splits if_splits intro!: winv_put_node)

lemma winv_UnregisterPower: "winv w \<Longrightarrow> HdfPmUnregisterPowerListener a w = Some w' \<Longrightarrow> winv w'"
  by (auto simp: HdfPmUnregisterPowerListener_def HdfDeviceNodeRemovePowerStateListener_def do_simps
      split: option.splits if_splits intro!: winv_put_node)

lemma winv_SetClass: "winv w \<Longrightarrow> HdfDeviceSetClass a cls w = Some (w', r) \<Longrightarrow> winv w'"
  by (auto simp: HdfDeviceSetClass_def do_simps split: option.splits if_splits intro!: winv_put_node)

lemma winv_SetServInfo: "winv w \<Longrightarrow> HdfDeviceObjectSetServInfo env a s w = Some (w', r) \<Longrightarrow> winv w'"
  by (auto simp: HdfDeviceObjectSetServInfo_def do_simps Let_def split: option.splits if_splits intro!: winv_put_node)

lemma winv_Create:
  assumes w: "winv w" and f: "DeviceNodeExtCreate env w = (w', r)"
  shows "winv w' \<and> (\<forall>a. r = Some a \<longrightarrow> (\<exists>n. c_nodes w' a = Some n \<and> \<not> nd_servStatus n))"
proof -
  have "reg_rel (c_svcmgr w) ((c_nodes w)(c_next w := x))" for x
    using w by (intro reg_rel_unpublished) (auto simp: winv_def)
  then show ?thesis
    using w f by (auto simp: DeviceNodeExtCreate_def HdfDeviceTokenNewInstance_def fresh_def winv_def split: if_splits)
qed

lemma winv_ObjectAlloc: "winv w \<Longrightarrow> HdfDeviceObjectAlloc env p nm w = Some (w', r) \<Longrightarrow> winv w'"
proof -
  assume w: "winv w" and f: "HdfDeviceObjectAlloc env p nm w = Some (w', r)"
  obtain w1 x where c: "DeviceNodeExtCreate env w = (w1, x)"
    by (rule prod.exhaust)
  note c' = winv_Create [OF w c]
  have "winv (put_node a (Some (n\<lparr>nd_driverName := dn, nd_hostService := hh, nd_device := dd\<rparr>)) (tick w1))"
    if "x = Some a" "c_nodes w1 a = Some n" for a n dn hh dd
    using c' that by (auto intro!: winv_put_node)
  then show ?thesis
    using w f c c' by (auto simp: HdfDeviceObjectAlloc_def do_simps split: option.splits if_splits intro: winv_Free [of "tick w1"])
qed

lemma winv_ObjectRelease: "winv w \<Longrightarrow> HdfDeviceObjectRelease a w = Some w' \<Longrightarrow> winv w'"
  by (auto simp: HdfDeviceObjectRelease_def do_simps split: option.splits if_splits intro: winv_Free dest: winv_Detach)

lemma winv_ObjectRegister: "winv w \<Longrightarrow> HdfDeviceObjectRegister env a w = Some (w', r) \<Longrightarrow> winv w'"
proof -
  assume w: "winv w" and f: "HdfDeviceObjectRegister env a w = Some (w', r)"
  have s: "winv (put_node b (Some (n\<lparr>nd_driver := d\<rparr>)) w1)"
    if "c_nodes w b = Some n" "HdfDriverLoaderGetDriver env nm w = Some (w1, d)" for b n d nm w1
  proof -
    have "c_nodes w1 b = Some n" using GetDriver_frame [OF that(2)] that(1) by (simp add: driver_frame_def)
    then show ?thesis using winv_GetDriver [OF w that(2)] by (auto intro!: winv_put_node)
  qed
  then show ?thesis
    using w f by (auto simp: HdfDeviceObjectRegister_def do_simps Let_def split: option.splits if_splits dest!: winv_Attach [rotated])
qed

lemma winv_ObjectUnRegister: "winv w \<Longrightarrow> HdfDeviceObjectUnRegister a w = Some (w', r) \<Longrightarrow> winv w'"
  by (auto simp: HdfDeviceObjectUnRegister_def do_simps split: if_splits dest: winv_Detach)

lemma winv_Bind: "winv w \<Longrightarrow> DeviveDriverBind env a w = Some (w', r) \<Longrightarrow> winv w'"
  by (rule winv_node_op [where a = a], assumption) (simp add: Bind_op [OF winvD])

lemma winv_ExtPublish: "winv w \<Longrightarrow> DeviceNodeExtPublishService env a w = Some (w', r) \<Longrightarrow> winv w'"
  by (rule winv_node_op [where a = a], assumption) (simp add: ExtPublish_op [OF winvD])

lemma winv_ExtRemove: "winv w \<Longrightarrow> DeviceNodeExtRemoveService a w = Some (w', r) \<Longrightarrow> winv w'"
  by (rule winv_node_op [where a = a], assumption) (simp add: ExtRemove_op [OF winvD])

lemma winv_ObjectRemove: "winv w \<Longrightarrow> HdfDeviceObjectRemoveService a w = Some (w', r) \<Longrightarrow> winv w'"
  by (auto simp: HdfDeviceObjectRemoveService_def split: option.splits intro: winv_ExtRemove)

lemma winv_ObjectPublish: "winv w \<Longrightarrow> HdfDeviceObjectPublishService env a nm pol perm w = Some (w', r) \<Longrightarrow> winv w'"
proof -
  assume w: "winv w" and f: "HdfDeviceObjectPublishService env a nm pol perm w = Some (w', r)"
  have "winv (put_node b (Some (n\<lparr>nd_servName := x\<rparr>)) (tick w))"
    "winv (put_node b (Some (n\<lparr>nd_servName := x, nd_policy := p, nd_permission := q\<rparr>)) (tick w))"
    if "c_nodes w b = Some n" "\<not> nd_servStatus n" for b n x p q
    using w that by (auto intro!: winv_put_node)
  then show ?thesis
    using w f by (auto simp: HdfDeviceObjectPublishService_def do_simps Let_def split: option.splits if_splits
        dest!: winv_Bind [rotated] intro: winv_ExtPublish)
qed

lemma winv_ObjectUpdate:
  assumes w: "winv w" and f: "HdfDeviceObjectUpdate (Some a) w = Some (w', r)"
    and p: "\<And>n. c_nodes w a = Some n \<Longrightarrow> nd_servStatus n"
  shows "winv w'"
proof -
  from f obtain n m ret where n: "c_nodes w a = Some n" and w': "w' = w\<lparr>c_svcmgr := m\<rparr>"
    and u: "DevSvcManagerClntUpdateService (c_svcmgr w) (nd_servName n) (nd_deviceClass n) (Some a) (nd_servInfo n) = Some (m, ret)"
    by (auto simp: HdfDeviceObjectUpdate_def do_simps)
  have inv: "reg_inv w" using w by (simp add: winv_def)
  obtain c ret' where c: "DevSvcManagerClntUpdateService (c_svcmgr w) (nd_servName n) (nd_deviceClass n) (Some a) (nd_servInfo n) = Some (c, ret')"
    "clnt_ok c" "ret' = HDF_SUCCESS \<Longrightarrow> \<exists>nm. nd_servName n = Some nm \<and> clnt_view (c_svcmgr w) (svc_key_of nm) \<noteq> None \<and>
       clnt_view c = (clnt_view (c_svcmgr w))(svc_key_of nm := Some a)"
    "ret' \<noteq> HDF_SUCCESS \<Longrightarrow> clnt_view c = clnt_view (c_svcmgr w)"
    by (rule clnt_update [OF reg_rel_ok [OF inv], of "nd_servName n" "nd_deviceClass n" a "nd_servInfo n"]) (rule that)
  have "reg_rel c (c_nodes w)"
  proof (cases "ret' = HDF_SUCCESS")
    case True
    then obtain nm where nm: "nd_servName n = Some nm" "clnt_view c = (clnt_view (c_svcmgr w))(svc_key_of nm := Some a)"
      using c(3) by blast
    have "reg_rel c ((c_nodes w)(a \<mapsto> n))"
      by (rule reg_rel_added [OF inv n c(2) nm]) (use p n nm in auto)
    then show ?thesis using n by (simp add: fun_upd_idem)
  next
    case False
    then show ?thesis using reg_rel_client [OF inv c(2)] c(4) by simp
  qed
  moreover have "c = m" using u c(1) by simp
  ultimately show ?thesis using w w' by (simp add: winv_def)
qed

end

section \<open>The device manager\<close>

context service_registry
begin

lemma winv_set_client [simp]: "winv (set_client p f w) \<longleftrightarrow> winv w"
  by (simp add: set_client_def)

lemma winv_install_loop: "winv w \<Longrightarrow> install_loop env q h dis w = Some (w', left) \<Longrightarrow> winv w'"
  by (induction dis arbitrary: w left) (auto simp: do_simps split: if_splits dest: winv_AddDevice)

lemma winv_InstallDriver: "winv w \<Longrightarrow> DevHostServiceClntInstallDriver env q p w = Some (w', r) \<Longrightarrow> winv w'"
  by (auto simp: DevHostServiceClntInstallDriver_def do_simps split: if_splits dest: winv_install_loop)

lemma winv_StartService: "winv w \<Longrightarrow> DevHostServiceStartService env q h w = Some (w', r) \<Longrightarrow> winv w'"
  using winv_InstallDriver [of "set_client p f w" for p f]
  by (fastforce simp: DevHostServiceStartService_def DevmgrServiceAttachDeviceHost_def do_simps split: option.splits if_splits)

lemma winv_InstallerStart: "winv w \<Longrightarrow> DriverInstallerStartDeviceHost env q i nm w = Some (w', r) \<Longrightarrow> winv w'"
proof -
  assume w: "winv w" and f: "DriverInstallerStartDeviceHost env q i nm w = Some (w', r)"
  obtain w1 h where h: "DevHostServiceNewInstance env i nm w = (w1, h)"
    by (rule prod.exhaust)
  note w1 = winv_NewHost [OF w h]
  show ?thesis
    using f h w1
    by (auto simp: DriverInstallerStartDeviceHost_def do_simps split: option.splits if_splits
        intro: winv_StartService [OF w1] winv_FreeHost [OF winv_StartService [OF w1]])
qed

lemma winv_StartHostProcess: "winv w \<Longrightarrow> DevmgrServiceStartHostProcess env q p s w = Some (w', r) \<Longrightarrow> winv w'"
  by (auto simp: DevmgrServiceStartHostProcess_def do_simps Let_def split: if_splits dest: winv_InstallerStart)

lemma winv_StartDeviceHost: "winv w \<Longrightarrow> DevmgrServiceStartDeviceHost env t al q hi w = Some (w', r) \<Longrightarrow> winv w'"
proof -
  assume w: "winv w" and f: "DevmgrServiceStartDeviceHost env t al q hi w = Some (w', r)"
  obtain w1 c0 where c0: "DevHostServiceClntNewInstance env (hi_hostId hi) (hi_hostName hi) w = (w1, c0)"
    by (rule prod.exhaust)
  have w1: "winv w1"
    using w c0 winv_fresh [of "tick w"]
    by (auto simp: DevHostServiceClntNewInstance_def fresh_def split: if_splits)
  have p: "winv w3" if "DevmgrServiceStartHostProcess env q p False (w1\<lparr>c_clients := cs\<rparr>) = Some (w3, x)" for p cs w3 x
    using winv_StartHostProcess [OF _ that] w1 by simp
  show ?thesis
    using f c0 w1 p by (auto simp: DevmgrServiceStartDeviceHost_def do_simps Let_def split: option.splits if_splits)
qed

lemma winv_start_hosts_loop: "winv w \<Longrightarrow> start_hosts_loop env t al q hs w = Some w' \<Longrightarrow> winv w'"
  by (induction hs arbitrary: w) (auto simp: do_simps dest: winv_StartDeviceHost)

lemma winv_StartDeviceHosts: "winv w \<Longrightarrow> DevmgrServiceStartDeviceHosts env t al q w = Some (w', r) \<Longrightarrow> winv w'"
  by (auto simp: DevmgrServiceStartDeviceHosts_def do_simps split: if_splits dest: winv_start_hosts_loop)

lemma winv_LoadDevice: "winv w \<Longrightarrow> DevmgrServiceLoadDevice env q nm w = Some (w', r) \<Longrightarrow> winv w'"
proof -
  assume w: "winv w" and f: "DevmgrServiceLoadDevice env q nm w = Some (w', r)"
  show ?thesis
  proof (cases "nm = None \<or> DevmgrServiceDynamicDevInfoFound (the nm) w = Some None")
    case True
    then show ?thesis using w f by (auto simp: DevmgrServiceLoadDevice_def split: option.splits)
  next
    case False
    with f obtain s c di where s: "nm = Some s" "DevmgrServiceDynamicDevInfoFound s w = Some (Some (c, di))"
      by (auto simp: DevmgrServiceLoadDevice_def do_simps split: option.splits)
    show ?thesis
    proof (cases "di_preload di = DEVICE_PRELOAD_DISABLE")
      case False
      then show ?thesis using w f s by (simp add: DevmgrServiceLoadDevice_def)
    next
      case True
      with f s obtain w1 x where w1: "(if hc_hostPid c < 0 then DevmgrServiceStartHostProcess env q (hc_addr c) True w
          else Some (w, HDF_SUCCESS)) = Some (w1, x)"
        and rest: "(if x \<noteq> HDF_SUCCESS then Some (w1, HDF_FAILURE)
            else do { c1 \<leftarrow> client_at (hc_addr c) w1; h \<leftarrow> hc_hostService c1; DevHostServiceAddDevice env (Some h) (Some di) w1 }) = Some (w', r)"
        by (auto simp: DevmgrServiceLoadDevice_def do_simps simp del: if_split_eq1)
      have "winv w1" using w1 w winv_StartHostProcess [OF w] by (auto split: if_splits)
      then show ?thesis using rest winv_AddDevice by (auto simp: do_simps split: if_splits)
    qed
  qed
qed

lemma winv_UnloadDevice: "winv w \<Longrightarrow> DevmgrServiceUnloadDevice nm w = Some (w', r) \<Longrightarrow> winv w'"
proof -
  assume w: "winv w" and f: "DevmgrServiceUnloadDevice nm w = Some (w', r)"
  show ?thesis
  proof (cases "nm = None \<or> DevmgrServiceDynamicDevInfoFound (the nm) w = Some None")
    case True
    then show ?thesis using w f by (auto simp: DevmgrServiceUnloadDevice_def split: option.splits)
  next
    case False
    with f obtain s c di where s: "nm = Some s" "DevmgrServiceDynamicDevInfoFound s w = Some (Some (c, di))"
      by (auto simp: DevmgrServiceUnloadDevice_def do_simps split: option.splits)
    show ?thesis
    proof (cases "di_preload di = DEVICE_PRELOAD_DISABLE \<and> hc_hostService c \<noteq> None")
      case False
      then show ?thesis using w f s by (auto simp: DevmgrServiceUnloadDevice_def split: if_splits)
    next
      case True
      with f s obtain w1 x where w1: "DevHostServiceDelDevice (hc_hostService c) (di_deviceId di) w = Some (w1, x)"
        and rest: "(if x \<noteq> HDF_SUCCESS then Some (w1, x)
            else do { c1 \<leftarrow> client_at (hc_addr c) w1;
                      Some (if hc_devices c1 \<noteq> [] then (w1, HDF_SUCCESS) else DevmgrServiceStopHost (hc_addr c) w1) }) = Some (w', r)"
        by (auto simp: DevmgrServiceUnloadDevice_def do_simps simp del: if_split_eq1)
      have "winv w1" by (rule winv_DelDevice [OF w w1])
      then show ?thesis using rest by (auto simp: do_simps DevmgrServiceStopHost_def split: if_splits)
    qed
  qed
qed

lemma winv_left_loop: "winv w \<Longrightarrow> left_loop env h dis w = Some (w', left) \<Longrightarrow> winv w'"
  by (induction dis arbitrary: w left) (auto simp: do_simps split: if_splits dest: winv_AddDevice)

lemma winv_left_clients: "winv w \<Longrightarrow> left_clients env cs w = Some w' \<Longrightarrow> winv w'"
proof (induction cs arbitrary: w)
  case (Cons c cs)
  then obtain w1 left where "left_loop env (hc_hostService c) (hc_unloadDevInfos c) w = Some (w1, left)"
    "left_clients env cs (set_client (hc_addr c) (\<lambda>c. c\<lparr>hc_unloadDevInfos := left\<rparr>) w1) = Some w'"
    by (auto simp: do_simps)
  then show ?case
    using Cons.IH winv_left_loop [OF Cons.prems(1)] by (metis winv_set_client)
qed simp

lemma winv_Step2: "winv w \<Longrightarrow> DeviceManagerStartStep2 env q w = Some (w', r) \<Longrightarrow> winv w'"
  by (auto simp: DeviceManagerStartStep2_def DevmgrServiceLoadLeftDriver_def do_simps split: if_splits dest: winv_left_clients)

lemma winv_power_clients: "winv w \<Longrightarrow> power_clients st cs r0 w = Some (w', r) \<Longrightarrow> winv w'"
  by (induction cs arbitrary: w r0) (auto simp: do_simps split: if_splits dest: winv_PmNotify)

lemma winv_PowerStateChange: "winv w \<Longrightarrow> DevmgrServicePowerStateChange st w = Some (w', r) \<Longrightarrow> winv w'"
  by (auto simp: DevmgrServicePowerStateChange_def split: if_splits dest: winv_power_clients)

end

section \<open>All histories\<close>

text \<open>
  One request, from the boot code, the device manager's clients or a driver. A driver updates only
  a service that it has published.
\<close>

inductive framework_step :: "'s core_env \<Rightarrow> ('m, 's) hdf_core \<Rightarrow> ('m, 's) hdf_core \<Rightarrow> bool" for env where
  "HdfRegisterDriverEntry env e w = (w', r) \<Longrightarrow> framework_step env w w'"
| "DevmgrServiceStartDeviceHosts env t al q w = Some (w', r) \<Longrightarrow> framework_step env w w'"
| "DeviceManagerStartStep2 env q w = Some (w', r) \<Longrightarrow> framework_step env w w'"
| "DevmgrServiceLoadDevice env q nm w = Some (w', r) \<Longrightarrow> framework_step env w w'"
| "DevmgrServiceUnloadDevice nm w = Some (w', r) \<Longrightarrow> framework_step env w w'"
| "DevmgrServicePowerStateChange st w = Some (w', r) \<Longrightarrow> framework_step env w w'"
| "DevHostServiceAddDevice env h di w = Some (w', r) \<Longrightarrow> framework_step env w w'"
| "DevHostServiceDelDevice h d w = Some (w', r) \<Longrightarrow> framework_step env w w'"
| "DevHostServiceFreeInstance h w = Some w' \<Longrightarrow> framework_step env w w'"
| "HdfDeviceSubscribeService env dev nm cb w = Some (w', r) \<Longrightarrow> framework_step env w w'"
| "HdfDeviceSetClass dev cls w = Some (w', b) \<Longrightarrow> framework_step env w w'"
| "HdfPmRegisterPowerListener env dev l w = Some (w', r) \<Longrightarrow> framework_step env w w'"
| "HdfPmUnregisterPowerListener dev w = Some w' \<Longrightarrow> framework_step env w w'"
| "HdfDeviceObjectAlloc env dev nm w = Some (w', x) \<Longrightarrow> framework_step env w w'"
| "HdfDeviceObjectRelease dev w = Some w' \<Longrightarrow> framework_step env w w'"
| "HdfDeviceObjectRegister env dev w = Some (w', r) \<Longrightarrow> framework_step env w w'"
| "HdfDeviceObjectUnRegister dev w = Some (w', r) \<Longrightarrow> framework_step env w w'"
| "HdfDeviceObjectPublishService env dev nm pol perm w = Some (w', r) \<Longrightarrow> framework_step env w w'"
| "HdfDeviceObjectRemoveService dev w = Some (w', r) \<Longrightarrow> framework_step env w w'"
| "HdfDeviceObjectSetServInfo env dev nm w = Some (w', r) \<Longrightarrow> framework_step env w w'"
| "HdfDeviceObjectUpdate (Some a) w = Some (w', r) \<Longrightarrow> c_nodes w a = Some n \<Longrightarrow> nd_servStatus n \<Longrightarrow> framework_step env w w'"
| "HdfRegisterDriver drv w = Some (w', r) \<Longrightarrow> framework_step env w w'"
| "HdfUnregisterDriver d w = (w', r) \<Longrightarrow> framework_step env w w'"
| "HdfUnregisterDriverEntry e w = (w', r) \<Longrightarrow> framework_step env w w'"

context service_registry
begin

lemma framework_step_winv: "framework_step env w w' \<Longrightarrow> winv w \<Longrightarrow> winv w'"
proof (induction rule: framework_step.induct)
  case (1 e w w' r)
  from RegisterDriverEntry_frame [OF 1(1)] winv_same_nodes [OF 1(2)] show ?case by simp
next
  case (21 a w w' r n)
  show ?case by (rule winv_ObjectUpdate [OF 21(4,1)]) (use 21 in simp)
next
  case (22 drv w w' r)
  show ?case by (rule winv_same_nodes [OF 22(2)]) (use 22(1) in \<open>auto simp: HdfRegisterDriver_def split: option.splits if_splits\<close>)
next
  case (23 d w w' r)
  show ?case by (rule winv_same_nodes [OF 23(2)]) (use 23(1) in \<open>auto simp: HdfUnregisterDriver_def split: option.splits\<close>)
next
  case (24 e w w' r)
  show ?case by (rule winv_same_nodes [OF 24(2)]) (use 24(1) in \<open>auto simp: HdfUnregisterDriverEntry_def split: option.splits if_splits\<close>)
qed (blast dest: winv_StartDeviceHosts winv_Step2 winv_LoadDevice winv_UnloadDevice winv_PowerStateChange winv_AddDevice
  winv_DelDevice winv_FreeHost winv_Subscribe winv_SetClass winv_RegisterPower winv_UnregisterPower winv_ObjectAlloc
  winv_ObjectRelease winv_ObjectRegister winv_ObjectUnRegister winv_ObjectPublish winv_ObjectRemove winv_SetServInfo)+

lemma framework_run_winv: "(framework_step env)\<^sup>*\<^sup>* w w' \<Longrightarrow> winv w \<Longrightarrow> winv w'"
  by (induction rule: rtranclp_induct) (auto intro: framework_step_winv)

end

section \<open>The registry never dangles\<close>

lemma svc_view_empty: "services m = [] \<Longrightarrow> svc_view m k = None"
  by (simp add: svc_view_def)

lemma svc_view_record:
  assumes "mgr_ok m" "r \<in> set (services m)"
  shows "svc_view m (svc_key r) = svc_value r" "svc_value r \<noteq> None"
proof -
  have "services_ok (services m)" using assms(1) by (simp add: mgr_ok_def)
  then have ok: "distinct (map svc_key (services m))" "svc_value r \<noteq> None"
    using assms(2) by (auto simp: services_ok_def)
  obtain r' where r': "find_key (svc_key r) (services m) = Some r'"
    using assms(2) find_key_None [of "svc_key r" "services m"] by (cases "find_key (svc_key r) (services m)") auto
  then have "r' = r"
    using find_key_Some [OF r'] ok(1) assms(2) by (auto simp: distinct_map dest: inj_onD)
  with r' ok(2) have "find_key (svc_key r) (services m) = Some r" "svc_value r \<noteq> None"
    by simp_all
  then show "svc_view m (svc_key r) = svc_value r" "svc_value r \<noteq> None"
    by (simp_all add: svc_view_def)
qed

text \<open>The names that device nodes carry.\<close>

definition node_names :: "('m, 's) hdf_core \<Rightarrow> cstr set" where
  "node_names w = {nm. \<exists>a n. c_nodes w a = Some n \<and> nd_servName n = Some nm}"

lemma GetDeviceObject_view:
  "DevSvcManagerClntGetDeviceObject (Some (Some (manager_ops nenv al hasDevmgr objService, m))) (Some nm) = svc_view m (svc_key_of nm)"
  by (simp add: DevSvcManagerClntGetDeviceObject_def manager_ops_def DevSvcManagerGetObject_def DevSvcManagerSearchService_def
      svc_view_def split: option.splits)

text \<open>
  C2. Start with an empty registry and run requests that the boot code, the device manager and
  drivers can make (the relation \<^verbatim>\<open>framework_step\<close>), in any order and with any outcome of
  the allocations and of the driver functions. One request is restricted: a driver calls
  \<^verbatim>\<open>HdfDeviceObjectUpdate\<close> only for an object that is published. Then every record of the registry
  belongs to a device node that still exists, is marked as published, and carries a name whose hash
  key is the key of the record; no request leaves an entry for a node that was freed or taken back.
  So a client that asks for a name gets such a node, and, unless the name shares its key with another
  one that a node carries, that node has the name asked for.
\<close>

theorem registry_only_live_nodes:
  assumes mgr: "c_svcmgr w = Some (Some (manager_ops nenv al hasDevmgr objService, m))" "mgr_ok m" "services m = []"
    and fresh_mem: "\<forall>x \<ge> c_next w. c_nodes w x = None"
    and steps: "(framework_step env)\<^sup>*\<^sup>* w w'"
  shows "\<exists>m'. c_svcmgr w' = Some (Some (manager_ops nenv al hasDevmgr objService, m')) \<and> mgr_ok m' \<and>
    (\<forall>r \<in> set (services m'). \<exists>a n nm. svc_value r = Some a \<and> c_nodes w' a = Some n \<and> nd_servStatus n \<and>
       nd_servName n = Some nm \<and> svc_key_of nm = svc_key r) \<and>
    (\<forall>nm a. DevSvcManagerClntGetDeviceObject (c_svcmgr w') (Some nm) = Some a \<longrightarrow>
       (\<exists>n nm'. c_nodes w' a = Some n \<and> nd_servStatus n \<and> nd_servName n = Some nm' \<and> svc_key_of nm' = svc_key_of nm \<and>
          (inj_on svc_key_of (insert nm (node_names w')) \<longrightarrow> nm' = nm)))"
proof -
  have "devsvc.winv nenv al hasDevmgr objService w"
    using mgr fresh_mem by (simp add: devsvc.winv_def devsvc.reg_rel_def devsvc.clnt_ok_def svc_view_empty)
  from devsvc.framework_run_winv [OF steps this]
  have inv: "devsvc.reg_rel nenv al hasDevmgr objService (c_svcmgr w') (c_nodes w')"
    by (rule devsvc.winvD)
  then obtain m' where m': "c_svcmgr w' = Some (Some (manager_ops nenv al hasDevmgr objService, m'))" "mgr_ok m'"
    by (auto simp: devsvc.reg_rel_def devsvc.clnt_ok_def)
  have live: "\<exists>n nm. c_nodes w' a = Some n \<and> nd_servStatus n \<and> nd_servName n = Some nm \<and> svc_key_of nm = k"
    if "svc_view m' k = Some a" for k a
    using devsvc.reg_relD [OF inv, of k a] m'(1) that by auto
  have "\<exists>a n nm. svc_value r = Some a \<and> c_nodes w' a = Some n \<and> nd_servStatus n \<and> nd_servName n = Some nm \<and> svc_key_of nm = svc_key r"
    if r: "r \<in> set (services m')" for r
  proof -
    from svc_view_record [OF m'(2) r] obtain a where "svc_value r = Some a" "svc_view m' (svc_key r) = Some a"
      by auto
    then show ?thesis using live by auto
  qed
  moreover have "\<exists>n nm'. c_nodes w' a = Some n \<and> nd_servStatus n \<and> nd_servName n = Some nm' \<and> svc_key_of nm' = svc_key_of nm \<and>
      (inj_on svc_key_of (insert nm (node_names w')) \<longrightarrow> nm' = nm)"
    if "DevSvcManagerClntGetDeviceObject (c_svcmgr w') (Some nm) = Some a" for nm a
  proof -
    have "svc_view m' (svc_key_of nm) = Some a" using that m'(1) by (simp add: GetDeviceObject_view)
    then obtain n nm' where n: "c_nodes w' a = Some n" "nd_servStatus n" "nd_servName n = Some nm'" "svc_key_of nm' = svc_key_of nm"
      using live by blast
    then have "nm' \<in> node_names w'" by (auto simp: node_names_def)
    then show ?thesis using n by (metis inj_onD insertCI)
  qed
  ultimately show ?thesis using m' by blast
qed

text \<open>A world of one node, whose driver publishes a service; everything succeeds.\<close>

definition calm_env :: "nat core_env" where
  "calm_env = \<lparr>ce_node = \<lambda>_. True, ce_token = \<lambda>_. True, ce_tokenClnt = \<lambda>_. True, ce_device = \<lambda>_. True, ce_host = \<lambda>_. True,
     ce_hostClnt = \<lambda>_. True, ce_driver = \<lambda>_. True, ce_string = \<lambda>_. True,
     ce_obs = \<lambda>_. \<lparr>rec_ok = True, rec_mutex_ok = True, sub_ok = True\<rparr>, ce_power = \<lambda>_. (True, True), ce_io = \<lambda>_. True,
     ce_bind = \<lambda>_ _ (s, c). (HDF_SUCCESS, Some 7, c), ce_init = \<lambda>_ _. HDF_SUCCESS, ce_property = \<lambda>_. None, ce_loader = True,
     ce_sysevent = None\<rparr>"

definition one_node :: "nat HdfDeviceNode" where
  "one_node = \<lparr>nd_linked = False, nd_powerToken = None, nd_hostService = None, nd_property = None, nd_service = None,
     nd_deviceClass = 1, nd_token = None, nd_driver = Some 1, nd_device = None, nd_servName = None, nd_servInfo = None,
     nd_driverName = None, nd_devId = 0, nd_policy = 0, nd_permission = 0, nd_devStatus = DEVNODE_NONE, nd_servStatus = False,
     nd_ioService = False\<rparr>"

definition one_driver :: HdfDriverEntry where
  "one_driver = \<lparr>ent_addr = 9, ent_moduleName = Some ''drv'', ent_Bind = True, ent_Init = True, ent_Release = False\<rparr>"

definition calm_notify :: notify_env where
  "calm_notify = \<lparr>ne_alloc = \<lambda>_ _. True, ne_send = \<lambda>_ _ _ _. HDF_SUCCESS\<rparr>"

definition calm_ops :: "(nat DevSvcManager, nat, nat) IDevSvcManager" where
  "calm_ops = manager_ops calm_notify \<lparr>sa_record = True, sa_name = True, sa_info = True\<rparr> True (\<lambda>a. None)"

definition one_world :: "(nat DevSvcManager, nat) hdf_core" where
  "one_world = \<lparr>c_nodes = [0 \<mapsto> one_node], c_devices = Map.empty, c_hosts = Map.empty, c_tokens = Map.empty, c_clients = [],
     c_svcmgr = Some (Some (calm_ops, \<lparr>services = [], svcstatListeners = [], g_holderList = [], holder_mem = Map.empty, events = []\<rparr>)),
     c_driverMem = [1 \<mapsto> one_driver], c_driverList = [1], c_next = 2, c_ticks = 0, c_calls = [], c_connected = []\<rparr>"

lemma one_world_publishes:
  "\<exists>w' m'. HdfDeviceObjectPublishService calm_env (Some 0) (Some ''svc'') 1 0 one_world = Some (w', HDF_SUCCESS) \<and>
     c_svcmgr w' = Some (Some (calm_ops, m')) \<and> map servName (services m') = [Some ''svc''] \<and>
     DevSvcManagerClntGetDeviceObject (c_svcmgr w') (Some ''svc'') = Some 0 \<and> node_names w' = {''svc''}"
  by (simp add: HdfDeviceObjectPublishService_def one_world_def calm_env_def one_node_def one_driver_def DeviveDriverBind_def
      tick_def put_node_def log_call_def HdfStringCopy_def DeviceNodeExtPublishService_def HdfDeviceNodePublishPublicService_def
      DevSvcManagerClntAddService_def calm_ops_def manager_ops_def DevSvcManagerAddService_def DevSvcManagerSearchService_def
      DevSvcRecordNewInstance_def NotifyServiceStatusLocked_def clnt_state_def Let_def strncpy_s_ok_def word_le_nat_alt
      DevSvcManagerClntGetDeviceObject_def DevSvcManagerGetObject_def node_names_def)

theorem registry_only_live_nodes_witness:
  "\<exists>w' m' r a n. (framework_step calm_env)\<^sup>*\<^sup>* one_world w' \<and> c_svcmgr w' = Some (Some (calm_ops, m')) \<and>
     r \<in> set (services m') \<and> svc_value r = Some a \<and> c_nodes w' a = Some n \<and> nd_servStatus n \<and>
     DevSvcManagerClntGetDeviceObject (c_svcmgr w') (Some ''svc'') = Some 0 \<and> map_option nd_servName (c_nodes w' 0) = Some (Some ''svc'')"
proof -
  obtain w' m' where w': "HdfDeviceObjectPublishService calm_env (Some 0) (Some ''svc'') 1 0 one_world = Some (w', HDF_SUCCESS)"
    "c_svcmgr w' = Some (Some (calm_ops, m'))" "map servName (services m') = [Some ''svc'']"
    "DevSvcManagerClntGetDeviceObject (c_svcmgr w') (Some ''svc'') = Some 0" "node_names w' = {''svc''}"
    using one_world_publishes by (elim exE conjE) (rule that)
  have run: "(framework_step calm_env)\<^sup>*\<^sup>* one_world w'"
    using w'(1) by (blast intro: framework_step.intros)
  let ?m = "\<lparr>services = [], svcstatListeners = [], g_holderList = [], holder_mem = Map.empty, events = []\<rparr> :: nat DevSvcManager"
  have "c_svcmgr one_world = Some (Some (calm_ops, ?m))" "mgr_ok ?m" "services ?m = []" "\<forall>x \<ge> c_next one_world. c_nodes one_world x = None"
    by (simp_all add: one_world_def mgr_ok_def services_ok_def holders_ok_def)
  from registry_only_live_nodes [OF this(1) [unfolded calm_ops_def] this(2-4) run]
  obtain m2 where safe: "c_svcmgr w' = Some (Some (calm_ops, m2))"
    "\<forall>r \<in> set (services m2). \<exists>a n nm. svc_value r = Some a \<and> c_nodes w' a = Some n \<and> nd_servStatus n \<and>
       nd_servName n = Some nm \<and> svc_key_of nm = svc_key r"
    "\<forall>nm a. DevSvcManagerClntGetDeviceObject (c_svcmgr w') (Some nm) = Some a \<longrightarrow>
       (\<exists>n nm'. c_nodes w' a = Some n \<and> nd_servStatus n \<and> nd_servName n = Some nm' \<and> svc_key_of nm' = svc_key_of nm \<and>
          (inj_on svc_key_of (insert nm (node_names w')) \<longrightarrow> nm' = nm))"
    by (elim exE conjE) (rule that [unfolded calm_ops_def])
  have alive: "\<forall>r \<in> set (services m'). \<exists>a n nm. svc_value r = Some a \<and> c_nodes w' a = Some n \<and> nd_servStatus n \<and>
      nd_servName n = Some nm \<and> svc_key_of nm = svc_key r"
    using safe(1,2) w'(2) by simp
  have inj: "inj_on svc_key_of (insert ''svc'' (node_names w'))" by (simp add: w'(5))
  obtain n nm' where n: "c_nodes w' 0 = Some n" "nd_servName n = Some nm'"
    "inj_on svc_key_of (insert ''svc'' (node_names w')) \<longrightarrow> nm' = ''svc''"
    using safe(3) [rule_format, OF w'(4)] by (elim exE conjE) (rule that)
  have "map_option nd_servName (c_nodes w' 0) = Some (Some ''svc'')"
    using n mp [OF n(3) inj] by simp
  moreover have "services m' \<noteq> []"
    using w'(3) by auto
  ultimately show ?thesis
    using alive run w'(2,4) by (metis list.set_intros(1) neq_Nil_conv)
qed

end
