(* ===== verification/Host_Refinement.thy ===== *)
theory Host_Refinement
  imports Registry_Safety
begin

text \<open>
  A device host against its specification, a set of device identifiers: adding and deleting
  devices runs without undefined behaviour, the devices of the host are exactly those of the set,
  and the manager holds exactly one token for each of them.
\<close>

section \<open>Launching a node is defined\<close>

text \<open>A node with a driver, a token and, if it has a host, one that exists.\<close>

definition node_ready :: "nat \<Rightarrow> ('m, 's) hdf_core \<Rightarrow> bool" where
  "node_ready a w \<longleftrightarrow> (\<exists>n d t. c_nodes w a = Some n \<and> nd_driver n = Some d \<and> c_driverMem w d \<noteq> None \<and>
     nd_token n = Some t \<and> c_tokens w t \<noteq> None \<and> (\<forall>h. nd_hostService n = Some h \<longrightarrow> host_ids w h \<noteq> None))"

lemma node_readyE:
  assumes "node_ready a w"
  obtains n d e t x where "c_nodes w a = Some n" "nd_driver n = Some d" "c_driverMem w d = Some e"
    "nd_token n = Some t" "c_tokens w t = Some x" "\<And>h. nd_hostService n = Some h \<Longrightarrow> \<exists>hs. c_hosts w h = Some hs"
  using assms by (auto simp: node_ready_def host_ids_def)

lemma host_ids_simps [simp]:
  "host_ids (put_node a n w) = host_ids w" "host_ids (set_device d dv w) = host_ids w"
  "host_ids (set_token t v w) = host_ids w" "host_ids (tick w) = host_ids w" "host_ids (log_call c b w) = host_ids w"
  "host_ids (w\<lparr>c_clients := cl\<rparr>) = host_ids w" "host_ids (w\<lparr>c_svcmgr := m\<rparr>) = host_ids w"
  by (simp_all add: host_ids_def fun_eq_iff)

context service_registry
begin

lemma node_ready_op: "node_op a w w' \<Longrightarrow> node_ready a w \<Longrightarrow> node_ready a w'"
  by (auto simp: node_op_def node_kept_def node_frame_def node_ready_def)

lemma PublishLocal_total:
  assumes "node_ready a w" shows "HdfDeviceNodePublishLocalService env a w \<noteq> None"
  using assms by (auto elim!: node_readyE simp: HdfDeviceNodePublishLocalService_def split: option.splits prod.splits)

lemma PublishPublic_total:
  assumes "reg_inv w" "node_ready a w" shows "HdfDeviceNodePublishPublicService a w \<noteq> None"
proof -
  obtain n where n: "c_nodes w a = Some n" using assms(2) by (auto elim: node_readyE)
  obtain c r where "DevSvcManagerClntAddService (c_svcmgr w) (nd_servName n) (nd_deviceClass n) (Some a) (nd_servInfo n) = Some (c, r)"
    by (rule clnt_add [OF reg_rel_ok [OF assms(1)], of "nd_servName n" "nd_deviceClass n" a "nd_servInfo n"])
  then show ?thesis using n by (simp add: HdfDeviceNodePublishPublicService_def Let_def)
qed

lemma ExtPublish_total:
  assumes inv: "reg_inv w" and rdy: "node_ready a w" shows "DeviceNodeExtPublishService env a w \<noteq> None"
proof -
  obtain n where n: "c_nodes w a = Some n" using rdy by (auto elim: node_readyE)
  have p: "\<exists>w3 r. HdfDeviceNodePublishPublicService a w2 = Some (w3, r) \<and> c_nodes w3 a \<noteq> None"
    if op: "node_op a w w2" for w2
  proof -
    obtain w3 r where w3: "HdfDeviceNodePublishPublicService a w2 = Some (w3, r)"
      using PublishPublic_total [OF node_opD(1) [OF op] node_ready_op [OF op rdy]] by auto
    then show ?thesis using PublishPublic_op [OF node_opD(1) [OF op] w3] node_op_live by blast
  qed
  have o1: "node_op a w (put_node a (Some (n\<lparr>nd_ioService := io\<rparr>)) w)" for io
    by (rule node_op_set [OF inv n]) (simp_all add: node_kept_def)
  then have o2: "node_op a w (put_node a (Some (n\<lparr>nd_ioService := io\<rparr>)) (tick w))" for io
    by (simp add: node_op_def)
  obtain w3 r where "HdfDeviceNodePublishPublicService a (put_node a (Some n) w) = Some (w3, r)" "c_nodes w3 a \<noteq> None"
    using p [OF o1 [of "nd_ioService n"]] by auto
  moreover obtain w4 r' where "HdfDeviceNodePublishPublicService a
      (put_node a (Some (n\<lparr>nd_ioService := ce_io env (c_ticks w)\<rparr>)) (tick w)) = Some (w4, r')" "c_nodes w4 a \<noteq> None"
    using p [OF o2 [of "ce_io env (c_ticks w)"]] by blast
  ultimately show ?thesis
    using n by (auto simp: DeviceNodeExtPublishService_def Let_def)
qed

lemma Publish_total:
  assumes inv: "reg_inv w" and rdy: "node_ready a w" shows "HdfDeviceNodePublishService env a w \<noteq> None"
proof -
  obtain n where n: "c_nodes w a = Some n" using rdy by (auto elim: node_readyE)
  obtain w1 r where w1: "DeviceNodeExtPublishService env a w = Some (w1, r)"
    using ExtPublish_total [OF inv rdy, of env] by auto
  have "node_ready a w1" using ExtPublish_op [OF inv w1] node_ready_op rdy by blast
  then show ?thesis
    using n w1 PublishLocal_total [of a w1 env] PublishLocal_total [OF rdy, of env]
    by (auto simp: HdfDeviceNodePublishService_def)
qed

lemma Bind_total:
  assumes "node_ready a w" shows "DeviveDriverBind env a w \<noteq> None"
  using assms by (auto elim!: node_readyE simp: DeviveDriverBind_def split: prod.splits)

lemma AttachDevice_total:
  assumes "c_tokens w t \<noteq> None" shows "DevmgrServiceClntAttachDevice env (Some t) w \<noteq> None"
  using assms by (auto simp: DevmgrServiceClntAttachDevice_def DevmgrServiceAttachDevice_def DeviceTokenClntNewInstance_def
      split: option.splits)

lemma Launch_total:
  assumes inv: "reg_inv w" and rdy: "node_ready a w" shows "HdfDeviceLaunchNode env a w \<noteq> None"
proof -
  obtain n d e where n: "c_nodes w a = Some n" "nd_driver n = Some d" "c_driverMem w d = Some e"
    using rdy by (auto elim: node_readyE)
  let ?w0 = "put_node a (Some (n\<lparr>nd_devStatus := DEVNODE_LAUNCHED\<rparr>)) w"
  have o0: "node_op a w ?w0"
    by (rule node_op_set [OF inv n(1)]) (simp_all add: node_kept_def)
  obtain w1 r1 where w1: "DeviveDriverBind env a ?w0 = Some (w1, r1)"
    using Bind_total [OF node_ready_op [OF o0 rdy], of env] by auto
  have o1: "node_op a w w1"
    using Bind_op [OF node_opD(1) [OF o0] w1] node_op_trans [OF o0] by blast
  let ?w2 = "tick (log_call CallInit a w1)"
  have o2: "node_op a w ?w2" using o1 by (simp add: node_op_def)
  obtain w3 r3 where w3: "HdfDeviceNodePublishService env a ?w2 = Some (w3, r3)"
    using Publish_total [OF node_opD(1) [OF o2] node_ready_op [OF o2 rdy], of env] by auto
  have o3: "node_ready a w3"
    using Publish_op [OF node_opD(1) [OF o2] w3] node_op_trans [OF o2] node_ready_op [OF _ rdy] by blast
  then obtain n3 t where n3: "c_nodes w3 a = Some n3" "nd_token n3 = Some t" "c_tokens w3 t \<noteq> None"
    by (auto elim: node_readyE)
  then have "DevmgrServiceClntAttachDevice env (nd_token n3) w3 \<noteq> None"
    by (simp add: AttachDevice_total)
  then show ?thesis
    using n w1 w3 n3 by (auto simp: HdfDeviceLaunchNode_def)
qed

end

section \<open>The devices of a host\<close>

definition devnum :: "(nat \<rightharpoonup> HdfDevice) \<Rightarrow> nat \<Rightarrow> u32" where
  "devnum devs d = DEVICEID (dv_deviceId (the (devs d)))"

definition members :: "nat list \<Rightarrow> (nat \<rightharpoonup> HdfDevice) \<Rightarrow> nat set" where
  "members dvs devs = (\<Union>d \<in> set dvs. set (dv_devNodes (the (devs d))))"

definition nid :: "(nat \<rightharpoonup> 's HdfDeviceNode) \<Rightarrow> nat \<Rightarrow> u32" where
  "nid nodes a = nd_devId (the (nodes a))"

definition ntok :: "(nat \<rightharpoonup> 's HdfDeviceNode) \<Rightarrow> nat \<Rightarrow> nat" where
  "ntok nodes a = the (nd_token (the (nodes a)))"

text \<open>A node on the list of a device with the number \<^verbatim>\<open>k\<close> of the host \<^verbatim>\<open>i\<close>.\<close>

definition node_fits :: "u16 \<Rightarrow> u32 \<Rightarrow> (nat \<rightharpoonup> 's HdfDeviceNode) \<Rightarrow> (nat \<rightharpoonup> u32) \<Rightarrow> nat set \<Rightarrow> nat \<Rightarrow> bool" where
  "node_fits i k nodes toks drv a \<longleftrightarrow> (\<exists>n t d. nodes a = Some n \<and> nd_linked n \<and> nd_devStatus n = DEVNODE_LAUNCHED \<and>
     nd_token n = Some t \<and> toks t = Some (nd_devId n) \<and> DEVICEID (nd_devId n) = k \<and> HOSTID (nd_devId n) = ucast i \<and>
     nd_driver n = Some d \<and> d \<in> drv)"

text \<open>The last argument lists the tokens that the manager holds for the host.\<close>

definition host_view ::
  "u16 \<Rightarrow> nat list \<Rightarrow> (nat \<rightharpoonup> HdfDevice) \<Rightarrow> (nat \<rightharpoonup> 's HdfDeviceNode) \<Rightarrow> (nat \<rightharpoonup> u32) \<Rightarrow> nat set \<Rightarrow> nat list \<Rightarrow> bool" where
  "host_view i dvs devs nodes toks drv ts \<longleftrightarrow>
     distinct dvs \<and> set dvs \<subseteq> dom devs \<and>
     (\<forall>d \<in> set dvs. distinct (dv_devNodes (the (devs d))) \<and>
        (\<forall>a \<in> set (dv_devNodes (the (devs d))). node_fits i (devnum devs d) nodes toks drv a)) \<and>
     inj_on (devnum devs) (set dvs) \<and> inj_on (nid nodes) (members dvs devs) \<and>
     distinct ts \<and> set ts = ntok nodes ` members dvs devs"

lemma members_iff: "a \<in> members dvs devs \<longleftrightarrow> (\<exists>d \<in> set dvs. a \<in> set (dv_devNodes (the (devs d))))"
  by (simp add: members_def)

lemma hv_fits:
  "host_view i dvs devs nodes toks drv ts \<Longrightarrow> a \<in> members dvs devs \<Longrightarrow> \<exists>k. node_fits i k nodes toks drv a"
  by (auto simp: host_view_def members_iff)

lemma hv_token:
  assumes "host_view i dvs devs nodes toks drv ts" "a \<in> members dvs devs"
  shows "toks (ntok nodes a) = Some (nid nodes a)" "ntok nodes a \<in> set ts"
  using hv_fits [OF assms] assms by (auto simp: node_fits_def ntok_def nid_def host_view_def)

lemma hv_tokens_live:
  assumes "host_view i dvs devs nodes toks drv ts" "t \<in> set ts"
  obtains a where "a \<in> members dvs devs" "t = ntok nodes a" "toks t = Some (nid nodes a)"
proof -
  from assms obtain a where "a \<in> members dvs devs" "t = ntok nodes a"
    by (auto simp: host_view_def)
  then show thesis using hv_token(1) [OF assms(1)] that by blast
qed

lemma node_fits_drivers: "node_fits i k nodes toks drv a \<Longrightarrow> drv \<subseteq> drv' \<Longrightarrow> node_fits i k nodes toks drv' a"
  by (auto simp: node_fits_def)

lemma hv_drivers: "host_view i dvs devs nodes toks drv ts \<Longrightarrow> drv \<subseteq> drv' \<Longrightarrow> host_view i dvs devs nodes toks drv' ts"
  unfolding host_view_def by (meson node_fits_drivers)

lemma host_viewI:
  assumes "distinct dvs" "set dvs \<subseteq> dom devs"
    and "\<And>d. d \<in> set dvs \<Longrightarrow> distinct (dv_devNodes (the (devs d)))"
    and "\<And>d a. d \<in> set dvs \<Longrightarrow> a \<in> set (dv_devNodes (the (devs d))) \<Longrightarrow> node_fits i (devnum devs d) nodes toks drv a"
    and "inj_on (devnum devs) (set dvs)" "inj_on (nid nodes) (members dvs devs)"
    and "distinct ts" "set ts = ntok nodes ` members dvs devs"
  shows "host_view i dvs devs nodes toks drv ts"
  using assms by (simp add: host_view_def)

lemma hvD:
  assumes "host_view i dvs devs nodes toks drv ts"
  shows "distinct dvs" "set dvs \<subseteq> dom devs" "inj_on (devnum devs) (set dvs)" "inj_on (nid nodes) (members dvs devs)"
    "distinct ts" "set ts = ntok nodes ` members dvs devs"
    and "d \<in> set dvs \<Longrightarrow> distinct (dv_devNodes (the (devs d)))"
    and "d \<in> set dvs \<Longrightarrow> a \<in> set (dv_devNodes (the (devs d))) \<Longrightarrow> node_fits i (devnum devs d) nodes toks drv a"
  using assms by (simp_all add: host_view_def)

text \<open>Only the members and their tokens count.\<close>

lemma hv_cong:
  assumes "host_view i dvs devs nodes toks drv ts"
    and "\<And>a. a \<in> members dvs devs \<Longrightarrow> nodes' a = nodes a" "\<And>t. t \<in> set ts \<Longrightarrow> toks' t = toks t"
    and "\<And>d. d \<in> set dvs \<Longrightarrow> devs' d = devs d"
  shows "host_view i dvs devs' nodes' toks' drv ts" "nid nodes' ` members dvs devs' = nid nodes ` members dvs devs"
proof -
  have m: "members dvs devs' = members dvs devs"
    using assms(4) by (simp add: members_def)
  have eq: "nid nodes' a = nid nodes a" "ntok nodes' a = ntok nodes a" if "a \<in> members dvs devs" for a
    using assms(2) [OF that] by (simp_all add: nid_def ntok_def)
  have fit: "node_fits i k nodes' toks' drv a" if "a \<in> members dvs devs" "node_fits i k nodes toks drv a" for a k
  proof -
    have "toks' (ntok nodes a) = toks (ntok nodes a)"
      using assms(3) hv_token(2) [OF assms(1) that(1)] by blast
    then show ?thesis
      using that assms(2) [OF that(1)] by (auto simp: node_fits_def ntok_def)
  qed
  have num: "devnum devs' d = devnum devs d" if "d \<in> set dvs" for d
    using assms(4) [OF that] by (simp add: devnum_def)
  note D = hvD [OF assms(1)]
  show "host_view i dvs devs' nodes' toks' drv ts"
  proof (rule host_viewI)
    show "set dvs \<subseteq> dom devs'" using D(2) assms(4) by (auto simp: dom_def)
    show "inj_on (devnum devs') (set dvs)" using D(3) num by (simp cong: inj_on_cong)
    show "inj_on (nid nodes') (members dvs devs')" unfolding m using D(4) eq(1) by (simp cong: inj_on_cong)
    show "set ts = ntok nodes' ` members dvs devs'" unfolding m D(6) using eq(2) by (simp cong: image_cong)
    fix d assume d: "d \<in> set dvs"
    then show "distinct (dv_devNodes (the (devs' d)))" using D(7) assms(4) by simp
    fix a assume "a \<in> set (dv_devNodes (the (devs' d)))"
    then have a: "a \<in> set (dv_devNodes (the (devs d)))" using assms(4) [OF d] by simp
    then have "a \<in> members dvs devs" using d by (auto simp: members_iff)
    from fit [OF this D(8) [OF d a]] show "node_fits i (devnum devs' d) nodes' toks' drv a" using num [OF d] by simp
  qed (rule D)+
  show "nid nodes' ` members dvs devs' = nid nodes ` members dvs devs"
    unfolding m using eq by (auto intro!: image_cong)
qed

lemma members_cong:
  "(\<And>d. d \<in> set dvs \<Longrightarrow> dv_devNodes (the (devs' d)) = dv_devNodes (the (devs d))) \<Longrightarrow> members dvs devs' = members dvs devs"
  by (simp add: members_def)

lemma members_Cons: "members (d # dvs) devs = set (dv_devNodes (the (devs d))) \<union> members dvs devs"
  by (simp add: members_def)

lemma members_split:
  assumes "d \<in> set dvs"
  shows "members dvs devs = set (dv_devNodes (the (devs d))) \<union> members (filter (\<lambda>e. e \<noteq> d) dvs) devs"
  using assms by (auto simp: members_def)

lemma members_filter_upd: "members (filter (\<lambda>e. e \<noteq> d) dvs) (devs(d := x)) = members (filter (\<lambda>e. e \<noteq> d) dvs) devs"
  by (rule members_cong) simp

lemma hv_add_device:
  assumes hv: "host_view i dvs devs nodes toks drv ts" and d: "d \<notin> set dvs" "dv_devNodes v = []"
    and num: "\<And>d'. d' \<in> set dvs \<Longrightarrow> devnum devs d' \<noteq> DEVICEID (dv_deviceId v)"
  shows "host_view i (d # dvs) (devs(d \<mapsto> v)) nodes toks drv ts" "members (d # dvs) (devs(d \<mapsto> v)) = members dvs devs"
proof -
  note D = hvD [OF hv]
  have "members dvs (devs(d \<mapsto> v)) = members dvs devs"
    using d(1) by (intro members_cong) auto
  then show m: "members (d # dvs) (devs(d \<mapsto> v)) = members dvs devs"
    using d(2) by (simp add: members_Cons)
  have n: "devnum (devs(d \<mapsto> v)) e = devnum devs e" if "e \<in> set dvs" for e
    using d that by (auto simp: devnum_def)
  have "inj_on (devnum (devs(d \<mapsto> v))) (set dvs)"
    using D(3) n by (simp cong: inj_on_cong)
  moreover have "devnum (devs(d \<mapsto> v)) d \<notin> devnum (devs(d \<mapsto> v)) ` set dvs"
    using num n by (force simp: devnum_def)
  ultimately have "inj_on (devnum (devs(d \<mapsto> v))) (set (d # dvs))"
    using d(1) by simp
  then show "host_view i (d # dvs) (devs(d \<mapsto> v)) nodes toks drv ts"
  proof (intro host_viewI)
    fix e assume e: "e \<in> set (d # dvs)"
    then have e': "e = d \<or> e \<in> set dvs \<and> e \<noteq> d" using d(1) by auto
    then show "distinct (dv_devNodes (the ((devs(d \<mapsto> v)) e)))"
      using d(2) D(7) by auto
    fix a assume a: "a \<in> set (dv_devNodes (the ((devs(d \<mapsto> v)) e)))"
    then have "e \<in> set dvs" "a \<in> set (dv_devNodes (the (devs e)))"
      using e' d(2) by auto
    then show "node_fits i (devnum (devs(d \<mapsto> v)) e) nodes toks drv a"
      using D(8) n by simp
  qed (use D(1,2,4-6) d(1) m in auto)
qed

lemma hv_remove_device:
  assumes hv: "host_view i dvs devs nodes toks drv ts" and d: "dv_devNodes (the (devs d)) = []"
  shows "host_view i (remove1 d dvs) (devs(d := None)) nodes toks drv ts"
    "members (remove1 d dvs) (devs(d := None)) = members dvs devs"
proof -
  note D = hvD [OF hv]
  have s: "set (remove1 d dvs) = set dvs - {d}" using D(1) by (rule set_remove1_eq)
  have "members (remove1 d dvs) (devs(d := None)) = members (remove1 d dvs) devs"
    using s by (intro members_cong) auto
  also have "\<dots> = members dvs devs"
    using d by (auto simp: members_def s)
  finally show m: "members (remove1 d dvs) (devs(d := None)) = members dvs devs" .
  have n: "devnum (devs(d := None)) e = devnum devs e" if "e \<in> set dvs - {d}" for e
    using that by (auto simp: devnum_def)
  have "inj_on (devnum (devs(d := None))) (set dvs - {d})"
  proof (rule inj_onI)
    fix x y assume xy: "x \<in> set dvs - {d}" "y \<in> set dvs - {d}" "devnum (devs(d := None)) x = devnum (devs(d := None)) y"
    then have "devnum devs x = devnum devs y" using n by metis
    then show "x = y" using inj_onD [OF D(3)] xy by blast
  qed
  then show "host_view i (remove1 d dvs) (devs(d := None)) nodes toks drv ts"
  proof (intro host_viewI)
    fix e assume "e \<in> set (remove1 d dvs)"
    then have e: "e \<in> set dvs" "e \<noteq> d" using s by auto
    then show "distinct (dv_devNodes (the ((devs(d := None)) e)))" using D(7) by simp
    fix a assume "a \<in> set (dv_devNodes (the ((devs(d := None)) e)))"
    then show "node_fits i (devnum (devs(d := None)) e) nodes toks drv a"
      using D(8) [OF e(1)] e n by simp
  qed (use D(1,2,4-6) m s in auto)
qed

lemma hv_add_node:
  assumes hv: "host_view i dvs devs nodes toks drv ts"
    and d: "d \<in> set dvs" "devs d = Some v" "dv_devNodes v' = dv_devNodes v @ [a]" "dv_deviceId v' = dv_deviceId v"
    and a: "a \<notin> members dvs devs" "nd_token n = Some t" "t \<notin> set ts" "nd_devId n \<notin> nid nodes ` members dvs devs"
    and fit: "node_fits i (devnum devs d) (nodes(a \<mapsto> n)) toks drv a"
  shows "host_view i dvs (devs(d \<mapsto> v')) (nodes(a \<mapsto> n)) toks drv (t # ts)"
    "members dvs (devs(d \<mapsto> v')) = insert a (members dvs devs)"
    "nid (nodes(a \<mapsto> n)) ` members dvs (devs(d \<mapsto> v')) = insert (nd_devId n) (nid nodes ` members dvs devs)"
proof -
  note D = hvD [OF hv]
  show m: "members dvs (devs(d \<mapsto> v')) = insert a (members dvs devs)"
    using d by (simp add: members_split [OF d(1)] members_filter_upd)
  have num: "devnum (devs(d \<mapsto> v')) = devnum devs"
    using d by (auto simp: devnum_def fun_eq_iff)
  have eq: "nid (nodes(a \<mapsto> n)) b = nid nodes b" "ntok (nodes(a \<mapsto> n)) b = ntok nodes b" if "b \<in> members dvs devs" for b
    using that a(1) by (auto simp: nid_def ntok_def)
  have na: "nid (nodes(a \<mapsto> n)) a = nd_devId n" "ntok (nodes(a \<mapsto> n)) a = t"
    using a(2) by (simp_all add: nid_def ntok_def)
  have im: "nid (nodes(a \<mapsto> n)) ` members dvs devs = nid nodes ` members dvs devs"
    "ntok (nodes(a \<mapsto> n)) ` members dvs devs = ntok nodes ` members dvs devs"
    using eq by (auto intro!: image_cong)
  show "nid (nodes(a \<mapsto> n)) ` members dvs (devs(d \<mapsto> v')) = insert (nd_devId n) (nid nodes ` members dvs devs)"
    by (simp add: m na im)
  have inj: "inj_on (nid (nodes(a \<mapsto> n))) (members dvs devs)"
    using D(4) eq(1) by (simp cong: inj_on_cong)
  show "host_view i dvs (devs(d \<mapsto> v')) (nodes(a \<mapsto> n)) toks drv (t # ts)"
  proof (rule host_viewI)
    show "inj_on (nid (nodes(a \<mapsto> n))) (members dvs (devs(d \<mapsto> v')))"
      unfolding m using inj a(1,4) na im by (simp add: inj_on_insert)
    show "set (t # ts) = ntok (nodes(a \<mapsto> n)) ` members dvs (devs(d \<mapsto> v'))"
      by (simp add: m na im D(6))
    show "inj_on (devnum (devs(d \<mapsto> v'))) (set dvs)" using D(3) num by simp
    fix e assume e: "e \<in> set dvs"
    show "distinct (dv_devNodes (the ((devs(d \<mapsto> v')) e)))"
      using D(7) [OF e] d a(1) e by (auto simp: members_iff)
    fix b assume b: "b \<in> set (dv_devNodes (the ((devs(d \<mapsto> v')) e)))"
    show "node_fits i (devnum (devs(d \<mapsto> v')) e) (nodes(a \<mapsto> n)) toks drv b"
    proof (cases "b = a")
      case True
      then have "e = d" using b a(1) e by (auto simp: members_iff split: if_splits)
      then show ?thesis using fit True num by simp
    next
      case False
      then have "b \<in> set (dv_devNodes (the (devs e)))" using b d by (auto split: if_splits)
      from D(8) [OF e this] show ?thesis using False num by (simp add: node_fits_def)
    qed
  qed (use D a in auto)
qed

lemma hv_one_device:
  assumes "host_view i dvs devs nodes toks drv ts" "d \<in> set dvs" "e \<in> set dvs"
    and "a \<in> set (dv_devNodes (the (devs d)))" "b \<in> set (dv_devNodes (the (devs e)))"
    and "DEVICEID (nid nodes a) = DEVICEID (nid nodes b)"
  shows "d = e"
proof -
  note D = hvD [OF assms(1)]
  have "DEVICEID (nid nodes a) = devnum devs d" "DEVICEID (nid nodes b) = devnum devs e"
    using D(8) [OF assms(2,4)] D(8) [OF assms(3,5)] by (auto simp: node_fits_def nid_def)
  then show ?thesis using D(3) assms(2,3,6) by (auto dest: inj_onD)
qed

lemma hv_ntok_inj: "host_view i dvs devs nodes toks drv ts \<Longrightarrow> inj_on (ntok nodes) (members dvs devs)"
proof (rule inj_onI)
  fix a b assume hv: "host_view i dvs devs nodes toks drv ts"
    and ab: "a \<in> members dvs devs" "b \<in> members dvs devs" "ntok nodes a = ntok nodes b"
  then have "nid nodes a = nid nodes b" using hv_token(1) [OF hv ab(1)] hv_token(1) [OF hv ab(2)] by simp
  then show "a = b" using inj_onD [OF hvD(4) [OF hv]] ab by blast
qed

lemma hv_remove_node:
  assumes hv: "host_view i dvs devs nodes toks drv ts"
    and d: "d \<in> set dvs" "devs d = Some v" "dv_devNodes v' = remove1 a (dv_devNodes v)" "dv_deviceId v' = dv_deviceId v"
    and a: "a \<in> set (dv_devNodes v)"
  shows "host_view i dvs (devs(d \<mapsto> v')) (nodes(a := x)) (toks(ntok nodes a := y)) drv (remove1 (ntok nodes a) ts)"
    "members dvs (devs(d \<mapsto> v')) = members dvs devs - {a}"
    "nid (nodes(a := x)) ` members dvs (devs(d \<mapsto> v')) = nid nodes ` members dvs devs - {nid nodes a}"
proof -
  note D = hvD [OF hv]
  have am: "a \<in> members dvs devs" unfolding members_iff using a d(1,2) by (intro bexI [of _ d]) simp_all
  have dist: "set (dv_devNodes v') = set (dv_devNodes v) - {a}" "distinct (dv_devNodes v')"
    using D(7) [OF d(1)] d(2,3) by auto
  have only: "e = d" if "e \<in> set dvs" "a \<in> set (dv_devNodes (the (devs e)))" for e
    using hv_one_device [OF hv that(1) d(1) that(2), of a] a d(2) by simp
  have "a \<notin> members (filter (\<lambda>e. e \<noteq> d) dvs) devs"
    using only by (auto simp: members_iff)
  then show m: "members dvs (devs(d \<mapsto> v')) = members dvs devs - {a}"
    using d(2) dist by (auto simp: members_split [OF d(1)] members_filter_upd)
  have num: "devnum (devs(d \<mapsto> v')) = devnum devs"
    using d by (auto simp: devnum_def fun_eq_iff)
  have eq: "nid (nodes(a := x)) b = nid nodes b" "ntok (nodes(a := x)) b = ntok nodes b" if "b \<in> members dvs devs - {a}" for b
    using that by (auto simp: nid_def ntok_def)
  have im: "nid (nodes(a := x)) ` (members dvs devs - {a}) = nid nodes ` (members dvs devs - {a})"
    "ntok (nodes(a := x)) ` (members dvs devs - {a}) = ntok nodes ` (members dvs devs - {a})"
    using eq by (auto intro!: image_cong)
  have diff: "nid nodes ` (members dvs devs - {a}) = nid nodes ` members dvs devs - {nid nodes a}"
    "ntok nodes ` (members dvs devs - {a}) = ntok nodes ` members dvs devs - {ntok nodes a}"
    using inj_on_image_set_diff [OF D(4), of "members dvs devs" "{a}"] inj_on_image_set_diff [OF hv_ntok_inj [OF hv], of "members dvs devs" "{a}"] am
    by auto
  show "nid (nodes(a := x)) ` members dvs (devs(d \<mapsto> v')) = nid nodes ` members dvs devs - {nid nodes a}"
    unfolding m im diff ..
  show "host_view i dvs (devs(d \<mapsto> v')) (nodes(a := x)) (toks(ntok nodes a := y)) drv (remove1 (ntok nodes a) ts)"
  proof (rule host_viewI)
    have "inj_on (nid nodes) (members dvs devs - {a})" using D(4) by (rule inj_on_diff)
    then show "inj_on (nid (nodes(a := x))) (members dvs (devs(d \<mapsto> v')))"
      unfolding m using inj_on_cong [of "members dvs devs - {a}", OF eq(1)] by simp
    show "set (remove1 (ntok nodes a) ts) = ntok (nodes(a := x)) ` members dvs (devs(d \<mapsto> v'))"
      unfolding m im diff using D(5,6) by (simp add: set_remove1_eq)
    show "inj_on (devnum (devs(d \<mapsto> v'))) (set dvs)" using D(3) num by simp
    fix e assume e: "e \<in> set dvs"
    show "distinct (dv_devNodes (the ((devs(d \<mapsto> v')) e)))"
      using D(7) [OF e] dist by auto
    fix b assume b: "b \<in> set (dv_devNodes (the ((devs(d \<mapsto> v')) e)))"
    then have b': "b \<noteq> a" "b \<in> set (dv_devNodes (the (devs e)))"
      using dist only [OF e] d(2) by (auto split: if_splits)
    then have bm: "b \<in> members dvs devs" using e by (auto simp: members_iff)
    then have "ntok nodes b \<noteq> ntok nodes a" using b'(1) am hv_ntok_inj [OF hv] by (auto dest: inj_onD)
    then show "node_fits i (devnum (devs(d \<mapsto> v')) e) (nodes(a := x)) (toks(ntok nodes a := y)) drv b"
      using D(8) [OF e b'(2)] b'(1) num by (auto simp: node_fits_def ntok_def)
  qed (use D d in auto)
qed

section \<open>Searches\<close>

lemma device_search_total:
  "set ds \<subseteq> dom devs \<Longrightarrow>
   \<exists>r. device_search devs k ds = Some r \<and> (r = None \<longrightarrow> (\<forall>d \<in> set ds. devnum devs d \<noteq> k)) \<and>
     (\<forall>d. r = Some d \<longrightarrow> d \<in> set ds \<and> devnum devs d = k)"
  by (induction ds) (auto simp: devnum_def)

lemma node_search_total:
  "set as \<subseteq> dom nodes \<Longrightarrow>
   \<exists>r. node_search nodes k as = Some r \<and> (r = None \<longrightarrow> (\<forall>a \<in> set as. nid nodes a \<noteq> k)) \<and>
     (\<forall>a. r = Some a \<longrightarrow> a \<in> set as \<and> nid nodes a = k)"
  by (induction "as") (auto simp: nid_def)

lemma token_search_total:
  "set ts \<subseteq> dom toks \<Longrightarrow>
   \<exists>r. token_search toks k ts = Some r \<and> (r = None \<longrightarrow> (\<forall>t \<in> set ts. toks t \<noteq> Some k)) \<and>
     (\<forall>t. r = Some t \<longrightarrow> t \<in> set ts \<and> toks t = Some k)"
  by (induction ts) auto

lemma find_update_client:
  assumes "distinct (map hc_addr cs)" "client_of k cs = Some c" "hc_addr (f c) = hc_addr c" "hc_hostId (f c) = hc_hostId c"
  shows "client_of k (update_client (hc_addr c) f cs) = Some (f c)"
    "map hc_addr (update_client (hc_addr c) f cs) = map hc_addr cs"
proof -
  have "c \<in> set cs" using assms(2) by (auto simp: find_Some_iff)
  then have f: "hc_addr x = hc_addr c \<Longrightarrow> x \<in> set cs \<Longrightarrow> x = c" for x
    using assms(1) by (auto simp: distinct_map dest: inj_onD)
  show "map hc_addr (update_client (hc_addr c) f cs) = map hc_addr cs"
    using f assms(3) by (auto simp: update_client_def)
  show "client_of k (update_client (hc_addr c) f cs) = Some (f c)"
    using assms(2) f assms(4)
  proof (induction cs)
    case (Cons x cs)
    show ?case
    proof (cases "hc_addr x = hc_addr c")
      case True
      then have "x = c" using Cons.prems(2) by simp
      then show ?thesis using Cons.prems by (auto simp: update_client_def find_Some_iff split: if_splits)
    next
      case False
      then show ?thesis using Cons by (auto simp: update_client_def split: if_splits)
    qed
  qed simp
qed

section \<open>The invariant of a host\<close>

context service_registry
begin

definition host_at :: "nat \<Rightarrow> u16 \<Rightarrow> nat list \<Rightarrow> DevHostServiceClnt \<Rightarrow> ('m, 's) hdf_core \<Rightarrow> bool" where
  "host_at h i dvs c w \<longleftrightarrow> winv w \<and> (\<forall>x \<ge> c_next w. c_tokens w x = None \<and> c_devices w x = None) \<and>
     distinct (map hc_addr (c_clients w)) \<and> set (c_driverList w) \<subseteq> dom (c_driverMem w) \<and>
     host_ids w h = Some (i, dvs) \<and> client_of (ucast i) (c_clients w) = Some c \<and>
     host_view i dvs (c_devices w) (c_nodes w) (c_tokens w) (dom (c_driverMem w)) (hc_devices c)"

end

text \<open>The identifiers of the devices of a host.\<close>

definition held :: "nat list \<Rightarrow> ('m, 's) hdf_core \<Rightarrow> u32 set" where
  "held dvs w = nid (c_nodes w) ` members dvs (c_devices w)"

context service_registry
begin

lemma host_atD:
  assumes "host_at h i dvs c w"
  shows "winv w" "reg_inv w" "\<And>x. x \<ge> c_next w \<Longrightarrow> c_tokens w x = None" "\<And>x. x \<ge> c_next w \<Longrightarrow> c_devices w x = None"
    "\<And>x. x \<ge> c_next w \<Longrightarrow> c_nodes w x = None"
    "distinct (map hc_addr (c_clients w))" "set (c_driverList w) \<subseteq> dom (c_driverMem w)"
    "host_ids w h = Some (i, dvs)" "client_of (ucast i) (c_clients w) = Some c"
    "host_view i dvs (c_devices w) (c_nodes w) (c_tokens w) (dom (c_driverMem w)) (hc_devices c)"
  using assms by (simp_all add: host_at_def winv_def)

lemma host_at_host: "host_at h i dvs c w \<Longrightarrow> \<exists>hs. c_hosts w h = Some hs \<and> hs_hostId hs = i \<and> hs_devices hs = dvs"
  by (auto dest!: host_atD(8) simp: host_ids_def)

lemma host_at_member:
  assumes "host_at h i dvs c w" "a \<in> members dvs (c_devices w)"
  shows "a < c_next w" "c_nodes w a \<noteq> None" "ntok (c_nodes w) a < c_next w"
proof -
  note H = host_atD [OF assms(1)]
  from hv_fits [OF H(10) assms(2)] show "c_nodes w a \<noteq> None" by (auto simp: node_fits_def)
  then show "a < c_next w" using H(5) [of a] by (cases "a < c_next w") auto
  show "ntok (c_nodes w) a < c_next w"
    using H(3) [of "ntok (c_nodes w) a"] hv_token(1) [OF H(10) assms(2)] by (cases "ntok (c_nodes w) a < c_next w") auto
qed

lemma host_at_device: "host_at h i dvs c w \<Longrightarrow> d \<in> set dvs \<Longrightarrow> d < c_next w \<and> (\<exists>v. c_devices w d = Some v)"
  using host_atD(4) [of h i dvs c w d] hvD(2) [OF host_atD(10) [of h i dvs c w]]
  by (cases "d < c_next w") (auto simp: subset_iff)

text \<open>What leaves the members, their tokens and the devices alone keeps the invariant.\<close>

lemma host_at_frame:
  assumes ok: "host_at h i dvs c w" and winv: "winv w'"
    and fr: "\<And>x. x \<ge> c_next w' \<Longrightarrow> c_tokens w' x = None \<and> c_devices w' x = None"
    and cl: "c_clients w' = c_clients w" and drv: "set (c_driverList w') \<subseteq> dom (c_driverMem w')" "dom (c_driverMem w) \<subseteq> dom (c_driverMem w')"
    and hosts: "host_ids w' h = host_ids w h"
    and nodes: "\<And>a. a \<in> members dvs (c_devices w) \<Longrightarrow> c_nodes w' a = c_nodes w a"
    and toks: "\<And>t. t \<in> set (hc_devices c) \<Longrightarrow> c_tokens w' t = c_tokens w t"
    and devs: "\<And>d. d \<in> set dvs \<Longrightarrow> c_devices w' d = c_devices w d"
  shows "host_at h i dvs c w'" "held dvs w' = held dvs w"
proof -
  note H = host_atD [OF ok]
  note cong = hv_cong [OF H(10) nodes toks devs]
  show "host_at h i dvs c w'"
    using H cl drv hosts winv fr hv_drivers [OF cong(1) drv(2)] by (simp add: host_at_def)
  show "held dvs w' = held dvs w"
    unfolding held_def by (rule cong(2))
qed

end

section \<open>Contracts of the host's operations\<close>

text \<open>The driver manager adds drivers and never takes one away while a device is added.\<close>

definition drivers_ok :: "('m, 's) hdf_core \<Rightarrow> bool" where
  "drivers_ok w \<longleftrightarrow> set (c_driverList w) \<subseteq> dom (c_driverMem w)"

lemma RegisterDriverEntry_drivers:
  "HdfRegisterDriverEntry env e w = (w', r) \<Longrightarrow> drivers_ok w \<Longrightarrow>
   drivers_ok w' \<and> dom (c_driverMem w) \<subseteq> dom (c_driverMem w')"
  by (auto simp: HdfRegisterDriverEntry_def drivers_ok_def fresh_def split: option.splits if_splits)

lemma drivers_fold:
  "drivers_ok w \<Longrightarrow> drivers_ok (fold (\<lambda>e v. fst (HdfRegisterDriverEntry env (Some e) v)) es w) \<and>
     dom (c_driverMem w) \<subseteq> dom (c_driverMem (fold (\<lambda>e v. fst (HdfRegisterDriverEntry env (Some e) v)) es w))"
proof (induction es arbitrary: w)
  case (Cons e es)
  obtain v' r where v': "HdfRegisterDriverEntry env (Some e) w = (v', r)"
    by (rule prod.exhaust)
  from RegisterDriverEntry_drivers [OF v' Cons.prems] Cons.IH [of v'] v' show ?case by auto
qed simp

lemma found_loop_total:
  "set ds \<subseteq> dom mem \<Longrightarrow> \<exists>r. found_loop mem nm ds = Some r \<and> (\<forall>d. r = Some d \<longrightarrow> d \<in> set ds)"
  by (induction ds) auto

lemma FoundDriver_total:
  "drivers_ok w \<Longrightarrow> \<exists>r. HdfDriverManagerFoundDriver nm w = Some r \<and> (\<forall>d. r = Some d \<longrightarrow> d \<in> dom (c_driverMem w))"
  using found_loop_total [of "c_driverList w" "c_driverMem w" nm]
  by (auto simp: HdfDriverManagerFoundDriver_def drivers_ok_def)

lemma GetDriver_total:
  assumes "drivers_ok w"
  obtains w' r where "HdfDriverLoaderGetDriver env nm w = Some (w', r)" "drivers_ok w'"
    "dom (c_driverMem w) \<subseteq> dom (c_driverMem w')" "\<And>d. r = Some d \<Longrightarrow> d \<in> dom (c_driverMem w')"
proof (cases nm)
  case None
  then show thesis using assms that [of w None] by (simp add: HdfDriverLoaderGetDriver_def)
next
  case (Some s)
  obtain r where r: "HdfDriverManagerFoundDriver s w = Some r" "\<And>d. r = Some d \<Longrightarrow> d \<in> dom (c_driverMem w)"
    using FoundDriver_total [OF assms] by blast
  show thesis
  proof (cases "r = None \<and> ce_sysevent env \<noteq> None")
    case False
    then show thesis
      using Some r assms that [of w r]
      by (auto simp: HdfDriverLoaderGetDriver_def HdfDriverManagerGetDriver_def split: option.splits)
  next
    case True
    then obtain send where send: "ce_sysevent env = Some send" by blast
    obtain ret entries where ans: "send (c_ticks w) s = (ret, entries)" by (rule prod.exhaust)
    define w2 where "w2 = fold (\<lambda>e v. fst (HdfRegisterDriverEntry env (Some e) v)) entries (tick w)"
    have w2: "drivers_ok w2" "dom (c_driverMem w) \<subseteq> dom (c_driverMem w2)"
      using drivers_fold [of "tick w" env entries] assms by (auto simp: w2_def drivers_ok_def)
    obtain r2 where r2: "HdfDriverManagerFoundDriver s w2 = Some r2" "\<And>d. r2 = Some d \<Longrightarrow> d \<in> dom (c_driverMem w2)"
      using FoundDriver_total [OF w2(1)] by blast
    have "HdfDriverLoaderGetDriver env nm w = (if ret \<noteq> HDF_SUCCESS then Some (w2, None) else Some (w2, r2))"
      using Some r True send ans r2
      by (simp add: HdfDriverLoaderGetDriver_def HdfDriverManagerGetDriver_def w2_def [symmetric] Let_def)
    then show thesis
      using that [of w2 "if ret \<noteq> HDF_SUCCESS then None else r2"] w2 r2 by (auto split: if_splits)
  qed
qed

context service_registry
begin

lemma GetDriver_ok:
  assumes ok: "host_at h i dvs c w"
  obtains w' r where "HdfDriverLoaderGetDriver env nm w = Some (w', r)" "host_at h i dvs c w'" "held dvs w' = held dvs w"
    "\<And>d. r = Some d \<Longrightarrow> d \<in> dom (c_driverMem w')" "c_devices w' = c_devices w" "c_nodes w' = c_nodes w"
proof -
  note H = host_atD [OF ok]
  obtain w' r where g: "HdfDriverLoaderGetDriver env nm w = Some (w', r)" "drivers_ok w'"
    "dom (c_driverMem w) \<subseteq> dom (c_driverMem w')" "\<And>d. r = Some d \<Longrightarrow> d \<in> dom (c_driverMem w')"
    by (rule GetDriver_total [of w env nm]) (use H(7) that in \<open>auto simp: drivers_ok_def\<close>)
  have f: "c_nodes w' = c_nodes w" "c_devices w' = c_devices w" "c_tokens w' = c_tokens w" "c_clients w' = c_clients w"
    "host_ids w' = host_ids w" "c_next w \<le> c_next w'"
    using GetDriver_frame [OF g(1)] by (auto simp: driver_frame_def host_ids_def)
  have fr: "c_tokens w' x = None \<and> c_devices w' x = None" if "x \<ge> c_next w'" for x
    using H(3,4) [of x] f that by simp
  have "host_at h i dvs c w'" "held dvs w' = held dvs w"
    using host_at_frame [OF ok winv_GetDriver [OF H(1) g(1)] fr, of ] g(2,3) f by (auto simp: drivers_ok_def)
  then show thesis using that [OF g(1)] g(4) f by blast
qed

lemma GetDeviceNode_ok:
  assumes ok: "host_at h i dvs c w" and dv: "dv \<in> set dvs" "devnum (c_devices w) dv = DEVICEID devid"
  obtains (present) a where "HdfDeviceGetDeviceNode dv devid w = Some (Some a)" "devid \<in> held dvs w"
      "a \<in> set (dv_devNodes (the (c_devices w dv)))" "nid (c_nodes w) a = devid"
  | (absent) "HdfDeviceGetDeviceNode dv devid w = Some None" "devid \<notin> held dvs w"
proof -
  note H = host_atD [OF ok]
  note D = hvD [OF H(10)]
  obtain v where v: "c_devices w dv = Some v" using host_at_device [OF ok dv(1)] by blast
  have "set (dv_devNodes v) \<subseteq> dom (c_nodes w)"
    using D(8) [OF dv(1)] v by (auto simp: node_fits_def)
  from node_search_total [OF this, of devid] obtain r where r: "node_search (c_nodes w) devid (dv_devNodes v) = Some r"
    "r = None \<Longrightarrow> \<forall>a \<in> set (dv_devNodes v). nid (c_nodes w) a \<noteq> devid"
    "\<And>a. r = Some a \<Longrightarrow> a \<in> set (dv_devNodes v) \<and> nid (c_nodes w) a = devid"
    by blast
  have g: "HdfDeviceGetDeviceNode dv devid w = Some r"
    using v r(1) by (simp add: HdfDeviceGetDeviceNode_def)
  show thesis
  proof (cases r)
    case (Some a)
    then have "a \<in> members dvs (c_devices w)" using r(3) v dv(1) by (force simp: members_iff)
    then show thesis using present [of a] g Some r(3) v by (force simp: held_def)
  next
    case None
    have "devid \<notin> held dvs w"
    proof
      assume "devid \<in> held dvs w"
      then obtain e a where e: "e \<in> set dvs" "a \<in> set (dv_devNodes (the (c_devices w e)))" "nid (c_nodes w) a = devid"
        by (auto simp: held_def members_iff)
      then have "devnum (c_devices w) e = DEVICEID devid"
        using D(8) [OF e(1,2)] by (auto simp: node_fits_def nid_def)
      then have "e = dv" using inj_onD [OF D(3)] dv e(1) by simp
      then show False using r(2) None e v by auto
    qed
    then show thesis using absent g None by simp
  qed
qed

end

context service_registry
begin

lemma Query_ok:
  assumes ok: "host_at h i dvs c w"
  obtains w' r dvs' where "DevHostServiceQueryOrAddDevice env h (DEVICEID devid) w = Some (w', r)" "host_at h i dvs' c w'"
    "held dvs' w' = held dvs w" "\<And>dv. r = Some dv \<Longrightarrow> dv \<in> set dvs' \<and> devnum (c_devices w') dv = DEVICEID devid"
    "c_driverMem w' = c_driverMem w"
proof -
  note H = host_atD [OF ok]
  note D = hvD [OF H(10)]
  obtain hs where hs: "c_hosts w h = Some hs" "hs_hostId hs = i" "hs_devices hs = dvs"
    using host_at_host [OF ok] by blast
  obtain r where r: "device_search (c_devices w) (DEVICEID devid) dvs = Some r"
    "r = None \<Longrightarrow> \<forall>d \<in> set dvs. devnum (c_devices w) d \<noteq> DEVICEID devid"
    "\<And>d. r = Some d \<Longrightarrow> d \<in> set dvs \<and> devnum (c_devices w) d = DEVICEID devid"
    using device_search_total [OF D(2), of "DEVICEID devid"] by blast
  have find: "DevHostServiceFindDevice (Some h) (DEVICEID devid) w = Some r"
    using hs r(1) by (simp add: DevHostServiceFindDevice_def)
  show thesis
  proof (cases "r \<noteq> None \<or> \<not> ce_device env (c_ticks w)")
    case True
    show thesis
    proof (cases r)
      case (Some d)
      then show thesis using that [of w r dvs] ok find r(3) by (simp add: DevHostServiceQueryOrAddDevice_def)
    next
      case None
      have "host_at h i dvs c (tick w)" "held dvs (tick w) = held dvs w"
        using ok by (simp_all add: host_at_def held_def)
      then show thesis
        using that [of "tick w" None dvs] None True find by (simp add: DevHostServiceQueryOrAddDevice_def HdfDeviceCreate_def)
    qed
  next
    case False
    let ?dv = "c_next w"
    let ?v = "\<lparr>dv_devNodes = [], dv_deviceId = MK_DEVID (ucast i) (DEVICEID devid) 0, dv_devidIndex = 0\<rparr> :: HdfDevice"
    obtain w1 where w1: "c_nodes w1 = c_nodes w" "c_devices w1 = (c_devices w)(?dv \<mapsto> ?v)" "c_tokens w1 = c_tokens w"
      "c_clients w1 = c_clients w" "c_svcmgr w1 = c_svcmgr w" "c_driverMem w1 = c_driverMem w" "c_driverList w1 = c_driverList w"
      "c_next w1 = Suc ?dv" "host_ids w1 = (host_ids w)(h \<mapsto> (i, ?dv # dvs))"
      "DevHostServiceQueryOrAddDevice env h (DEVICEID devid) w = Some (w1, Some ?dv)"
      using False find hs
      by (intro that [of "set_host h (Some (hs\<lparr>hs_devices := ?dv # dvs\<rparr>)) (set_device ?dv (Some ?v)
            (set_device ?dv (Some \<lparr>dv_devNodes = [], dv_deviceId = 0, dv_devidIndex = 0\<rparr>) (fst (fresh (tick w)))))"])
        (auto simp: DevHostServiceQueryOrAddDevice_def HdfDeviceCreate_def host_ids_def fresh_def fun_eq_iff)
    have new: "?dv \<notin> set dvs" using host_at_device [OF ok] by blast
    have num: "devnum (c_devices w) d \<noteq> DEVICEID (dv_deviceId ?v)" if "d \<in> set dvs" for d
      using r(2) False that by (simp add: DEVICEID_MK)
    note add = hv_add_device [OF H(10) new _ num]
    have "winv w1" by (rule winv_same_nodes [OF H(1)]) (simp_all add: w1)
    then have "host_at h i (?dv # dvs) c w1"
      using H w1 add(1) by (simp add: host_at_def)
    moreover have "held (?dv # dvs) w1 = held dvs w"
      using add(2) by (simp add: held_def w1)
    ultimately show thesis
      using that [of w1 "Some ?dv" "?dv # dvs"] w1 by (simp add: devnum_def DEVICEID_MK)
  qed
qed

lemma FreeDevice_ok:
  assumes ok: "host_at h i dvs c w" and dv: "c_devices w dv = Some v" "dv_devNodes v = []"
  obtains w' where "DevHostServiceFreeDevice h (Some dv) w = Some w'" "host_at h i (remove1 dv dvs) c w'"
    "held (remove1 dv dvs) w' = held dvs w"
proof -
  note H = host_atD [OF ok]
  obtain hs where hs: "c_hosts w h = Some hs" "hs_hostId hs = i" "hs_devices hs = dvs"
    using host_at_host [OF ok] by blast
  let ?w1 = "set_device dv None (set_host h (Some (hs\<lparr>hs_devices := remove1 dv dvs\<rparr>)) w)"
  have "DevHostServiceFreeDevice h (Some dv) w = Some ?w1"
    using hs dv by (simp add: DevHostServiceFreeDevice_def HdfDeviceRelease_def)
  moreover note rm = hv_remove_device [OF H(10), of dv]
  have "host_at h i (remove1 dv dvs) c ?w1"
    using H rm(1) dv hs by (auto simp: host_at_def host_ids_def)
  moreover have "held (remove1 dv dvs) ?w1 = held dvs w"
    using rm(2) dv by (simp add: held_def)
  ultimately show thesis using that by blast
qed

lemma add_error_ok:
  assumes ok: "host_at h i dvs c w" and dv: "dv \<in> set dvs"
  obtains w' dvs' where "add_error h dv ret w = Some (w', ret)" "host_at h i dvs' c w'" "held dvs' w' = held dvs w"
proof -
  obtain v where v: "c_devices w dv = Some v" using host_at_device [OF ok dv] by blast
  show thesis
  proof (cases "dv_devNodes v = []")
    case True
    obtain w' where "DevHostServiceFreeDevice h (Some dv) w = Some w'" "host_at h i (remove1 dv dvs) c w'"
      "held (remove1 dv dvs) w' = held dvs w"
      by (rule FreeDevice_ok [OF ok v True])
    then show thesis using that [of w' "remove1 dv dvs"] v True by (simp add: add_error_def)
  next
    case False
    then show thesis using that [of w dvs] v ok by (simp add: add_error_def)
  qed
qed

end

text \<open>A new node is not on any device yet; its token follows it in memory.\<close>

context service_registry
begin

lemma host_at_below:
  assumes ok: "host_at h i dvs c w" and winv: "winv w'"
    and mem: "c_next w \<le> c_next w'" "\<And>x. x \<ge> c_next w' \<Longrightarrow> c_tokens w x = None \<Longrightarrow> c_tokens w' x = None"
    and same: "c_clients w' = c_clients w" "c_devices w' = c_devices w" "c_driverMem w' = c_driverMem w"
      "c_driverList w' = c_driverList w" "host_ids w' = host_ids w"
    and low: "\<And>x. x < c_next w \<Longrightarrow> c_nodes w' x = c_nodes w x" "\<And>x. x < c_next w \<Longrightarrow> c_tokens w' x = c_tokens w x"
  shows "host_at h i dvs c w'" "held dvs w' = held dvs w"
proof -
  note H = host_atD [OF ok]
  have fr: "c_tokens w' x = None \<and> c_devices w' x = None" if "x \<ge> c_next w'" for x
    using mem H(3,4) [of x] that same(2) by auto
  have nodes: "c_nodes w' a = c_nodes w a" if "a \<in> members dvs (c_devices w)" for a
    using low(1) host_at_member(1) [OF ok that] by blast
  have toks: "c_tokens w' t = c_tokens w t" if "t \<in> set (hc_devices c)" for t
  proof -
    have "t < c_next w"
      by (rule hv_tokens_live [OF H(10) that]) (use host_at_member(3) [OF ok] in blast)
    then show ?thesis by (rule low(2))
  qed
  show "host_at h i dvs c w'" "held dvs w' = held dvs w"
    using host_at_frame [OF ok winv fr _ _ _ _ nodes toks] same H(7) by simp_all
qed

lemma NewInstance_ok:
  assumes ok: "host_at h i dvs c w" and tok: "\<And>k. ce_token env k" and drv: "drv \<in> dom (c_driverMem w)"
  obtains (none) w' where "HdfDeviceNodeNewInstance env (Some di) (Some drv) w = Some (w', None)" "host_at h i dvs c w'"
      "held dvs w' = held dvs w"
  | (new) w' n where "HdfDeviceNodeNewInstance env (Some di) (Some drv) w = Some (w', Some (c_next w))" "host_at h i dvs c w'"
      "held dvs w' = held dvs w" "c_nodes w' (c_next w) = Some n" "nd_token n = Some (Suc (c_next w))"
      "c_tokens w' (Suc (c_next w)) = Some (di_deviceId di)" "nd_devId n = di_deviceId di" "\<not> nd_servStatus n" "\<not> nd_linked n"
      "nd_devStatus n = DEVNODE_INITED" "c_driverMem w' = c_driverMem w" "c_devices w' = c_devices w"
      "c_next w \<notin> members dvs (c_devices w')" "Suc (c_next w) \<notin> set (hc_devices c)"
proof -
  note H = host_atD [OF ok]
  obtain w' r where f: "HdfDeviceNodeNewInstance env (Some di) (Some drv) w = Some (w', r)"
    using NewInstance_total [OF H(2) _ tok, of "Some drv" di] H(5) drv by auto
  have winv: "winv w'" using winv_NewInstance [OF H(1) f] by simp
  note op = NewInstance_op [OF H(2) _ f]
  have fresh: "\<forall>x \<ge> c_next w. c_nodes w x = None" using H(5) by blast
  show thesis
  proof (cases r)
    case None
    then have g: "world_grows w w'" using op fresh by simp
    then have "host_at h i dvs c w'" "held dvs w' = held dvs w"
      using host_at_below [OF ok winv] by (simp_all add: world_grows_def)
    then show thesis using none f None by simp
  next
    case (Some a)
    then obtain n where n: "a = c_next w" "c_nodes w' = (c_nodes w)(a \<mapsto> n)" "c_tokens w' = (c_tokens w)(Suc a \<mapsto> di_deviceId di)"
      "nd_token n = Some (Suc a)" "nd_devId n = di_deviceId di" "nd_devStatus n = DEVNODE_INITED" "\<not> nd_servStatus n" "\<not> nd_linked n"
      "c_devices w' = c_devices w" "c_clients w' = c_clients w" "c_driverMem w' = c_driverMem w"
      "c_driverList w' = c_driverList w" "c_next w' = Suc (Suc a)" "host_ids w' = host_ids w"
      using op fresh by auto
    have "host_at h i dvs c w'" "held dvs w' = held dvs w"
      using host_at_below [OF ok winv] n by simp_all
    moreover have "c_next w \<notin> members dvs (c_devices w')"
      using host_at_member(1) [OF ok] n by auto
    moreover have "Suc (c_next w) \<notin> set (hc_devices c)"
    proof
      assume "Suc (c_next w) \<in> set (hc_devices c)"
      then show False
        by (rule hv_tokens_live [OF H(10)]) (use host_at_member(3) [OF ok] in force)
    qed
    ultimately show thesis using new f Some n by simp
  qed
qed

end

text \<open>A node that is about to be attached to a device of the host.\<close>

definition node_pending :: "nat \<Rightarrow> u16 \<Rightarrow> nat list \<Rightarrow> DevHostServiceClnt \<Rightarrow> nat \<Rightarrow> nat \<Rightarrow> u32 \<Rightarrow> nat \<Rightarrow> ('m, 's) hdf_core \<Rightarrow> bool" where
  "node_pending h i dvs c dv a devid t w \<longleftrightarrow> (\<exists>n d. c_nodes w a = Some n \<and> nd_token n = Some t \<and> c_tokens w t = Some devid \<and>
     nd_devId n = devid \<and> nd_driver n = Some d \<and> d \<in> dom (c_driverMem w) \<and> (\<forall>k. nd_hostService n = Some k \<longrightarrow> k = h)) \<and>
     a \<notin> members dvs (c_devices w) \<and> t \<notin> set (hc_devices c) \<and> devid \<notin> held dvs w \<and>
     dv \<in> set dvs \<and> devnum (c_devices w) dv = DEVICEID devid \<and> HOSTID devid = ucast i \<and> devid \<noteq> 0"

lemma node_pendingD:
  assumes "node_pending h i dvs c dv a devid t w"
  obtains n d where "c_nodes w a = Some n" "nd_token n = Some t" "c_tokens w t = Some devid" "nd_devId n = devid"
    "nd_driver n = Some d" "d \<in> dom (c_driverMem w)" "\<And>k. nd_hostService n = Some k \<Longrightarrow> k = h"
    "a \<notin> members dvs (c_devices w)" "t \<notin> set (hc_devices c)" "devid \<notin> held dvs w"
    "dv \<in> set dvs" "devnum (c_devices w) dv = DEVICEID devid" "HOSTID devid = ucast i" "devid \<noteq> 0"
  using assms by (auto simp: node_pending_def)

lemma UpdateIdIndex_simps [simp]:
  "dv_devNodes (UpdateDeivceNodeIdIndex x v) = dv_devNodes v" "dv_deviceId (UpdateDeivceNodeIdIndex x v) = dv_deviceId v"
  by (simp_all add: UpdateDeivceNodeIdIndex_def)

context service_registry
begin

lemma Attach_ok:
  assumes ok: "host_at h i dvs c w" and pend: "node_pending h i dvs c dv a devid t w"
  obtains (attached) w' c' where "HdfDeviceAttach env (Some dv) (Some a) w = Some (w', HDF_SUCCESS)" "host_at h i dvs c' w'"
      "held dvs w' = insert devid (held dvs w)"
  | (refused) w' ret where "HdfDeviceAttach env (Some dv) (Some a) w = Some (w', ret)" "ret \<noteq> HDF_SUCCESS"
      "host_at h i dvs c w'" "held dvs w' = held dvs w" "node_pending h i dvs c dv a devid t w'"
proof -
  note H = host_atD [OF ok]
  obtain n d where n: "c_nodes w a = Some n" "nd_token n = Some t" "c_tokens w t = Some devid" "nd_devId n = devid"
    "nd_driver n = Some d" "d \<in> dom (c_driverMem w)" "\<And>k. nd_hostService n = Some k \<Longrightarrow> k = h"
    "a \<notin> members dvs (c_devices w)" "t \<notin> set (hc_devices c)" "devid \<notin> held dvs w"
    "dv \<in> set dvs" "devnum (c_devices w) dv = DEVICEID devid" "HOSTID devid = ucast i" "devid \<noteq> 0"
    by (rule node_pendingD [OF pend]) (rule that)
  obtain v where v: "c_devices w dv = Some v" using host_at_device [OF ok n(11)] by blast
  have same: "set_token t (Some devid) (put_node a (Some (n\<lparr>nd_devId := devid\<rparr>)) (set_device dv (Some v) w)) = w"
    using n(1,3,4) v by (simp add: put_node_def set_token_def set_device_def fun_upd_idem)
  have ready: "node_ready a w"
    using n(1-7) H(8) by (auto simp: node_ready_def)
  obtain w1 ret where l: "HdfDeviceLaunchNode env a w = Some (w1, ret)"
    using Launch_total [OF H(2) ready, of env] by auto
  have at: "HdfDeviceAttach env (Some dv) (Some a) w =
      (if ret = HDF_SUCCESS
       then do { n1 \<leftarrow> c_nodes w1 a; v2 \<leftarrow> c_devices w1 dv;
                 Some (put_node a (Some (n1\<lparr>nd_linked := True\<rparr>))
                   (set_device dv (Some (UpdateDeivceNodeIdIndex (nd_devId n1) (v2\<lparr>dv_devNodes := dv_devNodes v2 @ [a]\<rparr>))) w1), ret) }
       else Some (w1, ret))"
    using n v same l by (simp add: HdfDeviceAttach_def)
  note op = Launch_op [OF H(2) l]
  then have o: "node_op a w w1" by blast
  have winv1: "winv w1" by (rule winv_node_op [OF H(1) o])
  obtain n1 where n1: "c_nodes w1 a = Some n1" "node_kept (Some n) (Some n1)"
    using node_opD(3) [OF o] n(1) by (auto simp: node_kept_def)
  have fr: "c_nodes w1 = (c_nodes w)(a \<mapsto> n1)" "c_devices w1 = c_devices w" "c_tokens w1 = c_tokens w"
    "c_driverMem w1 = c_driverMem w" "c_driverList w1 = c_driverList w" "c_next w1 = c_next w" "host_ids w1 = host_ids w"
    using node_opD(2) [OF o] n1(1) by (auto simp: node_frame_def fun_eq_iff)
  have k: "nd_token n1 = Some t" "nd_devId n1 = devid" "nd_driver n1 = Some d" "nd_hostService n1 = nd_hostService n"
    using n1(2) n by (simp_all add: node_kept_def)
  show thesis
  proof (cases "ret = HDF_SUCCESS")
    case False
    have cl: "c_clients w1 = c_clients w" using op False by simp
    have out: "c_nodes w1 b = c_nodes w b" if "b \<in> members dvs (c_devices w)" for b
      using n(8) that by (auto simp: fr(1))
    have "host_at h i dvs c w1" "held dvs w1 = held dvs w"
      by (rule host_at_frame [OF ok winv1 _ cl _ _ _ out]; use H(3,4,7) fr in simp)+
    moreover from this have "node_pending h i dvs c dv a devid t w1"
      unfolding node_pending_def using n k n1(1) fr by auto
    ultimately show thesis using refused False at by simp
  next
    case True
    let ?v = "UpdateDeivceNodeIdIndex devid (v\<lparr>dv_devNodes := dv_devNodes v @ [a]\<rparr>)"
    let ?n = "n1\<lparr>nd_linked := True\<rparr>"
    let ?w2 = "put_node a (Some ?n) (set_device dv (Some ?v) w1)"
    let ?c = "c\<lparr>hc_devices := t # hc_devices c\<rparr>"
    have w2: "HdfDeviceAttach env (Some dv) (Some a) w = Some (?w2, HDF_SUCCESS)"
      using at True n1(1) v fr(2) k(2) by simp
    have st: "nd_devStatus n1 = DEVNODE_LAUNCHED"
      using op True n1(1) by auto
    have cl: "c_clients w1 = update_client (hc_addr c) (\<lambda>c. c\<lparr>hc_devices := t # hc_devices c\<rparr>) (c_clients w)"
      using op True n(1,2,3,13) H(9) by (auto simp: attach_clients_def)
    have nodes: "(c_nodes w1)(a \<mapsto> ?n) = (c_nodes w)(a \<mapsto> ?n)" by (simp add: fr(1))
    have "node_fits i (devnum (c_devices w) dv) ((c_nodes w)(a \<mapsto> ?n)) (c_tokens w) (dom (c_driverMem w)) a"
      using n k st by (auto simp: node_fits_def)
    note add = hv_add_node [OF H(10) n(11) v, of ?v a ?n t, OF _ _ n(8) _ n(9) _ this]
    have winv2: "winv ?w2"
      by (rule winv_put_node [of _ _ n1]) (simp_all add: winv1 n1(1))
    have held: "held dvs w = nid (c_nodes w) ` members dvs (c_devices w)" by (simp add: held_def)
    have "host_at h i dvs ?c ?w2"
      unfolding host_at_def
      using winv2 H find_update_client [OF H(6,9), of "\<lambda>c. c\<lparr>hc_devices := t # hc_devices c\<rparr>"] add(1) n(9,10) k cl fr
        host_at_device [OF ok n(11)]
      by (auto simp: held)
    moreover have "held dvs ?w2 = insert devid (held dvs w)"
      using add(3) n(10) k fr(2) nodes by (simp add: held_def)
    ultimately show thesis using attached w2 by blast
  qed
qed

end

context service_registry
begin

lemma detach_finds:
  assumes ok: "host_at h i dvs c w" and devid: "HOSTID devid = ucast i"
  shows "devid \<notin> held dvs w \<Longrightarrow> detach_clients devid (c_tokens w) (c_clients w) = Some (c_clients w)"
    and "a \<in> members dvs (c_devices w) \<Longrightarrow> nid (c_nodes w) a = devid \<Longrightarrow>
      detach_clients devid (c_tokens w) (c_clients w) =
        Some (update_client (hc_addr c) (\<lambda>c. c\<lparr>hc_devices := remove1 (ntok (c_nodes w) a) (hc_devices c)\<rparr>) (c_clients w))"
proof -
  note H = host_atD [OF ok]
  have "set (hc_devices c) \<subseteq> dom (c_tokens w)"
  proof
    fix t assume "t \<in> set (hc_devices c)"
    then show "t \<in> dom (c_tokens w)" by (rule hv_tokens_live [OF H(10)]) auto
  qed
  from token_search_total [OF this, of devid] obtain r where r: "token_search (c_tokens w) devid (hc_devices c) = Some r"
    "r = None \<Longrightarrow> \<forall>t \<in> set (hc_devices c). c_tokens w t \<noteq> Some devid"
    "\<And>t. r = Some t \<Longrightarrow> t \<in> set (hc_devices c) \<and> c_tokens w t = Some devid"
    by blast
  {
    assume n: "devid \<notin> held dvs w"
    have "r = None"
    proof (cases r)
      case (Some t)
      obtain b where "b \<in> members dvs (c_devices w)" "c_tokens w t = Some (nid (c_nodes w) b)"
        by (rule hv_tokens_live [OF H(10), of t]) (use r(3) Some in auto)
      then have "devid \<in> held dvs w" using r(3) [OF Some] by (auto simp: held_def)
      then show ?thesis using n by blast
    qed
    then show "detach_clients devid (c_tokens w) (c_clients w) = Some (c_clients w)"
      using r(1) H(9) devid by (simp add: detach_clients_def)
  next
    assume a: "a \<in> members dvs (c_devices w)" "nid (c_nodes w) a = devid"
    have "r \<noteq> None" using r(2) hv_token [OF H(10) a(1)] a(2) by auto
    then obtain t where t: "r = Some t" by blast
    obtain b where b: "b \<in> members dvs (c_devices w)" "t = ntok (c_nodes w) b" "c_tokens w t = Some (nid (c_nodes w) b)"
      by (rule hv_tokens_live [OF H(10), of t]) (use r(3) t in auto)
    then have "b = a"
      using r(3) [OF t] a inj_onD [OF hvD(4) [OF H(10)]] by auto
    then show "detach_clients devid (c_tokens w) (c_clients w) =
        Some (update_client (hc_addr c) (\<lambda>c. c\<lparr>hc_devices := remove1 (ntok (c_nodes w) a) (hc_devices c)\<rparr>) (c_clients w))"
      using r(1) t b(2) H(9) devid by (simp add: detach_clients_def)
  }
qed

lemma FreePending_ok:
  assumes ok: "host_at h i dvs c w" and pend: "node_pending h i dvs c dv a devid t w"
  obtains w' where "HdfDeviceNodeFreeInstance a w = Some w'" "host_at h i dvs c w'" "held dvs w' = held dvs w"
proof -
  note H = host_atD [OF ok]
  obtain n d where n: "c_nodes w a = Some n" "nd_token n = Some t" "c_tokens w t = Some devid" "nd_devId n = devid"
    "nd_driver n = Some d" "d \<in> dom (c_driverMem w)" "\<And>k. nd_hostService n = Some k \<Longrightarrow> k = h"
    "a \<notin> members dvs (c_devices w)" "t \<notin> set (hc_devices c)" "devid \<notin> held dvs w"
    "dv \<in> set dvs" "devnum (c_devices w) dv = DEVICEID devid" "HOSTID devid = ucast i" "devid \<noteq> 0"
    by (rule node_pendingD [OF pend]) (rule that)
  note det = detach_finds(1) [OF ok n(13,10)]
  obtain w' where f: "HdfDeviceNodeFreeInstance a w = Some w'"
    using Free_total [OF H(2) n(1)] n(4,5,6) det by auto
  note op = Free_op [OF H(2) n(1) f]
  have winv: "winv w'" by (rule winv_freed [OF H(1) op])
  have w': "c_nodes w' = (c_nodes w)(a := None)" "c_devices w' = c_devices w" "c_driverMem w' = c_driverMem w"
    "c_driverList w' = c_driverList w" "c_next w' = c_next w" "host_ids w' = host_ids w" "c_clients w' = c_clients w"
    "\<And>x. x \<noteq> t \<Longrightarrow> c_tokens w' x = c_tokens w x" "c_tokens w' t = None \<or> c_tokens w' t = c_tokens w t"
    using op det n(2,4) by (auto simp: node_freed_def split: if_splits)
  have nodes: "c_nodes w' b = c_nodes w b" if "b \<in> members dvs (c_devices w)" for b
    using n(8) that by (auto simp: w'(1))
  have toks: "c_tokens w' x = c_tokens w x" if "x \<in> set (hc_devices c)" for x
    using n(9) that w'(8) by metis
  have fr: "c_tokens w' x = None \<and> c_devices w' x = None" if "x \<ge> c_next w'" for x
    using H(3,4) [of x] that w' by (cases "x = t") auto
  have "host_at h i dvs c w'" "held dvs w' = held dvs w"
    by (rule host_at_frame [OF ok winv fr _ _ _ _ nodes toks]; use H(7) w' in simp)+
  then show thesis using that f by blast
qed

text \<open>The part of adding a device that follows the search for its driver.\<close>

lemma AddNode_ok:
  assumes ok: "host_at h i dvs c w" and tok: "\<And>k. ce_token env k" and drv: "drv \<in> dom (c_driverMem w)"
    and dv: "dv \<in> set dvs" "devnum (c_devices w) dv = DEVICEID (di_deviceId di)"
    and devid: "HOSTID (di_deviceId di) = ucast i" "di_deviceId di \<noteq> 0" "di_deviceId di \<notin> held dvs w"
  obtains w' r dvs' c' where
    "do { (w3, devNode) \<leftarrow> HdfDeviceNodeNewInstance env (Some di) (Some drv) w;
          (case devNode of
             None \<Rightarrow> Some (HdfDriverLoaderReclaimDriver (Some drv) w3, HDF_DEV_ERR_NO_MEMORY)
           | Some a \<Rightarrow> do {
               n \<leftarrow> c_nodes w3 a;
               (w4, ret) \<leftarrow> HdfDeviceAttach env (Some dv) (Some a)
                  (put_node a (Some (n\<lparr>nd_hostService := Some h, nd_device := Some dv, nd_driver := Some drv\<rparr>)) w3);
               (if ret \<noteq> HDF_SUCCESS
                then do { w5 \<leftarrow> HdfDeviceNodeFreeInstance a w4; add_error h dv ret w5 }
                else Some (w4, HDF_SUCCESS)) }) } = Some (w', r)"
    "host_at h i dvs' c' w'"
    "r = HDF_SUCCESS \<Longrightarrow> held dvs' w' = insert (di_deviceId di) (held dvs w)" "r \<noteq> HDF_SUCCESS \<Longrightarrow> held dvs' w' = held dvs w"
proof (rule NewInstance_ok [OF ok tok drv, of di])
  fix w3 assume "HdfDeviceNodeNewInstance env (Some di) (Some drv) w = Some (w3, None)" "host_at h i dvs c w3"
    "held dvs w3 = held dvs w"
  then show thesis
    using that [of w3 HDF_DEV_ERR_NO_MEMORY dvs c] by (simp add: HdfDriverLoaderReclaimDriver_def)
next
  let ?a = "c_next w"
  fix w3 n assume new: "HdfDeviceNodeNewInstance env (Some di) (Some drv) w = Some (w3, Some ?a)" "host_at h i dvs c w3"
    "held dvs w3 = held dvs w" "c_nodes w3 ?a = Some n" "nd_token n = Some (Suc ?a)"
    "c_tokens w3 (Suc ?a) = Some (di_deviceId di)" "nd_devId n = di_deviceId di" "\<not> nd_servStatus n"
    "c_driverMem w3 = c_driverMem w" "c_devices w3 = c_devices w" "?a \<notin> members dvs (c_devices w3)"
    "Suc ?a \<notin> set (hc_devices c)"
  let ?n = "n\<lparr>nd_hostService := Some h, nd_device := Some dv, nd_driver := Some drv\<rparr>"
  let ?w3 = "put_node ?a (Some ?n) w3"
  note H3 = host_atD [OF new(2)]
  have ok3: "host_at h i dvs c ?w3" "held dvs ?w3 = held dvs w3"
    by (rule host_at_frame [OF new(2)]; use H3(1,3,4,7) new(4,11) in \<open>auto intro: winv_put_node\<close>)+
  have pend: "node_pending h i dvs c dv ?a (di_deviceId di) (Suc ?a) ?w3"
    unfolding node_pending_def using new dv devid ok3(2) drv by auto
  show thesis
  proof (rule Attach_ok [OF ok3(1) pend, of env])
    fix w4 c' assume "HdfDeviceAttach env (Some dv) (Some ?a) ?w3 = Some (w4, HDF_SUCCESS)" "host_at h i dvs c' w4"
      "held dvs w4 = insert (di_deviceId di) (held dvs ?w3)"
    then show thesis
      using that [of w4 HDF_SUCCESS dvs c'] new(1,3,4) ok3(2) by simp
  next
    fix w4 ret assume at: "HdfDeviceAttach env (Some dv) (Some ?a) ?w3 = Some (w4, ret)" "ret \<noteq> HDF_SUCCESS"
      "host_at h i dvs c w4" "held dvs w4 = held dvs ?w3" "node_pending h i dvs c dv ?a (di_deviceId di) (Suc ?a) w4"
    obtain w5 where w5: "HdfDeviceNodeFreeInstance ?a w4 = Some w5" "host_at h i dvs c w5" "held dvs w5 = held dvs w4"
      by (rule FreePending_ok [OF at(3,5)]) (rule that)
    obtain w' dvs' where "add_error h dv ret w5 = Some (w', ret)" "host_at h i dvs' c w'" "held dvs' w' = held dvs w5"
      by (rule add_error_ok [OF w5(2) dv(1), of ret]) (rule that)
    then show thesis
      using that [of w' ret dvs' c] at w5 new(1,3,4) ok3(2) by simp
  qed
qed

lemma AddDevice_ok:
  assumes ok: "host_at h i dvs c w" and tok: "\<And>k. ce_token env k"
    and devid: "HOSTID (di_deviceId di) = ucast i" "di_deviceId di \<noteq> 0"
  obtains w' r dvs' c' where "DevHostServiceAddDevice env (Some h) (Some di) w = Some (w', r)" "host_at h i dvs' c' w'"
    "r = HDF_SUCCESS \<Longrightarrow> di_deviceId di \<notin> held dvs w \<and> held dvs' w' = insert (di_deviceId di) (held dvs w)"
    "r \<noteq> HDF_SUCCESS \<Longrightarrow> held dvs' w' = held dvs w"
proof (cases "ce_loader env")
  case False
  then show thesis using that [of w HDF_FAILURE dvs c] ok by (simp add: DevHostServiceAddDevice_def)
next
  case loader: True
  obtain w1 device dvs1 where q: "DevHostServiceQueryOrAddDevice env h (DEVICEID (di_deviceId di)) w = Some (w1, device)"
    "host_at h i dvs1 c w1" "held dvs1 w1 = held dvs w"
    "\<And>dv. device = Some dv \<Longrightarrow> dv \<in> set dvs1 \<and> devnum (c_devices w1) dv = DEVICEID (di_deviceId di)"
    by (rule Query_ok [OF ok, of env "di_deviceId di"]) (rule that)
  show thesis
  proof (cases device)
    case None
    then show thesis using that [of w1 HDF_DEV_ERR_NO_DEVICE dvs1 c] loader q by (simp add: DevHostServiceAddDevice_def)
  next
    case (Some dv)
    note dv = q(4) [OF Some, THEN conjunct1] q(4) [OF Some, THEN conjunct2]
    show thesis
    proof (rule GetDeviceNode_ok [OF q(2) dv])
      fix a assume "HdfDeviceGetDeviceNode dv (di_deviceId di) w1 = Some (Some a)"
      then show thesis
        using that [of w1 HDF_ERR_DEVICE_BUSY dvs1 c] loader q Some by (simp add: DevHostServiceAddDevice_def)
    next
      assume absent: "HdfDeviceGetDeviceNode dv (di_deviceId di) w1 = Some None" "di_deviceId di \<notin> held dvs1 w1"
      obtain w2 driver where g: "HdfDriverLoaderGetDriver env (di_moduleName di) w1 = Some (w2, driver)" "host_at h i dvs1 c w2"
        "held dvs1 w2 = held dvs1 w1" "\<And>d. driver = Some d \<Longrightarrow> d \<in> dom (c_driverMem w2)" "c_devices w2 = c_devices w1"
        by (rule GetDriver_ok [OF q(2), of env "di_moduleName di"]) (rule that)
      show thesis
      proof (cases driver)
        case None
        obtain w' dvs' where "add_error h dv HDF_DEV_ERR_NODATA w2 = Some (w', HDF_DEV_ERR_NODATA)" "host_at h i dvs' c w'"
          "held dvs' w' = held dvs1 w2"
          by (rule add_error_ok [OF g(2) dv(1), of HDF_DEV_ERR_NODATA]) (rule that)
        then show thesis
          using that [of w' HDF_DEV_ERR_NODATA dvs' c] loader q Some absent g None by (simp add: DevHostServiceAddDevice_def)
      next
        case drv: (Some drv)
        have at2: "devnum (c_devices w2) dv = DEVICEID (di_deviceId di)" "di_deviceId di \<notin> held dvs1 w2"
          using dv(2) absent(2) g(3,5) by simp_all
        obtain w' r dvs' c' where t: "do { (w3, devNode) \<leftarrow> HdfDeviceNodeNewInstance env (Some di) (Some drv) w2;
            (case devNode of
               None \<Rightarrow> Some (HdfDriverLoaderReclaimDriver (Some drv) w3, HDF_DEV_ERR_NO_MEMORY)
             | Some a \<Rightarrow> do {
                 n \<leftarrow> c_nodes w3 a;
                 (w4, ret) \<leftarrow> HdfDeviceAttach env (Some dv) (Some a)
                    (put_node a (Some (n\<lparr>nd_hostService := Some h, nd_device := Some dv, nd_driver := Some drv\<rparr>)) w3);
                 (if ret \<noteq> HDF_SUCCESS
                  then do { w5 \<leftarrow> HdfDeviceNodeFreeInstance a w4; add_error h dv ret w5 }
                  else Some (w4, HDF_SUCCESS)) }) } = Some (w', r)"
          "host_at h i dvs' c' w'" "r = HDF_SUCCESS \<Longrightarrow> held dvs' w' = insert (di_deviceId di) (held dvs1 w2)"
          "r \<noteq> HDF_SUCCESS \<Longrightarrow> held dvs' w' = held dvs1 w2"
          by (rule AddNode_ok [OF g(2) tok g(4) [OF drv] dv(1) at2(1) devid at2(2)]) (rule that)
        show thesis
          by (rule that [OF _ t(2), of r]) (use loader q(1,3) Some absent g(1,3) drv t(1,3,4) in \<open>simp_all add: DevHostServiceAddDevice_def\<close>)
      qed
    qed
  qed
qed

end

context service_registry
begin

lemma FindDevice_ok:
  assumes ok: "host_at h i dvs c w"
  obtains (found) dv where "DevHostServiceFindDevice (Some h) (DEVICEID devid) w = Some (Some dv)" "dv \<in> set dvs"
      "devnum (c_devices w) dv = DEVICEID devid"
  | (missing) "DevHostServiceFindDevice (Some h) (DEVICEID devid) w = Some None" "devid \<notin> held dvs w"
proof -
  note H = host_atD [OF ok]
  note D = hvD [OF H(10)]
  obtain r where r: "device_search (c_devices w) (DEVICEID devid) dvs = Some r"
    "r = None \<Longrightarrow> \<forall>d \<in> set dvs. devnum (c_devices w) d \<noteq> DEVICEID devid"
    "\<And>d. r = Some d \<Longrightarrow> d \<in> set dvs \<and> devnum (c_devices w) d = DEVICEID devid"
    using device_search_total [OF D(2), of "DEVICEID devid"] by blast
  have f: "DevHostServiceFindDevice (Some h) (DEVICEID devid) w = Some r"
    using host_at_host [OF ok] r(1) by (auto simp: DevHostServiceFindDevice_def)
  show thesis
  proof (cases r)
    case (Some dv)
    then show thesis using found f r(3) by simp
  next
    case None
    have "devid \<notin> held dvs w"
    proof
      assume "devid \<in> held dvs w"
      then obtain d a where d: "d \<in> set dvs" "a \<in> set (dv_devNodes (the (c_devices w d)))" "devid = nid (c_nodes w) a"
        by (auto simp: held_def members_iff)
      then show False using D(8) [OF d(1,2)] r(2) [OF None] by (auto simp: node_fits_def nid_def)
    qed
    then show thesis using missing f None by simp
  qed
qed

text \<open>Taking a node off its device and freeing it.\<close>

lemma DetachFree_ok:
  assumes ok: "host_at h i dvs c w" and dv: "dv \<in> set dvs" "c_devices w dv = Some v"
    and a: "a \<in> set (dv_devNodes v)" "nid (c_nodes w) a = devid"
  obtains w1 w2 c' where "HdfDeviceDetach (Some dv) (Some a) w = Some (w1, HDF_SUCCESS)" "HdfDeviceNodeFreeInstance a w1 = Some w2"
    "host_at h i dvs c' w2" "held dvs w2 = held dvs w - {devid}"
    "c_devices w2 dv = Some (v\<lparr>dv_devNodes := remove1 a (dv_devNodes v)\<rparr>)"
proof -
  note H = host_atD [OF ok]
  have am: "a \<in> members dvs (c_devices w)" unfolding members_iff using dv a by (intro bexI [of _ dv]) simp_all
  have "node_fits i (devnum (c_devices w) dv) (c_nodes w) (c_tokens w) (dom (c_driverMem w)) a"
    using hvD(8) [OF H(10) dv(1)] a(1) dv(2) by simp
  then obtain n t d where n: "c_nodes w a = Some n" "nd_linked n" "nd_devStatus n = DEVNODE_LAUNCHED" "nd_token n = Some t"
    "nd_devId n = devid" "DEVICEID devid = DEVICEID (dv_deviceId v)" "HOSTID devid = ucast i"
    "nd_driver n = Some d" "c_driverMem w d \<noteq> None" "ntok (c_nodes w) a = t"
    using a(2) dv(2) by (auto simp: node_fits_def nid_def ntok_def devnum_def)
  let ?v = "v\<lparr>dv_devNodes := remove1 a (dv_devNodes v)\<rparr>"
  let ?w1 = "put_node a (Some (n\<lparr>nd_linked := False\<rparr>)) (set_device dv (Some ?v) w)"
  let ?f = "\<lambda>c. c\<lparr>hc_devices := remove1 t (hc_devices c)\<rparr>"
  note det = detach_finds(2) [OF ok n(7) am a(2), unfolded n(10)]
  have winv1: "winv ?w1" by (rule winv_put_node [of _ _ n]) (use H(1) n(1) in simp_all)
  have inv1: "reg_inv ?w1" by (rule winvD [OF winv1])
  obtain w2 where u: "HdfDeviceUnlaunchNode a ?w1 = Some w2"
    using Unlaunch_total [OF inv1, of a "n\<lparr>nd_linked := False\<rparr>"] n det by auto
  have detach: "HdfDeviceDetach (Some dv) (Some a) w = Some (w2, HDF_SUCCESS)"
    using dv(2) n u by (simp add: HdfDeviceDetach_def)
  have u2: "node_frame a ?w1 w2" "unpublished a w2" "c_clients w2 = update_client (hc_addr c) ?f (c_clients w)"
    and n2': "map_option nd_devStatus (c_nodes w2 a) = Some DEVNODE_INITED" "node_left (n\<lparr>nd_linked := False\<rparr>) (c_nodes w2 a)"
    using Unlaunch_op [OF inv1 _ u] n det by auto
  obtain n2 where n2: "c_nodes w2 a = Some n2" "nd_devStatus n2 = DEVNODE_INITED" "nd_token n2 = Some t"
    using n2' n(4) by (auto simp: node_left_def node_kept_def)
  have winv2: "winv w2" by (rule winv_Unlaunch [OF winv1 u])
  have dn: "nd_driver n2 = None"
    using u n(1,3) n2(1) by (auto simp: HdfDeviceUnlaunchNode_def do_simps)
  obtain w3 where f: "HdfDeviceNodeFreeInstance a w2 = Some w3"
    using Free_total [OF winvD [OF winv2] n2(1)] dn n2(2) by auto
  note op = Free_op [OF winvD [OF winv2] n2(1) f]
  have winv3: "winv w3" by (rule winv_freed [OF winv2 op])
  have w3: "c_nodes w3 = (c_nodes w)(a := None)" "c_tokens w3 = (c_tokens w)(t := None)"
    "c_devices w3 = (c_devices w)(dv \<mapsto> ?v)" "c_driverMem w3 = c_driverMem w" "c_driverList w3 = c_driverList w"
    "c_next w3 = c_next w" "host_ids w3 = host_ids w" "c_clients w3 = update_client (hc_addr c) ?f (c_clients w)"
    using op u2 n2 by (auto simp: node_freed_def node_frame_def fun_eq_iff)
  have rm: "host_view i dvs ((c_devices w)(dv \<mapsto> ?v)) ((c_nodes w)(a := None)) ((c_tokens w)(t := None)) (dom (c_driverMem w)) (remove1 t (hc_devices c))"
    "nid ((c_nodes w)(a := None)) ` members dvs ((c_devices w)(dv \<mapsto> ?v)) = held dvs w - {devid}"
    using hv_remove_node(1) [OF H(10) dv, of ?v a None None] hv_remove_node(3) [OF H(10) dv, of ?v a None] n(10) a
    by (simp_all add: held_def)
  have "host_at h i dvs (?f c) w3"
    unfolding host_at_def using winv3 H find_update_client [OF H(6,9), of ?f] rm(1) w3 host_at_device [OF ok dv(1)] by auto
  moreover have "held dvs w3 = held dvs w - {devid}"
    using rm(2) w3 by (simp add: held_def)
  ultimately show thesis using that detach f w3(3) by simp
qed

lemma DelDevice_ok:
  assumes ok: "host_at h i dvs c w" and devid: "HOSTID devid = ucast i"
  obtains w' r dvs' c' where "DevHostServiceDelDevice (Some h) devid w = Some (w', r)" "host_at h i dvs' c' w'"
    "held dvs' w' = held dvs w - {devid}" "devid \<in> held dvs w \<Longrightarrow> r = HDF_SUCCESS"
proof (rule FindDevice_ok [OF ok, of devid])
  assume "DevHostServiceFindDevice (Some h) (DEVICEID devid) w = Some None" "devid \<notin> held dvs w"
  then show thesis using that [of w HDF_SUCCESS dvs c] ok by (simp add: DevHostServiceDelDevice_def)
next
  fix dv assume dv: "DevHostServiceFindDevice (Some h) (DEVICEID devid) w = Some (Some dv)" "dv \<in> set dvs"
    "devnum (c_devices w) dv = DEVICEID devid"
  obtain v where v: "c_devices w dv = Some v" using host_at_device [OF ok dv(2)] by blast
  show thesis
  proof (rule GetDeviceNode_ok [OF ok dv(2,3)])
    assume "HdfDeviceGetDeviceNode dv devid w = Some None" "devid \<notin> held dvs w"
    then show thesis using that [of w HDF_DEV_ERR_NO_DEVICE dvs c] ok dv(1) by (simp add: DevHostServiceDelDevice_def)
  next
    fix a assume a: "HdfDeviceGetDeviceNode dv devid w = Some (Some a)" "devid \<in> held dvs w"
      "a \<in> set (dv_devNodes (the (c_devices w dv)))" "nid (c_nodes w) a = devid"
    obtain w1 w2 c' where w2: "HdfDeviceDetach (Some dv) (Some a) w = Some (w1, HDF_SUCCESS)"
      "HdfDeviceNodeFreeInstance a w1 = Some w2" "host_at h i dvs c' w2" "held dvs w2 = held dvs w - {devid}"
      "c_devices w2 dv = Some (v\<lparr>dv_devNodes := remove1 a (dv_devNodes v)\<rparr>)"
      by (rule DetachFree_ok [OF ok dv(2) v _ a(4)]) (use a(3) v that in auto)
    show thesis
    proof (cases "remove1 a (dv_devNodes v) = []")
      case False
      then show thesis using that [of w2 HDF_SUCCESS dvs c'] dv(1) a(1) w2 by (simp add: DevHostServiceDelDevice_def)
    next
      case True
      obtain w3 where "DevHostServiceFreeDevice h (Some dv) w2 = Some w3" "host_at h i (remove1 dv dvs) c' w3"
        "held (remove1 dv dvs) w3 = held dvs w2"
        by (rule FreeDevice_ok [OF w2(3,5)]) (use True that in auto)
      then show thesis using that [of w3 HDF_SUCCESS "remove1 dv dvs" c'] dv(1) a(1) w2 True by (simp add: DevHostServiceDelDevice_def)
    qed
  qed
qed

end

section \<open>The host implements a set of devices\<close>

datatype host_call = HostAdd HdfDeviceInfo | HostDel u32

fun call_devid :: "host_call \<Rightarrow> u32" where
  "call_devid (HostAdd di) = di_deviceId di"
| "call_devid (HostDel devid) = devid"

text \<open>The calls of the device manager, with what they return.\<close>

fun host_run :: "'s core_env \<Rightarrow> nat \<Rightarrow> host_call list \<Rightarrow> ('m, 's) hdf_core \<Rightarrow> (('m, 's) hdf_core \<times> int list) option" where
  "host_run env h [] w = Some (w, [])"
| "host_run env h (HostAdd di # cs) w = do {
     (w1, r) \<leftarrow> DevHostServiceAddDevice env (Some h) (Some di) w;
     (w2, rs) \<leftarrow> host_run env h cs w1;
     Some (w2, r # rs)
   }"
| "host_run env h (HostDel devid # cs) w = do {
     (w1, r) \<leftarrow> DevHostServiceDelDevice (Some h) devid w;
     (w2, rs) \<leftarrow> host_run env h cs w1;
     Some (w2, r # rs)
   }"

text \<open>
  The specification over the set of the devices that are there. Adding may fail, which changes
  nothing, and fails if the device is there; deleting a device that is there succeeds.
\<close>

fun host_spec :: "host_call list \<Rightarrow> int list \<Rightarrow> u32 set \<Rightarrow> u32 set \<Rightarrow> bool" where
  "host_spec [] [] S S' \<longleftrightarrow> S' = S"
| "host_spec (HostAdd di # cs) (r # rs) S S' \<longleftrightarrow>
     (if r = HDF_SUCCESS then di_deviceId di \<notin> S \<and> host_spec cs rs (insert (di_deviceId di) S) S' else host_spec cs rs S S')"
| "host_spec (HostDel devid # cs) (r # rs) S S' \<longleftrightarrow>
     (devid \<in> S \<longrightarrow> r = HDF_SUCCESS) \<and> host_spec cs rs (S - {devid}) S'"
| "host_spec cs rs S S' \<longleftrightarrow> False"

context service_registry
begin

lemma host_run_ok:
  assumes "host_at h i dvs c w" "\<And>k. ce_token env k"
    and "\<And>x. x \<in> set cs \<Longrightarrow> HOSTID (call_devid x) = ucast i \<and> call_devid x \<noteq> 0"
  shows "\<exists>w' rs dvs' c'. host_run env h cs w = Some (w', rs) \<and> host_at h i dvs' c' w' \<and>
    host_spec cs rs (held dvs w) (held dvs' w')"
  using assms(1,3)
proof (induction cs arbitrary: w dvs c)
  case Nil
  then show ?case by auto
next
  case (Cons x cs)
  have rest: "\<And>y. y \<in> set cs \<Longrightarrow> HOSTID (call_devid y) = ucast i \<and> call_devid y \<noteq> 0"
    using Cons.prems(2) by simp
  show ?case
  proof (cases x)
    case (HostAdd di)
    have d: "HOSTID (di_deviceId di) = ucast i" "di_deviceId di \<noteq> 0"
      using Cons.prems(2) [of x] HostAdd by simp_all
    obtain w1 r dvs1 c1 where s: "DevHostServiceAddDevice env (Some h) (Some di) w = Some (w1, r)" "host_at h i dvs1 c1 w1"
      "r = HDF_SUCCESS \<Longrightarrow> di_deviceId di \<notin> held dvs w \<and> held dvs1 w1 = insert (di_deviceId di) (held dvs w)"
      "r \<noteq> HDF_SUCCESS \<Longrightarrow> held dvs1 w1 = held dvs w"
      by (rule AddDevice_ok [OF Cons.prems(1) assms(2) d]) (rule that)
    from Cons.IH [OF s(2) rest] s HostAdd show ?thesis by (cases "r = HDF_SUCCESS") fastforce+
  next
    case (HostDel devid)
    have d: "HOSTID devid = ucast i"
      using Cons.prems(2) [of x] HostDel by simp
    obtain w1 r dvs1 c1 where s: "DevHostServiceDelDevice (Some h) devid w = Some (w1, r)" "host_at h i dvs1 c1 w1"
      "held dvs1 w1 = held dvs w - {devid}" "devid \<in> held dvs w \<Longrightarrow> r = HDF_SUCCESS"
      by (rule DelDevice_ok [OF Cons.prems(1) d]) (rule that)
    from Cons.IH [OF s(2) rest] s HostDel show ?thesis by fastforce
  qed
qed

lemma host_at_tokens:
  assumes "host_at h i dvs c w"
  shows "distinct (hc_devices c)" "c_tokens w ` set (hc_devices c) = Some ` held dvs w" "length (hc_devices c) = card (held dvs w)"
proof -
  note hv = host_atD(10) [OF assms]
  show "distinct (hc_devices c)" by (rule hvD(5) [OF hv])
  show "c_tokens w ` set (hc_devices c) = Some ` held dvs w"
    using hv_token(1) [OF hv] by (force simp: hvD(6) [OF hv] held_def image_image intro!: image_cong)
  have "length (hc_devices c) = card (ntok (c_nodes w) ` members dvs (c_devices w))"
    using distinct_card [OF hvD(5) [OF hv]] hvD(6) [OF hv] by simp
  also have "\<dots> = card (held dvs w)"
    unfolding held_def using card_image [OF hv_ntok_inj [OF hv]] card_image [OF hvD(4) [OF hv]] by simp
  finally show "length (hc_devices c) = card (held dvs w)" .
qed

end

text \<open>
  C3. A device host refines a set of device identifiers. Start a host without devices and let the
  manager add and delete devices in any order, with any outcome of the allocations other than those
  of tokens and of the driver functions: every call returns, the results are those of the
  specification on the set, the nodes found on the host's devices are exactly the set, and the
  manager holds exactly one token for each element of it.
\<close>

theorem host_refines_device_set:
  assumes mgr: "c_svcmgr w = Some (Some (manager_ops nenv al hasDevmgr objService, m))" "mgr_ok m" "services m = []"
    and host: "c_hosts w h = Some hs" "hs_devices hs = []"
    and clnt: "DevmgrServiceFindDeviceHost (ucast (hs_hostId hs)) w = Some c" "hc_devices c = []" "distinct (map hc_addr (c_clients w))"
    and drv: "set (c_driverList w) \<subseteq> dom (c_driverMem w)"
    and fresh_mem: "\<forall>x \<ge> c_next w. c_nodes w x = None \<and> c_tokens w x = None \<and> c_devices w x = None"
    and tok: "\<forall>k. ce_token env k"
    and ids: "\<forall>x \<in> set cs. HOSTID (call_devid x) = ucast (hs_hostId hs) \<and> call_devid x \<noteq> 0"
  shows "\<exists>w' rs hs' c'. host_run env h cs w = Some (w', rs) \<and> c_hosts w' h = Some hs' \<and>
    host_spec cs rs {} (held (hs_devices hs') w') \<and>
    DevmgrServiceFindDeviceHost (ucast (hs_hostId hs)) w' = Some c' \<and>
    c_tokens w' ` set (hc_devices c') = Some ` held (hs_devices hs') w' \<and> length (hc_devices c') = card (held (hs_devices hs') w')"
proof -
  let ?i = "hs_hostId hs"
  have hv: "host_view ?i [] (c_devices w) (c_nodes w) (c_tokens w) (dom (c_driverMem w)) []"
    by (rule host_viewI) (simp_all add: members_def)
  have "devsvc.reg_rel nenv al hasDevmgr objService (c_svcmgr w) (c_nodes w)"
    using mgr by (simp add: devsvc.reg_rel_def devsvc.clnt_ok_def svc_view_empty)
  then have "devsvc.host_at nenv al hasDevmgr objService h ?i [] c w"
    using host clnt drv fresh_mem hv
    by (simp add: devsvc.host_at_def devsvc.winv_def host_ids_def DevmgrServiceFindDeviceHost_def)
  from devsvc.host_run_ok [OF this, of env cs] tok ids
  obtain w' rs dvs' c' where r: "host_run env h cs w = Some (w', rs)" "devsvc.host_at nenv al hasDevmgr objService h ?i dvs' c' w'"
    "host_spec cs rs (held [] w) (held dvs' w')"
    by blast
  obtain hs' where hs': "c_hosts w' h = Some hs'" "hs_devices hs' = dvs'"
    using devsvc.host_at_host [OF r(2)] by blast
  have "held [] w = {}" by (simp add: held_def members_def)
  then show ?thesis
    using r hs' devsvc.host_at_tokens [OF r(2)] devsvc.host_atD(9) [OF r(2)]
    by (auto simp: DevmgrServiceFindDeviceHost_def)
qed

text \<open>A world of one host, its client and one driver.\<close>

definition one_host_world :: "(nat DevSvcManager, nat) hdf_core" where
  "one_host_world = one_world\<lparr>c_nodes := Map.empty,
     c_hosts := [5 \<mapsto> \<lparr>hs_hostId = 3, hs_hostName = Some ''h'', hs_devices = [], hs_observer = \<lparr>obs_services = []\<rparr>\<rparr>],
     c_clients := [\<lparr>hc_addr = 6, hc_devices = [], hc_unloadDevInfos = [], hc_dynamicDevInfos = [], hc_hostService = Some 5,
                    hc_hostId = 3, hc_hostPid = 0, hc_hostName = Some ''h'', hc_stopFlag = False\<rparr>],
     c_next := 9\<rparr>"

definition drv_info :: "u32 \<Rightarrow> HdfDeviceInfo" where
  "drv_info devid = HdfDeviceInfoConstruct\<lparr>di_deviceId := devid, di_policy := 1, di_moduleName := Some ''drv'', di_svcName := Some ''svc''\<rparr>"

text \<open>Adding its first device succeeds: the device, the node and the service are created.\<close>

lemma calm_query: "DevHostServiceQueryOrAddDevice calm_env 5 1 one_host_world = Some (set_host 5 (Some \<lparr>hs_hostId = 3, hs_hostName = Some ''h'', hs_devices = [9], hs_observer = \<lparr>obs_services = []\<rparr>\<rparr>)
   (set_device 9 (Some \<lparr>dv_devNodes = [], dv_deviceId = 0x03000100, dv_devidIndex = 0\<rparr>) (one_host_world\<lparr>c_ticks := 1, c_next := 10\<rparr>)), Some 9)"
  by (simp add: DevHostServiceQueryOrAddDevice_def DevHostServiceFindDevice_def one_host_world_def one_world_def HdfDeviceCreate_def
   calm_env_def tick_def fresh_def set_device_def set_host_def MK_DEVID_def)
lemma calm_add:
  "\<exists>w'. DevHostServiceAddDevice calm_env (Some 5) (Some (drv_info 0x03000101)) one_host_world = Some (w', HDF_SUCCESS)"
  apply (simp add: DevHostServiceAddDevice_def calm_query drv_info_def DEVICEID_def)
  apply (simp add: calm_env_def)
  apply (simp add: HdfDeviceGetDeviceNode_def HdfDriverLoaderGetDriver_def HdfDriverManagerGetDriver_def HdfDriverManagerFoundDriver_def
    one_host_world_def one_world_def one_driver_def set_host_def set_device_def)
  apply (simp add: HdfDeviceNodeNewInstance_def DeviceNodeExtCreate_def HdfDeviceTokenNewInstance_def fresh_def tick_def set_token_def put_node_def
    HdfStringCopy_def strncpy_s_ok_def Let_def HdfDeviceInfoConstruct_def)
  apply (simp add: HdfDeviceAttach_def set_token_def put_node_def set_device_def)
  apply (simp add: calm_env_def HdfDeviceLaunchNode_def put_node_def DeviveDriverBind_def tick_def log_call_def)
  apply (simp add: calm_env_def HdfDeviceNodePublishService_def DeviceNodeExtPublishService_def HdfDeviceNodePublishPublicService_def put_node_def Let_def
      DevSvcManagerClntAddService_def calm_ops_def manager_ops_def DevSvcManagerAddService_def DevSvcManagerSearchService_def
      DevSvcRecordNewInstance_def NotifyServiceStatusLocked_def clnt_state_def HdfStringCopy_def strncpy_s_ok_def word_le_nat_alt)
  apply (simp add: calm_env_def HdfDeviceNodePublishLocalService_def HdfServiceObserverPublishService_def HdfServiceObserverRecordObtain_def tick_def set_host_def Let_def)
  apply (simp add: calm_env_def HdfServiceObserverPublishService_def DevmgrServiceClntAttachDevice_def DevmgrServiceAttachDevice_def DevmgrServiceFindDeviceHost_def HOSTID_def DeviceTokenClntNewInstance_def tick_def put_node_def set_device_def)
  done

theorem host_refines_device_set_witness:
  "\<exists>w' hs'. host_run calm_env 5 [HostAdd (drv_info 0x03000101)] one_host_world = Some (w', [HDF_SUCCESS]) \<and>
     c_hosts w' 5 = Some hs' \<and> held (hs_devices hs') w' = {0x03000101}"
proof -
  let ?m = "\<lparr>services = [], svcstatListeners = [], g_holderList = [], holder_mem = Map.empty, events = []\<rparr> :: nat DevSvcManager"
  let ?hs = "\<lparr>hs_hostId = 3, hs_hostName = Some ''h'', hs_devices = [], hs_observer = \<lparr>obs_services = []\<rparr>\<rparr> :: nat DevHostService"
  let ?c = "\<lparr>hc_addr = 6, hc_devices = [], hc_unloadDevInfos = [], hc_dynamicDevInfos = [], hc_hostService = Some 5,
     hc_hostId = 3, hc_hostPid = 0, hc_hostName = Some ''h'', hc_stopFlag = False\<rparr>"
  have "c_svcmgr one_host_world = Some (Some (calm_ops, ?m))" "mgr_ok ?m" "services ?m = []" "c_hosts one_host_world 5 = Some ?hs"
    "hs_devices ?hs = []" "DevmgrServiceFindDeviceHost (ucast (hs_hostId ?hs)) one_host_world = Some ?c" "hc_devices ?c = []"
    "distinct (map hc_addr (c_clients one_host_world))" "set (c_driverList one_host_world) \<subseteq> dom (c_driverMem one_host_world)"
    "\<forall>x \<ge> c_next one_host_world. c_nodes one_host_world x = None \<and> c_tokens one_host_world x = None \<and> c_devices one_host_world x = None"
    "\<forall>k. ce_token calm_env k"
    "\<forall>x \<in> set [HostAdd (drv_info 0x03000101)]. HOSTID (call_devid x) = ucast (hs_hostId ?hs) \<and> call_devid x \<noteq> 0"
    by (simp_all add: one_host_world_def one_world_def mgr_ok_def services_ok_def holders_ok_def DevmgrServiceFindDeviceHost_def
        calm_env_def drv_info_def HOSTID_def)
  from host_refines_device_set [OF this(1) [unfolded calm_ops_def] this(2-12)] obtain w' rs hs' where
    r: "host_run calm_env 5 [HostAdd (drv_info 0x03000101)] one_host_world = Some (w', rs)" "c_hosts w' 5 = Some hs'"
      "host_spec [HostAdd (drv_info 0x03000101)] rs {} (held (hs_devices hs') w')"
    by blast
  moreover have "rs = [HDF_SUCCESS]"
    using r(1) calm_add by auto
  ultimately show ?thesis by (auto simp: drv_info_def)
qed

end
