(* ===== verification/Host_Success.thy ===== *)
theory Host_Success
  imports Host_Refinement
begin

text \<open>
  When nothing fails: with memory, a driver for the description whose functions succeed and a willing
  registry, \<^verbatim>\<open>DevHostServiceAddDevice\<close> succeeds.
\<close>

text \<open>All allocations succeed, the functions of drivers succeed and binding gives a service of a valid class.\<close>

definition smooth :: "'s core_env \<Rightarrow> bool" where
  "smooth env \<longleftrightarrow> ce_loader env \<and>
     (\<forall>k. ce_node env k \<and> ce_token env k \<and> ce_tokenClnt env k \<and> ce_device env k \<and> ce_string env k \<and> ce_io env k \<and>
        rec_ok (ce_obs env k) \<and> rec_mutex_ok (ce_obs env k)) \<and>
     (\<forall>k e. ce_init env k e = HDF_SUCCESS) \<and>
     (\<forall>k e x. \<exists>s cls. ce_bind env k e x = (HDF_SUCCESS, Some s, cls) \<and> cls < 0x100)"

text \<open>The description has a service name, and a driver with its module name is on the list; all drivers can be bound and initialised.\<close>

definition driver_ready :: "('m, 's) hdf_core \<Rightarrow> HdfDeviceInfo \<Rightarrow> bool" where
  "driver_ready w di \<longleftrightarrow> (\<exists>s. di_svcName di = Some s \<and> length s < SECUREC_STRING_MAX_LEN) \<and>
     (\<exists>d \<in> set (c_driverList w). \<exists>e nm. c_driverMem w d = Some e \<and> di_moduleName di = Some nm \<and> ent_moduleName e = Some nm) \<and>
     (\<forall>d \<in> set (c_driverList w). \<exists>e. c_driverMem w d = Some e \<and> ent_Bind e \<and> ent_Init e)"

definition same_drivers :: "('m, 's) hdf_core \<Rightarrow> ('m, 's) hdf_core \<Rightarrow> bool" where
  "same_drivers w w' \<longleftrightarrow> c_driverMem w' = c_driverMem w \<and> c_driverList w' = c_driverList w"

lemma same_drivers_refl [simp]: "same_drivers w w"
  by (simp add: same_drivers_def)

lemma same_drivers_trans: "same_drivers w w1 \<Longrightarrow> same_drivers w1 w2 \<Longrightarrow> same_drivers w w2"
  by (simp add: same_drivers_def)

lemma same_drivers_ready: "same_drivers w w' \<Longrightarrow> driver_ready w' di \<longleftrightarrow> driver_ready w di"
  by (simp add: same_drivers_def driver_ready_def)

lemma same_drivers_frame: "node_frame a w w' \<Longrightarrow> same_drivers w w'"
  by (simp add: node_frame_def same_drivers_def)

lemma found_loop_found:
  assumes "\<forall>d \<in> set ds. mem d \<noteq> None" "\<exists>d \<in> set ds. \<exists>e. mem d = Some e \<and> ent_moduleName e = Some nm"
  shows "\<exists>d \<in> set ds. found_loop mem nm ds = Some (Some d)"
  using assms
proof (induction ds)
  case (Cons a ds)
  then obtain e where e: "mem a = Some e" by auto
  show ?case
  proof (cases "ent_moduleName e = Some nm")
    case True
    then show ?thesis using e by simp
  next
    case False
    then show ?thesis using Cons e by auto
  qed
qed simp

lemma GetDriver_ready:
  assumes "driver_ready w di"
  obtains d e where "HdfDriverLoaderGetDriver env (di_moduleName di) w = Some (w, Some d)" "c_driverMem w d = Some e" "ent_Bind e" "ent_Init e"
proof -
  obtain nm where nm: "di_moduleName di = Some nm" "\<exists>d \<in> set (c_driverList w). \<exists>e. c_driverMem w d = Some e \<and> ent_moduleName e = Some nm"
    using assms by (auto simp: driver_ready_def)
  have all: "\<forall>d \<in> set (c_driverList w). \<exists>e. c_driverMem w d = Some e \<and> ent_Bind e \<and> ent_Init e"
    using assms by (simp add: driver_ready_def)
  obtain d where "d \<in> set (c_driverList w)" "found_loop (c_driverMem w) nm (c_driverList w) = Some (Some d)"
    using found_loop_found [OF _ nm(2)] all by blast
  then show thesis
    using that [of d] all nm(1) by (auto simp: HdfDriverLoaderGetDriver_def HdfDriverManagerGetDriver_def HdfDriverManagerFoundDriver_def)
qed

lemma Query_smooth:
  assumes "smooth env" "DevHostServiceQueryOrAddDevice env h d w = Some (w', r)"
  shows "r \<noteq> None" "same_drivers w w'"
  using assms
  by (auto simp: DevHostServiceQueryOrAddDevice_def HdfDeviceCreate_def fresh_def tick_def smooth_def same_drivers_def
      set_host_def set_device_def do_simps split: if_splits)

lemma NewInstance_smooth:
  assumes "smooth env" "di_svcName di = Some s" "length s < SECUREC_STRING_MAX_LEN"
    and "HdfDeviceNodeNewInstance env (Some di) driver w = Some (w', r)"
  shows "r \<noteq> None"
proof -
  have "ce_node env (c_ticks w)" "ce_token env (Suc (c_ticks w))" "ce_string env (Suc (Suc (c_ticks w)))"
    using assms(1) by (simp_all add: smooth_def)
  then show ?thesis using assms(2-4) HdfStringCopy_ok [OF assms(3)]
    by (auto simp: HdfDeviceNodeNewInstance_def DeviceNodeExtCreate_def HdfDeviceTokenNewInstance_def fresh_def tick_def
        put_node_def set_token_def Let_def)
qed

lemma observer_publish_succeeds:
  assumes "rec_ok al" "rec_mutex_ok al"
  shows "fst (snd (HdfServiceObserverPublishService al (Some ob) (Some nm) dev policy service)) = HDF_SUCCESS"
  using assms
  by (cases "observed (svc_key_of nm) ob")
    (simp_all add: HdfServiceObserverPublishService_def HdfServiceObserverRecordObtain_def Let_def split: prod.splits)

lemma PublishLocal_smooth:
  assumes "smooth env" "c_nodes w a = Some n" "nd_hostService n = Some h" "nd_servName n = Some nm"
    and "HdfDeviceNodePublishLocalService env a w = Some (w', r)"
  shows "r = HDF_SUCCESS"
proof -
  obtain hs where hs: "c_hosts w h = Some hs"
    using assms(2,3,5) by (auto simp: HdfDeviceNodePublishLocalService_def do_simps)
  let ?p = "HdfServiceObserverPublishService (ce_obs env (c_ticks w)) (Some (hs_observer hs)) (Some nm) (nd_devId n) (nd_policy n) (nd_service n)"
  have "fst (snd ?p) = HDF_SUCCESS"
    by (rule observer_publish_succeeds) (use assms(1) in \<open>simp_all add: smooth_def\<close>)
  then show ?thesis
    using assms(2-5) hs by (cases ?p) (simp add: HdfDeviceNodePublishLocalService_def)
qed

text \<open>What the registry asks of a node that is published.\<close>

definition publishable :: "'s HdfDeviceNode \<Rightarrow> bool" where
  "publishable n \<longleftrightarrow> (nd_policy n = 1 \<or> nd_policy n = 2 \<longrightarrow> nd_service n \<noteq> None \<and> nd_deviceClass n < 0x100)"

lemma Bind_smooth:
  assumes "smooth env" "c_nodes w a = Some n" "nd_driver n = Some d" "c_driverMem w d = Some e" "ent_Bind e"
    and "DeviveDriverBind env a w = Some (w', r)"
  shows "r = HDF_SUCCESS" "\<exists>n'. c_nodes w' a = Some n' \<and> publishable n'"
proof -
  obtain s cls where b: "ce_bind env (c_ticks w) e (nd_service n, nd_deviceClass n) = (HDF_SUCCESS, Some s, cls)" "cls < 0x100"
    using assms(1) unfolding smooth_def by blast
  then show "r = HDF_SUCCESS" "\<exists>n'. c_nodes w' a = Some n' \<and> publishable n'"
    using assms(2-6) by (auto simp: DeviveDriverBind_def publishable_def split: if_splits)
qed

context willing_registry
begin

lemma PublishPublic_willing:
  assumes "reg_inv w" "c_nodes w a = Some n" "nd_service n \<noteq> None" "nd_deviceClass n < 0x100"
    and "nd_servName n = Some nm" "length nm < SECUREC_STRING_MAX_LEN"
    and "HdfDeviceNodePublishPublicService a w = Some (w', r)"
  shows "r = HDF_SUCCESS"
  using assms(2-5,7) clnt_add_willing [OF reg_rel_ok [OF assms(1)] assms(6,4), of a]
  by (auto simp: HdfDeviceNodePublishPublicService_def Let_def do_simps)

lemma ExtPublish_willing:
  assumes "smooth env" "reg_inv w" "c_nodes w a = Some n" "nd_service n \<noteq> None" "nd_deviceClass n < 0x100"
    and "nd_servName n = Some nm" "length nm < SECUREC_STRING_MAX_LEN"
    and "DeviceNodeExtPublishService env a w = Some (w', r)"
  shows "r = HDF_SUCCESS"
proof -
  have io: "ce_io env k" for k using assms(1) by (simp add: smooth_def)
  have inv: "reg_inv (put_node a (Some (n\<lparr>nd_ioService := b\<rparr>)) w)" "reg_inv (put_node a (Some (n\<lparr>nd_ioService := b\<rparr>)) (tick w))" for b
    using node_opD(1) [OF node_op_set [OF assms(2,3), of "n\<lparr>nd_ioService := b\<rparr>"]] by (simp_all add: node_kept_def)
  have pub: "r1 = HDF_SUCCESS"
    if "v = w \<or> v = tick w" "HdfDeviceNodePublishPublicService a (put_node a (Some (n\<lparr>nd_ioService := b\<rparr>)) v) = Some (w1, r1)" for b v w1 r1
    by (rule PublishPublic_willing [OF _ _ _ _ _ assms(7) that(2), of "n\<lparr>nd_ioService := b\<rparr>"]) (use that(1) inv assms(4-6) in auto)
  show ?thesis
  proof (cases "nd_policy n = 2")
    case True
    then obtain v r1 where "HdfDeviceNodePublishPublicService a (put_node a (Some (n\<lparr>nd_ioService := True\<rparr>)) (tick w)) = Some (v, r1)" "r = r1"
      using assms(3,4,8) io by (auto simp: DeviceNodeExtPublishService_def Let_def do_simps split: if_splits)
    then show ?thesis using pub [of "tick w" True] by simp
  next
    case False
    then obtain v r1 b where "HdfDeviceNodePublishPublicService a (put_node a (Some (n\<lparr>nd_ioService := b\<rparr>)) w) = Some (v, r1)" "r = r1"
      using assms(3,4,8) that [where b = "nd_ioService n"]
      by (auto simp: DeviceNodeExtPublishService_def Let_def do_simps split: if_splits)
    then show ?thesis using pub [of w b] by simp
  qed
qed

lemma Publish_willing:
  assumes "smooth env" "reg_inv w" "c_nodes w a = Some n" "publishable n" "nd_hostService n = Some h"
    and "nd_servName n = Some nm" "length nm < SECUREC_STRING_MAX_LEN"
    and "HdfDeviceNodePublishService env a w = Some (w', r)"
  shows "r = HDF_SUCCESS"
proof (cases "nd_policy n = 0 \<or> nm = []")
  case True
  then show ?thesis using assms(3,6,8) by (auto simp: HdfDeviceNodePublishService_def)
next
  case False
  show ?thesis
  proof (cases "nd_policy n = 1 \<or> nd_policy n = 2")
    case True
    then obtain w1 s where w1: "DeviceNodeExtPublishService env a w = Some (w1, s)"
      "(if s = HDF_SUCCESS then HdfDeviceNodePublishLocalService env a w1 else Some (w1, s)) = Some (w', r)"
      using False assms(3,6,8) by (auto simp: HdfDeviceNodePublishService_def do_simps)
    have s: "s = HDF_SUCCESS"
      by (rule ExtPublish_willing [OF assms(1-3) _ _ assms(6,7) w1(1)]) (use True assms(4) in \<open>auto simp: publishable_def\<close>)
    have "node_op a w w1" using ExtPublish_op [OF assms(2) w1(1)] by blast
    then obtain n1 where "c_nodes w1 a = Some n1" "nd_hostService n1 = Some h" "nd_servName n1 = Some nm"
      using assms(3,5,6) by (auto simp: node_op_def node_kept_def)
    then show ?thesis using PublishLocal_smooth [OF assms(1)] w1(2) s by simp
  next
    case False
    then have "HdfDeviceNodePublishLocalService env a w = Some (w', r) \<or> r = HDF_SUCCESS"
      using assms(3,8) by (auto simp: HdfDeviceNodePublishService_def split: if_splits)
    then show ?thesis using PublishLocal_smooth [OF assms(1,3,5,6)] by blast
  qed
qed

lemma Launch_willing:
  assumes "smooth env" "reg_inv w" "c_nodes w a = Some n" "nd_driver n = Some d" "c_driverMem w d = Some e" "ent_Bind e" "ent_Init e"
    and "nd_hostService n = Some h" "nd_servName n = Some nm" "length nm < SECUREC_STRING_MAX_LEN"
    and "nd_token n = Some t" "c_tokens w t = Some devid" "client_of (HOSTID devid) (c_clients w) \<noteq> None"
    and "HdfDeviceLaunchNode env a w = Some (w', r)"
  shows "r = HDF_SUCCESS"
proof -
  let ?w0 = "put_node a (Some (n\<lparr>nd_devStatus := DEVNODE_LAUNCHED\<rparr>)) w"
  have o0: "node_op a w ?w0" by (rule node_op_set [OF assms(2,3)]) (simp_all add: node_kept_def)
  from assms(3-5,7,14) obtain w1 r1 where w1: "DeviveDriverBind env a ?w0 = Some (w1, r1)"
    and rest1: "(if r1 \<noteq> HDF_SUCCESS then Some (w1, r1)
       else
         (case ask (ce_init env) (log_call CallInit a w1) of
            (w2, f) \<Rightarrow>
              if f e \<noteq> HDF_SUCCESS then Some (w2, HDF_DEV_ERR_DEV_INIT_FAIL)
              else do {
                (w3, r3) \<leftarrow> HdfDeviceNodePublishService env a w2;
                (if r3 \<noteq> HDF_SUCCESS then Some (w3, HDF_DEV_ERR_PUBLISH_FAIL)
                 else do {
                   n3 \<leftarrow> c_nodes w3 a;
                   (w4, r4) \<leftarrow> DevmgrServiceClntAttachDevice env (nd_token n3) w3;
                   Some (w4, if r4 \<noteq> HDF_SUCCESS then HDF_DEV_ERR_ATTACHDEV_FAIL else r4)
                 })
              })) = Some (w', r)"
    by (auto simp: HdfDeviceLaunchNode_def do_simps)
  have r1: "r1 = HDF_SUCCESS" "\<exists>n'. c_nodes w1 a = Some n' \<and> publishable n'"
    using Bind_smooth [OF assms(1) _ _ _ assms(6) w1, of "n\<lparr>nd_devStatus := DEVNODE_LAUNCHED\<rparr>" d] assms(4,5) by simp_all
  then obtain n1 where n1: "c_nodes w1 a = Some n1" "publishable n1" by blast
  have o1: "node_op a w w1" "c_clients w1 = c_clients w"
    using Bind_op [OF node_opD(1) [OF o0] w1] node_op_trans [OF o0] by auto
  have k1: "nd_hostService n1 = Some h" "nd_servName n1 = Some nm" "nd_token n1 = Some t"
    using node_opD(3) [OF o1(1)] n1(1) assms(3,8,9,11) by (auto simp: node_kept_def)
  let ?w2 = "tick (log_call CallInit a w1)"
  have o2: "node_op a w ?w2" using o1(1) by (simp add: node_op_def)
  have init: "ce_init env (c_ticks (log_call CallInit a w1)) e = HDF_SUCCESS" using assms(1) by (simp add: smooth_def)
  obtain w3 r3 where w3: "HdfDeviceNodePublishService env a ?w2 = Some (w3, r3)"
    and rest3: "(if r3 \<noteq> HDF_SUCCESS then Some (w3, HDF_DEV_ERR_PUBLISH_FAIL)
                 else do {
                   n3 \<leftarrow> c_nodes w3 a;
                   (w4, r4) \<leftarrow> DevmgrServiceClntAttachDevice env (nd_token n3) w3;
                   Some (w4, if r4 \<noteq> HDF_SUCCESS then HDF_DEV_ERR_ATTACHDEV_FAIL else r4)
                 }) = Some (w', r)"
    using rest1 r1(1) init by (auto simp: do_simps)
  have r3: "r3 = HDF_SUCCESS"
    by (rule Publish_willing [OF assms(1) node_opD(1) [OF o2] _ n1(2) k1(1,2) assms(10) w3]) (simp add: n1(1))
  from Publish_op [OF node_opD(1) [OF o2] w3] have o3: "node_op a ?w2 w3" "c_clients w3 = c_clients w"
    using o1(2) by auto
  obtain n3 w4 r4 where n3: "c_nodes w3 a = Some n3" "DevmgrServiceClntAttachDevice env (nd_token n3) w3 = Some (w4, r4)"
    "r = (if r4 \<noteq> HDF_SUCCESS then HDF_DEV_ERR_ATTACHDEV_FAIL else r4)"
    using rest3 r3 by (auto simp: do_simps)
  have "nd_token n3 = Some t" using node_opD(3) [OF o3(1)] n1(1) n3(1) k1(3) by (auto simp: node_kept_def)
  moreover have "c_tokens w3 = c_tokens w" using node_opD(2) [OF node_op_trans [OF o2 o3(1)]] by (simp add: node_frame_def)
  moreover have "ce_tokenClnt env k" for k using assms(1) by (simp add: smooth_def)
  ultimately have "r4 = HDF_SUCCESS"
    using n3(2) assms(12,13) o3(2)
    by (auto simp: DevmgrServiceClntAttachDevice_def DevmgrServiceAttachDevice_def DevmgrServiceFindDeviceHost_def
        DeviceTokenClntNewInstance_def split: option.splits)
  then show ?thesis using n3(3) by simp
qed

lemma Attach_willing:
  assumes "smooth env" "reg_inv w" "c_nodes w a = Some n" "nd_driver n = Some d" "c_driverMem w d = Some e" "ent_Bind e" "ent_Init e"
    and "nd_hostService n = Some h" "nd_servName n = Some nm" "length nm < SECUREC_STRING_MAX_LEN"
    and "nd_token n = Some t" "nd_devId n \<noteq> 0" "client_of (HOSTID (nd_devId n)) (c_clients w) \<noteq> None"
    and "HdfDeviceAttach env (Some dv) (Some a) w = Some (w', r)"
  shows "r = HDF_SUCCESS" "same_drivers w w'"
proof -
  obtain v x where v: "c_devices w dv = Some v" "c_tokens w t = Some x"
    using assms(3,11,12,14) by (auto simp: HdfDeviceAttach_def Let_def do_simps)
  let ?w0 = "set_token t (Some (nd_devId n)) (put_node a (Some n) (set_device dv (Some v) w))"
  have inv0: "reg_inv ?w0" using assms(2,3) by (simp add: fun_upd_idem)
  obtain w1 ret where l: "HdfDeviceLaunchNode env a ?w0 = Some (w1, ret)"
    "(if ret = HDF_SUCCESS
      then do { n1 \<leftarrow> c_nodes w1 a; v2 \<leftarrow> c_devices w1 dv;
                Some (put_node a (Some (n1\<lparr>nd_linked := True\<rparr>))
                  (set_device dv (Some (UpdateDeivceNodeIdIndex (nd_devId n1) (v2\<lparr>dv_devNodes := dv_devNodes v2 @ [a]\<rparr>))) w1), ret) }
      else Some (w1, ret)) = Some (w', r)"
    using assms(3,11,12,14) v by (auto simp: HdfDeviceAttach_def Let_def do_simps)
  have ret: "ret = HDF_SUCCESS"
    by (rule Launch_willing [OF assms(1) inv0 _ assms(4) _ assms(6-11) _ _ l(1), of "nd_devId n"]) (use assms(5,13) in simp_all)
  then show "r = HDF_SUCCESS" using l(2) by (auto simp: do_simps)
  have "node_op a ?w0 w1" using Launch_op [OF inv0 l(1)] by blast
  then have "same_drivers ?w0 w1" by (intro same_drivers_frame [of a]) (simp add: node_op_def)
  then show "same_drivers w w'" using l(2) ret by (auto simp: do_simps same_drivers_def)
qed

lemma AddDevice_willing:
  assumes ok: "host_at h i dvs c w" and env: "smooth env" and ready: "driver_ready w di"
    and devid: "HOSTID (di_deviceId di) = ucast i" "di_deviceId di \<noteq> 0" "di_deviceId di \<notin> held dvs w"
    and add: "DevHostServiceAddDevice env (Some h) (Some di) w = Some (w', r)"
  shows "r = HDF_SUCCESS \<and> same_drivers w w'"
proof -
  obtain nm where nm: "di_svcName di = Some nm" "length nm < SECUREC_STRING_MAX_LEN" using ready by (auto simp: driver_ready_def)
  have tok: "\<And>k. ce_token env k" using env by (simp add: smooth_def)
  have query: "host_at h i dvs1 c w1 \<and> held dvs1 w1 = held dvs w \<and> dv \<in> set dvs1 \<and> devnum (c_devices w1) dv = DEVICEID (di_deviceId di) \<and> same_drivers w w1"
    if q: "DevHostServiceQueryOrAddDevice env h (DEVICEID (di_deviceId di)) w = Some (w1, Some dv)" and "dvs1 = hs_devices (the (c_hosts w1 h))"
    for w1 dv dvs1
  proof -
    obtain v r2 dvs2 where v: "DevHostServiceQueryOrAddDevice env h (DEVICEID (di_deviceId di)) w = Some (v, r2)" "host_at h i dvs2 c v"
      "held dvs2 v = held dvs w" "\<And>dv. r2 = Some dv \<Longrightarrow> dv \<in> set dvs2 \<and> devnum (c_devices v) dv = DEVICEID (di_deviceId di)"
      by (rule Query_ok [OF ok, of env "di_deviceId di"]) (rule that)
    then show ?thesis using q that(2) host_at_host [OF v(2)] Query_smooth(2) [OF env q] by auto
  qed
  have attach_case: "ret = HDF_SUCCESS \<and> same_drivers w w4"
    if q: "DevHostServiceQueryOrAddDevice env h (DEVICEID (di_deviceId di)) w = Some (w1, Some dv)"
      and g: "HdfDriverLoaderGetDriver env (di_moduleName di) w1 = Some (w2, Some drv)"
      and new: "HdfDeviceNodeNewInstance env (Some di) (Some drv) w2 = Some (w3, Some a)" "c_nodes w3 a = Some n"
      and at: "HdfDeviceAttach env (Some dv) (Some a)
         (put_node a (Some (n\<lparr>nd_hostService := Some h, nd_device := Some dv, nd_driver := Some drv\<rparr>)) w3) = Some (w4, ret)"
    for w1 dv w2 drv w3 a n w4 ret
  proof -
    note q1 = query [OF q refl]
    have "driver_ready w1 di" using q1 ready same_drivers_ready by blast
    from GetDriver_ready [OF this, of env] g obtain e where e: "w2 = w1" "c_driverMem w1 drv = Some e" "ent_Bind e" "ent_Init e"
      by auto
    note H = host_atD [OF q1 [THEN conjunct1]]
    have "\<forall>x \<ge> c_next w2. c_nodes w2 x = None" "reg_inv w2" using H(2,5) e(1) by simp_all
    from NewInstance_op [OF this(2,1) new(1)] have n: "reg_inv w3" "nd_token n = Some (Suc a)" "nd_devId n = di_deviceId di"
      "\<not> nd_servStatus n" "nd_servName n = Some nm" "c_clients w3 = c_clients w1" "c_driverMem w3 = c_driverMem w1"
      "c_driverList w3 = c_driverList w1"
      using new(2) nm(1) e(1) by auto
    let ?n = "n\<lparr>nd_hostService := Some h, nd_device := Some dv, nd_driver := Some drv\<rparr>"
    have inv: "reg_inv (put_node a (Some ?n) w3)"
      using reg_rel_unpublished [of "c_svcmgr w3" "c_nodes w3" a] n(1,4) new(2) by simp
    have "ret = HDF_SUCCESS" "same_drivers (put_node a (Some ?n) w3) w4"
      by (rule Attach_willing [OF env inv _ _ _ e(3,4) _ _ nm(2) _ _ _ at, of ?n drv h "Suc a"];
          use n e(2) devid(1,2) H(9) in simp)+
    then show ?thesis using q1 n(7,8) by (simp add: same_drivers_def)
  qed
  from add show ?thesis
  proof (cases rule: AddDevice_cases)
    case no_loader
    then show ?thesis using env by (simp add: smooth_def)
  next
    case no_device
    then show ?thesis using Query_smooth(1) [OF env] by blast
  next
    case (busy dv a)
    let ?dvs = "hs_devices (the (c_hosts w' h))"
    note q = query [OF busy(1) refl]
    show ?thesis
      by (rule GetDeviceNode_ok [OF q [THEN conjunct1] q [THEN conjunct2, THEN conjunct2, THEN conjunct1], of "di_deviceId di"])
        (use q busy(2) devid(3) in auto)
  next
    case (no_driver w1 dv w2)
    have "driver_ready w1 di" using query [OF no_driver(1) refl] ready same_drivers_ready by blast
    then show ?thesis using no_driver(3) by (elim GetDriver_ready [where env = env]) auto
  next
    case (no_node w1 dv w2 drv)
    then show ?thesis using NewInstance_smooth [OF env nm no_node(4)] by simp
  next
    case (refused w1 dv w2 drv w3 a n w4 ret w5)
    have False
      using attach_case [OF refused(1,3,4,5,6)] refused(7) by blast
    then show ?thesis ..
  next
    case (added w1 dv w2 drv w3 a n)
    show ?thesis using attach_case [OF added(1,3,4,5,6)] added(7) by blast
  qed
qed

end

end
