(* ===== verification/Host_Config.thy ===== *)
theory Host_Config
  imports Hdf_Attribute
begin

text \<open>
  What the attribute manager returns for a configuration: the lists of hosts and devices that
  core/common/src/hdf_attribute.c reads from a tree are stated over the configuration items that
  the tree represents (\<^verbatim>\<open>Hcs_Tree_Gen\<close>), so that they compose with the parser.
\<close>

section \<open>Reading the attributes of a node\<close>

definition attr_string :: "hcs_item list \<Rightarrow> cstr \<Rightarrow> cstr option" where
  "attr_string its nm = (case node_attr its nm of Some (HScalar (HString s)) \<Rightarrow> Some s | _ \<Rightarrow> None)"

definition attr_u16 :: "hcs_item list \<Rightarrow> cstr \<Rightarrow> u16 option" where
  "attr_u16 its nm = (case node_attr its nm of Some (HScalar x) \<Rightarrow> scalar_u16 x | _ \<Rightarrow> None)"

text \<open>The node at \<^verbatim>\<open>p\<close> of the tree represents a configuration node with these items.\<close>

definition conf_node :: "hcs_tree \<Rightarrow> nat \<Rightarrow> hcs_item list \<Rightarrow> bool" where
  "conf_node t p its \<longleftrightarrow>
     (\<exists>par nm. node_repr (ht_al t) (ht_blob t) (ht_mem t) par p (HNode nm its)) \<and> (\<forall>it \<in> set its. item_ok it)"

lemma conf_node_attr:
  assumes "conf_node t p its" "wf_cstr s"
  shows "case node_attr its s of
      None \<Rightarrow> GetAttrInNode (ht_blob t) (ht_mem t) (Some p) (Some s) = Some None
    | Some v \<Rightarrow> \<exists>a. GetAttrInNode (ht_blob t) (ht_mem t) (Some p) (Some s) = Some (Some a) \<and>
        stands (ht_blob t) (ra_value a) (enc_value (ht_al t) v) \<and> value_wf v"
proof -
  obtain par nm where "node_repr (ht_al t) (ht_blob t) (ht_mem t) par p (HNode nm its)" "\<forall>it \<in> set its. item_ok it"
    using assms(1) by (auto simp: conf_node_def)
  from GetAttrInNode_repr [OF this assms(2)] show ?thesis
    using node_attr_wf [of its s] assms(1) by (auto simp: conf_node_def split: option.splits)
qed

lemma get_u16_conf:
  assumes "conf_node t p its" "wf_cstr s"
  shows "get_u16 t p s old def =
    Some (case attr_u16 its s of Some v \<Rightarrow> (HDF_SUCCESS, v) | None \<Rightarrow> (HDF_FAILURE, def))"
proof -
  obtain par nm where "node_repr (ht_al t) (ht_blob t) (ht_mem t) par p (HNode nm its)" "\<forall>it \<in> set its. item_ok it"
    using assms(1) by (auto simp: conf_node_def)
  from scalar_getter [OF swaps_all(2) this assms(2), of "def"] show ?thesis
    by (simp add: get_u16_def HcsGetUint16_def attr_u16_def value_result_def scalar_result_def
      split: option.split hcs_value.split)
qed

lemma read_str_enc:
  assumes "stands b p (enc_string al s)" "wf_cstr s"
  shows "read_str b p = Some s"
proof -
  obtain k where k: "hcs_string_size al (length s) - length s = Suc k"
    using string_size_gt [of "length s" al] by (metis Suc_diff_Suc)
  have "drop p b = enc_string al s @ drop (length (enc_string al s)) (drop p b)"
    using assms(1) unfolding stands_def by (metis append_take_drop_id)
  then obtain rest where d: "drop p b = bytes_of s @ 0 # rest"
    by (simp add: enc_string_def k)
  have "0 \<notin> set (bytes_of s)" using assms(2) by (auto simp: bytes_of_def wf_cstr_def byte_of_char_0_iff)
  then have "takeWhile (\<lambda>b. b \<noteq> 0) (drop p b) = bytes_of s"
    unfolding d by (subst takeWhile_append2) auto
  moreover have "0 \<in> set (drop p b)" by (simp add: d)
  ultimately show ?thesis by (simp add: read_str_def cstr_at_def)
qed

lemma get_string_conf:
  assumes "conf_node t p its" "wf_cstr s"
  shows "get_string t p s = Some (case attr_string its s of Some x \<Rightarrow> (HDF_SUCCESS, Some x) | None \<Rightarrow> (HDF_FAILURE, None))"
proof (cases "node_attr its s")
  case None
  then show ?thesis
    using conf_node_attr [OF assms] by (simp add: get_string_def HcsGetString_def with_attr_def attr_string_def)
next
  case (Some v)
  then obtain a where a: "GetAttrInNode (ht_blob t) (ht_mem t) (Some p) (Some s) = Some (Some a)"
    "stands (ht_blob t) (ra_value a) (enc_value (ht_al t) v)" "value_wf v"
    using conf_node_attr [OF assms] by auto
  show ?thesis
  proof (cases v)
    case (HArray xs)
    then show ?thesis
      using a(1) Some array_prefix [OF a(2) [unfolded HArray]]
      by (simp add: get_string_def HcsGetString_def with_attr_def attr_string_def)
  next
    case sc: (HScalar x)
    have pre: "HcsGetPrefix (ht_al t) (ht_blob t) (ra_value a) = Some (scalar_type x)"
      using scalar_prefix a(2) sc by simp
    show ?thesis
    proof (cases "\<exists>str. x = HString str")
      case True
      then obtain str where str: "x = HString str" by auto
      then have "read_str (ht_blob t) (ra_value a + HCS_PREFIX_LENGTH (ht_al t)) = Some str"
        using a(2,3) sc by (intro read_str_enc) (auto simp: stands_append)
      then show ?thesis
        using a(1) Some sc pre str by (simp add: get_string_def HcsGetString_def with_attr_def attr_string_def)
    next
      case False
      then have "scalar_type x \<noteq> CONFIG_STRING" by (cases x) simp_all
      then show ?thesis
        using a(1) Some sc pre False
        by (simp add: get_string_def HcsGetString_def with_attr_def attr_string_def split: hcs_scalar.split)
    qed
  qed
qed

section \<open>The hosts of a configuration\<close>

lemma fold_order_add:
  assumes "sorted (map f xs)"
  shows "fold (order_add (\<lambda>m n. case (m, n) of (Some i, Some j) \<Rightarrow> f i \<le> f j | _ \<Rightarrow> False)) ys xs = fold (insort_key f) ys xs"
  using assms
proof (induction ys arbitrary: xs)
  case (Cons y ys)
  have "sorted (map f (insort_key f y xs))" using Cons.prems by (simp only: sorted_insort_key)
  from Cons.IH [OF this] show ?case
    unfolding fold.simps comp_apply order_add_sorted [OF Cons.prems] .
qed simp

lemma fold_insort_key: "fold (insort_key f) xs [] = sort_key f (rev xs)"
  by (simp add: sort_key_def foldr_conv_fold)

text \<open>A child of the manager node that describes a host: its name and its priority.\<close>

fun host_of :: "hcs_item \<Rightarrow> (cstr \<times> u16) option" where
  "host_of (HAttr nm v) = None"
| "host_of (HNode nm its) =
     (case (attr_string its ''hostName'', attr_u16 its ''priority'') of
        (Some s, Some p) \<Rightarrow> if s \<noteq> [] \<and> p \<le> MAX_PRIORITY_NUM then Some (s, p) else None
      | _ \<Rightarrow> None)"

definition host_infos :: "nat \<Rightarrow> hcs_item list \<Rightarrow> HdfHostInfo list" where
  "host_infos n its =
     map (\<lambda>(i, s, p). \<lparr>hi_hostId = of_nat i, hi_priority = p, hi_hostName = Some s\<rparr>) (enumerate n (List.map_filter host_of its))"

lemma host_infos_nodes: "host_infos n (filter is_node its) = host_infos n its"
proof -
  have "List.map_filter host_of (filter is_node its) = List.map_filter host_of its"
  proof (induction its)
    case (Cons x xs)
    then show ?case by (cases x) (simp_all add: List.map_filter_simps is_node_def [of "HAttr _ _"] is_node_def [of "HNode _ _"] del: host_of.simps(2) split: option.split)
  qed simp
  then show ?thesis by (simp add: host_infos_def)
qed

lemma GetHostInfo_conf:
  assumes "conf_node t p its"
  shows "\<exists>hi. GetHostInfo t p \<lparr>hi_hostId = 0, hi_priority = 0, hi_hostName = None\<rparr> = Some (hi, host_of (HNode nm its) \<noteq> None) \<and>
    (\<forall>s pr. host_of (HNode nm its) = Some (s, pr) \<longrightarrow> hi = \<lparr>hi_hostId = 0, hi_priority = pr, hi_hostName = Some s\<rparr>)"
  using get_string_conf [OF assms, of "''hostName''"] get_u16_conf [OF assms, of "''priority''"]
  by (cases "attr_string its ''hostName''"; cases "attr_u16 its ''priority''")
    (auto simp: GetHostInfo_def wf_cstr_def Let_def)

text \<open>A chain of sibling nodes that represent configuration nodes. No node represents an attribute.\<close>

inductive_simps node_repr_attr [simp]: "node_repr al b m par p (HAttr nm v)"

definition conf_chain :: "hcs_tree \<Rightarrow> nat option \<Rightarrow> hcs_item list \<Rightarrow> bool" where
  "conf_chain t p ts \<longleftrightarrow>
     (\<exists>cs par. sib_chain (ht_mem t) p cs \<and> list_all2 (node_repr (ht_al t) (ht_blob t) (ht_mem t) par) cs ts) \<and>
     (\<forall>x \<in> set ts. item_ok x)"

lemma conf_chain_Nil: "conf_chain t p [] \<longleftrightarrow> p = None"
  by (auto simp: conf_chain_def)

lemma conf_chain_Cons:
  assumes "conf_chain t p (x # ts)"
  obtains c n nm its where "p = Some c" "tm_nodes (ht_mem t) c = Some n" "x = HNode nm its" "conf_node t c its"
    "conf_chain t (rn_sibling n) ts"
proof -
  obtain cs par where c: "sib_chain (ht_mem t) p cs" "list_all2 (node_repr (ht_al t) (ht_blob t) (ht_mem t) par) cs (x # ts)"
    "\<forall>x \<in> set (x # ts). item_ok x"
    using assms by (auto simp: conf_chain_def)
  then obtain q qs where q: "cs = q # qs" "node_repr (ht_al t) (ht_blob t) (ht_mem t) par q x"
    "list_all2 (node_repr (ht_al t) (ht_blob t) (ht_mem t) par) qs ts"
    by (auto simp: list_all2_Cons2)
  moreover obtain n where "p = Some q" "tm_nodes (ht_mem t) q = Some n" "sib_chain (ht_mem t) (rn_sibling n) qs"
    using c(1) q(1) by auto
  moreover obtain nm its where "x = HNode nm its" using q(2) by (cases x) auto
  ultimately show thesis using c(3) that by (fastforce simp: conf_node_def conf_chain_def)
qed

lemma conf_children:
  assumes "conf_node t p its"
  obtains n where "tm_nodes (ht_mem t) p = Some n" "conf_chain t (rn_child n) (filter is_node its)"
  using assms by (fastforce simp: conf_node_def conf_chain_def elim: node_reprE)

lemma host_list_loop_conf:
  assumes "conf_chain t p ts"
  shows "host_list_loop t (\<lambda>_. True) k p (of_nat n) hs =
    Some (fold (order_add HdfHostListCompare) (host_infos n ts) hs, True)"
  using assms
proof (induction ts arbitrary: p k n hs)
  case Nil
  then show ?case by (subst host_list_loop.simps) (simp add: conf_chain_Nil host_infos_def List.map_filter_simps)
next
  case (Cons x ts)
  from Cons.prems obtain c nd nm its where c: "p = Some c" "tm_nodes (ht_mem t) c = Some nd" "x = HNode nm its"
    "conf_node t c its" "conf_chain t (rn_sibling nd) ts" by (rule conf_chain_Cons)
  from GetHostInfo_conf [OF c(4), of nm] obtain hi where
    hi: "GetHostInfo t c \<lparr>hi_hostId = 0, hi_priority = 0, hi_hostName = None\<rparr> = Some (hi, host_of (HNode nm its) \<noteq> None)"
      "\<And>s pr. host_of (HNode nm its) = Some (s, pr) \<Longrightarrow> hi = \<lparr>hi_hostId = 0, hi_priority = pr, hi_hostName = Some s\<rparr>"
    by auto
  show ?case
  proof (cases "host_of x")
    case None
    then show ?thesis
      using c hi Cons.IH [OF c(5)]
      by (subst host_list_loop.simps) (simp add: host_infos_def List.map_filter_simps del: host_of.simps)
  next
    case (Some sp)
    then show ?thesis
      using c hi Cons.IH [OF c(5), of _ "Suc n"]
      by (subst host_list_loop.simps, cases sp)
        (simp add: host_infos_def List.map_filter_simps add.commute del: host_of.simps)
  qed
qed

text \<open>The manager node of a configuration.\<close>

definition manager_items :: "hcs_item \<Rightarrow> hcs_item list option" where
  "manager_items conf =
     (case find (item_matches ''hdf_manager'') (pre_items conf) of Some (HNode nm its) \<Rightarrow> Some its | _ \<Rightarrow> None)"

text \<open>A tree that represents a configuration, with the conditions under which the manager node is found.\<close>

definition conf_tree :: "hcs_tree \<Rightarrow> hcs_item \<Rightarrow> bool" where
  "conf_tree t conf \<longleftrightarrow>
     (\<exists>r. ht_root t = Some r \<and> tree_repr (ht_al t) (ht_blob t) (ht_mem t) r conf) \<and> item_ok conf \<and>
     (\<forall>x \<in> set (pre_items conf). match_attrs_ok x) \<and> last (ht_blob t) = 0"

lemma manager_conf:
  assumes "conf_tree t conf" "manager_items conf = Some its"
  obtains p where "GetHdfManagerNode t (ht_root t) = Some (Some p)" "conf_node t p its"
proof -
  obtain r where r: "ht_root t = Some r" "tree_repr (ht_al t) (ht_blob t) (ht_mem t) r conf" "item_ok conf"
    "\<forall>x \<in> set (pre_items conf). match_attrs_ok x" "last (ht_blob t) = 0"
    using assms(1) by (auto simp: conf_tree_def)
  obtain nm where f: "find (item_matches ''hdf_manager'') (pre_items conf) = Some (HNode nm its)"
    using assms(2) by (auto simp: manager_items_def split: option.splits hcs_item.splits)
  have "wf_cstr ''hdf_manager''" by (simp add: wf_cstr_def)
  from match_attr_first [OF r(2-5) this] f obtain q par where
    q: "HcsGetNodeByMatchAttr (ht_al t) (ht_blob t) (ht_mem t) (Some r) None (Some ''hdf_manager'') = Some (Some q)"
      "node_repr (ht_al t) (ht_blob t) (ht_mem t) par q (HNode nm its)"
    by auto
  have "HNode nm its \<in> set (pre_items conf)" using f by (auto simp: find_Some_iff)
  then have "\<forall>it \<in> set its. item_ok it" using pre_items_ok r(3) by fastforce
  then show thesis
    using q r(1) by (intro that [of q]) (auto simp: GetHdfManagerNode_def HcsGetNodeByMatchAttr_def conf_node_def)
qed

text \<open>
  C34. The host list of a configuration. From a tree that represents a configuration whose first
  node with the match attribute \<^verbatim>\<open>hdf_manager\<close> holds the hosts, and with enough memory,
  \<^verbatim>\<open>HdfAttributeManagerGetHostList\<close> returns the valid host descriptions, numbered in the
  order of the configuration, by increasing priority; hosts of equal priority come in the reverse
  of their order in the configuration.
\<close>

theorem host_list_of_config:
  assumes "conf_tree t conf" "manager_items conf = Some its"
  shows "HdfAttributeManagerGetHostList t (\<lambda>_. True) (Some []) =
    Some (Some (sort_key hi_priority (rev (host_infos 0 its))), True)"
proof -
  obtain p where p: "GetHdfManagerNode t (ht_root t) = Some (Some p)" "conf_node t p its"
    using manager_conf [OF assms] .
  obtain n where n: "tm_nodes (ht_mem t) p = Some n" "conf_chain t (rn_child n) (filter is_node its)"
    using conf_children [OF p(2)] .
  have "fold (order_add HdfHostListCompare) (host_infos 0 its) [] = sort_key hi_priority (rev (host_infos 0 its))"
    unfolding HdfHostListCompare_def [abs_def] by (subst fold_order_add) (simp_all add: fold_insort_key)
  then show ?thesis
    using host_list_loop_conf [OF n(2), of 0 0 "[]"] p(1) n(1)
    by (simp add: HdfAttributeManagerGetHostList_def host_infos_nodes)
qed
section \<open>The devices of a configured host\<close>

fun host_named :: "cstr \<Rightarrow> hcs_item \<Rightarrow> bool" where
  "host_named nm (HAttr s v) = False"
| "host_named nm (HNode s its) = (attr_string its ''hostName'' = Some nm)"

lemma host_node_loop_conf:
  assumes "conf_chain t p ts"
  shows "case find (host_named nm) ts of
      None \<Rightarrow> host_node_loop t nm p = Some None
    | Some x \<Rightarrow> \<exists>c s its. host_node_loop t nm p = Some (Some c) \<and> x = HNode s its \<and> conf_node t c its"
  using assms
proof (induction ts arbitrary: p)
  case Nil
  then show ?case by (subst host_node_loop.simps) (simp add: conf_chain_Nil)
next
  case (Cons x ts)
  from Cons.prems obtain c nd s its where c: "p = Some c" "tm_nodes (ht_mem t) c = Some nd" "x = HNode s its"
    "conf_node t c its" "conf_chain t (rn_sibling nd) ts" by (rule conf_chain_Cons)
  have "wf_cstr ''hostName''" by (simp add: wf_cstr_def)
  then have step: "host_node_loop t nm p =
      (if attr_string its ''hostName'' = Some nm then Some p else host_node_loop t nm (rn_sibling nd))"
    using c get_string_conf [OF c(4), of "''hostName''"]
    by (subst host_node_loop.simps) (simp split: option.split)
  show ?case
    using step c Cons.IH [OF c(5)] by (cases "host_named nm x") (auto split: option.splits)
qed

definition u16_or :: "hcs_item list \<Rightarrow> cstr \<Rightarrow> u16 \<Rightarrow> u16" where
  "u16_or its nm d = (case attr_u16 its nm of None \<Rightarrow> d | Some v \<Rightarrow> v)"

text \<open>A node description: module and service name are needed, the numbers have defaults and bounds.\<close>

fun node_desc :: "hcs_item \<Rightarrow> HdfDeviceInfo option" where
  "node_desc (HAttr nm v) = None"
| "node_desc (HNode nm its) =
     (case (attr_string its ''moduleName'', attr_string its ''serviceName'') of
        (Some m, Some s) \<Rightarrow>
          (if u16_or its ''policy'' 0 < 5 \<and> u16_or its ''priority'' DEFATLT_DEV_PRIORITY \<le> MAX_PRIORITY_NUM \<and>
              u16_or its ''preload'' 0 < 3 \<and> m \<noteq> []
           then Some \<lparr>di_isDynamic = False, di_status = 0, di_deviceType = 0, di_deviceId = 0,
              di_policy = u16_or its ''policy'' 0, di_priority = u16_or its ''priority'' DEFATLT_DEV_PRIORITY,
              di_preload = u16_or its ''preload'' 0, di_permission = u16_or its ''permission'' 0,
              di_moduleName = Some m, di_svcName = Some s, di_deviceMatchAttr = attr_string its ''deviceMatchAttr''\<rparr>
           else None)
      | _ \<Rightarrow> None)"

lemma GetDeviceNodeInfo_conf:
  assumes "conf_node t p its"
  shows "\<exists>di. GetDeviceNodeInfo t p HdfDeviceInfoConstruct = Some (di, node_desc (HNode nm its) \<noteq> None) \<and>
    (\<forall>d. node_desc (HNode nm its) = Some d \<longrightarrow> di = d)"
proof -
  have wf: "wf_cstr ''policy''" "wf_cstr ''priority''" "wf_cstr ''preload''" "wf_cstr ''permission''"
    "wf_cstr ''deviceMatchAttr''" "wf_cstr ''moduleName''" "wf_cstr ''serviceName''"
    by (simp_all add: wf_cstr_def)
  have num: "\<exists>r. get_u16 t p s old d = Some (r, u16_or its s d)" if "wf_cstr s" for s old d
    using get_u16_conf [OF assms that] by (auto simp: u16_or_def split: option.split)
  have str: "get_string t p s = Some (if attr_string its s = None then HDF_FAILURE else HDF_SUCCESS, attr_string its s)" if "wf_cstr s" for s
    using get_string_conf [OF assms that] by (auto split: option.split)
  show ?thesis
    using num [OF wf(1), of 5 0] num [OF wf(2), of 0 DEFATLT_DEV_PRIORITY] num [OF wf(3), of 0 0] num [OF wf(4), of 0 0]
      str [OF wf(5)] str [OF wf(6)] str [OF wf(7)]
    by (cases "attr_string its ''moduleName''"; cases "attr_string its ''serviceName''")
      (auto simp: GetDeviceNodeInfo_def HdfDeviceInfoConstruct_def CheckDeviceInfo_def Let_def)
qed

text \<open>The descriptions of a device with their identifiers; the index of a node is an 8-bit counter.\<close>

definition device_infos :: "u16 \<Rightarrow> u16 \<Rightarrow> nat \<Rightarrow> hcs_item list \<Rightarrow> HdfDeviceInfo list" where
  "device_infos h d i its =
     map (\<lambda>(i, di). di\<lparr>di_deviceId := MK_DEVID (ucast h) (ucast d) (ucast (of_nat i :: u8))\<rparr>)
       (enumerate i (List.map_filter node_desc its))"

definition add_info :: "HdfDeviceInfo \<Rightarrow> dev_lists \<Rightarrow> dev_lists" where
  "add_info di dls =
     (if di_preload di \<noteq> DEVICE_PRELOAD_DISABLE then (order_add HdfDeviceListCompare di (fst dls), snd dls)
      else (fst dls, di # snd dls))"

lemma node_list_loop_conf:
  assumes "conf_chain t p ts"
  shows "\<exists>k'. node_list_loop t (\<lambda>_. True) h d k p (of_nat i) dls =
    Some (fold add_info (device_infos h d i ts) dls, k',
          (of_nat (i + length (List.map_filter node_desc ts)) :: u8) > 1)"
  using assms
proof (induction ts arbitrary: p k i dls)
  case Nil
  then show ?case
    by (subst node_list_loop.simps) (simp add: conf_chain_Nil device_infos_def List.map_filter_simps)
next
  case (Cons x ts)
  from Cons.prems obtain c nd nm its where c: "p = Some c" "tm_nodes (ht_mem t) c = Some nd" "x = HNode nm its"
    "conf_node t c its" "conf_chain t (rn_sibling nd) ts" by (rule conf_chain_Cons)
  from GetDeviceNodeInfo_conf [OF c(4), of nm] obtain di where
    di: "GetDeviceNodeInfo t c HdfDeviceInfoConstruct = Some (di, node_desc (HNode nm its) \<noteq> None)"
      "\<And>d. node_desc (HNode nm its) = Some d \<Longrightarrow> di = d"
    by auto
  show ?case
  proof (cases "node_desc x")
    case None
    then show ?thesis
      using c di Cons.IH [OF c(5), of "Suc k" i dls]
      by (subst node_list_loop.simps) (simp add: device_infos_def List.map_filter_simps del: node_desc.simps)
  next
    case (Some dx)
    define di' where "di' = dx\<lparr>di_deviceId := MK_DEVID (ucast h) (ucast d) (ucast (of_nat i :: u8))\<rparr>"
    have "node_list_loop t (\<lambda>_. True) h d k p (of_nat i) dls =
        node_list_loop t (\<lambda>_. True) h d (Suc k) (rn_sibling nd) (of_nat (Suc i)) (add_info di' dls)"
      using c di Some
      by (subst node_list_loop.simps) (simp add: add_info_def di'_def Let_def add.commute del: node_desc.simps)
    then show ?thesis
      using c(3) Some Cons.IH [OF c(5), of "Suc k" "Suc i" "add_info di' dls"]
      by (simp add: device_infos_def List.map_filter_simps di'_def del: node_desc.simps)
  qed
qed

text \<open>
  All devices of a host, numbered from \<^verbatim>\<open>d\<close>: the reading ends at the first device for which the node
  counter does not exceed 1 at the end.
\<close>

fun host_devices :: "u16 \<Rightarrow> u16 \<Rightarrow> hcs_item list \<Rightarrow> HdfDeviceInfo list \<times> bool" where
  "host_devices h d [] = ([], True)"
| "host_devices h d (HAttr nm v # its) = host_devices h d its"
| "host_devices h d (HNode nm nodes # its) =
     (let infos = device_infos h d 1 nodes in
      if (of_nat (Suc (length infos)) :: u8) > 1
      then (infos @ fst (host_devices h (d + 1) its), snd (host_devices h (d + 1) its))
      else (infos, False))"

lemma device_infos_nodes: "device_infos h d i (filter is_node its) = device_infos h d i its"
proof -
  have "List.map_filter node_desc (filter is_node its) = List.map_filter node_desc its"
  proof (induction its)
    case (Cons x xs)
    then show ?case
      by (cases x) (simp_all add: List.map_filter_simps is_node_def [of "HAttr _ _"] is_node_def [of "HNode _ _"]
        del: node_desc.simps(2) split: option.split)
  qed simp
  then show ?thesis by (simp add: device_infos_def)
qed

lemma host_devices_nodes: "host_devices h d (filter is_node its) = host_devices h d its"
  by (induction h d its rule: host_devices.induct) (simp_all add: is_node_def Let_def)

lemma device_list_loop_conf:
  assumes "conf_chain t p ts"
  shows "device_list_loop t (\<lambda>_. True) h d k p dls =
    Some (fold add_info (fst (host_devices h d ts)) dls,
          if snd (host_devices h d ts) then HDF_SUCCESS else HDF_DEV_ERR_NO_DEVICE)"
  using assms
proof (induction ts arbitrary: p d k dls)
  case Nil
  then show ?case by (subst device_list_loop.simps) (simp add: conf_chain_Nil)
next
  case (Cons x ts)
  from Cons.prems obtain c nd nm nodes where c: "p = Some c" "tm_nodes (ht_mem t) c = Some nd" "x = HNode nm nodes"
    "conf_node t c nodes" "conf_chain t (rn_sibling nd) ts" by (rule conf_chain_Cons)
  obtain n where n: "tm_nodes (ht_mem t) c = Some n" "conf_chain t (rn_child n) (filter is_node nodes)"
    using conf_children [OF c(4)] .
  let ?ls = "fold add_info (device_infos h d 1 nodes) dls"
  have len: "length (List.map_filter node_desc (filter is_node nodes)) = length (device_infos h d 1 nodes)"
    using arg_cong [OF device_infos_nodes [of h d 1 nodes], of length] by (simp add: device_infos_def)
  obtain k' where k': "GetDevcieNodeList t (\<lambda>_. True) h d k c dls =
      Some (?ls, k', (of_nat (Suc (length (device_infos h d 1 nodes))) :: u8) > 1)"
    using node_list_loop_conf [OF n(2), of h d k 1 dls] n(1) len device_infos_nodes [of h d 1 nodes]
    by (auto simp: GetDevcieNodeList_def)
  show ?case
    using c k' Cons.IH [OF c(5), of "d + 1" k' ?ls]
    by (subst device_list_loop.simps) (simp add: Let_def del: of_nat_Suc)
qed

lemma fold_add_info:
  assumes "sorted (map di_priority (fst dls))"
  shows "fold add_info dis dls =
    (fold (insort_key di_priority) (filter (\<lambda>di. di_preload di \<noteq> DEVICE_PRELOAD_DISABLE) dis) (fst dls),
     rev (filter (\<lambda>di. di_preload di = DEVICE_PRELOAD_DISABLE) dis) @ snd dls)"
  using assms
proof (induction dis arbitrary: dls)
  case (Cons di dis)
  have "order_add HdfDeviceListCompare di (fst dls) = insort_key di_priority di (fst dls)"
    unfolding HdfDeviceListCompare_def [abs_def] by (rule order_add_sorted [OF Cons.prems])
  then have step: "add_info di dls =
      (if di_preload di \<noteq> DEVICE_PRELOAD_DISABLE then (insort_key di_priority di (fst dls), snd dls) else (fst dls, di # snd dls))"
    by (simp add: add_info_def)
  have "sorted (map di_priority (fst (add_info di dls)))"
    using Cons.prems by (simp add: step sorted_insort_key)
  from Cons.IH [OF this] show ?case by (simp add: step)
qed simp

lemma device_list_conf:
  assumes "conf_tree t conf" "manager_items conf = Some its"
    and "hc_hostName c = Some nm" "hc_unloadDevInfos c = []" "hc_dynamicDevInfos c = []"
  shows "HdfAttributeManagerGetDeviceList t (\<lambda>_. True) (Some c) =
    (case find (host_named nm) (filter is_node its) of
       Some (HNode s devs) \<Rightarrow>
         (let (infos, ok) = host_devices (hc_hostId c) 1 devs in
          Some (Some (c\<lparr>hc_unloadDevInfos := sort_key di_priority (rev (filter (\<lambda>di. di_preload di \<noteq> DEVICE_PRELOAD_DISABLE) infos)),
                        hc_dynamicDevInfos := rev (filter (\<lambda>di. di_preload di = DEVICE_PRELOAD_DISABLE) infos)\<rparr>),
                if ok then HDF_SUCCESS else HDF_DEV_ERR_NO_DEVICE))
     | _ \<Rightarrow> Some (Some c, HDF_DEV_ERR_NO_DEVICE))"
proof -
  obtain p where p: "GetHdfManagerNode t (ht_root t) = Some (Some p)" "conf_node t p its"
    using manager_conf [OF assms(1,2)] .
  obtain n where n: "tm_nodes (ht_mem t) p = Some n" "conf_chain t (rn_child n) (filter is_node its)"
    using conf_children [OF p(2)] .
  have host: "GetHostNode t (hc_hostName c) = host_node_loop t nm (rn_child n)"
    using p(1) n(1) assms(3) by (simp add: GetHostNode_def)
  show ?thesis
  proof (cases "find (host_named nm) (filter is_node its)")
    case None
    then show ?thesis
      using host host_node_loop_conf [OF n(2), of nm] by (simp add: HdfAttributeManagerGetDeviceList_def)
  next
    case (Some x)
    then obtain q s devs where q: "host_node_loop t nm (rn_child n) = Some (Some q)" "x = HNode s devs" "conf_node t q devs"
      using host_node_loop_conf [OF n(2), of nm] by auto
    obtain n' where n': "tm_nodes (ht_mem t) q = Some n'" "conf_chain t (rn_child n') (filter is_node devs)"
      using conf_children [OF q(3)] .
    show ?thesis
      using host q n'(1) Some assms(4,5) device_list_loop_conf [OF n'(2), of "hc_hostId c" 1 0 "([], [])"]
      by (simp add: HdfAttributeManagerGetDeviceList_def host_devices_nodes fold_add_info fold_insort_key case_prod_unfold Let_def)
  qed
qed
text \<open>
  C33. The device lists of a configured host. With enough memory, for the client of a host that has no devices yet,
  \<^verbatim>\<open>HdfAttributeManagerGetDeviceList\<close> finds the first host of that name and fills the list of
  devices to load with the valid descriptions that are not disabled, by increasing priority
  (equal priorities in reverse order), and the dynamic list with the disabled ones; the
  identifier of each is made of host, device and node numbers. It fails exactly when there is no
  such host or a device ends with a node counter of at most 1.
\<close>

theorem device_list_of_config:
  assumes "conf_tree t conf" "manager_items conf = Some its"
    and "hc_hostName c = Some nm" "hc_unloadDevInfos c = []" "hc_dynamicDevInfos c = []"
  shows "HdfAttributeManagerGetDeviceList t (\<lambda>_. True) (Some c) =
    (case find (host_named nm) (filter is_node its) of
       Some (HNode s devs) \<Rightarrow>
         (let (infos, ok) = host_devices (hc_hostId c) 1 devs in
          Some (Some (c\<lparr>hc_unloadDevInfos := sort_key di_priority (rev (filter (\<lambda>di. di_preload di \<noteq> DEVICE_PRELOAD_DISABLE) infos)),
                        hc_dynamicDevInfos := rev (filter (\<lambda>di. di_preload di = DEVICE_PRELOAD_DISABLE) infos)\<rparr>),
                if ok then HDF_SUCCESS else HDF_DEV_ERR_NO_DEVICE))
     | _ \<Rightarrow> Some (Some c, HDF_DEV_ERR_NO_DEVICE))"
  by (rule device_list_conf [OF assms])

text \<open>A configuration for the witnesses: two hosts of equal priority, one of them with a device of three nodes.\<close>

definition conf_sample_node :: "cstr \<Rightarrow> cstr \<Rightarrow> u8 \<Rightarrow> hcs_item" where
  "conf_sample_node nm svc preload =
     HNode nm [HAttr ''moduleName'' (HScalar (HString ''m'')), HAttr ''serviceName'' (HScalar (HString svc)),
               HAttr ''preload'' (HScalar (HByte preload))]"

definition conf_sample_hosts :: "hcs_item list" where
  "conf_sample_hosts =
     [HAttr ''match_attr'' (HScalar (HString ''hdf_manager'')),
      HNode ''h'' [HAttr ''hostName'' (HScalar (HString ''a'')), HAttr ''priority'' (HScalar (HByte 50))],
      HNode ''i'' [HAttr ''hostName'' (HScalar (HString ''b'')), HAttr ''priority'' (HScalar (HWord 50)),
                   HNode ''d'' [conf_sample_node ''x'' ''s'' 0, conf_sample_node ''y'' ''t'' 2, conf_sample_node ''z'' ''u'' 1]]]"

definition conf_sample :: hcs_item where
  "conf_sample = HNode ''root'' [HNode ''mgr'' conf_sample_hosts, HAttr ''end'' (HScalar (HString ''''))]"

lemma conf_sample_ok:
  "item_ok conf_sample" "\<forall>x \<in> set (pre_items conf_sample). match_attrs_ok x"
  "manager_items conf_sample = Some conf_sample_hosts"
  by (simp_all add: conf_sample_def conf_sample_hosts_def conf_sample_node_def wf_cstr_def manager_items_def HCS_MATCH_ATTR_def)

lemma conf_sample_tree: "\<exists>t. conf_tree t conf_sample"
proof -
  let ?b = "enc_item False conf_sample"
  have st: "stands ?b 0 ?b" by (simp add: stands_def)
  have depth: "item_depth conf_sample \<le> 63"
    by (simp add: conf_sample_def conf_sample_hosts_def conf_sample_node_def)
  have "length ?b < 1000" by code_simp
  then have len: "length ?b < 2 ^ 31" by (rule less_trans) simp
  note HcsDecompile_ok [of ?b 0 False "''root''" "[HNode ''mgr'' conf_sample_hosts, HAttr ''end'' (HScalar (HString ''''))]", folded conf_sample_def,
      OF st conf_sample_ok(1) depth len]
  then obtain m where m: "tree_repr False ?b m 0 conf_sample" by (simp only: drop_0) blast
  have "last ?b = 0" by code_simp
  then have "conf_tree \<lparr>ht_al = False, ht_blob = ?b, ht_mem = m, ht_root = Some 0\<rparr> conf_sample"
    using m conf_sample_ok(1,2) by (simp add: conf_tree_def)
  then show ?thesis ..
qed

lemma conf_sample_infos:
  "host_infos 0 conf_sample_hosts = [\<lparr>hi_hostId = 0, hi_priority = 50, hi_hostName = Some ''a''\<rparr>,
     \<lparr>hi_hostId = 1, hi_priority = 50, hi_hostName = Some ''b''\<rparr>]"
  by code_simp

definition conf_sample_devs :: "hcs_item list" where
  "conf_sample_devs =
     [HNode ''d'' [conf_sample_node ''x'' ''s'' 0, conf_sample_node ''y'' ''t'' 2, conf_sample_node ''z'' ''u'' 1]]"

lemma conf_sample_host:
  "\<exists>s as. find (host_named ''b'') (filter is_node conf_sample_hosts) = Some (HNode s (as @ conf_sample_devs)) \<and>
     filter is_node as = []"
  by (intro exI [of _ "''i''"] exI [of _ "[HAttr ''hostName'' (HScalar (HString ''b'')), HAttr ''priority'' (HScalar (HWord 50))]"])
    (simp add: conf_sample_hosts_def conf_sample_devs_def is_node_def attr_string_def node_attr_def)

lemma conf_sample_devices:
  "snd (host_devices 1 1 conf_sample_devs) \<and>
   map di_svcName (sort_key di_priority (rev (filter (\<lambda>di. di_preload di \<noteq> 2) (fst (host_devices 1 1 conf_sample_devs))))) = [Some ''u'', Some ''s''] \<and>
   map di_svcName (rev (filter (\<lambda>di. di_preload di = 2) (fst (host_devices 1 1 conf_sample_devs)))) = [Some ''t''] \<and>
   map di_deviceId (fst (host_devices 1 1 conf_sample_devs)) = [0x1000101, 0x1000102, 0x1000103]"
  by code_simp

theorem host_list_of_config_witness:
  "\<exists>t. conf_tree t conf_sample \<and> HdfAttributeManagerGetHostList t (\<lambda>_. True) (Some []) =
     Some (Some [\<lparr>hi_hostId = 1, hi_priority = 50, hi_hostName = Some ''b''\<rparr>,
                 \<lparr>hi_hostId = 0, hi_priority = 50, hi_hostName = Some ''a''\<rparr>], True)"
proof -
  obtain t where t: "conf_tree t conf_sample" using conf_sample_tree ..
  from host_list_of_config [OF t conf_sample_ok(3)] t show ?thesis
    by (intro exI [of _ t]) (simp add: conf_sample_infos)
qed

lemma conf_sample_device_list:
  "\<exists>t c'. conf_tree t conf_sample \<and>
     HdfAttributeManagerGetDeviceList t (\<lambda>_. True)
       (Some \<lparr>hc_addr = 0, hc_devices = [], hc_unloadDevInfos = [], hc_dynamicDevInfos = [], hc_hostService = None,
              hc_hostId = 1, hc_hostPid = - 1, hc_hostName = Some ''b'', hc_stopFlag = False\<rparr>) = Some (Some c', HDF_SUCCESS) \<and>
     map di_svcName (hc_unloadDevInfos c') = [Some ''u'', Some ''s''] \<and> map di_svcName (hc_dynamicDevInfos c') = [Some ''t'']"
proof -
  obtain t where t: "conf_tree t conf_sample" using conf_sample_tree ..
  let ?c = "\<lparr>hc_addr = 0, hc_devices = [], hc_unloadDevInfos = [], hc_dynamicDevInfos = [], hc_hostService = None,
              hc_hostId = 1, hc_hostPid = - 1, hc_hostName = Some ''b'', hc_stopFlag = False\<rparr>"
  obtain s as where h: "find (host_named ''b'') (filter is_node conf_sample_hosts) = Some (HNode s (as @ conf_sample_devs))"
    "filter is_node as = []" using conf_sample_host by blast
  have "host_devices 1 1 (as @ conf_sample_devs) = host_devices 1 1 conf_sample_devs"
    using host_devices_nodes [of 1 1 "as @ conf_sample_devs"] host_devices_nodes [of 1 1 conf_sample_devs] h(2) by simp
  with device_list_conf [OF t conf_sample_ok(3), of ?c "''b''"] h(1) t conf_sample_devices show ?thesis
    by (intro exI [of _ t]) (simp add: case_prod_unfold Let_def)
qed

theorem device_list_of_config_witness:
  "\<exists>t c'. conf_tree t conf_sample \<and>
     HdfAttributeManagerGetDeviceList t (\<lambda>_. True)
       (Some \<lparr>hc_addr = 0, hc_devices = [], hc_unloadDevInfos = [], hc_dynamicDevInfos = [], hc_hostService = None,
              hc_hostId = 1, hc_hostPid = - 1, hc_hostName = Some ''b'', hc_stopFlag = False\<rparr>) = Some (Some c', HDF_SUCCESS) \<and>
     map di_svcName (hc_unloadDevInfos c') = [Some ''u'', Some ''s''] \<and> map di_svcName (hc_dynamicDevInfos c') = [Some ''t'']"
proof -
  obtain t where t: "conf_tree t conf_sample" using conf_sample_tree ..
  let ?c = "\<lparr>hc_addr = 0, hc_devices = [], hc_unloadDevInfos = [], hc_dynamicDevInfos = [], hc_hostService = None,
              hc_hostId = 1, hc_hostPid = - 1, hc_hostName = Some ''b'', hc_stopFlag = False\<rparr>"
  obtain s as where h: "find (host_named ''b'') (filter is_node conf_sample_hosts) = Some (HNode s (as @ conf_sample_devs))"
    "filter is_node as = []" using conf_sample_host by blast
  have "host_devices 1 1 (as @ conf_sample_devs) = host_devices 1 1 conf_sample_devs"
    using host_devices_nodes [of 1 1 "as @ conf_sample_devs"] host_devices_nodes [of 1 1 conf_sample_devs] h(2) by simp
  with device_list_of_config [OF t conf_sample_ok(3), of ?c "''b''"] h(1) t conf_sample_devices show ?thesis
    by (intro exI [of _ t]) (simp add: case_prod_unfold Let_def)
qed
section \<open>Well-formed descriptions, for any tree\<close>

definition info_valid :: "HdfDeviceInfo \<Rightarrow> bool" where
  "info_valid di \<longleftrightarrow> di_policy di < 5 \<and> di_priority di \<le> MAX_PRIORITY_NUM \<and> di_preload di < 3 \<and>
     (\<exists>m. di_moduleName di = Some m \<and> m \<noteq> []) \<and> di_svcName di \<noteq> None"

definition dev_lists_ok :: "dev_lists \<Rightarrow> bool" where
  "dev_lists_ok dls \<longleftrightarrow>
     (\<forall>di \<in> set (fst dls). info_valid di \<and> di_preload di \<noteq> DEVICE_PRELOAD_DISABLE) \<and>
     (\<forall>di \<in> set (snd dls). info_valid di \<and> di_preload di = DEVICE_PRELOAD_DISABLE) \<and>
     sorted (map di_priority (fst dls))"

lemma HcsGetString_success: "HcsGetString al b m node nm True = Some (HDF_SUCCESS, q) \<Longrightarrow> \<exists>x. q = Some (InBlob x)"
  by (auto simp: HcsGetString_def with_attr_def Option.bind_eq_Some_conv split: if_splits option.split_asm)

lemma get_string_success:
  assumes "get_string t p nm = Some (HDF_SUCCESS, s)"
  shows "\<exists>x. s = Some x"
proof -
  obtain r q where h: "HcsGetString (ht_al t) (ht_blob t) (ht_mem t) (Some p) (Some nm) True = Some (r, q)"
    using assms by (auto simp: get_string_def Option.bind_eq_Some_conv)
  show ?thesis
  proof (cases "\<exists>x. q = Some (InBlob x)")
    case True
    then show ?thesis using assms h by (auto simp: get_string_def Option.bind_eq_Some_conv)
  next
    case False
    then have "r = HDF_SUCCESS"
      using assms h by (cases q; cases "the q") (auto simp: get_string_def)
    then show ?thesis using HcsGetString_success h False by blast
  qed
qed

lemma GetDeviceNodeInfo_valid:
  assumes "GetDeviceNodeInfo t p di = Some (di', True)"
  shows "info_valid di'"
  using assms
  by (auto simp: GetDeviceNodeInfo_def CheckDeviceInfo_def info_valid_def Let_def Option.bind_eq_Some_conv not_le
      split: if_splits dest: get_string_success)

lemma dev_lists_ok_add:
  assumes "dev_lists_ok dls" "info_valid di"
  shows "dev_lists_ok (if di_preload di \<noteq> DEVICE_PRELOAD_DISABLE then (order_add HdfDeviceListCompare di (fst dls), snd dls)
    else (fst dls, di # snd dls))"
proof -
  have "order_add HdfDeviceListCompare di (fst dls) = insort_key di_priority di (fst dls)"
    unfolding HdfDeviceListCompare_def [abs_def]
    by (rule order_add_sorted) (use assms(1) in \<open>simp add: dev_lists_ok_def\<close>)
  then show ?thesis using assms by (auto simp: dev_lists_ok_def set_insort_key sorted_insort_key)
qed

lemma info_valid_id [simp]: "info_valid (di\<lparr>di_deviceId := i\<rparr>) = info_valid di"
  by (simp add: info_valid_def)

lemma node_list_loop_valid:
  assumes "node_list_loop t alloc h d k p i dls = Some r" "dev_lists_ok dls"
  shows "dev_lists_ok (fst r)"
proof (rule node_list_loop.raw_induct [where P = "\<lambda>t alloc h d k p i dls r. dev_lists_ok dls \<longrightarrow> dev_lists_ok (fst r)",
      OF _ assms(1), THEN mp, OF _ assms(2)], goal_cases)
  case (1 loop t alloc h d k p i dls r)
  show ?case
  proof (cases p)
    case None
    then show ?thesis using 1(2) by auto
  next
    case (Some q)
    show ?thesis
    proof (cases "alloc k")
      case False
      then show ?thesis using 1(2) Some by auto
    next
      case True
      with 1(2) Some obtain n di ok where g: "tm_nodes (ht_mem t) q = Some n"
        "GetDeviceNodeInfo t q HdfDeviceInfoConstruct = Some (di, ok)"
        by (auto simp: Option.bind_eq_Some_conv)
      let ?di = "di\<lparr>di_deviceId := MK_DEVID (ucast h) (ucast d) (ucast i)\<rparr>"
      let ?dls = "if di_preload ?di \<noteq> DEVICE_PRELOAD_DISABLE then (order_add HdfDeviceListCompare ?di (fst dls), snd dls)
        else (fst dls, ?di # snd dls)"
      show ?thesis
      proof (cases ok)
        case False
        then show ?thesis using 1(1) [of t alloc h d "Suc k" "rn_sibling n" i dls r] 1(2) Some True g by simp
      next
        case ok: True
        then have "info_valid ?di" using GetDeviceNodeInfo_valid g(2) by simp
        from dev_lists_ok_add [OF _ this, of dls] show ?thesis
          using 1(1) [of t alloc h d "Suc k" "rn_sibling n" "i + 1" ?dls r] 1(2) Some True g ok by (simp add: Let_def)
      qed
    qed
  qed
qed

lemma device_list_loop_valid:
  assumes "device_list_loop t alloc h d k p dls = Some r" "dev_lists_ok dls"
  shows "dev_lists_ok (fst r)"
proof (rule device_list_loop.raw_induct [where P = "\<lambda>t alloc h d k p dls r. dev_lists_ok dls \<longrightarrow> dev_lists_ok (fst r)",
      OF _ assms(1), THEN mp, OF _ assms(2)], goal_cases)
  case (1 loop t alloc h d k p dls r)
  show ?case
  proof (cases p)
    case None
    then show ?thesis using 1(2) by auto
  next
    case (Some q)
    with 1(2) obtain n dls' k' ok where g: "tm_nodes (ht_mem t) q = Some n"
      "GetDevcieNodeList t alloc h d k q dls = Some (dls', k', ok)"
      "(if \<not> ok then Some (dls', HDF_DEV_ERR_NO_DEVICE) else loop t alloc h (d + 1) k' (rn_sibling n) dls') = Some r"
      by (auto simp: Option.bind_eq_Some_conv)
    have "dev_lists_ok dls \<Longrightarrow> dev_lists_ok dls'"
      using g(2) by (auto simp: GetDevcieNodeList_def Option.bind_eq_Some_conv dest: node_list_loop_valid)
    then show ?thesis using g(3) 1(1) [of t alloc h "d + 1" k' "rn_sibling n" dls' r] by (auto split: if_splits)
  qed
qed

text \<open>
  C35. Well-formed device lists. Whatever the tree and the outcome of the allocations, when
  \<^verbatim>\<open>HdfAttributeManagerGetDeviceList\<close> returns, with success or not, the lists of the client that
  were well formed are well formed: policy, priority and preload are in range, module and service
  name are there, the dynamic list holds exactly the disabled devices and the other list is
  ordered by priority.
\<close>

theorem device_lists_well_formed:
  assumes "HdfAttributeManagerGetDeviceList t alloc (Some c) = Some (r, ret)"
    and "dev_lists_ok (hc_unloadDevInfos c, hc_dynamicDevInfos c)"
  shows "\<exists>c'. r = Some c' \<and> dev_lists_ok (hc_unloadDevInfos c', hc_dynamicDevInfos c') \<and> hc_hostId c' = hc_hostId c"
proof -
  obtain hn where hn: "GetHostNode t (hc_hostName c) = Some hn"
    using assms(1) by (auto simp: HdfAttributeManagerGetDeviceList_def Option.bind_eq_Some_conv)
  show ?thesis
  proof (cases hn)
    case None
    then show ?thesis using assms hn by (auto simp: HdfAttributeManagerGetDeviceList_def)
  next
    case (Some p)
    then obtain n :: res_node and u d where g: "device_list_loop t alloc (hc_hostId c) 1 0 (rn_child n) (hc_unloadDevInfos c, hc_dynamicDevInfos c) = Some ((u, d), ret)"
      "r = Some (c\<lparr>hc_unloadDevInfos := u, hc_dynamicDevInfos := d\<rparr>)"
      using assms(1) hn by (auto simp: HdfAttributeManagerGetDeviceList_def Option.bind_eq_Some_conv)
    from device_list_loop_valid [OF g(1) assms(2)] show ?thesis by (simp add: g(2))
  qed
qed

theorem device_lists_well_formed_witness:
  "\<exists>t c'. HdfAttributeManagerGetDeviceList t (\<lambda>_. True)
       (Some \<lparr>hc_addr = 0, hc_devices = [], hc_unloadDevInfos = [], hc_dynamicDevInfos = [], hc_hostService = None,
              hc_hostId = 1, hc_hostPid = - 1, hc_hostName = Some ''b'', hc_stopFlag = False\<rparr>) = Some (Some c', HDF_SUCCESS) \<and>
     dev_lists_ok (hc_unloadDevInfos c', hc_dynamicDevInfos c')"
proof -
  let ?c = "\<lparr>hc_addr = 0, hc_devices = [], hc_unloadDevInfos = [], hc_dynamicDevInfos = [], hc_hostService = None,
              hc_hostId = 1, hc_hostPid = - 1, hc_hostName = Some ''b'', hc_stopFlag = False\<rparr>"
  obtain t c' where t: "HdfAttributeManagerGetDeviceList t (\<lambda>_. True) (Some ?c) = Some (Some c', HDF_SUCCESS)"
    using conf_sample_device_list by blast
  from device_lists_well_formed [OF t] show ?thesis using t by (auto simp: dev_lists_ok_def)
qed
section \<open>The identifiers of a configured host\<close>

lemma is_node_simps [simp]: "is_node (HNode nm its)" "\<not> is_node (HAttr nm v)"
  by (simp_all add: is_node_def)

fun valid_nodes :: "hcs_item \<Rightarrow> nat" where
  "valid_nodes (HAttr nm v) = 0"
| "valid_nodes (HNode nm nodes) = length (List.map_filter node_desc nodes)"

lemma devid_word_parts:
  assumes "unat (h :: u16) < 256" "i < 256"
  shows "HOSTID (MK_DEVID (ucast h) (ucast (d :: u16)) (ucast (of_nat i :: u8))) = ucast h"
    "DEVICEID (MK_DEVID (ucast h) (ucast d) (ucast (of_nat i :: u8))) = ucast d"
    "unat (DEVNODEID (MK_DEVID (ucast h) (ucast d) (ucast (of_nat i :: u8)))) = i"
proof -
  have h: "(ucast h :: u32) < 256" using assms(1) by (simp add: word_less_nat_alt unat_ucast_up_simp)
  have d: "(ucast d :: u32) < 65536"
    using unsigned_less [of d] by (simp add: word_less_nat_alt unat_ucast_up_simp)
  have k: "unat (ucast (of_nat i :: u8) :: u32) = i"
    using assms(2) by (simp add: unat_ucast_up_simp unat_of_nat)
  then have k': "(ucast (of_nat i :: u8) :: u32) < 256" using assms(2) by (simp add: word_less_nat_alt)
  from devid_parts [OF h d k'] k
  show "HOSTID (MK_DEVID (ucast h) (ucast (d :: u16)) (ucast (of_nat i :: u8))) = ucast h"
    "DEVICEID (MK_DEVID (ucast h) (ucast d) (ucast (of_nat i :: u8))) = ucast d"
    "unat (DEVNODEID (MK_DEVID (ucast h) (ucast d) (ucast (of_nat i :: u8)))) = i" by simp_all
qed

lemma device_infos_ids:
  "map di_deviceId (device_infos h d i nodes) =
     map (\<lambda>i. MK_DEVID (ucast h) (ucast d) (ucast (of_nat i :: u8))) [i..<i + length (List.map_filter node_desc nodes)]"
proof -
  have "map (\<lambda>(i, di). MK_DEVID (ucast h) (ucast d) (ucast (of_nat i :: u8))) (enumerate i xs) =
      map (\<lambda>i. MK_DEVID (ucast h) (ucast d) (ucast (of_nat i :: u8))) [i..<i + length xs]" for xs :: "HdfDeviceInfo list"
    by (induction xs arbitrary: i) (simp_all add: upt_conv_Cons del: upt_Suc)
  then show ?thesis by (simp add: device_infos_def comp_def case_prod_unfold)
qed

lemma host_devices_ids:
  assumes "unat h < 256" "unat d + length (filter is_node its) \<le> 65536" "\<forall>x \<in> set its. valid_nodes x < 255"
  shows "distinct (map di_deviceId (fst (host_devices h d its))) \<and>
    (\<forall>di \<in> set (fst (host_devices h d its)). HOSTID (di_deviceId di) = ucast h \<and> unat d \<le> unat (DEVICEID (di_deviceId di)))"
  using assms
proof (induction h d its rule: host_devices.induct)
  case (3 h d nm nodes its)
  let ?ids = "map di_deviceId (device_infos h d 1 nodes)"
  have ids: "?ids = map (\<lambda>i. MK_DEVID (ucast h) (ucast d) (ucast (of_nat i :: u8))) [1..<1 + valid_nodes (HNode nm nodes)]"
    by (simp add: device_infos_ids)
  have small: "i < 256" if "i \<in> set [1..<1 + valid_nodes (HNode nm nodes)]" for i
    using that "3.prems"(3) by auto
  have node: "unat (DEVNODEID (MK_DEVID (ucast h) (ucast d) (ucast (of_nat i :: u8)))) = i"
    if "i \<in> set [1..<1 + valid_nodes (HNode nm nodes)]" for i
    using devid_word_parts(3) [OF "3.prems"(1) small [OF that]] .
  have "inj_on (\<lambda>i. MK_DEVID (ucast h) (ucast d) (ucast (of_nat i :: u8))) (set [1..<1 + valid_nodes (HNode nm nodes)])"
    by (rule inj_onI) (metis node)
  then have dist: "distinct ?ids" unfolding ids distinct_map by simp
  have own: "HOSTID j = ucast h \<and> DEVICEID j = ucast d" if "j \<in> set ?ids" for j
    using that devid_word_parts(1,2) [OF "3.prems"(1) small] unfolding ids by auto
  have ud: "unat (ucast d :: u32) = unat d" by (simp add: unat_ucast_up_simp)
  show ?case
  proof (cases "(of_nat (Suc (length (device_infos h d 1 nodes))) :: u8) > 1")
    case False
    then show ?thesis using dist own ud by (auto simp: Let_def)
  next
    case True
    show ?thesis
    proof (cases "filter is_node its = []")
      case nil: True
      have "host_devices h (d + 1) its = ([], True)"
        using host_devices_nodes [of h "d + 1" its] nil by simp
      then show ?thesis using dist own ud True by (auto simp: Let_def)
    next
      case False
      then have "unat d + 1 < 65536" using "3.prems"(2) by (cases "filter is_node its") auto
      then have ud1: "unat (d + 1) = unat d + 1" by (simp add: unat_word_ariths)
      have IH: "distinct (map di_deviceId (fst (host_devices h (d + 1) its)))"
        "\<And>di. di \<in> set (fst (host_devices h (d + 1) its)) \<Longrightarrow> HOSTID (di_deviceId di) = ucast h \<and> unat (d + 1) \<le> unat (DEVICEID (di_deviceId di))"
        using "3.IH"(1) [OF refl True "3.prems"(1)] "3.prems"(2,3) ud1 by auto
      have "set ?ids \<inter> set (map di_deviceId (fst (host_devices h (d + 1) its))) = {}"
        using own IH(2) ud ud1 by fastforce
      then show ?thesis using dist own ud True IH ud1 by (fastforce simp: Let_def)
    qed
  qed
qed auto

end
