(* ===== verification/Host_Start.thy ===== *)
theory Host_Start
  imports Host_Success Host_Config
begin

text \<open>
  Starting a device host: what DevHostServiceStartService (core/host/src/devhost_service.c) and
  DevmgrServiceStartDeviceHost (core/manager/src/devmgr_service.c) do with the devices that the
  configuration gives to a host.
\<close>

section \<open>What adding a device leaves of the clients\<close>

definition client_fixed :: "DevHostServiceClnt \<Rightarrow> DevHostServiceClnt" where
  "client_fixed c = c\<lparr>hc_devices := []\<rparr>"

definition same_clients :: "('m, 's) hdf_core \<Rightarrow> ('m, 's) hdf_core \<Rightarrow> bool" where
  "same_clients w w' \<longleftrightarrow> map client_fixed (c_clients w') = map client_fixed (c_clients w)"

lemma same_clients_refl [simp]: "same_clients w w"
  by (simp add: same_clients_def)

lemma same_clients_trans: "same_clients w w1 \<Longrightarrow> same_clients w1 w2 \<Longrightarrow> same_clients w w2"
  by (simp add: same_clients_def)

lemma same_clients_eq: "c_clients w' = c_clients w \<Longrightarrow> same_clients w w'"
  by (simp add: same_clients_def)

lemma same_clients_simps [simp]:
  "same_clients w (put_node a n v) \<longleftrightarrow> same_clients w v" "same_clients w (set_device d dv v) \<longleftrightarrow> same_clients w v"
  "same_clients w (set_token t i v) \<longleftrightarrow> same_clients w v" "same_clients w (set_host h hv v) \<longleftrightarrow> same_clients w v"
  by (simp_all add: same_clients_def)

lemma fixed_update: "map client_fixed (update_client p (\<lambda>c. c\<lparr>hc_devices := f c\<rparr>) cs) = map client_fixed cs"
  by (simp add: update_client_def client_fixed_def)

lemma fixed_attach: "attach_clients tok toks cs cs' \<Longrightarrow> map client_fixed cs' = map client_fixed cs"
  by (auto simp: attach_clients_def fixed_update)

lemma fixed_detach: "detach_clients devid toks cs = Some cs' \<Longrightarrow> map client_fixed cs' = map client_fixed cs"
  by (auto simp: detach_clients_def fixed_update split: option.splits)

lemma client_of_fixed:
  assumes "map client_fixed cs' = map client_fixed cs" "client_of k cs = Some c"
  shows "\<exists>c'. client_of k cs' = Some c' \<and> client_fixed c' = client_fixed c"
  using assms
proof (induction cs arbitrary: cs')
  case (Cons x cs)
  then obtain y ys where y: "cs' = y # ys" "client_fixed y = client_fixed x" "map client_fixed ys = map client_fixed cs"
    by auto
  then have "hc_hostId y = hc_hostId x" by (auto simp: client_fixed_def dest: arg_cong [where f = hc_hostId])
  then show ?case using Cons.IH [OF y(3)] Cons.prems(2) y by auto
qed simp

lemma find_by_addr: "c \<in> set cs \<Longrightarrow> distinct (map hc_addr cs) \<Longrightarrow> find (\<lambda>x. hc_addr x = hc_addr c) cs = Some c"
  by (induction cs) (auto simp: image_iff)

context service_registry
begin

lemma Launch_clients: "winv w \<Longrightarrow> HdfDeviceLaunchNode env a w = Some (w', r) \<Longrightarrow> same_clients w w'"
  using Launch_op [of w env a w' r] fixed_attach by (auto simp: same_clients_def winv_def)

lemma Attach_clients:
  assumes "winv w" "HdfDeviceAttach env (Some dv) (Some a) w = Some (w', r)"
  shows "same_clients w w'"
proof -
  obtain n v where n: "c_nodes w a = Some n" "c_devices w dv = Some v"
    using assms(2) by (auto simp: HdfDeviceAttach_def do_simps)
  have launch: "same_clients w w1"
    if "HdfDeviceLaunchNode env a (set_token t x (put_node a (Some n') (set_device dv v1 w))) = Some (w1, r1)"
      "nd_servStatus n' = nd_servStatus n" "nd_servName n' = nd_servName n" for n' t x v1 w1 r1
  proof -
    have "winv (put_node a (Some n') (set_device dv v1 w))"
      by (rule winv_put_node [of _ _ n]) (simp_all add: assms(1) n(1) that)
    then show ?thesis using Launch_clients [OF _ that(1)] by (simp add: same_clients_def)
  qed
  show ?thesis
    using assms(2) n
    by (auto simp: HdfDeviceAttach_def do_simps split: option.splits if_splits prod.splits dest: launch)
qed

lemma Free_clients:
  assumes "winv w" "HdfDeviceNodeFreeInstance a w = Some w'"
  shows "same_clients w w'"
proof -
  obtain n where n: "c_nodes w a = Some n"
    using assms(2) by (auto simp: HdfDeviceNodeFreeInstance_def DeviceNodeExtRelease_def DeviceNodeExtRemoveService_def do_simps)
  from Free_op [OF winvD [OF assms(1)] n assms(2)] show ?thesis
    by (auto simp: node_freed_def same_clients_def fixed_detach split: if_splits)
qed

lemma free_nodes_clients: "winv w \<Longrightarrow> free_nodes as w = Some w' \<Longrightarrow> same_clients w w'"
proof (induction as arbitrary: w)
  case (Cons a as)
  then obtain w1 where w1: "HdfDeviceNodeFreeInstance a w = Some w1" "free_nodes as w1 = Some w'"
    by (auto elim!: free_nodesE simp: do_simps)
  then show ?case
    using Cons.IH [OF winv_Free [OF Cons.prems(1) w1(1)] w1(2)] Free_clients [OF Cons.prems(1) w1(1)]
    by (blast intro: same_clients_trans)
qed simp

lemma add_error_clients: "winv w \<Longrightarrow> add_error h dv ret w = Some (w', r) \<Longrightarrow> same_clients w w'"
  by (auto simp: add_error_def DevHostServiceFreeDevice_def HdfDeviceRelease_def do_simps same_clients_def
      split: if_splits dest!: free_nodes_clients [rotated])

lemma Query_clients: "DevHostServiceQueryOrAddDevice env h d w = Some (w', r) \<Longrightarrow> same_clients w w'"
  by (auto simp: DevHostServiceQueryOrAddDevice_def HdfDeviceCreate_def fresh_def tick_def do_simps same_clients_def split: if_splits)

lemma NewInstance_clients:
  assumes "winv w" "HdfDeviceNodeNewInstance env (Some di) driver w = Some (w', r)"
  shows "same_clients w w'"
  using NewInstance_op [OF winvD [OF assms(1)] _ assms(2)] assms(1)
  by (auto simp: winv_def world_grows_def same_clients_def split: option.splits)

lemma GetDriver_clients: "HdfDriverLoaderGetDriver env nm w = Some (w', r) \<Longrightarrow> same_clients w w'"
  by (drule GetDriver_frame) (simp add: driver_frame_def same_clients_def)

lemma AddDevice_clients:
  assumes w: "winv w" and add: "DevHostServiceAddDevice env (Some h) (Some di) w = Some (w', r)"
  shows "same_clients w w'"
proof -
  note trans = same_clients_trans
  have query: "winv w1 \<and> same_clients w w1"
    if "DevHostServiceQueryOrAddDevice env h d w = Some (w1, dv)" for d w1 dv
    using that w by (blast intro: winv_Query Query_clients)
  have driver: "winv w2 \<and> same_clients w w2"
    if "DevHostServiceQueryOrAddDevice env h d w = Some (w1, dv)" "HdfDriverLoaderGetDriver env nm w1 = Some (w2, x)"
    for d w1 dv nm w2 x
    using query [OF that(1)] that(2) by (blast intro: winv_GetDriver GetDriver_clients trans)
  have attach: "winv w4 \<and> same_clients w w4"
    if "winv w2" "same_clients w w2" "HdfDeviceNodeNewInstance env (Some di) drv w2 = Some (w3, Some a)" "c_nodes w3 a = Some n"
      "HdfDeviceAttach env (Some dv) (Some a)
         (put_node a (Some (n\<lparr>nd_hostService := hs, nd_device := dd, nd_driver := drv\<rparr>)) w3) = Some (w4, ret)"
    for w2 drv w3 a n dv hs dd w4 ret
  proof -
    have w3: "winv w3" using winv_NewInstance [OF that(1,3)] by simp
    have "winv (put_node a (Some (n\<lparr>nd_hostService := hs, nd_device := dd, nd_driver := drv\<rparr>)) w3)"
      by (rule winv_put_node [OF w3 that(4)]) simp_all
    then have "winv w4" "same_clients w3 w4"
      using winv_Attach Attach_clients that(5) by (blast, fastforce simp: same_clients_def)
    then show ?thesis using that(2) NewInstance_clients [OF that(1,3)] by (blast intro: trans)
  qed
  from add show ?thesis
  proof (cases rule: AddDevice_cases)
    case no_loader
    then show ?thesis by simp
  next
    case no_device
    then show ?thesis using query by blast
  next
    case (busy dv a)
    then show ?thesis using query by blast
  next
    case (no_driver w1 dv w2)
    then show ?thesis using driver [OF no_driver(1,3)] add_error_clients trans by blast
  next
    case (no_node w1 dv w2 drv)
    then show ?thesis using driver [OF no_node(1,3)] NewInstance_clients trans by blast
  next
    case (refused w1 dv w2 drv w3 a n w4 ret w5)
    have w2: "winv w2" "same_clients w w2" using driver [OF refused(1,3)] by simp_all
    have w4: "winv w4" "same_clients w w4" using attach [OF w2 refused(4,5,6)] by simp_all
    have w5: "winv w5" by (rule winv_Free [OF w4(1) refused(8)])
    have "same_clients w w5" by (rule trans [OF w4(2) Free_clients [OF w4(1) refused(8)]])
    then show ?thesis by (rule trans) (rule add_error_clients [OF w5 refused(9)])
  next
    case (added w1 dv w2 drv w3 a n)
    have w2: "winv w2" "same_clients w w2" using driver [OF added(1,3)] by simp_all
    show ?thesis using attach [OF w2 added(4,5,6)] by simp
  qed
qed

end

section \<open>Installing the devices of a host\<close>

text \<open>The descriptions that the loop passes over.\<close>

definition skipped :: "int \<Rightarrow> HdfDeviceInfo \<Rightarrow> bool" where
  "skipped quick di \<longleftrightarrow>
     di_preload di = DEVICE_PRELOAD_DISABLE \<or> quick = DEV_MGR_QUICK_LOAD \<and> di_preload di = DEVICE_PRELOAD_ENABLE_STEP2"

text \<open>The devices that were loaded and the descriptions that are left over are a partition.\<close>

definition installed :: "int \<Rightarrow> HdfDeviceInfo list \<Rightarrow> u32 set \<Rightarrow> u32 set \<Rightarrow> HdfDeviceInfo list \<Rightarrow> bool" where
  "installed quick dis S S' left \<longleftrightarrow> S \<subseteq> S' \<and> S' \<subseteq> S \<union> di_deviceId ` {di \<in> set dis. \<not> skipped quick di} \<and>
     left = filter (\<lambda>di. di_deviceId di \<notin> S') dis"

lemma installed_skip:
  assumes "installed quick dis S S' left" "di_deviceId di \<notin> S" "di_deviceId di \<notin> di_deviceId ` set dis"
  shows "installed quick (di # dis) S S' (di # left)"
proof -
  have "di_deviceId di \<notin> S'" using assms by (auto simp: installed_def)
  then show ?thesis using assms(1) by (auto simp: installed_def)
qed

lemma installed_add:
  "installed quick dis (insert (di_deviceId di) S) S' left \<Longrightarrow> \<not> skipped quick di \<Longrightarrow> installed quick (di # dis) S S' left"
  by (auto simp: installed_def)

context service_registry
begin

lemma install_loop_ok:
  assumes "host_at h i dvs c w" "\<And>k. ce_token env k"
    and "\<And>di. di \<in> set dis \<Longrightarrow> HOSTID (di_deviceId di) = ucast i \<and> di_deviceId di \<noteq> 0"
    and "distinct (map di_deviceId dis)" "held dvs w \<inter> di_deviceId ` set dis = {}"
  shows "\<exists>w' left dvs' c'. install_loop env quick (Some h) dis w = Some (w', left) \<and> host_at h i dvs' c' w' \<and>
    same_clients w w' \<and> installed quick dis (held dvs w) (held dvs' w') left"
  using assms(1,3-)
proof (induction dis arbitrary: w dvs c)
  case Nil
  then show ?case by (force simp: installed_def)
next
  case (Cons di dis)
  have rest: "\<And>d. d \<in> set dis \<Longrightarrow> HOSTID (di_deviceId d) = ucast i \<and> di_deviceId d \<noteq> 0" "distinct (map di_deviceId dis)"
    "di_deviceId di \<notin> di_deviceId ` set dis"
    using Cons.prems(2,3) by auto
  have new: "di_deviceId di \<notin> held dvs w" "held dvs w \<inter> di_deviceId ` set dis = {}" using Cons.prems(4) by auto
  show ?case
  proof (cases "skipped quick di")
    case True
    obtain w' left dvs' c' where r: "install_loop env quick (Some h) dis w = Some (w', left)" "host_at h i dvs' c' w'"
      "same_clients w w'" "installed quick dis (held dvs w) (held dvs' w') left"
      using Cons.IH [OF Cons.prems(1) rest(1,2) new(2)] by blast
    have "install_loop env quick (Some h) (di # dis) w = Some (w', di # left)"
      using r(1) True by (simp add: skipped_def)
    then show ?thesis using r(2,3) installed_skip [OF r(4) new(1) rest(3)] by blast
  next
    case False
    have d: "HOSTID (di_deviceId di) = ucast i" "di_deviceId di \<noteq> 0" using Cons.prems(2) [of di] by simp_all
    obtain w1 r dvs1 c1 where s: "DevHostServiceAddDevice env (Some h) (Some di) w = Some (w1, r)" "host_at h i dvs1 c1 w1"
      "r = HDF_SUCCESS \<Longrightarrow> di_deviceId di \<notin> held dvs w \<and> held dvs1 w1 = insert (di_deviceId di) (held dvs w)"
      "r \<noteq> HDF_SUCCESS \<Longrightarrow> held dvs1 w1 = held dvs w"
      by (rule AddDevice_ok [OF Cons.prems(1) assms(2) d]) (rule that)
    have "held dvs1 w1 \<inter> di_deviceId ` set dis = {}" using s(3,4) new(2) rest(3) by (cases "r = HDF_SUCCESS") auto
    from Cons.IH [OF s(2) rest(1,2) this] obtain w' left dvs' c' where
      r: "install_loop env quick (Some h) dis w1 = Some (w', left)" "host_at h i dvs' c' w'"
        "same_clients w1 w'" "installed quick dis (held dvs1 w1) (held dvs' w') left" by blast
    have same: "same_clients w w'"
      using AddDevice_clients [OF host_atD(1) [OF Cons.prems(1)] s(1)] r(3) by (rule same_clients_trans)
    have run: "install_loop env quick (Some h) (di # dis) w = Some (w', if r \<noteq> HDF_SUCCESS then di # left else left)"
      using s(1) r(1) False by (auto simp: skipped_def)
    have "installed quick (di # dis) (held dvs w) (held dvs' w') (if r \<noteq> HDF_SUCCESS then di # left else left)"
    proof (cases "r = HDF_SUCCESS")
      case True
      then show ?thesis using installed_add [OF _ False] r(4) s(3) by simp
    next
      case fail: False
      then show ?thesis using installed_skip [OF _ new(1) rest(3)] r(4) s(4) by simp
    qed
    then show ?thesis using run r(2) same by blast
  qed
qed

lemma host_at_set_client:
  assumes ok: "host_at h i dvs c w" and f: "hc_addr (f c) = hc_addr c" "hc_hostId (f c) = hc_hostId c" "hc_devices (f c) = hc_devices c"
  shows "host_at h i dvs (f c) (set_client (hc_addr c) f w)" "held dvs (set_client (hc_addr c) f w) = held dvs w"
proof -
  note H = host_atD [OF ok]
  show "host_at h i dvs (f c) (set_client (hc_addr c) f w)"
    using H(1,3,4,6,7,8,10) find_update_client [OF H(6,9), of f, OF f(1,2)] f(3)
    unfolding host_at_def set_client_def by simp
  show "held dvs (set_client (hc_addr c) f w) = held dvs w"
    by (simp add: held_def set_client_def)
qed

lemma client_at_host:
  assumes "host_at h i dvs c w"
  shows "client_at (hc_addr c) w = Some c"
proof -
  note H = host_atD [OF assms]
  have "c \<in> set (c_clients w)" using H(9) by (auto simp: find_Some_iff)
  then show ?thesis using find_by_addr [OF _ H(6)] by (simp add: client_at_def)
qed

lemma StartService_ok:
  assumes ok: "host_at h i dvs c w" and tok: "\<And>k. ce_token env k"
    and ids: "\<And>di. di \<in> set (hc_unloadDevInfos c) \<Longrightarrow> HOSTID (di_deviceId di) = ucast i \<and> di_deviceId di \<noteq> 0"
    and dist: "distinct (map di_deviceId (hc_unloadDevInfos c))" "held dvs w \<inter> di_deviceId ` set (hc_unloadDevInfos c) = {}"
  shows "\<exists>w' dvs' c'. DevHostServiceStartService env quick (Some h) w = Some (w', HDF_SUCCESS) \<and> host_at h i dvs' c' w' \<and>
    installed quick (hc_unloadDevInfos c) (held dvs w) (held dvs' w') (hc_unloadDevInfos c') \<and>
    client_fixed c' = client_fixed (c\<lparr>hc_hostService := Some h, hc_unloadDevInfos := hc_unloadDevInfos c'\<rparr>) \<and>
    (\<exists>w0 w1 c0. host_at h i dvs c0 w0 \<and> held dvs w0 = held dvs w \<and> same_drivers w w0 \<and>
       install_loop env quick (Some h) (hc_unloadDevInfos c) w0 = Some (w1, hc_unloadDevInfos c'))"
proof -
  note H = host_atD [OF ok]
  let ?f = "\<lambda>c. c\<lparr>hc_hostService := Some h\<rparr>"
  let ?w0 = "set_client (hc_addr c) ?f w"
  have w0: "host_at h i dvs (?f c) ?w0" "held dvs ?w0 = held dvs w"
    using host_at_set_client [OF ok, of ?f] by simp_all
  have cl0: "client_at (hc_addr c) ?w0 = Some (?f c)" using client_at_host [OF w0(1)] by simp
  obtain w1 left dvs1 c1 where r: "install_loop env quick (Some h) (hc_unloadDevInfos c) ?w0 = Some (w1, left)"
    "host_at h i dvs1 c1 w1" "same_clients ?w0 w1" "installed quick (hc_unloadDevInfos c) (held dvs w) (held dvs1 w1) left"
    using install_loop_ok [OF w0(1) tok ids dist(1), of quick] dist(2) w0(2) by auto
  have fx: "client_fixed c1 = client_fixed (?f c)"
    using client_of_fixed [OF r(3) [unfolded same_clients_def] host_atD(9) [OF w0(1)]] host_atD(9) [OF r(2)] by simp
  then have addr: "hc_addr c1 = hc_addr c" by (auto simp: client_fixed_def dest: arg_cong [where f = hc_addr])
  let ?g = "\<lambda>c. c\<lparr>hc_unloadDevInfos := left\<rparr>"
  have fin: "host_at h i dvs1 (?g c1) (set_client (hc_addr c) ?g w1)" "held dvs1 (set_client (hc_addr c) ?g w1) = held dvs1 w1"
    using host_at_set_client [OF r(2), of ?g] addr by simp_all
  obtain hs where hs: "c_hosts w h = Some hs" "hs_hostId hs = i" using host_at_host [OF ok] by blast
  have "DevHostServiceStartService env quick (Some h) w = Some (set_client (hc_addr c) ?g w1, HDF_SUCCESS)"
    using hs H(9) r(1) cl0
    by (simp add: DevHostServiceStartService_def DevmgrServiceAttachDeviceHost_def DevmgrServiceFindDeviceHost_def
      DevHostServiceClntInstallDriver_def)
  moreover have "client_fixed (?g c1) = client_fixed (c\<lparr>hc_hostService := Some h, hc_unloadDevInfos := left\<rparr>)"
    using fx by (cases c1; cases c) (simp add: client_fixed_def)
  moreover have "\<exists>w0 w1 c0. host_at h i dvs c0 w0 \<and> held dvs w0 = held dvs w \<and> same_drivers w w0 \<and>
       install_loop env quick (Some h) (hc_unloadDevInfos c) w0 = Some (w1, left)"
    using w0 r(1) by (intro exI [of _ ?w0] exI [of _ w1] exI [of _ "?f c"]) (simp add: same_drivers_def set_client_def)
  ultimately show ?thesis using fin r(4) by (intro exI [of _ "set_client (hc_addr c) ?g w1"] exI [of _ dvs1] exI [of _ "?g c1"]) simp
qed

end

section \<open>Starting a configured host\<close>

lemma reg_rel_records:
  assumes "c_svcmgr w = Some (Some (manager_ops nenv al hasDevmgr objService, m))" "mgr_ok m"
    and "\<forall>r \<in> set (services m). \<exists>a n nm. svc_value r = Some a \<and> c_nodes w a = Some n \<and> nd_servStatus n \<and>
       nd_servName n = Some nm \<and> svc_key_of nm = svc_key r"
  shows "devsvc.reg_rel nenv al hasDevmgr objService (c_svcmgr w) (c_nodes w)"
proof -
  have "\<exists>n nm. c_nodes w b = Some n \<and> nd_servStatus n \<and> nd_servName n = Some nm \<and> svc_key_of nm = k"
    if v: "svc_view m k = Some b" for k b
  proof -
    obtain r where r: "find_key k (services m) = Some r" "svc_value r = Some b"
      using v by (auto simp: svc_view_def Option.bind_eq_Some_conv)
    from find_key_Some [OF r(1)] have "r \<in> set (services m)" "svc_key r = k" by auto
    then show ?thesis using assms(3) r(2) by fastforce
  qed
  then show ?thesis using assms(1,2) by (simp add: devsvc.reg_rel_def devsvc.clnt_ok_def)
qed

lemma ucast_16_32 [simp]: "ucast (ucast (i :: u16) :: u32) = i"
proof -
  have "unat i < 2 ^ 16" using unsigned_less [of i] by simp
  then have "unat (ucast (ucast i :: u32) :: u16) = unat i"
    by (subst unsigned_ucast_eq) (simp add: unat_ucast_up_simp take_bit_nat_eq_self del: ucast_id)
  then show ?thesis by (simp add: word_unat_eq_iff)
qed

lemma find_append_None: "find P xs = None \<Longrightarrow> find P (xs @ [x]) = (if P x then Some x else None)"
  by (induction xs) (auto split: if_splits)

context service_registry
begin

text \<open>A host that was just created, with its client on the list.\<close>

lemma new_host_at:
  assumes "winv w" "\<forall>x \<ge> c_next w. c_nodes w x = None \<and> c_tokens w x = None \<and> c_devices w x = None"
    and "distinct (map hc_addr (c_clients w))" "set (c_driverList w) \<subseteq> dom (c_driverMem w)"
    and "client_of (ucast i) (c_clients w) = Some c" "hc_devices c = []"
  shows "host_at (c_next w) i [] c (set_host (c_next w) (Some \<lparr>hs_hostId = i, hs_hostName = nm, hs_devices = [],
      hs_observer = \<lparr>obs_services = []\<rparr>\<rparr>) (fst (fresh (tick w))))"
proof -
  have "host_view i [] (c_devices w) (c_nodes w) (c_tokens w) (dom (c_driverMem w)) []"
    by (rule host_viewI) (simp_all add: members_def)
  moreover have "winv (fst (fresh (tick w)))" by (rule winv_fresh) (simp add: assms(1))
  ultimately show ?thesis using assms by (simp add: host_at_def host_ids_def)
qed

lemma StartProcess_ok:
  assumes w: "winv w" "\<forall>x \<ge> c_next w. c_nodes w x = None \<and> c_tokens w x = None \<and> c_devices w x = None"
    and cl: "distinct (map hc_addr (c_clients w))" "set (c_driverList w) \<subseteq> dom (c_driverMem w)"
      "client_of (ucast (hc_hostId c)) (c_clients w) = Some c" "hc_devices c = []"
    and env: "\<And>k. ce_token env k" "\<And>k. ce_host env k"
    and ids: "\<And>di. di \<in> set (hc_unloadDevInfos c) \<Longrightarrow> HOSTID (di_deviceId di) = ucast (hc_hostId c) \<and> di_deviceId di \<noteq> 0"
    and dist: "distinct (map di_deviceId (hc_unloadDevInfos c))"
  shows "\<exists>w' h dvs c'. DevmgrServiceStartHostProcess env quick (hc_addr c) False w = Some (w', HDF_SUCCESS) \<and>
    host_at h (hc_hostId c) dvs c' w' \<and> installed quick (hc_unloadDevInfos c) {} (held dvs w') (hc_unloadDevInfos c') \<and>
    hc_hostService c' = Some h \<and> hc_dynamicDevInfos c' = hc_dynamicDevInfos c \<and>
    (\<exists>w0 w1 c0. host_at h (hc_hostId c) [] c0 w0 \<and> same_drivers w w0 \<and>
       install_loop env quick (Some h) (hc_unloadDevInfos c) w0 = Some (w1, hc_unloadDevInfos c'))"
proof -
  let ?i = "hc_hostId c" and ?h = "c_next w"
  let ?w1 = "set_host ?h (Some \<lparr>hs_hostId = ?i, hs_hostName = hc_hostName c, hs_devices = [], hs_observer = \<lparr>obs_services = []\<rparr>\<rparr>)
    (fst (fresh (tick w)))"
  have h1: "host_at ?h ?i [] c ?w1" by (rule new_host_at [OF w cl])
  have empty: "held [] ?w1 = {}" by (simp add: held_def members_def)
  have new: "DevHostServiceNewInstance env ?i (hc_hostName c) w = (?w1, Some ?h)"
    using env(2) by (simp add: DevHostServiceNewInstance_def fresh_def tick_def)
  have none: "held [] ?w1 \<inter> di_deviceId ` set (hc_unloadDevInfos c) = {}" using empty by simp
  obtain w2 dvs c2 where r0: "DevHostServiceStartService env quick (Some ?h) ?w1 = Some (w2, HDF_SUCCESS)" "host_at ?h ?i dvs c2 w2"
    "installed quick (hc_unloadDevInfos c) (held [] ?w1) (held dvs w2) (hc_unloadDevInfos c2)"
    "client_fixed c2 = client_fixed (c\<lparr>hc_hostService := Some ?h, hc_unloadDevInfos := hc_unloadDevInfos c2\<rparr>)"
    "\<exists>w0 w3 c0. host_at ?h ?i [] c0 w0 \<and> held [] w0 = held [] ?w1 \<and> same_drivers ?w1 w0 \<and>
       install_loop env quick (Some ?h) (hc_unloadDevInfos c) w0 = Some (w3, hc_unloadDevInfos c2)"
    using StartService_ok [OF h1 env(1) ids dist none, of quick] by blast
  note r = r0(1,2) r0(3) [unfolded empty] r0(4)
  have loop: "\<exists>w0 w3 c0. host_at ?h ?i [] c0 w0 \<and> same_drivers w w0 \<and>
       install_loop env quick (Some ?h) (hc_unloadDevInfos c) w0 = Some (w3, hc_unloadDevInfos c2)"
    using r0(5) by (auto simp: same_drivers_def)
  have c2: "hc_addr c2 = hc_addr c" "hc_hostService c2 = Some ?h" "hc_dynamicDevInfos c2 = hc_dynamicDevInfos c"
    using r(4) by (cases c; cases c2; simp add: client_fixed_def)+
  let ?f = "\<lambda>c. c\<lparr>hc_hostPid := HDF_SUCCESS\<rparr>" and ?g = "\<lambda>c. c\<lparr>hc_stopFlag := False\<rparr>"
  let ?w3 = "set_client (hc_addr c) ?f w2" and ?w4 = "set_client (hc_addr c) ?g (set_client (hc_addr c) ?f w2)"
  have w3: "host_at ?h ?i dvs (?f c2) ?w3" "held dvs ?w3 = held dvs w2"
    using host_at_set_client [OF r(2), of ?f] c2(1) by simp_all
  have w4: "host_at ?h ?i dvs (?g (?f c2)) ?w4" "held dvs ?w4 = held dvs ?w3"
    using host_at_set_client [OF w3(1), of ?g] c2(1) by simp_all
  have at: "client_at (hc_addr c) w = Some c"
  proof -
    have "c \<in> set (c_clients w)" using cl(3) by (auto simp: find_Some_iff)
    then show ?thesis using find_by_addr [OF _ cl(1)] by (simp add: client_at_def)
  qed
  have "DevmgrServiceStartHostProcess env quick (hc_addr c) False w = Some (?w4, HDF_SUCCESS)"
    using at new r(1) by (simp add: DevmgrServiceStartHostProcess_def DriverInstallerStartDeviceHost_def DriverInstallerConstruct_def)
  then show ?thesis
    using w4 w3(2) r(3) c2 loop by (intro exI [of _ ?w4] exI [of _ ?h] exI [of _ dvs] exI [of _ "?g (?f c2)"]) simp
qed

end

context willing_registry
begin

text \<open>When nothing fails, the loop leaves over only the descriptions that it passes over.\<close>

lemma install_loop_willing:
  assumes "host_at h i dvs c w" "smooth env" "\<And>di. di \<in> set dis \<Longrightarrow> \<not> skipped quick di \<Longrightarrow> driver_ready w di"
    and "\<And>di. di \<in> set dis \<Longrightarrow> HOSTID (di_deviceId di) = ucast i \<and> di_deviceId di \<noteq> 0"
    and "distinct (map di_deviceId dis)" "held dvs w \<inter> di_deviceId ` set dis = {}"
    and "install_loop env quick (Some h) dis w = Some (w', left)"
  shows "left = filter (skipped quick) dis"
  using assms(1,3-)
proof (induction dis arbitrary: w dvs c left)
  case (Cons di dis)
  have rest: "\<And>d. d \<in> set dis \<Longrightarrow> HOSTID (di_deviceId d) = ucast i \<and> di_deviceId d \<noteq> 0" "distinct (map di_deviceId dis)"
    "di_deviceId di \<notin> di_deviceId ` set dis"
    using Cons.prems(3,4) by auto
  have new: "di_deviceId di \<notin> held dvs w" "held dvs w \<inter> di_deviceId ` set dis = {}" using Cons.prems(5) by auto
  show ?case
  proof (cases "skipped quick di")
    case True
    then obtain left1 where "install_loop env quick (Some h) dis w = Some (w', left1)" "left = di # left1"
      using Cons.prems(6) by (auto simp: skipped_def do_simps)
    then show ?thesis using Cons.IH [OF Cons.prems(1) _ rest(1,2) new(2)] Cons.prems(2) True by simp
  next
    case False
    have d: "HOSTID (di_deviceId di) = ucast i" "di_deviceId di \<noteq> 0" using Cons.prems(3) [of di] by simp_all
    have ready: "driver_ready w di" using Cons.prems(2) False by simp
    have tok: "\<And>k. ce_token env k" using assms(2) by (simp add: smooth_def)
    obtain w1 r dvs1 c1 where s: "DevHostServiceAddDevice env (Some h) (Some di) w = Some (w1, r)" "host_at h i dvs1 c1 w1"
      "r = HDF_SUCCESS \<Longrightarrow> di_deviceId di \<notin> held dvs w \<and> held dvs1 w1 = insert (di_deviceId di) (held dvs w)"
      by (rule AddDevice_ok [OF Cons.prems(1) tok d]) (rule that)
    have r: "r = HDF_SUCCESS" "same_drivers w w1"
      using AddDevice_willing [OF Cons.prems(1) assms(2) ready d new(1) s(1)] by simp_all
    obtain left1 where l: "install_loop env quick (Some h) dis w1 = Some (w', left1)" "left = left1"
      using Cons.prems(6) False s(1) r(1) by (auto simp: skipped_def do_simps)
    have "held dvs1 w1 \<inter> di_deviceId ` set dis = {}" using s(3) [OF r(1)] new(2) rest(3) by auto
    then show ?thesis
      using Cons.IH [OF s(2) _ rest(1,2) _ l(1)] l(2) False Cons.prems(2) same_drivers_ready [OF r(2)] by simp
  qed
qed simp

end

lemma installed_all:
  assumes "installed quick dis {} S' left" "left = filter (skipped quick) dis"
  shows "S' = di_deviceId ` {di \<in> set dis. \<not> skipped quick di}"
proof -
  have "di_deviceId di \<in> S'" if "di \<in> set dis" "\<not> skipped quick di" for di
  proof (rule ccontr)
    assume "di_deviceId di \<notin> S'"
    then have "di \<in> set left" using assms(1) that(1) by (simp add: installed_def)
    then show False using assms(2) that(2) by simp
  qed
  then show ?thesis using assms(1) by (auto simp: installed_def)
qed

text \<open>What the configuration gives to the host with this name and number.\<close>

definition host_infos_of :: "hcs_item list \<Rightarrow> cstr \<Rightarrow> u16 \<Rightarrow> HdfDeviceInfo list option" where
  "host_infos_of its nm i =
     (case find (host_named nm) (filter is_node its) of
        Some (HNode s devs) \<Rightarrow> (case host_devices i 1 devs of (infos, ok) \<Rightarrow> if ok then Some infos else None)
      | _ \<Rightarrow> None)"

definition small_host :: "hcs_item list \<Rightarrow> cstr \<Rightarrow> bool" where
  "small_host its nm \<longleftrightarrow>
     (case find (host_named nm) (filter is_node its) of
        Some (HNode s devs) \<Rightarrow> length (filter is_node devs) < 65536 \<and> (\<forall>x \<in> set devs. valid_nodes x < 255)
      | _ \<Rightarrow> False)"

lemma host_infos_ids:
  assumes "host_infos_of its nm i = Some infos" "small_host its nm" "unat i < 256"
  shows "distinct (map di_deviceId infos)"
    "\<And>di. di \<in> set infos \<Longrightarrow> HOSTID (di_deviceId di) = ucast i \<and> di_deviceId di \<noteq> 0"
proof -
  obtain s devs where d: "find (host_named nm) (filter is_node its) = Some (HNode s devs)"
    "infos = fst (host_devices i 1 devs)" "length (filter is_node devs) < 65536" "\<forall>x \<in> set devs. valid_nodes x < 255"
    using assms(1,2) by (auto simp: host_infos_of_def small_host_def split: option.splits hcs_item.splits if_splits prod.splits)
  have ids: "distinct (map di_deviceId infos) \<and>
      (\<forall>di \<in> set infos. HOSTID (di_deviceId di) = ucast i \<and> unat (1 :: u16) \<le> unat (DEVICEID (di_deviceId di)))"
    unfolding d(2) by (rule host_devices_ids [OF assms(3) _ d(4)]) (use d(3) in simp)
  then show "distinct (map di_deviceId infos)" by blast
  show "HOSTID (di_deviceId di) = ucast i \<and> di_deviceId di \<noteq> 0" if "di \<in> set infos" for di
    using ids that by (auto simp: DEVICEID_def)
qed

text \<open>
  C36. Identifiers are unique. With enough memory, for a host numbered below 256 whose configuration has fewer than 65536
  devices of fewer than 255 valid nodes each, \<^verbatim>\<open>HdfAttributeManagerGetDeviceList\<close> gives all
  descriptions on its two lists different identifiers that carry the number of the host; so no
  description is refused as busy because of another one.
\<close>

theorem configured_ids_distinct:
  assumes "conf_tree t conf" "manager_items conf = Some its" "host_infos_of its nm (hc_hostId c) = Some infos" "small_host its nm"
    and "unat (hc_hostId c) < 256" "hc_hostName c = Some nm" "hc_unloadDevInfos c = []" "hc_dynamicDevInfos c = []"
  shows "\<exists>c'. HdfAttributeManagerGetDeviceList t (\<lambda>_. True) (Some c) = Some (Some c', HDF_SUCCESS) \<and>
    distinct (map di_deviceId (hc_unloadDevInfos c' @ hc_dynamicDevInfos c')) \<and>
    (\<forall>di \<in> set (hc_unloadDevInfos c' @ hc_dynamicDevInfos c'). HOSTID (di_deviceId di) = ucast (hc_hostId c))"
proof -
  let ?load = "sort_key di_priority (rev (filter (\<lambda>di. di_preload di \<noteq> DEVICE_PRELOAD_DISABLE) infos))"
  let ?dyn = "rev (filter (\<lambda>di. di_preload di = DEVICE_PRELOAD_DISABLE) infos)"
  have "HdfAttributeManagerGetDeviceList t (\<lambda>_. True) (Some c) =
      Some (Some (c\<lparr>hc_unloadDevInfos := ?load, hc_dynamicDevInfos := ?dyn\<rparr>), HDF_SUCCESS)"
    using device_list_conf [OF assms(1,2,6,7,8)] assms(3)
    by (auto simp: host_infos_of_def Let_def split: option.splits hcs_item.splits if_splits prod.splits)
  moreover have "distinct (map di_deviceId (?load @ ?dyn))"
    using host_infos_ids(1) [OF assms(3-5)] by (auto simp: distinct_map inj_on_def)
  moreover have "\<forall>di \<in> set (?load @ ?dyn). HOSTID (di_deviceId di) = ucast (hc_hostId c)"
    using host_infos_ids(2) [OF assms(3-5)] by auto
  ultimately show ?thesis
    by (intro exI [of _ "c\<lparr>hc_unloadDevInfos := ?load, hc_dynamicDevInfos := ?dyn\<rparr>"]) simp
qed

text \<open>With memory for the records of the registry, the kernel's manager is willing.\<close>

lemma boot_loads_all:
  assumes "devsvc.host_at nenv al hasDevmgr objService h i [] c0 w0" "same_drivers w w0"
    and "install_loop env quick (Some h) dis w0 = Some (w1, left)" "installed quick dis {} S left"
    and "smooth env" "sa_record al" "sa_name al" "\<forall>di \<in> set dis. \<not> skipped quick di \<longrightarrow> driver_ready w di"
    and "\<And>di. di \<in> set dis \<Longrightarrow> HOSTID (di_deviceId di) = ucast i \<and> di_deviceId di \<noteq> 0" "distinct (map di_deviceId dis)"
  shows "S = di_deviceId ` {di \<in> set dis. \<not> skipped quick di}"
proof -
  obtain b where al: "al = \<lparr>sa_record = True, sa_name = True, sa_info = b\<rparr>" using assms(6,7) by (cases al) simp
  have "left = filter (skipped quick) dis"
    by (rule devsvc_willing.install_loop_willing [OF assms(1) [unfolded al] assms(5) _ assms(9,10) _ assms(3)])
      (use assms(8) same_drivers_ready [OF assms(2)] in \<open>simp_all add: held_def members_def\<close>)
  with assms(4) show ?thesis by (rule installed_all)
qed

text \<open>
  C1. From the configuration to the running host. Let the tree represent a configuration with at
  least one device to load for the host, fewer than 65536 devices for it and fewer than 255 valid nodes
  for each device, let the number of the host be below 256, and start the host in a world where the
  registry holds only live published nodes, the driver list refers to existing entries, clients have
  addresses of their own and no other host has this number. The memory for the
  host, its client, the tokens of its nodes and the descriptions that are read from the
  configuration is there; the other allocations and the functions of the drivers may fail.
  \<^verbatim>\<open>DevmgrServiceStartDeviceHost\<close> succeeds; the nodes of the new host are then nodes of enabled
  descriptions that are not put off to the second step, the list of devices to load consists of exactly
  the descriptions that have no node, still in the order of their priorities, the disabled descriptions are
  on the dynamic list, and the manager has one token for each node. When nothing fails (all allocations
  succeed, each of these descriptions has a service name and a driver on the list, and the drivers bind and initialise),
  every enabled description that is not put off has its node: all devices of the configuration are loaded.
\<close>

theorem host_boot_from_config:
  assumes conf: "conf_tree t conf" "manager_items conf = Some its" "host_infos_of its nm i = Some infos" "small_host its nm" "unat i < 256"
    and some: "\<exists>di \<in> set infos. di_preload di \<noteq> DEVICE_PRELOAD_DISABLE"
    and mgr: "c_svcmgr w = Some (Some (manager_ops nenv al hasDevmgr objService, m))" "mgr_ok m"
      "\<forall>r \<in> set (services m). \<exists>a n nm. svc_value r = Some a \<and> c_nodes w a = Some n \<and> nd_servStatus n \<and>
         nd_servName n = Some nm \<and> svc_key_of nm = svc_key r"
    and fresh_mem: "\<forall>x \<ge> c_next w. c_nodes w x = None \<and> c_tokens w x = None \<and> c_devices w x = None"
    and clnt: "distinct (map hc_addr (c_clients w))" "\<forall>c \<in> set (c_clients w). hc_addr c < c_next w \<and> hc_hostId c \<noteq> i"
    and drv: "set (c_driverList w) \<subseteq> dom (c_driverMem w)"
    and env: "\<forall>k. ce_token env k \<and> ce_host env k \<and> ce_hostClnt env k"
  shows "\<exists>w' c h hs. DevmgrServiceStartDeviceHost env t (\<lambda>_. True) quick \<lparr>hi_hostId = i, hi_priority = prio, hi_hostName = Some nm\<rparr> w =
      Some (w', HDF_SUCCESS) \<and>
    DevmgrServiceFindDeviceHost (ucast i) w' = Some c \<and> hc_hostService c = Some h \<and> c_hosts w' h = Some hs \<and>
    held (hs_devices hs) w' \<subseteq> di_deviceId ` {di \<in> set infos. \<not> skipped quick di} \<and>
    hc_unloadDevInfos c = filter (\<lambda>di. di_deviceId di \<notin> held (hs_devices hs) w')
      (sort_key di_priority (rev (filter (\<lambda>di. di_preload di \<noteq> DEVICE_PRELOAD_DISABLE) infos))) \<and>
    hc_dynamicDevInfos c = rev (filter (\<lambda>di. di_preload di = DEVICE_PRELOAD_DISABLE) infos) \<and>
    length (hc_devices c) = card (held (hs_devices hs) w') \<and>
    (smooth env \<and> sa_record al \<and> sa_name al \<and> (\<forall>di \<in> set infos. \<not> skipped quick di \<longrightarrow> driver_ready w di) \<longrightarrow>
       held (hs_devices hs) w' = di_deviceId ` {di \<in> set infos. \<not> skipped quick di})"
proof -
  let ?host = "\<lparr>hi_hostId = i, hi_priority = prio, hi_hostName = Some nm\<rparr>"
  let ?load = "sort_key di_priority (rev (filter (\<lambda>di. di_preload di \<noteq> DEVICE_PRELOAD_DISABLE) infos))"
  let ?dyn = "rev (filter (\<lambda>di. di_preload di = DEVICE_PRELOAD_DISABLE) infos)"
  let ?blank = "\<lparr>hc_addr = c_next w, hc_devices = [], hc_unloadDevInfos = [], hc_dynamicDevInfos = [],
    hc_hostService = None, hc_hostId = i, hc_hostPid = - 1, hc_hostName = Some nm, hc_stopFlag = False\<rparr>"
  let ?c = "?blank\<lparr>hc_unloadDevInfos := ?load, hc_dynamicDevInfos := ?dyn\<rparr>"
  let ?w1 = "fst (fresh (tick w))" let ?w2 = "?w1\<lparr>c_clients := c_clients w @ [?c]\<rparr>"
  have new: "DevHostServiceClntNewInstance env i (Some nm) w = (?w1, Some ?blank)"
    using env by (simp add: DevHostServiceClntNewInstance_def fresh_def tick_def)
  have list: "HdfAttributeManagerGetDeviceList t (\<lambda>_. True) (Some ?blank) = Some (Some ?c, HDF_SUCCESS)"
    using device_list_conf [OF conf(1,2), of ?blank nm] conf(3)
    by (auto simp: host_infos_of_def Let_def split: option.splits hcs_item.splits if_splits prod.splits)
  have "set ?load \<noteq> {}" using some by auto
  then have load: "?load \<noteq> []" by (metis list.set(1))
  note ids = host_infos_ids [OF conf(3-5)]
  have "devsvc.winv nenv al hasDevmgr objService w"
    using reg_rel_records [OF mgr] fresh_mem by (simp add: devsvc.winv_def)
  then have "devsvc.winv nenv al hasDevmgr objService (tick w)" by (simp only: devsvc.winv_simps)
  from devsvc.winv_fresh [OF this] have winv: "devsvc.winv nenv al hasDevmgr objService ?w2" by (simp add: devsvc.winv_simps)
  have cl: "distinct (map hc_addr (c_clients ?w2))" using clnt by auto
  have "client_of (ucast i) (c_clients w) = None" using clnt(2) by (auto simp: find_None_iff)
  then have cof: "client_of (ucast (hc_hostId ?c)) (c_clients ?w2) = Some ?c" by (simp add: find_append_None)
  have mem: "\<forall>x \<ge> c_next ?w2. c_nodes ?w2 x = None \<and> c_tokens ?w2 x = None \<and> c_devices ?w2 x = None"
    using fresh_mem by simp
  have drv2: "set (c_driverList ?w2) \<subseteq> dom (c_driverMem ?w2)" using drv by simp
  obtain w' h dvs c' where r: "DevmgrServiceStartHostProcess env quick (hc_addr ?c) False ?w2 = Some (w', HDF_SUCCESS)"
    "devsvc.host_at nenv al hasDevmgr objService h i dvs c' w'" "installed quick ?load {} (held dvs w') (hc_unloadDevInfos c')"
    "hc_hostService c' = Some h" "hc_dynamicDevInfos c' = ?dyn"
    "\<exists>w0 w1 c0. devsvc.host_at nenv al hasDevmgr objService h i [] c0 w0 \<and> same_drivers ?w2 w0 \<and>
       install_loop env quick (Some h) ?load w0 = Some (w1, hc_unloadDevInfos c')"
  proof -
    have "\<exists>w' h dvs c'. DevmgrServiceStartHostProcess env quick (hc_addr ?c) False ?w2 = Some (w', HDF_SUCCESS) \<and>
      devsvc.host_at nenv al hasDevmgr objService h (hc_hostId ?c) dvs c' w' \<and>
      installed quick (hc_unloadDevInfos ?c) {} (held dvs w') (hc_unloadDevInfos c') \<and>
      hc_hostService c' = Some h \<and> hc_dynamicDevInfos c' = hc_dynamicDevInfos ?c \<and>
      (\<exists>w0 w1 c0. devsvc.host_at nenv al hasDevmgr objService h (hc_hostId ?c) [] c0 w0 \<and> same_drivers ?w2 w0 \<and>
       install_loop env quick (Some h) (hc_unloadDevInfos ?c) w0 = Some (w1, hc_unloadDevInfos c'))"
      by (rule devsvc.StartProcess_ok [OF winv mem cl drv2 cof]) (use env ids in \<open>auto simp: distinct_map inj_on_def\<close>)
    then show thesis by (elim exE conjE, intro that) (simp_all, blast)
  qed
  obtain hs where hs: "c_hosts w' h = Some hs" "hs_devices hs = dvs" using devsvc.host_at_host [OF r(2)] by blast
  have "DevmgrServiceStartDeviceHost env t (\<lambda>_. True) quick ?host w = Some (w', HDF_SUCCESS)"
    using new list load r(1) by (simp add: DevmgrServiceStartDeviceHost_def)
  moreover have "held dvs w' \<subseteq> di_deviceId ` {di \<in> set infos. \<not> skipped quick di}"
    "hc_unloadDevInfos c' = filter (\<lambda>di. di_deviceId di \<notin> held dvs w') ?load"
    using r(3) by (auto simp: installed_def)
  moreover have "DevmgrServiceFindDeviceHost (ucast i) w' = Some c'"
    using devsvc.host_atD(9) [OF r(2)] by (simp add: DevmgrServiceFindDeviceHost_def)
  moreover have "held dvs w' = di_deviceId ` {di \<in> set infos. \<not> skipped quick di}"
    if "smooth env" "sa_record al" "sa_name al" "\<forall>di \<in> set infos. \<not> skipped quick di \<longrightarrow> driver_ready w di"
  proof -
    obtain w0 w1 c0 where l: "devsvc.host_at nenv al hasDevmgr objService h i [] c0 w0" "same_drivers ?w2 w0"
      "install_loop env quick (Some h) ?load w0 = Some (w1, hc_unloadDevInfos c')" using r(6) by blast
    have "held dvs w' = di_deviceId ` {di \<in> set ?load. \<not> skipped quick di}"
      by (rule boot_loads_all [OF l(1) _ l(3) r(3) that(1-3)])
        (use l(2) that(4) ids in \<open>auto simp: same_drivers_def distinct_map inj_on_def\<close>)
    also have "{di \<in> set ?load. \<not> skipped quick di} = {di \<in> set infos. \<not> skipped quick di}" by (auto simp: skipped_def)
    finally show ?thesis .
  qed
  ultimately show ?thesis using hs r(4,5) devsvc.host_at_tokens(3) [OF r(2)] by auto
qed

lemma conf_sample_host_b:
  "small_host conf_sample_hosts ''b''"
  "\<exists>infos. host_infos_of conf_sample_hosts ''b'' 1 = Some infos \<and> map di_svcName infos = [Some ''s'', Some ''t'', Some ''u''] \<and>
     map di_preload infos = [0, 2, 1] \<and> map di_deviceId infos = [0x1000101, 0x1000102, 0x1000103] \<and>
     map di_moduleName infos = [Some ''m'', Some ''m'', Some ''m'']"
proof -
  obtain s as where h: "find (host_named ''b'') (filter is_node conf_sample_hosts) = Some (HNode s (as @ conf_sample_devs))"
    "filter is_node as = []" using conf_sample_host by blast
  have none: "valid_nodes x = 0" if "x \<in> set as" for x
    using h(2) that by (cases x) (auto simp: filter_empty_conv)
  have "length (filter is_node conf_sample_devs) < 65536"
    using length_filter_le [of is_node conf_sample_devs] by (simp add: conf_sample_devs_def)
  moreover have "\<forall>x \<in> set conf_sample_devs. valid_nodes x < 255" by code_simp
  ultimately show "small_host conf_sample_hosts ''b''" using h none by (auto simp: small_host_def)
  have "host_devices 1 1 (as @ conf_sample_devs) = host_devices 1 1 conf_sample_devs"
    using host_devices_nodes [of 1 1 "as @ conf_sample_devs"] host_devices_nodes [of 1 1 conf_sample_devs] h(2) by simp
  moreover have "snd (host_devices 1 1 conf_sample_devs) \<and>
      map di_svcName (fst (host_devices 1 1 conf_sample_devs)) = [Some ''s'', Some ''t'', Some ''u''] \<and>
      map di_preload (fst (host_devices 1 1 conf_sample_devs)) = [0, 2, 1] \<and>
      map di_deviceId (fst (host_devices 1 1 conf_sample_devs)) = [0x1000101, 0x1000102, 0x1000103] \<and>
      map di_moduleName (fst (host_devices 1 1 conf_sample_devs)) = [Some ''m'', Some ''m'', Some ''m'']" by code_simp
  ultimately show "\<exists>infos. host_infos_of conf_sample_hosts ''b'' 1 = Some infos \<and> map di_svcName infos = [Some ''s'', Some ''t'', Some ''u''] \<and>
     map di_preload infos = [0, 2, 1] \<and> map di_deviceId infos = [0x1000101, 0x1000102, 0x1000103] \<and>
     map di_moduleName infos = [Some ''m'', Some ''m'', Some ''m'']"
    using h(1) by (simp add: host_infos_of_def case_prod_unfold)
qed

theorem configured_ids_distinct_witness:
  "\<exists>t c'. HdfAttributeManagerGetDeviceList t (\<lambda>_. True)
       (Some \<lparr>hc_addr = 0, hc_devices = [], hc_unloadDevInfos = [], hc_dynamicDevInfos = [], hc_hostService = None,
              hc_hostId = 1, hc_hostPid = - 1, hc_hostName = Some ''b'', hc_stopFlag = False\<rparr>) = Some (Some c', HDF_SUCCESS) \<and>
     distinct (map di_deviceId (hc_unloadDevInfos c' @ hc_dynamicDevInfos c'))"
proof -
  let ?c = "\<lparr>hc_addr = 0, hc_devices = [], hc_unloadDevInfos = [], hc_dynamicDevInfos = [], hc_hostService = None,
    hc_hostId = 1, hc_hostPid = - 1, hc_hostName = Some ''b'', hc_stopFlag = False\<rparr>"
  obtain t where t: "conf_tree t conf_sample" using conf_sample_tree ..
  obtain infos where i: "host_infos_of conf_sample_hosts ''b'' (hc_hostId ?c) = Some infos"
    using conf_sample_host_b(2) by auto
  show ?thesis
    using configured_ids_distinct [OF t conf_sample_ok(3) i conf_sample_host_b(1)] by (intro exI [of _ t]) auto
qed

text \<open>A world with one driver, and an environment in which nothing fails.\<close>

definition boot_env :: "nat core_env" where
  "boot_env = calm_env\<lparr>ce_bind := \<lambda>_ _ _. (HDF_SUCCESS, Some 7, 5)\<rparr>"

definition boot_world :: "(nat DevSvcManager, nat) hdf_core" where
  "boot_world = one_world\<lparr>c_driverMem := [1 \<mapsto> one_driver\<lparr>ent_moduleName := Some ''m''\<rparr>]\<rparr>"

lemma boot_smooth: "smooth boot_env"
  by (simp add: smooth_def boot_env_def calm_env_def)

lemma boot_ready: "di_svcName di = Some [ch] \<Longrightarrow> di_moduleName di = Some ''m'' \<Longrightarrow> driver_ready boot_world di"
  by (simp add: driver_ready_def boot_world_def one_world_def one_driver_def)

theorem host_boot_from_config_witness:
  "\<exists>t w' c h hs. conf_tree t conf_sample \<and>
     DevmgrServiceStartDeviceHost boot_env t (\<lambda>_. True) 1 \<lparr>hi_hostId = 1, hi_priority = 50, hi_hostName = Some ''b''\<rparr> boot_world =
       Some (w', HDF_SUCCESS) \<and>
     DevmgrServiceFindDeviceHost 1 w' = Some c \<and> hc_hostService c = Some h \<and> c_hosts w' h = Some hs \<and>
     held (hs_devices hs) w' = {0x1000101} \<and> length (hc_devices c) = 1 \<and>
     map di_svcName (hc_unloadDevInfos c) = [Some ''u''] \<and> map di_svcName (hc_dynamicDevInfos c) = [Some ''t'']"
proof -
  obtain t where t: "conf_tree t conf_sample" using conf_sample_tree ..
  obtain infos where i: "host_infos_of conf_sample_hosts ''b'' 1 = Some infos" "map di_svcName infos = [Some ''s'', Some ''t'', Some ''u'']"
    "map di_preload infos = [0, 2, 1]" "map di_deviceId infos = [0x1000101, 0x1000102, 0x1000103]"
    "map di_moduleName infos = [Some ''m'', Some ''m'', Some ''m'']"
    using conf_sample_host_b(2) by (elim exE conjE) (rule that)
  then obtain x y z where xyz: "infos = [x, y, z]" "di_preload x = 0" "di_preload y = 2" "di_preload z = 1" "di_svcName y = Some ''t''"
    "di_svcName x = Some ''s''" "di_svcName z = Some ''u''" "di_moduleName x = Some ''m''"
    "di_deviceId x = 0x1000101" "di_deviceId y = 0x1000102" "di_deviceId z = 0x1000103"
    by auto
  let ?m = "\<lparr>services = [], svcstatListeners = [], g_holderList = [], holder_mem = Map.empty, events = []\<rparr> :: nat DevSvcManager"
  let ?al = "\<lparr>sa_record = True, sa_name = True, sa_info = True\<rparr>"
  have w: "c_svcmgr boot_world = Some (Some (calm_ops, ?m))" "mgr_ok ?m"
    "\<forall>x \<ge> c_next boot_world. c_nodes boot_world x = None \<and> c_tokens boot_world x = None \<and> c_devices boot_world x = None"
    "distinct (map hc_addr (c_clients boot_world))" "\<forall>c \<in> set (c_clients boot_world). hc_addr c < c_next boot_world \<and> hc_hostId c \<noteq> 1"
    "set (c_driverList boot_world) \<subseteq> dom (c_driverMem boot_world)"
    "\<forall>k. ce_token boot_env k \<and> ce_host boot_env k \<and> ce_hostClnt boot_env k"
    by (simp_all add: boot_world_def one_world_def mgr_ok_def services_ok_def holders_ok_def boot_env_def calm_env_def)
  have some: "\<exists>di \<in> set infos. di_preload di \<noteq> DEVICE_PRELOAD_DISABLE" using xyz by simp
  have one: "unat (1 :: u16) < 256" by simp
  have recs: "\<forall>r \<in> set (services ?m). \<exists>a n nm. svc_value r = Some a \<and> c_nodes boot_world a = Some n \<and> nd_servStatus n \<and>
      nd_servName n = Some nm \<and> svc_key_of nm = svc_key r" by simp
  have skip: "skipped 1 x = False" "skipped 1 y" "skipped 1 z" using xyz by (simp_all add: skipped_def)
  have all: "smooth boot_env \<and> sa_record ?al \<and> sa_name ?al \<and> (\<forall>di \<in> set infos. \<not> skipped 1 di \<longrightarrow> driver_ready boot_world di)"
    using boot_smooth boot_ready [OF xyz(6,8)] skip xyz(1) by simp
  have ids: "di_deviceId ` {di \<in> set infos. \<not> skipped 1 di} = {0x1000101}"
    using skip xyz(1,9) by auto
  note boot = host_boot_from_config [OF t conf_sample_ok(3) i(1) conf_sample_host_b(1) one some w(1) [unfolded calm_ops_def] w(2) recs w(3-7),
      of 1 50]
  then obtain w' c h hs where b: "DevmgrServiceStartDeviceHost boot_env t (\<lambda>_. True) 1 \<lparr>hi_hostId = 1, hi_priority = 50, hi_hostName = Some ''b''\<rparr> boot_world =
       Some (w', HDF_SUCCESS)" "DevmgrServiceFindDeviceHost (ucast (1 :: u16)) w' = Some c" "hc_hostService c = Some h"
    "c_hosts w' h = Some hs" "held (hs_devices hs) w' = {0x1000101}"
    "hc_unloadDevInfos c = filter (\<lambda>di. di_deviceId di \<notin> held (hs_devices hs) w')
      (sort_key di_priority (rev (filter (\<lambda>di. di_preload di \<noteq> DEVICE_PRELOAD_DISABLE) infos)))"
    "hc_dynamicDevInfos c = rev (filter (\<lambda>di. di_preload di = DEVICE_PRELOAD_DISABLE) infos)"
    "length (hc_devices c) = card (held (hs_devices hs) w')"
    apply (elim exE conjE)
    subgoal premises p for w' c h hs
      by (rule p(1) [OF p(2-5) _ p(7-9)]) (rule mp [OF p(10) all, unfolded ids])
    done
  have "filter (\<lambda>di. di_deviceId di \<notin> {0x1000101}) (sort_key di_priority (rev (filter (\<lambda>di. di_preload di \<noteq> DEVICE_PRELOAD_DISABLE) infos))) = [z]"
    using xyz by (simp add: filter_sort)
  then have "map di_svcName (hc_unloadDevInfos c) = [Some ''u'']" using b(5,6) xyz(7) by simp
  moreover have "map di_svcName (hc_dynamicDevInfos c) = [Some ''t'']" "DevmgrServiceFindDeviceHost 1 w' = Some c" "length (hc_devices c) = 1"
    using b(2,5,7,8) xyz by simp_all
  ultimately show ?thesis using t b(1,3-5)
    by (intro exI [of _ t] exI [of _ w'] exI [of _ c] exI [of _ h] exI [of _ hs] conjI)
qed

end
