(* ===== verification/Registry_Dangling.thy ===== *)
theory Registry_Dangling
  imports Host_Refinement
begin

text \<open>
  What happens when a driver calls \<^verbatim>\<open>HdfDeviceObjectUpdate\<close> (core/host/src/hdf_device_object.c) for
  an object that is not published: the node of a device that the host loaded gets into the registry and stays
  there after the device is removed.
\<close>

section \<open>Removing an unpublished node does not look at the registry\<close>

lemma Find_svcmgr [simp]:
  "DevHostServiceFindDevice h d (w\<lparr>c_svcmgr := m\<rparr>) = DevHostServiceFindDevice h d w"
  "HdfDeviceGetDeviceNode dv d (w\<lparr>c_svcmgr := m\<rparr>) = HdfDeviceGetDeviceNode dv d w"
  by (simp_all add: DevHostServiceFindDevice_def HdfDeviceGetDeviceNode_def split: option.split)

lemma put_svcmgr:
  "put_node a n (w\<lparr>c_svcmgr := m\<rparr>) = (put_node a n w)\<lparr>c_svcmgr := m\<rparr>"
  "set_device dv v (w\<lparr>c_svcmgr := m\<rparr>) = (set_device dv v w)\<lparr>c_svcmgr := m\<rparr>"
  "set_token t x (w\<lparr>c_svcmgr := m\<rparr>) = (set_token t x w)\<lparr>c_svcmgr := m\<rparr>"
  "set_host h hs (w\<lparr>c_svcmgr := m\<rparr>) = (set_host h hs w)\<lparr>c_svcmgr := m\<rparr>"
  "log_call c a (w\<lparr>c_svcmgr := m\<rparr>) = (log_call c a w)\<lparr>c_svcmgr := m\<rparr>"
  by (simp_all add: put_node_def set_device_def set_token_def set_host_def log_call_def)

lemma DetachDevice_svcmgr:
  assumes "DevmgrServiceClntDetachDevice devid w = Some (w', r)"
  shows "DevmgrServiceClntDetachDevice devid (w\<lparr>c_svcmgr := m\<rparr>) = Some (w'\<lparr>c_svcmgr := m\<rparr>, r)" "c_nodes w' = c_nodes w"
proof -
  show "c_nodes w' = c_nodes w"
    using assms by (auto simp: DevmgrServiceClntDetachDevice_def DevmgrServiceDetachDevice_def do_simps split: option.splits)
  show "DevmgrServiceClntDetachDevice devid (w\<lparr>c_svcmgr := m\<rparr>) = Some (w'\<lparr>c_svcmgr := m\<rparr>, r)"
  proof (cases "client_of (HOSTID devid) (c_clients w)")
    case None
    then show ?thesis
      using assms by (simp add: DevmgrServiceClntDetachDevice_def DevmgrServiceDetachDevice_def DevmgrServiceFindDeviceHost_def)
  next
    case (Some c)
    then obtain t where "token_search (c_tokens w) devid (hc_devices c) = Some t"
      using assms by (auto simp: DevmgrServiceClntDetachDevice_def DevmgrServiceDetachDevice_def DevmgrServiceFindDeviceHost_def do_simps)
    then show ?thesis
      using assms Some
      by (cases t) (auto simp: DevmgrServiceClntDetachDevice_def DevmgrServiceDetachDevice_def DevmgrServiceFindDeviceHost_def)
  qed
qed

lemma Unlaunch_svcmgr:
  assumes "c_nodes w a = Some n" "\<not> nd_servStatus n" "HdfDeviceUnlaunchNode a w = Some w'"
  shows "HdfDeviceUnlaunchNode a (w\<lparr>c_svcmgr := m\<rparr>) = Some (w'\<lparr>c_svcmgr := m\<rparr>) \<and> (\<exists>n'. c_nodes w' a = Some n' \<and> \<not> nd_servStatus n')"
proof (cases "nd_devStatus n = DEVNODE_LAUNCHED")
  case False
  then show ?thesis using assms by (auto simp: HdfDeviceUnlaunchNode_def)
next
  case True
  obtain release where rel: "(case nd_driver n of None \<Rightarrow> Some False | Some d \<Rightarrow> map_option ent_Release (c_driverMem w d)) = Some release"
    using assms True by (auto simp: HdfDeviceUnlaunchNode_def do_simps)
  let ?w1 = "if release then log_call CallRelease a w else w"
  obtain w3 r' where d: "DevmgrServiceClntDetachDevice (nd_devId n) ?w1 = Some (w3, r')"
    using assms True rel by (auto simp: HdfDeviceUnlaunchNode_def do_simps)
  have n3: "c_nodes w3 a = Some n" using DetachDevice_svcmgr(2) [OF d] assms(1) by simp
  have w': "w' = put_node a (Some (n\<lparr>nd_driver := None, nd_devStatus := DEVNODE_INITED\<rparr>)) w3"
    using assms True rel d n3 by (simp add: HdfDeviceUnlaunchNode_def HdfDriverLoaderReclaimDriver_def Let_def)
  have "(if release then log_call CallRelease a (w\<lparr>c_svcmgr := m\<rparr>) else w\<lparr>c_svcmgr := m\<rparr>) = ?w1\<lparr>c_svcmgr := m\<rparr>"
    by (simp add: put_svcmgr)
  then show ?thesis
    using assms(1,2) True rel n3 DetachDevice_svcmgr(1) [OF d, of m]
    by (cases "nd_driver n"; cases release) (auto simp: HdfDeviceUnlaunchNode_def HdfDriverLoaderReclaimDriver_def Let_def w' put_svcmgr)
qed

lemma Detach_svcmgr:
  assumes "c_nodes w a = Some n" "\<not> nd_servStatus n" "HdfDeviceDetach (Some dv) (Some a) w = Some (w', HDF_SUCCESS)"
  shows "HdfDeviceDetach (Some dv) (Some a) (w\<lparr>c_svcmgr := m\<rparr>) = Some (w'\<lparr>c_svcmgr := m\<rparr>, HDF_SUCCESS) \<and>
    (\<exists>n'. c_nodes w' a = Some n' \<and> \<not> nd_servStatus n')"
proof -
  obtain v where v: "c_devices w dv = Some v" "DEVICEID (dv_deviceId v) = DEVICEID (nd_devId n)"
    using assms(1,3) by (auto simp: HdfDeviceDetach_def do_simps split: if_splits)
  let ?w1 = "if nd_linked n then put_node a (Some (n\<lparr>nd_linked := False\<rparr>)) (set_device dv (Some (v\<lparr>dv_devNodes := remove1 a (dv_devNodes v)\<rparr>)) w) else w"
  have u: "HdfDeviceUnlaunchNode a ?w1 = Some w'"
    using assms(1,3) v by (auto simp: HdfDeviceDetach_def do_simps)
  have n1: "\<exists>n1. c_nodes ?w1 a = Some n1 \<and> \<not> nd_servStatus n1" using assms(1,2) by auto
  then obtain n1 where "c_nodes ?w1 a = Some n1" "\<not> nd_servStatus n1" by blast
  from Unlaunch_svcmgr [OF this u] show ?thesis
    using assms(1) v by (cases "nd_linked n") (auto simp: HdfDeviceDetach_def put_svcmgr)
qed

lemma Free_svcmgr:
  assumes "c_nodes w a = Some n" "\<not> nd_servStatus n" "HdfDeviceNodeFreeInstance a w = Some w'"
  shows "HdfDeviceNodeFreeInstance a (w\<lparr>c_svcmgr := m\<rparr>) = Some (w'\<lparr>c_svcmgr := m\<rparr>) \<and> c_nodes w' a = None"
proof -
  define n1 where "n1 = (if nd_policy n = 2 then n\<lparr>nd_ioService := False\<rparr> else n)"
  let ?w1 = "if nd_policy n = 2 then put_node a (Some n1) w else w"
  have n1: "c_nodes ?w1 a = Some n1" "\<not> nd_servStatus n1" using assms(1,2) by (simp_all add: n1_def)
  have rm: "DeviceNodeExtRemoveService a w = Some (?w1, HDF_SUCCESS)"
    "DeviceNodeExtRemoveService a (w\<lparr>c_svcmgr := m\<rparr>) = Some (?w1\<lparr>c_svcmgr := m\<rparr>, HDF_SUCCESS)"
    using assms(1) n1 by (auto simp: DeviceNodeExtRemoveService_def HdfDeviceNodeRemoveService_def n1_def put_svcmgr)
  obtain w2 where w2: "HdfDeviceNodeDestruct a ?w1 = Some w2" "w' = put_node a None w2"
    using assms(3) rm(1) by (auto simp: HdfDeviceNodeFreeInstance_def DeviceNodeExtRelease_def do_simps)
  have "HdfDeviceNodeDestruct a (?w1\<lparr>c_svcmgr := m\<rparr>) = Some (w2\<lparr>c_svcmgr := m\<rparr>)"
  proof (cases "nd_devStatus n1 = DEVNODE_LAUNCHED")
    case True
    obtain w3 where w3: "HdfDeviceUnlaunchNode a ?w1 = Some w3" using w2(1) n1(1) True by (auto simp: HdfDeviceNodeDestruct_def do_simps)
    from Unlaunch_svcmgr [OF n1 w3, of m] obtain n3 where
      "HdfDeviceUnlaunchNode a (?w1\<lparr>c_svcmgr := m\<rparr>) = Some (w3\<lparr>c_svcmgr := m\<rparr>)" "c_nodes w3 a = Some n3" by blast
    then show ?thesis
      using w2(1) n1(1) True w3 by (cases "nd_token n3") (simp_all add: HdfDeviceNodeDestruct_def put_svcmgr Let_def)
  next
    case False
    then show ?thesis
      using w2(1) n1(1) by (cases "nd_token n1"; cases "nd_devStatus n1") (auto simp: HdfDeviceNodeDestruct_def put_svcmgr Let_def)
  qed
  then show ?thesis
    using rm(2) w2(2) by (simp add: HdfDeviceNodeFreeInstance_def DeviceNodeExtRelease_def put_svcmgr)
qed

lemma DelDevice_svcmgr:
  assumes "DevHostServiceFindDevice (Some h) (DEVICEID devid) w = Some (Some dv)" "HdfDeviceGetDeviceNode dv devid w = Some (Some a)"
    and "c_nodes w a = Some n" "\<not> nd_servStatus n" "DevHostServiceDelDevice (Some h) devid w = Some (w', HDF_SUCCESS)"
  shows "DevHostServiceDelDevice (Some h) devid (w\<lparr>c_svcmgr := m\<rparr>) = Some (w'\<lparr>c_svcmgr := m\<rparr>, HDF_SUCCESS) \<and> c_nodes w' a = None"
proof -
  obtain w1 ret where w1: "HdfDeviceDetach (Some dv) (Some a) w = Some (w1, ret)"
    using assms(1,2,5) by (auto simp: DevHostServiceDelDevice_def do_simps)
  have ret: "ret = HDF_SUCCESS"
    using assms(1,2,5) w1 by (cases "ret = HDF_SUCCESS") (simp_all add: DevHostServiceDelDevice_def)
  note det = Detach_svcmgr [OF assms(3,4) w1 [unfolded ret], of m]
  then obtain n1 where n1: "c_nodes w1 a = Some n1" "\<not> nd_servStatus n1" by blast
  obtain w2 v where w2: "HdfDeviceNodeFreeInstance a w1 = Some w2" "c_devices w2 dv = Some v"
    "(if dv_devNodes v = [] then DevHostServiceFreeDevice h (Some dv) w2 else Some w2) = Some w'"
    using assms(1,2,5) w1 ret by (auto simp: DevHostServiceDelDevice_def do_simps)
  note free = Free_svcmgr [OF n1 w2(1), of m]
  have last: "(if dv_devNodes v = [] then DevHostServiceFreeDevice h (Some dv) (w2\<lparr>c_svcmgr := m\<rparr>) else Some (w2\<lparr>c_svcmgr := m\<rparr>)) =
      Some (w'\<lparr>c_svcmgr := m\<rparr>) \<and> c_nodes w' = c_nodes w2"
    using w2(2,3) by (cases "dv_devNodes v = []") (auto simp: DevHostServiceFreeDevice_def HdfDeviceRelease_def do_simps put_svcmgr)
  then show ?thesis
    using assms(1,2) det free w2(2) by (simp add: DevHostServiceDelDevice_def)
qed

section \<open>Setting the information string of a node of a host\<close>

lemma node_info_cong:
  assumes "nodes a = Some n"
  shows "nid (nodes(a \<mapsto> n\<lparr>nd_servInfo := x\<rparr>)) = nid nodes" "ntok (nodes(a \<mapsto> n\<lparr>nd_servInfo := x\<rparr>)) = ntok nodes"
    "node_fits i k (nodes(a \<mapsto> n\<lparr>nd_servInfo := x\<rparr>)) toks drv = node_fits i k nodes toks drv"
  using assms by (auto simp: nid_def ntok_def node_fits_def fun_eq_iff)

context service_registry
begin

lemma host_at_info:
  assumes ok: "host_at h i dvs c w" and n: "c_nodes w a = Some n"
  shows "host_at h i dvs c (put_node a (Some (n\<lparr>nd_servInfo := x\<rparr>)) (tick w))"
    "held dvs (put_node a (Some (n\<lparr>nd_servInfo := x\<rparr>)) (tick w)) = held dvs w"
proof -
  note H = host_atD [OF ok]
  have "winv (put_node a (Some (n\<lparr>nd_servInfo := x\<rparr>)) (tick w))"
    by (rule winv_put_node [of _ _ n]) (use H(1) n in simp_all)
  then show "host_at h i dvs c (put_node a (Some (n\<lparr>nd_servInfo := x\<rparr>)) (tick w))"
    using H node_info_cong [of "c_nodes w" a n, OF n] by (simp add: host_at_def host_view_def)
  show "held dvs (put_node a (Some (n\<lparr>nd_servInfo := x\<rparr>)) (tick w)) = held dvs w"
    using node_info_cong [of "c_nodes w" a n, OF n] by (simp add: held_def)
qed

text \<open>The search that the removal of a device makes finds the node with the identifier.\<close>

lemma Del_finds:
  assumes ok: "host_at h i dvs c w" and a: "dv \<in> set dvs" "c_devices w dv = Some v" "a \<in> set (dv_devNodes v)" "c_nodes w a = Some n"
  obtains dv' w' where "DevHostServiceFindDevice (Some h) (DEVICEID (nd_devId n)) w = Some (Some dv')"
    "HdfDeviceGetDeviceNode dv' (nd_devId n) w = Some (Some a)" "DevHostServiceDelDevice (Some h) (nd_devId n) w = Some (w', HDF_SUCCESS)"
proof -
  note H = host_atD [OF ok]
  have am: "a \<in> members dvs (c_devices w)" unfolding members_iff using a by (intro bexI [of _ dv]) simp_all
  have nid: "nid (c_nodes w) a = nd_devId n" using a(4) by (simp add: nid_def)
  have in_held: "nd_devId n \<in> held dvs w" using am nid by (force simp: held_def)
  have host: "HOSTID (nd_devId n) = ucast i" using hv_fits [OF H(10) am] a(4) by (auto simp: node_fits_def)
  obtain w' where del: "DevHostServiceDelDevice (Some h) (nd_devId n) w = Some (w', HDF_SUCCESS)"
    by (rule DelDevice_ok [OF ok host]) (use in_held that in auto)
  show thesis
  proof (rule FindDevice_ok [OF ok, of "nd_devId n"])
    fix dv' assume f: "DevHostServiceFindDevice (Some h) (DEVICEID (nd_devId n)) w = Some (Some dv')" "dv' \<in> set dvs"
      "devnum (c_devices w) dv' = DEVICEID (nd_devId n)"
    show thesis
    proof (rule GetDeviceNode_ok [OF ok f(2,3)])
      fix b assume b: "HdfDeviceGetDeviceNode dv' (nd_devId n) w = Some (Some b)" "b \<in> set (dv_devNodes (the (c_devices w dv')))"
        "nid (c_nodes w) b = nd_devId n"
      have "b \<in> members dvs (c_devices w)" using f(2) b(2) by (auto simp: members_iff)
      then have "b = a" using inj_onD [OF hvD(4) [OF H(10)]] am b(3) nid by simp
      then show thesis using that [OF f(1) _ del] b(1) by simp
    qed (use in_held in simp)
  qed (use in_held in simp)
qed

end

section \<open>The dangling entry\<close>

lemma update_registers:
  assumes "mgr_ok m" "svc_view m (svc_key_of nm) \<noteq> None" "length s < SECUREC_STRING_MAX_LEN"
  shows "\<exists>m'. DevSvcManagerUpdateService nenv True (Some m) (Some nm) cls (Some a) (Some s) = Some (Some m', HDF_SUCCESS) \<and>
    svc_view m' (svc_key_of nm) = Some a"
proof -
  obtain r where r: "find_key (svc_key_of nm) (services m) = Some r"
    using assms(2) by (cases "find_key (svc_key_of nm) (services m)") (simp_all add: svc_view_def)
  from assms(1) show ?thesis
  proof (cases rule: UpdateService_effect [of m nm True "Some s" nenv cls a])
    case (updated r' j m')
    then show ?thesis
      using manager_update [OF assms(1), of nenv True "Some nm" cls a "Some s"] by auto
  next
    case (refused ret)
    then show ?thesis using r HdfStringCopy_ok [OF assms(3)] by simp
  qed
qed

text \<open>
  C40. Why only published services may be updated. A host that loaded and removed devices in any way
  (the run of C3) has a node that is not published, for example because its description has the
  policy that publishes nothing, and its service name is registered by another node. If its
  driver sets an information string and calls \<^verbatim>\<open>HdfDeviceObjectUpdate\<close>, both calls succeed,
  because the status of the object is not looked at: the registry then gives out this node under the name.
  When the device is removed, the node is freed but the entry stays, because the removal only looks at the
  status: from then on the registry answers a client that asks for the name with a freed node.
\<close>

theorem unpublished_update_dangles:
  fixes w :: "(nat DevSvcManager, 's) hdf_core"
  assumes mgr: "c_svcmgr w = Some (Some (manager_ops nenv al hasDevmgr objService, m))" "mgr_ok m" "services m = []"
    and host: "c_hosts w h = Some hs" "hs_devices hs = []"
    and clnt: "DevmgrServiceFindDeviceHost (ucast (hs_hostId hs)) w = Some c" "hc_devices c = []" "distinct (map hc_addr (c_clients w))"
    and drv: "set (c_driverList w) \<subseteq> dom (c_driverMem w)"
    and fresh_mem: "\<forall>x \<ge> c_next w. c_nodes w x = None \<and> c_tokens w x = None \<and> c_devices w x = None"
    and tok: "\<forall>k. ce_token env k"
    and ids: "\<forall>x \<in> set cs. HOSTID (call_devid x) = ucast (hs_hostId hs) \<and> call_devid x \<noteq> 0"
    and run: "host_run env h cs w = Some (w1, rs)"
    and dev: "c_hosts w1 h = Some hs1" "dv \<in> set (hs_devices hs1)" "c_devices w1 dv = Some v" "a \<in> set (dv_devNodes v)"
    and node: "c_nodes w1 a = Some n" "\<not> nd_servStatus n" "nd_deviceClass n < 0x100" "nd_servName n = Some nm"
    and taken: "DevSvcManagerClntGetDeviceObject (c_svcmgr w1) (Some nm) = Some b"
    and info: "length s \<le> 128" "ce_string env (c_ticks w1)" "sa_info al"
  shows "\<exists>w2 w3 w4. HdfDeviceObjectSetServInfo env (Some a) (Some s) w1 = Some (w2, HDF_SUCCESS) \<and>
    HdfDeviceObjectUpdate (Some a) w2 = Some (w3, HDF_SUCCESS) \<and>
    DevSvcManagerClntGetDeviceObject (c_svcmgr w3) (Some nm) = Some a \<and>
    DevHostServiceDelDevice (Some h) (nd_devId n) w3 = Some (w4, HDF_SUCCESS) \<and>
    c_nodes w4 a = None \<and> DevSvcManagerClntGetDeviceObject (c_svcmgr w4) (Some nm) = Some a"
proof -
  let ?i = "hs_hostId hs" and ?ops = "manager_ops nenv al hasDevmgr objService"
  have hv: "host_view ?i [] (c_devices w) (c_nodes w) (c_tokens w) (dom (c_driverMem w)) []"
    by (rule host_viewI) (simp_all add: members_def)
  have "devsvc.reg_rel nenv al hasDevmgr objService (c_svcmgr w) (c_nodes w)"
    using mgr by (simp add: devsvc.reg_rel_def devsvc.clnt_ok_def svc_view_empty)
  then have "devsvc.host_at nenv al hasDevmgr objService h ?i [] c w"
    using host clnt drv fresh_mem hv by (simp add: devsvc.host_at_def devsvc.winv_def host_ids_def DevmgrServiceFindDeviceHost_def)
  from devsvc.host_run_ok [OF this, of env cs] tok ids run
  obtain dvs c1 where ok: "devsvc.host_at nenv al hasDevmgr objService h ?i dvs c1 w1" by auto
  have dvs: "hs_devices hs1 = dvs" using devsvc.host_at_host [OF ok] dev(1) by auto
  obtain m1 where m1: "c_svcmgr w1 = Some (Some (?ops, m1))" "mgr_ok m1"
    using devsvc.reg_rel_ok [OF devsvc.host_atD(2) [OF ok]] by (auto simp: devsvc.clnt_ok_def)
  let ?n = "n\<lparr>nd_servInfo := Some s\<rparr>" and ?w2 = "put_node a (Some (n\<lparr>nd_servInfo := Some s\<rparr>)) (tick w1)"
  have small: "length s < SECUREC_STRING_MAX_LEN" using info(1) by simp
  have w2: "HdfDeviceObjectSetServInfo env (Some a) (Some s) w1 = Some (?w2, HDF_SUCCESS)"
    using info node(1) HdfStringCopy_ok [OF small] by (simp add: HdfDeviceObjectSetServInfo_def Let_def)
  obtain m2 where m2: "DevSvcManagerUpdateService nenv True (Some m1) (Some nm) (nd_deviceClass n) (Some a) (Some s) = Some (Some m2, HDF_SUCCESS)"
    "svc_view m2 (svc_key_of nm) = Some a"
    using update_registers [OF m1(2) _ small, of nm nenv "nd_deviceClass n" a] taken m1(1) by (auto simp: GetDeviceObject_view)
  have clnt_update: "DevSvcManagerClntUpdateService (Some (Some (?ops, m1))) (Some nm) (nd_deviceClass n) (Some a) (Some s) =
      Some (Some (Some (?ops, m2)), HDF_SUCCESS)"
    using node(3) m2(1) info(3) by (simp add: not_le DevSvcManagerClntUpdateService_def manager_ops_def clnt_state_def)
  let ?w3 = "?w2\<lparr>c_svcmgr := Some (Some (?ops, m2))\<rparr>"
  have w3: "HdfDeviceObjectUpdate (Some a) ?w2 = Some (?w3, HDF_SUCCESS)"
    using node m1(1) clnt_update by (simp add: HdfDeviceObjectUpdate_def)
  have ok2: "devsvc.host_at nenv al hasDevmgr objService h ?i dvs c1 ?w2" by (rule devsvc.host_at_info(1) [OF ok node(1)])
  obtain dv' w' where del: "DevHostServiceFindDevice (Some h) (DEVICEID (nd_devId n)) ?w2 = Some (Some dv')"
    "HdfDeviceGetDeviceNode dv' (nd_devId n) ?w2 = Some (Some a)" "DevHostServiceDelDevice (Some h) (nd_devId n) ?w2 = Some (w', HDF_SUCCESS)"
    by (rule devsvc.Del_finds [OF ok2, of dv v a ?n]) (use dev dvs that in auto)
  from DelDevice_svcmgr [OF del(1,2) _ _ del(3), of ?n] node(2)
  have "DevHostServiceDelDevice (Some h) (nd_devId n) ?w3 = Some (w'\<lparr>c_svcmgr := Some (Some (?ops, m2))\<rparr>, HDF_SUCCESS)"
    "c_nodes (w'\<lparr>c_svcmgr := Some (Some (?ops, m2))\<rparr>) a = None" by simp_all
  moreover have "DevSvcManagerClntGetDeviceObject (Some (Some (?ops, m2))) (Some nm) = Some a"
    using m2(2) by (simp add: GetDeviceObject_view)
  ultimately show ?thesis using w2 w3
    by (intro exI [of _ ?w2] exI [of _ ?w3] exI [of _ "w'\<lparr>c_svcmgr := Some (Some (?ops, m2))\<rparr>"]) simp
qed

section \<open>A host with two devices of one service name\<close>

text \<open>
  The world after the host has added the device of \<^verbatim>\<open>drv_info\<close>, which publishes its service, and
  the description of a second device with the same service name that publishes nothing.
\<close>

definition first_world :: "(nat DevSvcManager, nat) hdf_core" where
  "first_world = one_host_world\<lparr>
     c_nodes := [10 \<mapsto> \<lparr>nd_linked = True, nd_powerToken = None, nd_hostService = Some 5, nd_property = None, nd_service = Some 7,
       nd_deviceClass = 1, nd_token = Some 11, nd_driver = Some 1, nd_device = Some 9, nd_servName = Some ''svc'', nd_servInfo = None,
       nd_driverName = None, nd_devId = 0x03000101, nd_policy = 1, nd_permission = 0, nd_devStatus = DEVNODE_LAUNCHED,
       nd_servStatus = True, nd_ioService = False\<rparr>],
     c_devices := [9 \<mapsto> UpdateDeivceNodeIdIndex 0x03000101 \<lparr>dv_devNodes = [10], dv_deviceId = 0x03000100, dv_devidIndex = 0\<rparr>],
     c_hosts := [5 \<mapsto> \<lparr>hs_hostId = 3, hs_hostName = Some ''h'', hs_devices = [9],
       hs_observer = \<lparr>obs_services = [\<lparr>serviceKey = svc_key_of ''svc'', obs_policy = 1, obs_devId = 0x03000101, subscribers = [],
         publisher = Some 7\<rparr>]\<rparr>\<rparr>],
     c_tokens := [11 \<mapsto> 0x03000101],
     c_clients := update_client 6 (\<lambda>c. c\<lparr>hc_devices := 11 # hc_devices c\<rparr>) (c_clients one_host_world),
     c_svcmgr := Some (Some (calm_ops, \<lparr>services = [\<lparr>svc_key = svc_key_of ''svc'', svc_value = Some 10, servName = Some ''svc'',
       servInfo = None, devClass = 1\<rparr>], svcstatListeners = [], g_holderList = [], holder_mem = Map.empty, events = []\<rparr>)),
     c_next := 12, c_ticks := 8, c_calls := [(CallBind, 10), (CallInit, 10)]\<rparr>"
definition quiet_info :: HdfDeviceInfo where
  "quiet_info = (drv_info 0x03000102)\<lparr>di_policy := 0\<rparr>"

lemma first_added:
  "DevHostServiceAddDevice calm_env (Some 5) (Some (drv_info 0x03000101)) one_host_world = Some (first_world, HDF_SUCCESS)"
  apply (simp add: DevHostServiceAddDevice_def calm_query drv_info_def DEVICEID_def)
  apply (simp add: calm_env_def)
  apply (simp add: HdfDeviceGetDeviceNode_def HdfDriverLoaderGetDriver_def HdfDriverManagerGetDriver_def HdfDriverManagerFoundDriver_def
    one_host_world_def one_world_def one_driver_def set_host_def set_device_def)
  apply (simp add: HdfDeviceNodeNewInstance_def DeviceNodeExtCreate_def HdfDeviceTokenNewInstance_def fresh_def tick_def set_token_def put_node_def
    HdfStringCopy_def strncpy_s_ok_def Let_def HdfDeviceInfoConstruct_def)
  apply (simp add: HdfDeviceAttach_def set_token_def put_node_def set_device_def)
  apply (simp add: calm_env_def HdfDeviceLaunchNode_def put_node_def DeviveDriverBind_def tick_def log_call_def)
  apply (simp add: calm_env_def HdfDeviceNodePublishService_def DeviceNodeExtPublishService_def HdfDeviceNodePublishPublicService_def put_node_def Let_def
      DevSvcManagerClntAddService_def calm_ops_def manager_ops_def DevSvcManagerAddService_def DevSvcManagerSearchService_def
      DevSvcRecordNewInstance_def NotifyServiceStatusLocked_def clnt_state_def HdfStringCopy_def strncpy_s_ok_def word_le_nat_alt)
  apply (simp add: calm_env_def HdfDeviceNodePublishLocalService_def HdfServiceObserverPublishService_def HdfServiceObserverRecordObtain_def tick_def set_host_def Let_def)
  apply (simp add: calm_env_def HdfServiceObserverPublishService_def DevmgrServiceClntAttachDevice_def DevmgrServiceAttachDevice_def DevmgrServiceFindDeviceHost_def HOSTID_def DeviceTokenClntNewInstance_def tick_def put_node_def set_device_def)
  apply (simp add: first_world_def one_host_world_def one_world_def calm_ops_def manager_ops_def one_driver_def fun_eq_iff Let_def DevSvcManagerAddService_def DevSvcManagerSearchService_def
      DevSvcRecordNewInstance_def HdfStringCopy_def strncpy_s_ok_def)
  done

lemma second_added:
  "\<exists>w1 hs1 v n. DevHostServiceAddDevice calm_env (Some 5) (Some quiet_info) first_world = Some (w1, HDF_SUCCESS) \<and>
     c_hosts w1 5 = Some hs1 \<and> 9 \<in> set (hs_devices hs1) \<and> c_devices w1 9 = Some v \<and> 12 \<in> set (dv_devNodes v) \<and>
     c_nodes w1 12 = Some n \<and> \<not> nd_servStatus n \<and> nd_deviceClass n = 1 \<and> nd_servName n = Some ''svc'' \<and> nd_devId n = 0x03000102 \<and>
     DevSvcManagerClntGetDeviceObject (c_svcmgr w1) (Some ''svc'') = Some 10"
  apply (simp add: DevHostServiceAddDevice_def DevHostServiceQueryOrAddDevice_def DevHostServiceFindDevice_def quiet_info_def drv_info_def DEVICEID_def
     first_world_def UpdateDeivceNodeIdIndex_def)
  apply (simp add: calm_env_def)
  apply (simp add: HdfDeviceGetDeviceNode_def HdfDriverLoaderGetDriver_def HdfDriverManagerGetDriver_def HdfDriverManagerFoundDriver_def
    one_host_world_def one_world_def one_driver_def set_host_def set_device_def)
  apply (simp add: HdfDeviceNodeNewInstance_def DeviceNodeExtCreate_def HdfDeviceTokenNewInstance_def fresh_def tick_def set_token_def put_node_def
    HdfStringCopy_def strncpy_s_ok_def Let_def HdfDeviceInfoConstruct_def)
  apply (simp add: HdfDeviceAttach_def set_token_def put_node_def set_device_def)
  apply (simp add: calm_env_def HdfDeviceLaunchNode_def put_node_def DeviveDriverBind_def tick_def log_call_def)
  apply (simp add: calm_env_def HdfDeviceNodePublishService_def)
  apply (simp add: calm_env_def DevmgrServiceClntAttachDevice_def DevmgrServiceAttachDevice_def DevmgrServiceFindDeviceHost_def HOSTID_def DeviceTokenClntNewInstance_def tick_def put_node_def set_device_def update_client_def)
  apply (simp add: calm_ops_def DevSvcManagerClntGetDeviceObject_def DevSvcManagerGetObject_def DevSvcManagerSearchService_def manager_ops_def)
  done

theorem unpublished_update_dangles_witness:
  "\<exists>w1 rs w2 w3 w4. host_run calm_env 5 [HostAdd (drv_info 0x03000101), HostAdd quiet_info] one_host_world = Some (w1, rs) \<and>
     HdfDeviceObjectSetServInfo calm_env (Some 12) (Some ''i'') w1 = Some (w2, HDF_SUCCESS) \<and>
     HdfDeviceObjectUpdate (Some 12) w2 = Some (w3, HDF_SUCCESS) \<and>
     DevHostServiceDelDevice (Some 5) 0x03000102 w3 = Some (w4, HDF_SUCCESS) \<and>
     c_nodes w4 12 = None \<and> DevSvcManagerClntGetDeviceObject (c_svcmgr w4) (Some ''svc'') = Some 12"
proof -
  obtain w1 hs1 v n where s: "DevHostServiceAddDevice calm_env (Some 5) (Some quiet_info) first_world = Some (w1, HDF_SUCCESS)"
    "c_hosts w1 5 = Some hs1" "9 \<in> set (hs_devices hs1)" "c_devices w1 9 = Some v" "12 \<in> set (dv_devNodes v)"
    "c_nodes w1 12 = Some n" "\<not> nd_servStatus n" "nd_deviceClass n = 1" "nd_servName n = Some ''svc''" "nd_devId n = 0x03000102"
    "DevSvcManagerClntGetDeviceObject (c_svcmgr w1) (Some ''svc'') = Some 10"
    using second_added by (elim exE conjE) (rule that)
  let ?cs = "[HostAdd (drv_info 0x03000101), HostAdd quiet_info]"
  have run: "host_run calm_env 5 ?cs one_host_world = Some (w1, [HDF_SUCCESS, HDF_SUCCESS])"
    by (simp add: first_added s(1))
  let ?m = "\<lparr>services = [], svcstatListeners = [], g_holderList = [], holder_mem = Map.empty, events = []\<rparr> :: nat DevSvcManager"
  let ?hs = "\<lparr>hs_hostId = 3, hs_hostName = Some ''h'', hs_devices = [], hs_observer = \<lparr>obs_services = []\<rparr>\<rparr> :: nat DevHostService"
  let ?c = "\<lparr>hc_addr = 6, hc_devices = [], hc_unloadDevInfos = [], hc_dynamicDevInfos = [], hc_hostService = Some 5,
     hc_hostId = 3, hc_hostPid = 0, hc_hostName = Some ''h'', hc_stopFlag = False\<rparr>"
  have w: "c_svcmgr one_host_world = Some (Some (calm_ops, ?m))" "mgr_ok ?m" "services ?m = []" "c_hosts one_host_world 5 = Some ?hs"
    "hs_devices ?hs = []" "DevmgrServiceFindDeviceHost (ucast (hs_hostId ?hs)) one_host_world = Some ?c" "hc_devices ?c = []"
    "distinct (map hc_addr (c_clients one_host_world))" "set (c_driverList one_host_world) \<subseteq> dom (c_driverMem one_host_world)"
    "\<forall>x \<ge> c_next one_host_world. c_nodes one_host_world x = None \<and> c_tokens one_host_world x = None \<and> c_devices one_host_world x = None"
    "\<forall>k. ce_token calm_env k" "\<forall>x \<in> set ?cs. HOSTID (call_devid x) = ucast (hs_hostId ?hs) \<and> call_devid x \<noteq> 0"
    by (simp_all add: one_host_world_def one_world_def mgr_ok_def services_ok_def holders_ok_def DevmgrServiceFindDeviceHost_def
        calm_env_def drv_info_def quiet_info_def HOSTID_def)
  have r: "nd_deviceClass n < 0x100" "length ''i'' \<le> 128" "ce_string calm_env (c_ticks w1)"
    "sa_info \<lparr>sa_record = True, sa_name = True, sa_info = True\<rparr>"
    using s(8) by (simp_all add: calm_env_def)
  note dangles = unpublished_update_dangles [OF w(1) [unfolded calm_ops_def] w(2-12) run s(2-7) r(1) s(9,11) r(2-4), unfolded s(10)]
  then obtain w2 w3 w4 where "HdfDeviceObjectSetServInfo calm_env (Some 12) (Some ''i'') w1 = Some (w2, HDF_SUCCESS)"
    "HdfDeviceObjectUpdate (Some 12) w2 = Some (w3, HDF_SUCCESS)" "DevHostServiceDelDevice (Some 5) 0x03000102 w3 = Some (w4, HDF_SUCCESS)"
    "c_nodes w4 12 = None" "DevSvcManagerClntGetDeviceObject (c_svcmgr w4) (Some ''svc'') = Some 12"
    by (elim exE conjE) (rule that)
  then show ?thesis using run
    by (intro exI [of _ w1] exI [of _ "[HDF_SUCCESS, HDF_SUCCESS]"] exI [of _ w2] exI [of _ w3] exI [of _ w4] conjI)
qed

end
