(* ===== verification/Power_Order.thy ===== *)
theory Power_Order
  imports Devmgr_Service
begin

text \<open>
  The order in which a change of the power state reaches the device nodes
  (DevmgrServicePowerStateChange, DevHostServicePmNotify and ApplyDevicesPowerState): hosts in the
  order in which they were started, devices in the order in which they were added, nodes in the order in
  which they were attached; the opposite order for a suspension.
\<close>

definition power_step :: "HdfPowerState \<Rightarrow> 's HdfDeviceNode \<Rightarrow> 's HdfDeviceNode" where
  "power_step st n = n\<lparr>nd_powerToken := fst (PowerStateChange (nd_powerToken n) st)\<rparr>"

definition power_map :: "HdfPowerState \<Rightarrow> nat list \<Rightarrow> (nat \<rightharpoonup> 's HdfDeviceNode) \<Rightarrow> (nat \<rightharpoonup> 's HdfDeviceNode)" where
  "power_map st as nodes = fold (\<lambda>a m. m(a := map_option (power_step st) (m a))) as nodes"

lemma power_map_append: "power_map st (as @ bs) nodes = power_map st bs (power_map st as nodes)"
  by (simp add: power_map_def)

lemma power_map_Nil [simp]: "power_map st [] nodes = nodes"
  by (simp add: power_map_def)

lemma power_map_Cons: "power_map st (a # as) nodes = power_map st as (nodes(a := map_option (power_step st) (nodes a)))"
  by (simp add: power_map_def)

lemma dom_power_map [simp]: "dom (power_map st as nodes) = dom nodes"
  by (induction as arbitrary: nodes) (auto simp: power_map_Cons)

lemma power_map_distinct:
  "distinct as \<Longrightarrow> power_map st as nodes a = (if a \<in> set as then map_option (power_step st) (nodes a) else nodes a)"
  by (induction as arbitrary: nodes) (auto simp: power_map_Cons)

text \<open>The entry of the listener for a state, and the calls that a node gets.\<close>

fun power_entry :: "HdfPowerState \<Rightarrow> IPowerEventListener \<Rightarrow> (pm_call \<times> int option) option" where
  "power_entry POWER_STATE_SUSPEND l = Some (CallSuspend, Suspend l)"
| "power_entry POWER_STATE_RESUME l = Some (CallResume, Resume l)"
| "power_entry POWER_STATE_DOZE_SUSPEND l = Some (CallDozeSuspend, DozeSuspend l)"
| "power_entry POWER_STATE_DOZE_RESUME l = Some (CallDozeResume, DozeResume l)"
| "power_entry POWER_STATE_MAX l = None"

definition told :: "HdfPowerState \<Rightarrow> 's HdfDeviceNode \<Rightarrow> pm_call list" where
  "told st n =
     (case nd_powerToken n of
        None \<Rightarrow> []
      | Some t \<Rightarrow>
          (case listener t of
             None \<Rightarrow> []
           | Some l \<Rightarrow>
               if mode t \<noteq> HDF_POWER_SYS_CTRL then []
               else (case power_entry st l of Some (c, Some r) \<Rightarrow> [c] | _ \<Rightarrow> [])))"

definition node_calls :: "HdfPowerState \<Rightarrow> (nat \<rightharpoonup> 's HdfDeviceNode) \<Rightarrow> nat \<Rightarrow> (drv_call \<times> nat) list" where
  "node_calls st nodes a = (case nodes a of None \<Rightarrow> [] | Some n \<Rightarrow> map (\<lambda>c. (CallPower c, a)) (told st n))"

lemma PowerStateChange_told:
  assumes "nd_powerToken n = Some t"
  obtains t' where "fst (PowerStateChange (Some t) st) = Some t'" "calls t' = calls t @ told st n"
    "listener t' = listener t" "mode t' = mode t"
proof -
  have "\<exists>t'. fst (PowerStateChange (Some t) st) = Some t' \<and> calls t' = calls t @ told st n \<and> listener t' = listener t \<and> mode t' = mode t"
    using assms by (cases st) (auto simp: PowerStateChange_def told_def call_listener_def split: option.splits)
  then show thesis using that by blast
qed

lemma told_step [simp]: "told st (power_step st n) = told st n"
proof (cases "nd_powerToken n")
  case (Some t)
  obtain t' where t: "fst (PowerStateChange (Some t) st) = Some t'" "listener t' = listener t" "mode t' = mode t"
    by (rule PowerStateChange_told [OF Some, of st])
  then show ?thesis using Some by (cases "listener t") (simp_all add: told_def power_step_def)
qed (simp add: told_def power_step_def PowerStateChange_def)

lemma node_calls_upd: "node_calls st (nodes(a := map_option (power_step st) (nodes a))) = node_calls st nodes"
  by (auto simp: node_calls_def fun_eq_iff split: option.splits)

lemma node_calls_map [simp]: "node_calls st (power_map st as nodes) = node_calls st nodes"
  by (induction as arbitrary: nodes) (simp_all add: power_map_Cons node_calls_upd)

text \<open>Telling the nodes of a list, in its order.\<close>

definition power_run :: "HdfPowerState \<Rightarrow> nat list \<Rightarrow> ('m, 's) hdf_core \<Rightarrow> ('m, 's) hdf_core" where
  "power_run st as w = w\<lparr>c_nodes := power_map st as (c_nodes w), c_calls := c_calls w @ concat (map (node_calls st (c_nodes w)) as)\<rparr>"

lemma power_run_Nil [simp]: "power_run st [] w = w"
  by (simp add: power_run_def)

lemma power_run_append: "power_run st (as @ bs) w = power_run st bs (power_run st as w)"
  by (simp add: power_run_def power_map_append)

lemma power_run_Cons: "power_run st (a # as) w = power_run st as (power_run st [a] w)"
  using power_run_append [of st "[a]" as w] by simp

lemma power_run_frame [simp]:
  "c_devices (power_run st as w) = c_devices w" "c_hosts (power_run st as w) = c_hosts w"
  "dom (c_nodes (power_run st as w)) = dom (c_nodes w)" "c_clients (power_run st as w) = c_clients w"
  by (simp_all add: power_run_def)

lemma power_node_step:
  assumes "a \<in> dom (c_nodes w)" shows "power_node st a w = Some (power_run st [a] w)"
proof -
  obtain n where n: "c_nodes w a = Some n" using assms by auto
  show ?thesis
  proof (cases "nd_powerToken n")
    case None
    then have "power_step st n = n" by (simp add: power_step_def PowerStateChange_def)
    then show ?thesis
      using n None by (simp add: power_node_def power_run_def power_map_Cons node_calls_def told_def fun_upd_idem)
  next
    case (Some t)
    obtain t' where "fst (PowerStateChange (Some t) st) = Some t'" "calls t' = calls t @ told st n"
      by (rule PowerStateChange_told [OF Some, of st])
    then show ?thesis
      using n Some
      by (simp add: power_node_def power_run_def power_map_Cons node_calls_def fold_log_call new_calls_def put_node_def power_step_def)
  qed
qed

lemma power_nodes_run: "set as \<subseteq> dom (c_nodes w) \<Longrightarrow> power_nodes st as w = Some (power_run st as w)"
proof (induction as arbitrary: w)
  case (Cons a as)
  then show ?case using power_run_Cons [of st a as w] by (simp add: power_node_step)
qed simp

section \<open>Hosts\<close>

text \<open>New devices are inserted at the head of the list, so the list is reversed.\<close>

definition host_nodes :: "(nat \<rightharpoonup> HdfDevice) \<Rightarrow> 's DevHostService \<Rightarrow> nat list" where
  "host_nodes devs hs = concat (map (\<lambda>dv. dv_devNodes (the (devs dv))) (rev (hs_devices hs)))"

definition power_order :: "('m, 's) hdf_core \<Rightarrow> nat list" where
  "power_order w = concat (map (\<lambda>c. case hc_hostService c of None \<Rightarrow> [] | Some h \<Rightarrow> host_nodes (c_devices w) (the (c_hosts w h)))
     (c_clients w))"

definition directed :: "HdfPowerState \<Rightarrow> 'a list \<Rightarrow> 'a list" where
  "directed st xs = (if IsPowerWakeState st then xs else rev xs)"

definition devices_live :: "('m, 's) hdf_core \<Rightarrow> nat list \<Rightarrow> bool" where
  "devices_live w dvs \<longleftrightarrow> (\<forall>dv \<in> set dvs. \<exists>v. c_devices w dv = Some v \<and> set (dv_devNodes v) \<subseteq> dom (c_nodes w))"

definition hosts_live :: "('m, 's) hdf_core \<Rightarrow> DevHostServiceClnt list \<Rightarrow> bool" where
  "hosts_live w cs \<longleftrightarrow>
     (\<forall>c \<in> set cs. \<forall>h. hc_hostService c = Some h \<longrightarrow> (\<exists>hs. c_hosts w h = Some hs \<and> devices_live w (hs_devices hs)))"

lemma live_frame [simp]:
  "devices_live (power_run st as w) dvs \<longleftrightarrow> devices_live w dvs" "hosts_live (power_run st as w) cs \<longleftrightarrow> hosts_live w cs"
  by (simp_all add: devices_live_def hosts_live_def)

lemma Apply_order:
  assumes "c_devices w dv = Some v" "set (dv_devNodes v) \<subseteq> dom (c_nodes w)"
  shows "ApplyDevicesPowerState dv st w = Some (power_run st (directed st (dv_devNodes v)) w, HDF_SUCCESS)"
  using assms by (simp add: ApplyDevicesPowerState_def power_nodes_run directed_def)

lemma power_devices_order:
  assumes "devices_live w dvs"
  shows "power_devices st dvs ret w =
    Some (power_run st (concat (map (\<lambda>dv. directed st (dv_devNodes (the (c_devices w dv)))) dvs)) w, ret)"
  using assms
proof (induction dvs arbitrary: w)
  case (Cons dv dvs)
  then obtain v where v: "c_devices w dv = Some v" "set (dv_devNodes v) \<subseteq> dom (c_nodes w)" and rest: "devices_live w dvs"
    by (auto simp: devices_live_def)
  show ?case
    using Cons.IH [of "power_run st (directed st (dv_devNodes v)) w"] v(1) rest
    by (simp add: Apply_order [OF v] power_run_append)
qed simp

lemma PmNotify_order:
  assumes "c_hosts w h = Some hs" "devices_live w (hs_devices hs)"
  shows "DevHostServicePmNotify (Some h) st w = Some (power_run st (directed st (host_nodes (c_devices w) hs)) w, HDF_SUCCESS)"
proof -
  have "devices_live w (rev (hs_devices hs))" using assms(2) by (simp add: devices_live_def)
  then show ?thesis
    using assms
    by (simp add: DevHostServicePmNotify_def power_devices_order directed_def host_nodes_def rev_concat rev_map [symmetric] comp_def)
qed

lemma power_clients_order:
  assumes "hosts_live w cs"
  shows "power_clients st cs ret w =
    Some (power_run st (concat (map (\<lambda>c. case hc_hostService c of None \<Rightarrow> []
       | Some h \<Rightarrow> directed st (host_nodes (c_devices w) (the (c_hosts w h)))) cs)) w, ret)"
  using assms
proof (induction cs arbitrary: w)
  case (Cons c cs)
  then have rest: "hosts_live w cs" by (simp add: hosts_live_def)
  show ?case
  proof (cases "hc_hostService c")
    case None
    then show ?thesis using Cons.IH [OF rest] by simp
  next
    case (Some h)
    with Cons.prems obtain hs where hs: "c_hosts w h = Some hs" "devices_live w (hs_devices hs)"
      by (auto simp: hosts_live_def)
    show ?thesis
      using Cons.IH [of "power_run st (directed st (host_nodes (c_devices w) hs)) w"] rest hs(1) Some
      by (simp add: PmNotify_order [OF hs] power_run_append cong: option.case_cong)
  qed
qed simp

text \<open>
  C37. The order of power changes. If the hosts of all clients, their devices and nodes are there, a
  change to a valid state succeeds whatever the drivers return. The drivers are then called one
  after the other, in the order in which hosts, devices and nodes were added when waking up and in the
  opposite order when suspending: each visit of a node calls the entry of its power listener for this
  state, if the node has a token under system control with a listener that has this entry, and no
  other driver function. When no node is on two lists, each is visited exactly once and all others
  stay as they are.
\<close>

theorem power_change_order:
  assumes "hosts_live w (c_clients w)" "IsValidPowerState st"
  shows "\<exists>w'. DevmgrServicePowerStateChange st w = Some (w', HDF_SUCCESS) \<and>
    c_calls w' = c_calls w @ concat (map (node_calls st (c_nodes w))
      (if IsPowerWakeState st then power_order w else rev (power_order w))) \<and>
    (distinct (power_order w) \<longrightarrow>
       (\<forall>a. c_nodes w' a = (if a \<in> set (power_order w) then map_option (power_step st) (c_nodes w a) else c_nodes w a)))"
proof -
  have "hosts_live w (rev (c_clients w))" using assms(1) by (simp add: hosts_live_def)
  moreover have "rev (power_order w) = concat (map (\<lambda>c. case hc_hostService c of None \<Rightarrow> []
       | Some h \<Rightarrow> rev (host_nodes (c_devices w) (the (c_hosts w h)))) (rev (c_clients w)))"
    by (simp add: power_order_def rev_concat rev_map [symmetric] comp_def option.case_distrib [of rev] cong: option.case_cong)
  ultimately have run: "DevmgrServicePowerStateChange st w =
      Some (power_run st (if IsPowerWakeState st then power_order w else rev (power_order w)) w, HDF_SUCCESS)"
    using assms
    by (simp add: DevmgrServicePowerStateChange_def power_clients_order directed_def power_order_def cong: option.case_cong)
  then show ?thesis by (simp add: power_run_def power_map_distinct)
qed

text \<open>Three nodes on two devices of a host; the second has no listener and the last one's driver fails.\<close>

definition power_sample_node :: "IPowerEventListener option \<Rightarrow> nat HdfDeviceNode" where
  "power_sample_node l = \<lparr>nd_linked = True,
     nd_powerToken = Some \<lparr>listener = l, wakeRef = 0, psmState = PSM_STATE_ACTIVE, mode = HDF_POWER_SYS_CTRL, calls = []\<rparr>,
     nd_hostService = Some 5, nd_property = None, nd_service = None, nd_deviceClass = 1, nd_token = None, nd_driver = None,
     nd_device = Some 6, nd_servName = None, nd_servInfo = None, nd_driverName = None, nd_devId = 0, nd_policy = 0,
     nd_permission = 0, nd_devStatus = DEVNODE_LAUNCHED, nd_servStatus = False, nd_ioService = False\<rparr>"

definition power_sample_world :: "(nat DevSvcManager, nat) hdf_core" where
  "power_sample_world =
     \<lparr>c_nodes = [1 \<mapsto> power_sample_node (Some \<lparr>DozeResume = None, DozeSuspend = None, Resume = Some 0, Suspend = Some 0\<rparr>),
                 2 \<mapsto> power_sample_node None,
                 3 \<mapsto> power_sample_node (Some \<lparr>DozeResume = None, DozeSuspend = None, Resume = Some 0, Suspend = Some (- 1)\<rparr>)],
      c_devices = [6 \<mapsto> \<lparr>dv_devNodes = [1, 2], dv_deviceId = 256, dv_devidIndex = 1\<rparr>,
                   7 \<mapsto> \<lparr>dv_devNodes = [3], dv_deviceId = 512, dv_devidIndex = 1\<rparr>],
      c_hosts = [5 \<mapsto> \<lparr>hs_hostId = 0, hs_hostName = None, hs_devices = [7, 6], hs_observer = \<lparr>obs_services = []\<rparr>\<rparr>],
      c_tokens = Map.empty,
      c_clients = [\<lparr>hc_addr = 4, hc_devices = [], hc_unloadDevInfos = [], hc_dynamicDevInfos = [], hc_hostService = Some 5,
         hc_hostId = 0, hc_hostPid = 0, hc_hostName = None, hc_stopFlag = False\<rparr>],
      c_svcmgr = None, c_driverMem = Map.empty, c_driverList = [], c_next = 8, c_ticks = 0, c_calls = [], c_connected = []\<rparr>"

theorem power_change_order_witness:
  "\<exists>w1 w2. DevmgrServicePowerStateChange POWER_STATE_SUSPEND power_sample_world = Some (w1, HDF_SUCCESS) \<and>
     c_calls w1 = [(CallPower CallSuspend, 3), (CallPower CallSuspend, 1)] \<and>
     DevmgrServicePowerStateChange POWER_STATE_RESUME power_sample_world = Some (w2, HDF_SUCCESS) \<and>
     c_calls w2 = [(CallPower CallResume, 1), (CallPower CallResume, 3)]"
proof -
  have live: "hosts_live power_sample_world (c_clients power_sample_world)" and order: "power_order power_sample_world = [1, 2, 3]"
    by (simp_all add: power_sample_world_def hosts_live_def devices_live_def power_order_def host_nodes_def)
  have valid: "IsValidPowerState POWER_STATE_SUSPEND" "IsValidPowerState POWER_STATE_RESUME" by (simp_all add: IsValidPowerState_iff)
  have calls: "c_calls power_sample_world = []"
    "node_calls POWER_STATE_SUSPEND (c_nodes power_sample_world) 1 = [(CallPower CallSuspend, 1)]"
    "node_calls POWER_STATE_RESUME (c_nodes power_sample_world) 1 = [(CallPower CallResume, 1)]"
    "node_calls st (c_nodes power_sample_world) 2 = []"
    "node_calls POWER_STATE_SUSPEND (c_nodes power_sample_world) 3 = [(CallPower CallSuspend, 3)]"
    "node_calls POWER_STATE_RESUME (c_nodes power_sample_world) 3 = [(CallPower CallResume, 3)]" for st
    by (simp_all add: power_sample_world_def node_calls_def told_def power_sample_node_def)
  obtain w1 where "DevmgrServicePowerStateChange POWER_STATE_SUSPEND power_sample_world = Some (w1, HDF_SUCCESS)"
    "c_calls w1 = [(CallPower CallSuspend, 3), (CallPower CallSuspend, 1)]"
    using power_change_order [OF live valid(1)] by (auto simp: order calls IsPowerWakeState_def simp del: One_nat_def)
  moreover obtain w2 where "DevmgrServicePowerStateChange POWER_STATE_RESUME power_sample_world = Some (w2, HDF_SUCCESS)"
    "c_calls w2 = [(CallPower CallResume, 1), (CallPower CallResume, 3)]"
    using power_change_order [OF live valid(2)] by (auto simp: order calls IsPowerWakeState_def simp del: One_nat_def)
  ultimately show ?thesis by blast
qed

end
