(* ===== verification/Device_Ids.thy ===== *)
theory Device_Ids
  imports Device_Node
begin

text \<open>
  Dynamic node identifiers (core/host/src/hdf_device.c: UpdateDeivceNodeIdIndex and
  AcquireNodeDeivceId) and the start-up registration of the drivers
  (core/host/src/hdf_driver_loader.c: HdfDriverEntryConstruct).
\<close>

section \<open>Identifiers of dynamic nodes\<close>

lemma index_after_nodes:
  assumes "h < 256" "d < 0x10000" "\<forall>k \<in> set ks. k < 256" "ks \<noteq> []" "dv_devidIndex v \<le> ucast d"
  shows "fold UpdateDeivceNodeIdIndex (map (MK_DEVID h d) ks) v = v\<lparr>dv_devidIndex := ucast d\<rparr>"
  using assms(3-)
proof (induction ks arbitrary: v)
  case (Cons k ks)
  have d: "unat d < 2 ^ 16" using assms(2) by (simp add: word_less_nat_alt)
  then have ud: "unat (ucast d :: u16) = unat d" by (simp add: unsigned_ucast_eq take_bit_nat_eq_self)
  have dev: "DEVICEID (MK_DEVID h d k) = d"
    using devid_parts [of h d k] assms(1,2) Cons.prems(1) by simp
  have step: "UpdateDeivceNodeIdIndex (MK_DEVID h d k) v = v\<lparr>dv_devidIndex := ucast d\<rparr>"
  proof (cases "(ucast (dv_devidIndex v) :: u32) < d")
    case True
    then show ?thesis by (simp add: UpdateDeivceNodeIdIndex_def dev)
  next
    case False
    then have "unat d \<le> unat (dv_devidIndex v)" by (simp add: word_less_nat_alt unat_ucast_up_simp)
    then have "dv_devidIndex v = ucast d"
      using Cons.prems(3) ud by (simp add: word_le_nat_alt word_unat_eq_iff)
    then show ?thesis using False by (simp add: UpdateDeivceNodeIdIndex_def dev)
  qed
  show ?case
  proof (cases "ks = []")
    case False
    then show ?thesis using Cons.IH [of "v\<lparr>dv_devidIndex := ucast d\<rparr>"] Cons.prems(1) by (simp add: step)
  qed (simp add: step)
qed simp

text \<open>
  C39. Dynamic identifiers collide. After nodes with configured identifiers were attached to device
  \<^verbatim>\<open>d\<close> of host \<^verbatim>\<open>h\<close>, the next node without an identifier gets node number \<^verbatim>\<open>d + 1\<close>, whatever
  numbers are in use, because the index remembers device numbers instead of node numbers. So it
  gets the identifier of an attached node whenever node \<^verbatim>\<open>d + 1\<close> is one of them.
\<close>

theorem dynamic_id_collides:
  assumes "h < 256" "d < 0xFFFF" "\<forall>k \<in> set ks. k < 256" "ks \<noteq> []"
    and "dv_deviceId v = MK_DEVID h d 0" "dv_devidIndex v = 0"
  shows "\<exists>v' i. AcquireNodeDeivceId (fold UpdateDeivceNodeIdIndex (map (MK_DEVID h d) ks) v) = (v', Some i) \<and>
    i = MK_DEVID h d (d + 1) \<and> (d + 1 \<in> set ks \<longrightarrow> i \<in> set (map (MK_DEVID h d) ks))"
proof -
  have d: "d < 0x10000" "unat d < 65535" using assms(2) by (simp_all add: word_less_nat_alt)
  have ud: "unat (ucast d :: u16) = unat d" using d(2) by (simp add: unsigned_ucast_eq take_bit_nat_eq_self)
  then have idx: "(ucast (ucast d :: u16) :: u32) = d" by (simp add: word_unat_eq_iff unat_ucast_up_simp)
  have "unat ((ucast d :: u16) + 1) = unat d + 1" using ud d(2) by (simp add: unat_word_ariths)
  then have next_idx: "(ucast ((ucast d :: u16) + 1) :: u32) = d + 1"
    using d(2) by (simp add: word_unat_eq_iff unat_ucast_up_simp unat_word_ariths)
  have parts: "HOSTID (MK_DEVID h d 0) = h" "DEVICEID (MK_DEVID h d 0) = d"
    using devid_parts [of h d 0] assms(1) d(1) by simp_all
  have "AcquireNodeDeivceId (v\<lparr>dv_devidIndex := ucast d\<rparr>) =
      (v\<lparr>dv_devidIndex := ucast d + 1\<rparr>, Some (MK_DEVID h d (d + 1)))"
    using assms(2,5) idx next_idx parts by (simp add: AcquireNodeDeivceId_def not_le [symmetric])
  then show ?thesis
    using index_after_nodes [OF assms(1) d(1) assms(3,4), of v] assms(6) by simp
qed

theorem dynamic_id_collides_witness:
  "\<exists>v' i. AcquireNodeDeivceId (fold UpdateDeivceNodeIdIndex (map (MK_DEVID 1 1) [1, 2])
       \<lparr>dv_devNodes = [], dv_deviceId = MK_DEVID 1 1 0, dv_devidIndex = 0\<rparr>) = (v', Some i) \<and>
     i \<in> set (map (MK_DEVID 1 1) [1, 2])"
proof -
  have "\<forall>k \<in> set [1, 2 :: u32]. k < 256" by simp
  from dynamic_id_collides [of 1 1, OF _ _ this, of "\<lparr>dv_devNodes = [], dv_deviceId = MK_DEVID 1 1 0, dv_devidIndex = 0\<rparr>"]
  show ?thesis by (simp, elim exE) (intro exI conjI, assumption, simp)
qed

section \<open>The registration of the drivers\<close>

text \<open>A driver entry that the registration takes.\<close>

definition entry_valid :: "HdfDriverEntry option \<Rightarrow> bool" where
  "entry_valid e \<longleftrightarrow> (\<exists>d. e = Some d \<and> ent_moduleName d \<noteq> None)"

definition entries_of :: "('m, 's) hdf_core \<Rightarrow> HdfDriverEntry option list" where
  "entries_of w = map (c_driverMem w) (c_driverList w)"

definition driver_mem_ok :: "('m, 's) hdf_core \<Rightarrow> bool" where
  "driver_mem_ok w \<longleftrightarrow> (\<forall>d \<in> set (c_driverList w). d < c_next w)"

lemma Register_valid:
  assumes "driver_mem_ok w" "\<forall>k. ce_driver env k" "entry_valid e"
  shows "\<exists>w'. HdfRegisterDriverEntry env e w = (w', HDF_SUCCESS) \<and> driver_mem_ok w' \<and> entries_of w' = entries_of w @ [e]"
proof -
  have "c_next w \<notin> set (c_driverList w)" using assms(1) by (auto simp: driver_mem_ok_def)
  then have "map (\<lambda>x. if x = c_next w then e else c_driverMem w x) (c_driverList w) = map (c_driverMem w) (c_driverList w)"
    by (intro map_cong) auto
  then show ?thesis
    using assms by (auto simp: HdfRegisterDriverEntry_def entry_valid_def tick_def fresh_def driver_mem_ok_def entries_of_def less_Suc_eq)
qed

lemma Register_invalid: "\<not> entry_valid e \<Longrightarrow> HdfRegisterDriverEntry env e w = (w, HDF_ERR_INVALID_OBJECT)"
  by (cases e) (auto simp: HdfRegisterDriverEntry_def entry_valid_def)

lemma entry_loop_stuck: "\<not> entry_valid e \<Longrightarrow> entry_loop env n (e # es) w = Some w"
  by (induction n) (simp_all add: Register_invalid)

lemma entry_loop_valid:
  assumes "driver_mem_ok w" "\<forall>k. ce_driver env k" "\<forall>e \<in> set es. entry_valid e" "length es \<le> n"
    and "rest = [] \<and> n = length es \<or> (\<exists>e es'. rest = e # es' \<and> \<not> entry_valid e)"
  shows "\<exists>w'. entry_loop env n (es @ rest) w = Some w' \<and> entries_of w' = entries_of w @ es"
  using assms
proof (induction es arbitrary: n w)
  case Nil
  then show ?case using entry_loop_stuck by fastforce
next
  case (Cons e es)
  then obtain k where k: "n = Suc k" "length es \<le> k" by (cases n) auto
  from Cons.prems(3) have "entry_valid e" by simp
  from Register_valid [OF Cons.prems(1,2) this] obtain w1 where
    w1: "HdfRegisterDriverEntry env e w = (w1, HDF_SUCCESS)" "driver_mem_ok w1" "entries_of w1 = entries_of w @ [e]" by auto
  from Cons.IH [OF w1(2) Cons.prems(2) _ k(2)] Cons.prems(3,5) k(1) show ?case by (auto simp: w1(1,3))
qed

text \<open>
  C38. Registration at start-up. With enough memory the driver entries of the section are registered
  in order up to the first one that is NULL or has no name; the loop then stays at that entry, so
  no later driver is registered, and success is reported all the same.
\<close>

theorem drivers_up_to_first_bad:
  assumes "driver_mem_ok w" "\<forall>k. ce_driver env k" "es \<noteq> []"
  shows "\<exists>w'. HdfDriverEntryConstruct env es w = Some (w', HDF_SUCCESS) \<and>
    entries_of w' = entries_of w @ takeWhile entry_valid es"
proof -
  let ?rest = "dropWhile entry_valid es"
  have "es = takeWhile entry_valid es @ ?rest" by simp
  moreover have "\<exists>w'. entry_loop env (length es) (takeWhile entry_valid es @ ?rest) w = Some w' \<and>
      entries_of w' = entries_of w @ takeWhile entry_valid es"
  proof (rule entry_loop_valid [OF assms(1,2)])
    show "\<forall>e \<in> set (takeWhile entry_valid es). entry_valid e" by (auto dest: set_takeWhileD)
    show "length (takeWhile entry_valid es) \<le> length es" by (rule length_takeWhile_le)
    show "?rest = [] \<and> length es = length (takeWhile entry_valid es) \<or> (\<exists>e es'. ?rest = e # es' \<and> \<not> entry_valid e)"
    proof (cases ?rest)
      case Nil
      then have "length (takeWhile entry_valid es) = length es" by (metis append_Nil2 takeWhile_dropWhile_id)
      then show ?thesis using Nil by simp
    next
      case (Cons e es')
      then have "\<not> entry_valid e" by (metis dropWhile_eq_Cons_conv)
      then show ?thesis using Cons by simp
    qed
  qed
  ultimately show ?thesis using assms(3) by (auto simp: HdfDriverEntryConstruct_def)
qed

text \<open>A section of three entries, the second of which has no name.\<close>

definition entry_named :: "cstr option \<Rightarrow> HdfDriverEntry option" where
  "entry_named nm = Some \<lparr>ent_addr = 0, ent_moduleName = nm, ent_Bind = True, ent_Init = True, ent_Release = False\<rparr>"

definition boot_env :: "nat core_env" where
  "boot_env = \<lparr>ce_node = \<lambda>_. True, ce_token = \<lambda>_. True, ce_tokenClnt = \<lambda>_. True, ce_device = \<lambda>_. True, ce_host = \<lambda>_. True,
     ce_hostClnt = \<lambda>_. True, ce_driver = \<lambda>_. True, ce_string = \<lambda>_. True,
     ce_obs = \<lambda>_. \<lparr>rec_ok = True, rec_mutex_ok = True, sub_ok = True\<rparr>, ce_power = \<lambda>_. (True, True), ce_io = \<lambda>_. True,
     ce_bind = \<lambda>_ _ (s, c). (HDF_SUCCESS, s, c), ce_init = \<lambda>_ _. HDF_SUCCESS, ce_property = \<lambda>_. None, ce_loader = True,
     ce_sysevent = None\<rparr>"

definition boot_world :: "(nat DevSvcManager, nat) hdf_core" where
  "boot_world = \<lparr>c_nodes = Map.empty, c_devices = Map.empty, c_hosts = Map.empty, c_tokens = Map.empty, c_clients = [],
     c_svcmgr = None, c_driverMem = Map.empty, c_driverList = [], c_next = 0, c_ticks = 0, c_calls = [], c_connected = []\<rparr>"

theorem drivers_up_to_first_bad_witness:
  "\<exists>w'. HdfDriverEntryConstruct boot_env [entry_named (Some ''a''), entry_named None, entry_named (Some ''b'')] boot_world =
      Some (w', HDF_SUCCESS) \<and> entries_of w' = [entry_named (Some ''a'')]"
proof -
  have "driver_mem_ok boot_world" "\<forall>k. ce_driver boot_env k" "entries_of boot_world = []"
    by (simp_all add: boot_world_def boot_env_def driver_mem_ok_def entries_of_def)
  from drivers_up_to_first_bad [OF this(1,2), of "[entry_named (Some ''a''), entry_named None, entry_named (Some ''b'')]"] this(3)
  show ?thesis by (simp add: entry_valid_def entry_named_def)
qed

end
