(* ===== verification/Spec2Isabelle.thy ===== *)
theory Spec2Isabelle
  imports Hdf_Map Hdf_Sbuf Power_State Dev_Svc_Run Dev_Svc_Clnt Task_Queue Host_Start Registry_Dangling Power_Order Device_Ids
begin

text \<open>
  \<^bold>\<open>The HDF driver framework: a model of its core and of the utilities that the core uses.\<close>

  \<^bold>\<open>The program.\<close> The framework (C, directories core and utils) loads drivers and connects them with
  their users. A configuration, compiled to byte code, lists \<^emph>\<open>hosts\<close>, their \<^emph>\<open>devices\<close> and the
  \<^emph>\<open>device nodes\<close> of each device. At start-up the device manager (core/manager/src/devmgr_service.c)
  reads the list of hosts, makes a client for each and starts the host; the host
  (core/host/src/devhost_service.c) attaches itself to the manager, which then installs the drivers
  one by one: the host finds or creates the device, makes a node, and launches it. Launching calls
  the driver's \<^verbatim>\<open>Bind\<close> and \<^verbatim>\<open>Init\<close>, publishes the node's service with the service manager
  (core/manager/src/devsvc_manager.c) and with the observer of the host, and gives the manager a
  token. Services are found by name; listeners are told of starts, changes and stops, as messages in
  serialisation buffers. Power changes go from the manager through hosts and devices to the power
  tokens of the nodes.

  \<^bold>\<open>Conventions.\<close> The model is that of the kernel build on a 64-bit little-endian machine, where
  manager and hosts share one address space. An operation is a function on an explicit state that
  returns the new state and the C result. Undefined behaviour (a NULL or dangling pointer that is
  followed, a read outside of a buffer) is \<^verbatim>\<open>None\<close> of the outer option; a pointer that may be NULL
  is an option; C status codes are \<^verbatim>\<open>int\<close>, other integers are words of their width, so wrap-around is that
  of the machine. Whether an allocation succeeds, what a driver function returns and what external
  code answers are arguments (records of functions of a tick counter, or Booleans); theorems hold for
  all of them unless they say otherwise. Loops over data are structural recursions; loops over the
  tree and other linked memory are \<^verbatim>\<open>partial_function (option)\<close>, whose results are proved to exist for
  trees that the parser builds. The only bound that is a constant of the model is one of the code, the
  300 rounds of waiting in \<^verbatim>\<open>DevmgrServiceStartHostProcess\<close>. No fuel is used.

  \<^bold>\<open>Theories, in the order of their dependencies.\<close>

    \<^item> \<^verbatim>\<open>Hdf_Base\<close>: prelude. Word types, C strings, status codes, byte order, collections
      of hints (\<^verbatim>\<open>hdf_defs\<close>, \<^verbatim>\<open>hdf_inv\<close>).
    \<^item> \<^verbatim>\<open>Kv_Store\<close> and \<^verbatim>\<open>Hdf_Map\<close>: the hash map (utils/src/hdf_map.c). Buckets are lists of nodes. The
      locale \<^verbatim>\<open>kv_store\<close> states the interface; the interpretation \<^verbatim>\<open>map_store\<close> discharges it, and
      gives the refinement of finite maps for all runs of insertions and deletions.
    \<^item> \<^verbatim>\<open>Sbuf_Channel\<close>, \<^verbatim>\<open>Hdf_Sbuf_Raw\<close>, \<^verbatim>\<open>Hdf_Sbuf\<close>: serialisation buffers (utils/src/hdf_sbuf_impl_raw.c,
      hdf_sbuf.c, core/shared/src/service_status.c). Positions are 32-bit words. The locale
      \<^verbatim>\<open>sbuf_channel\<close> says that what was put is got in order; it is interpreted for the raw buffer and
      for buffer objects. Also the treatment of untrusted bytes.
    \<^item> \<^verbatim>\<open>Hdf_Cstring\<close>, \<^verbatim>\<open>Hdf_Slist\<close>: hash keys and string copies (utils/src/hdf_cstring.c); the linked
      list on a memory of next pointers (utils/src/hdf_slist.c), equivalent to operations on lists
      of addresses, which the later theories use.
    \<^item> \<^verbatim>\<open>Task_Queue\<close>: the task queue (utils/src/hdf_task_queue.c) as step relations of callers, any
      number of workers (a caller that sees the run flag clear starts one) and the destroyer, with the
      memory of the queue as part of the state and a measure that bounds every execution.
    \<^item> \<^verbatim>\<open>Power_State\<close>: strong references, power tokens, requests to the power manager
      (utils/src/hdf_sref.c, core/host/src/power_state_token.c, hdf_power_manager.c). The locale
      \<^verbatim>\<open>sref_user\<close> is the contract between a reference and its listener. Concurrent acquisitions
      are a step relation.
    \<^item> \<^verbatim>\<open>Hcs_Blob\<close>, \<^verbatim>\<open>Hcs_Tree_Gen\<close>, \<^verbatim>\<open>Hcs_Tree_If\<close>: the byte code of the configuration
      (utils/include/hcs_blob_if.h, utils/src/hcs_parser). A configuration is a tree of items; \<^verbatim>\<open>enc_item\<close> is its
      byte code, \<^verbatim>\<open>tree_repr\<close> says that a tree memory represents it. The parser is proved to
      build such a memory and the queries to return what the items say.
    \<^item> \<^verbatim>\<open>Dev_Svc_Manager\<close>, \<^verbatim>\<open>Service_Events\<close>, \<^verbatim>\<open>Dev_Svc_Run\<close>, \<^verbatim>\<open>Dev_Svc_Clnt\<close>: the service registry, the holders of
      listeners, the events on the wire and the client (core/manager/src/devsvc_manager.c,
      devsvc_manager_ext.c, servstat_listener_holder.c, core/shared/src/ioserstat_listener.c,
      svcmgr_ioservice.c, core/host/src/devsvc_manager_clnt.c). Runs of requests are safe, refine a finite
      map of names when keys do not collide, and keep the view of each listener exact.
    \<^item> \<^verbatim>\<open>Service_Observer\<close>: publication and subscription inside a host
      (core/host/src/hdf_service_observer.c and its records and subscribers).
    \<^item> \<^verbatim>\<open>Core_State\<close>: the objects that manager and hosts share (nodes, devices, hosts, tokens, clients,
      drivers) in one record \<^verbatim>\<open>hdf_core\<close>, addressed by numbers; device identifiers
      (core/host/include/hdf_device.h); the driver manager and loader.
    \<^item> \<^verbatim>\<open>Device_Node\<close>, \<^verbatim>\<open>Devhost_Service\<close>, \<^verbatim>\<open>Devmgr_Service\<close>: the operations of nodes and device objects, of
      hosts and of the device manager, as the functions of the files hdf_device_node.c,
      hdf_device_node_ext.c, hdf_device.c, hdf_device_object.c, devhost_service.c, devmgr_service.c,
      devhost_service_clnt.c, device_token_clnt.c, hdf_driver_installer.c and devmgr_service_start.c.
    \<^item> \<^verbatim>\<open>Hdf_Attribute\<close>: host and device lists of a configuration (core/common/src/hdf_attribute.c).
    \<^item> \<^verbatim>\<open>Service_Registry\<close>: the locale \<^verbatim>\<open>service_registry\<close>, the laws by which nodes rely on the service
      manager, interpreted as \<^verbatim>\<open>devsvc\<close> on the kernel's manager.
    \<^item> \<^verbatim>\<open>Node_Contracts\<close>: what each node operation changes and keeps, proved from the laws.
    \<^item> \<^verbatim>\<open>Registry_Safety\<close>: the step relation \<^verbatim>\<open>framework_step\<close> of all requests to the framework and the invariant
      that the registry refers only to live, published nodes.
    \<^item> \<^verbatim>\<open>Host_Refinement\<close>: a host refines a set of device identifiers. \<^verbatim>\<open>Host_Success\<close>: when nothing fails,
      which includes a registry that accepts every service (the locale \<^verbatim>\<open>willing_registry\<close>, interpreted as
      \<^verbatim>\<open>devsvc_willing\<close>), adding a device succeeds. \<^verbatim>\<open>Registry_Dangling\<close>: the update of a service by the node
      of a host that is not published, and the removal of its device.
    \<^item> \<^verbatim>\<open>Host_Config\<close>, \<^verbatim>\<open>Host_Start\<close>: the lists as functions of the configuration items, and the start of a
      host from its configuration, which puts parser, lists, host and registry together.
    \<^item> \<^verbatim>\<open>Power_Order\<close>, \<^verbatim>\<open>Device_Ids\<close>: the order in which the drivers are called on a power change, as it
      stands in the log of driver calls \<^verbatim>\<open>c_calls\<close>; dynamic identifiers and the
      registration of the drivers at start-up.

  \<^bold>\<open>What the theorems show.\<close> Limits of a theorem (sizes, memory, restricted
  requests) stand in the text before it. Refinements: the map, the token, the parser, the registry and the host
  implement a finite map, a counter, an item tree, a map of names and a set. Invariants over all
  interleavings or request sequences: registry and nodes agree, listeners see exactly the live
  services, the lists of holders are consistent. Round trips: buffers, messages, notifications.
  Configuration: the lists of hosts and devices, their types, order and identifiers, and the nodes
  that a started host has, all of the enabled ones when nothing fails. Errors: refused writes and failed allocations leave the state as it was, the
  task queue stops after a bounded number of steps, also when it is destroyed, and runs every task in
  order while it is not. A group of theorems
  shows where the code does not keep what it promises (names with equal keys, listeners replaced
  by a second registration, tasks lost on destruction, private services that leak, length fields that
  wrap, racing references, identifiers that collide, drivers hidden behind a bad entry, a registry
  entry that dangles after an update by an unpublished object).

  \<^bold>\<open>Assumptions.\<close> Driver functions return, and do not call back into the framework while they run; the
  mutexes of core and utils are available and their sections run to the end, except in \<^verbatim>\<open>Task_Queue\<close> and for the counter of
  \<^verbatim>\<open>Power_State\<close>, where interleavings are modelled; addresses of freed objects are not
  used again; log messages are not modelled.

  \<^bold>\<open>Not modelled.\<close> The adapters to the operating system (core/adapter: ioctl and device files), the
  I/O service objects and their dispatch, singleton bookkeeping and object tables
  (hdf_object_manager.c, devlite_object_config.c), the request dispatcher of devmgr_service_start.c, the
  macro configuration of small devices (hdf_attribute_macro.c, which is generated from a header
  that the build makes), the wrappers of threads, messages and allocation in utils that the
  core does not use, the platform and device-class frameworks (support, model), which rest on hardware
  back ends, the host tools (tools) and the tests.
\<close>

end
